(* ===== verification/XrtcPrelude.thy ===== *)
theory XrtcPrelude
  imports Main "HOL-Library.Word"
begin

text \<open>
  Shared vocabulary of the development: the names of the C types the server uses, the
  conversions between them, byte strings in the machine's (little-endian) order, decimal
  printing as \<^verbatim>\<open>std::to_string\<close> does it, and association-list heaps for the objects
  the code allocates with \<^verbatim>\<open>new\<close>.

  Integers of the source are mathematical integers here, with every narrowing conversion
  written out: \<open>c_int\<close> is the conversion to a 32-bit signed \<^verbatim>\<open>int\<close>, \<open>c_uint\<close> to
  \<^verbatim>\<open>unsigned int\<close> or \<^verbatim>\<open>uint32_t\<close>, and \<open>c_size\<close> to a 64-bit \<^verbatim>\<open>size_t\<close>.
\<close>

unbundle bit_operations_syntax

named_theorems c_conv \<open>conversions between C integer types that do not change the value\<close>
named_theorems heap_simps \<open>lookups in updated association-list heaps\<close>

section \<open>C integers\<close>

type_synonym byte = "8 word"
type_synonym bytes = "byte list"

definition c_int :: "int \<Rightarrow> int" where
  "c_int x = signed_take_bit 31 x"

definition c_uint :: "int \<Rightarrow> int" where
  "c_uint x = take_bit 32 x"

definition c_size :: "int \<Rightarrow> int" where
  "c_size x = take_bit 64 x"

lemma c_int_id [c_conv]: "- (2 ^ 31) \<le> x \<Longrightarrow> x < 2 ^ 31 \<Longrightarrow> c_int x = x"
  by (simp add: c_int_def signed_take_bit_int_eq_self_iff)

lemma c_uint_id [c_conv]: "0 \<le> x \<Longrightarrow> x < 2 ^ 32 \<Longrightarrow> c_uint x = x"
  by (simp add: c_uint_def take_bit_int_eq_self_iff)

lemma c_size_id [c_conv]: "0 \<le> x \<Longrightarrow> x < 2 ^ 64 \<Longrightarrow> c_size x = x"
  by (simp add: c_size_def take_bit_int_eq_self_iff)

lemma c_int_bounds: "- (2 ^ 31) \<le> c_int x" "c_int x < 2 ^ 31"
  using signed_take_bit_int_greater_eq_minus_exp [of 31 x]
    signed_take_bit_int_less_exp [of 31 x]
  by (simp_all add: c_int_def)

lemma c_uint_bounds: "0 \<le> c_uint x" "c_uint x < 2 ^ 32"
  using take_bit_int_less_exp [of 32 x] by (simp_all add: c_uint_def)

lemma c_size_bounds: "0 \<le> c_size x" "c_size x < 2 ^ 64"
  using take_bit_int_less_exp [of 64 x] by (simp_all add: c_size_def)

lemma c_size_nonneg_int: "0 \<le> x \<Longrightarrow> x < 2 ^ 31 \<Longrightarrow> c_size x = x"
  by (rule c_size_id) auto

lemma c_int_mod: "c_int x = (x + 2 ^ 31) mod 2 ^ 32 - 2 ^ 31"
  by (simp add: c_int_def signed_take_bit_eq_take_bit_shift take_bit_eq_mod)

lemma mod_sub_once: "m \<le> x \<Longrightarrow> x < 2 * m \<Longrightarrow> x mod m = x - (m :: int)"
  by (metis minus_mod_self2 mod_pos_pos_trivial diff_ge_0_iff_ge diff_less_eq mult_2)

lemma mod_add_once: "- m \<le> x \<Longrightarrow> x < 0 \<Longrightarrow> x mod m = x + (m :: int)"
  by (metis mod_add_self2 mod_pos_pos_trivial add.commute add_less_same_cancel2 le_add_same_cancel2
      neg_le_iff_le minus_le_iff diff_ge_0_iff_ge diff_minus_eq_add)

lemma c_int_wrap: "2 ^ 31 \<le> x \<Longrightarrow> x < 2 ^ 32 + 2 ^ 31 \<Longrightarrow> c_int x = x - 2 ^ 32"
  using mod_sub_once [of "2 ^ 32" "x + 2 ^ 31"] by (simp add: c_int_mod)

lemma c_size_neg: "- (2 ^ 63) \<le> x \<Longrightarrow> x < 0 \<Longrightarrow> c_size x = x + 2 ^ 64"
  using mod_add_once [of "2 ^ 64" x] by (simp add: c_size_def take_bit_eq_mod)

lemma c_int_add_left: "c_int (c_int x + k) = c_int (x + k)"
proof -
  have "(x + 2 ^ 31) mod 2 ^ 32 - 2 ^ 31 + k + 2 ^ 31 = (x + 2 ^ 31) mod 2 ^ 32 + (k :: int)"
    by simp
  then show ?thesis by (simp add: c_int_mod mod_simps algebra_simps)
qed

lemma c_int_diff_left: "c_int (c_int x - k) = c_int (x - k)"
  using c_int_add_left [of x "- k"] by simp

section \<open>Byte strings\<close>

text \<open>Two- and four-byte little-endian fields, as the packed structs of the wire hold them.\<close>

definition le16 :: "16 word \<Rightarrow> bytes" where
  "le16 w = [ucast w, ucast (drop_bit 8 w)]"

definition le32 :: "32 word \<Rightarrow> bytes" where
  "le32 w = [ucast w, ucast (drop_bit 8 w), ucast (drop_bit 16 w), ucast (drop_bit 24 w)]"

definition get_le16 :: "nat \<Rightarrow> bytes \<Rightarrow> 16 word" where
  "get_le16 i bs = ucast (bs ! i) OR push_bit 8 (ucast (bs ! (i + 1)))"

definition get_le32 :: "nat \<Rightarrow> bytes \<Rightarrow> 32 word" where
  "get_le32 i bs =
     ucast (bs ! i) OR push_bit 8 (ucast (bs ! (i + 1)))
     OR push_bit 16 (ucast (bs ! (i + 2))) OR push_bit 24 (ucast (bs ! (i + 3)))"

lemma length_le16 [simp]: "length (le16 w) = 2"
  by (simp add: le16_def)

lemma length_le32 [simp]: "length (le32 w) = 4"
  by (simp add: le32_def)

lemma join16: "ucast (ucast w :: byte) OR push_bit 8 (ucast (ucast (drop_bit 8 w) :: byte)) = (w :: 16 word)"
  by (rule bit_word_eqI) (auto simp: bit_simps)

lemma join32:
  "ucast (ucast w :: byte) OR push_bit 8 (ucast (ucast (drop_bit 8 w) :: byte))
   OR push_bit 16 (ucast (ucast (drop_bit 16 w) :: byte))
   OR push_bit 24 (ucast (ucast (drop_bit 24 w) :: byte)) = (w :: 32 word)"
proof (rule bit_word_eqI)
  fix n assume "n < LENGTH(32)"
  then consider "n < 8" | "8 \<le> n" "n < 16" | "16 \<le> n" "n < 24" | "24 \<le> n" "n < 32"
    by fastforce
  then show "bit (ucast (ucast w :: byte) OR push_bit 8 (ucast (ucast (drop_bit 8 w) :: byte))
    OR push_bit 16 (ucast (ucast (drop_bit 16 w) :: byte))
    OR push_bit 24 (ucast (ucast (drop_bit 24 w) :: byte)) :: 32 word) n = bit w n"
    by cases (simp_all add: bit_simps, auto)
qed

lemma get_le16_at: "length xs = i \<Longrightarrow> get_le16 i (xs @ le16 w @ ys) = w"
  by (simp add: get_le16_def le16_def nth_append join16)

lemma get_le32_at: "length xs = i \<Longrightarrow> get_le32 i (xs @ le32 w @ ys) = w"
  by (simp add: get_le32_def le32_def nth_append join32)

lemma byte_bit_high: "8 \<le> n \<Longrightarrow> \<not> bit (b :: byte) n"
  by (auto dest: bit_imp_le_length)

lemma split16:
  "le16 (ucast b0 OR push_bit 8 (ucast b1)) = [b0, b1 :: byte]"
  by (auto simp: le16_def bit_simps byte_bit_high intro!: bit_word_eqI)

lemma split32:
  "le32 (ucast b0 OR push_bit 8 (ucast b1) OR push_bit 16 (ucast b2) OR push_bit 24 (ucast b3)) =
     [b0, b1, b2, b3 :: byte]"
  by (auto simp: le32_def bit_simps byte_bit_high intro!: bit_word_eqI)

lemma take_drop_nths: "i + 1 < length b \<Longrightarrow> take 2 (drop i b) = [b ! i, b ! (i + 1)]"
  by (simp add: numeral_2_eq_2 take_Suc_conv_app_nth)

lemma take_drop_nths4:
  "i + 3 < length b \<Longrightarrow> take 4 (drop i b) = [b ! i, b ! (i + 1), b ! (i + 2), b ! (i + 3)]"
  by (simp add: eval_nat_numeral take_Suc_conv_app_nth)

lemma le16_get: "i + 1 < length b \<Longrightarrow> le16 (get_le16 i b) = take 2 (drop i b)"
  by (simp only: get_le16_def split16 take_drop_nths)

lemma le32_get: "i + 3 < length b \<Longrightarrow> le32 (get_le32 i b) = take 4 (drop i b)"
  by (simp only: get_le32_def split32 take_drop_nths4)

lemma get_le16_prefix: "i + 2 \<le> length xs \<Longrightarrow> get_le16 i (xs @ ys) = get_le16 i xs"
  by (simp add: get_le16_def nth_append)

lemma get_le32_prefix: "i + 4 \<le> length xs \<Longrightarrow> get_le32 i (xs @ ys) = get_le32 i xs"
  by (simp add: get_le32_def nth_append)

lemma get_le32_take: "i + 4 \<le> n \<Longrightarrow> n \<le> length xs \<Longrightarrow> get_le32 i (take n xs) = get_le32 i xs"
  by (simp add: get_le32_def)

text \<open>The bytes of a C++ string and back.\<close>

definition bytes_of :: "string \<Rightarrow> bytes" where
  "bytes_of s = map of_char s"

definition string_of_bytes :: "bytes \<Rightarrow> string" where
  "string_of_bytes bs = map (\<lambda>b. char_of (unat b)) bs"

lemma length_bytes_of [simp]: "length (bytes_of s) = length s"
  by (simp add: bytes_of_def)

lemma of_char_unat: "char_of (unat (of_char c :: byte)) = c"
proof -
  have "unat (of_char c :: byte) = of_char c mod 256"
    using unat_of_nat [of "of_char c :: nat", where ?'a = 8] by (simp add: of_nat_of_char)
  then show ?thesis by simp
qed

section \<open>Decimal printing\<close>

fun digits_of :: "nat \<Rightarrow> string" where
  "digits_of n = (if n < 10 then [char_of (48 + n)]
                  else digits_of (n div 10) @ [char_of (48 + n mod 10)])"

declare digits_of.simps [simp del]

definition to_string :: "int \<Rightarrow> string" where
  "to_string i = (if i < 0 then CHR ''-'' # digits_of (nat (- i)) else digits_of (nat i))"

fun value_of_digits :: "nat \<Rightarrow> string \<Rightarrow> nat" where
  "value_of_digits acc [] = acc"
| "value_of_digits acc (c # cs) = value_of_digits (10 * acc + (of_char c - 48)) cs"

lemma value_of_digits_append:
  "value_of_digits acc (xs @ ys) = value_of_digits (value_of_digits acc xs) ys"
  by (induction xs arbitrary: acc) auto

lemma value_of_digits_of: "value_of_digits 0 (digits_of n) = n"
proof (induction n rule: digits_of.induct)
  case (1 n)
  show ?case
  proof (cases "n < 10")
    case True
    then show ?thesis by (subst digits_of.simps) simp
  next
    case False
    with 1 have "value_of_digits 0 (digits_of (n div 10)) = n div 10" by simp
    with False show ?thesis
      by (subst digits_of.simps) (simp add: value_of_digits_append)
  qed
qed

lemma digits_of_nonempty [simp]: "digits_of n \<noteq> []"
  by (subst digits_of.simps) simp

lemma digits_of_inj: "digits_of m = digits_of n \<Longrightarrow> m = n"
  by (metis value_of_digits_of)

section \<open>Objects on the heap\<close>

text \<open>
  A heap is a finite association list from addresses to objects; a pointer is an address or
  null. \<open>deref\<close> is the only way to read an object, so using a null or freed pointer is
  visible as \<open>None\<close>.
\<close>

type_synonym addr = nat
type_synonym ptr = "addr option"
type_synonym 'o heap = "(addr \<times> 'o) list"

definition deref :: "'o heap \<Rightarrow> ptr \<Rightarrow> 'o option" where
  "deref h p = (case p of None \<Rightarrow> None | Some a \<Rightarrow> map_of h a)"

definition live :: "'o heap \<Rightarrow> addr set" where
  "live h = fst ` set h"

definition store :: "addr \<Rightarrow> 'o \<Rightarrow> 'o heap \<Rightarrow> 'o heap" where
  "store a v h = (a, v) # filter (\<lambda>kv. fst kv \<noteq> a) h"

definition release :: "addr \<Rightarrow> 'o heap \<Rightarrow> 'o heap" where
  "release a h = filter (\<lambda>kv. fst kv \<noteq> a) h"

lemma deref_None [heap_simps]: "deref h None = None"
  by (simp add: deref_def)

lemma map_of_release: "map_of (release a h) = (map_of h)(a := None)"
  by (induction h) (auto simp: release_def)

lemma deref_release [heap_simps]:
  "deref (release a h) (Some b) = (if b = a then None else deref h (Some b))"
  by (simp add: deref_def map_of_release)

lemma deref_store [heap_simps]:
  "deref (store a v h) (Some b) = (if b = a then Some v else deref h (Some b))"
  using map_of_release [of a h] by (simp add: deref_def store_def release_def)

lemma live_store [heap_simps]: "live (store a v h) = insert a (live h)"
  by (auto simp: live_def store_def)

lemma live_release [heap_simps]: "live (release a h) = live h - {a}"
  by (auto simp: live_def release_def)

lemma deref_live: "deref h (Some a) = Some v \<Longrightarrow> a \<in> live h"
  by (auto simp: deref_def live_def dest: map_of_SomeD intro: rev_image_eqI)

lemma live_deref: "a \<in> live h \<Longrightarrow> \<exists>v. deref h (Some a) = Some v"
  by (simp add: deref_def live_def)
    (metis domD dom_map_of_conv_image_fst)

lemma deref_fresh: "a \<notin> live h \<Longrightarrow> deref h (Some a) = None"
  by (metis deref_live not_Some_eq)

lemma length_release_less: "a \<in> live h \<Longrightarrow> length (release a h) < length h"
  unfolding release_def live_def by (auto intro: length_filter_less)

section \<open>Interfaces shared by the components\<close>

text \<open>An object that owns a thread: starting it works once, and a second start is refused.\<close>

locale startable =
  fixes start :: "'o \<Rightarrow> bool \<times> 'o"
    and running :: "'o \<Rightarrow> bool"
  assumes start_idle: "\<not> running x \<Longrightarrow> fst (start x) \<and> running (snd (start x))"
    and start_busy: "running x \<Longrightarrow> start x = (False, x)"
begin

lemma started_iff: "fst (start x) \<longleftrightarrow> \<not> running x"
  using start_idle [of x] start_busy [of x] by (cases "running x") simp_all

lemma start_running: "running (snd (start x))"
  using start_idle [of x] start_busy [of x] by (cases "running x") simp_all

lemma start_once: "start (snd (start x)) = (False, snd (start x))"
  by (rule start_busy [OF start_running])

end

text \<open>A transition system with an invariant.\<close>

locale invariant_system =
  fixes init :: "'s \<Rightarrow> bool"
    and step :: "'s \<Rightarrow> 's \<Rightarrow> bool"
    and inv :: "'s \<Rightarrow> bool"
  assumes start_holds: "init s \<Longrightarrow> inv s"
    and step_holds: "step s t \<Longrightarrow> inv s \<Longrightarrow> inv t"
begin

lemma steps_hold: "step\<^sup>*\<^sup>* s t \<Longrightarrow> inv s \<Longrightarrow> inv t"
  by (induction rule: rtranclp_induct) (auto intro: step_holds)

lemma always_holds: "init s \<Longrightarrow> step\<^sup>*\<^sup>* s t \<Longrightarrow> inv t"
  by (blast intro: start_holds steps_hold)

end

end
