(* ===== verification/LockFreeQueue.thy ===== *)
theory LockFreeQueue
  imports XrtcPrelude "HOL-Library.Monad_Syntax"
begin

text \<open>
  \<^verbatim>\<open>xrtc_server/src/base/lock_free_queue.h\<close>: the single-producer single-consumer queue that
  hands file descriptors to a signaling worker and messages to an RTC worker.

  The queue is a linked list of heap nodes with three pointers: the producer owns
  \<open>first\<close> (the oldest node not yet freed) and \<open>last\<close>, the consumer owns \<open>divider\<close> (the
  node before the oldest unread one). Every pointer use goes through \<open>deref\<close>, so reading a
  freed or null node is \<open>None\<close>. The theory has the sequential operations, the interface
  \<open>fifo\<close> they satisfy, and an interleaving of one producer and one consumer at the
  granularity of the shared-memory accesses of the two methods.
\<close>

section \<open>The interface of a queue\<close>

text \<open>
  What a client of one of the server's queues relies on. The first argument of \<open>enq\<close> is
  what the allocator chose; \<open>choice c q\<close> says that the choice is possible in \<open>q\<close>.
\<close>

datatype ('c, 'a) qop = Enq 'c 'a | Deq

fun run_ops :: "('c \<Rightarrow> 'a \<Rightarrow> 'q \<Rightarrow> 'q option) \<Rightarrow> ('q \<Rightarrow> ('q \<times> 'a option) option) \<Rightarrow>
    ('c, 'a) qop list \<Rightarrow> 'q \<Rightarrow> ('q \<times> 'a list) option" where
  "run_ops enq deq [] q = Some (q, [])"
| "run_ops enq deq (Enq c x # ops) q =
     do { q' \<leftarrow> enq c x q; run_ops enq deq ops q' }"
| "run_ops enq deq (Deq # ops) q =
     do { (q', r) \<leftarrow> deq q; (q'', rs) \<leftarrow> run_ops enq deq ops q';
          Some (q'', (case r of None \<Rightarrow> rs | Some x \<Rightarrow> x # rs)) }"

fun legal_ops :: "('c \<Rightarrow> 'a \<Rightarrow> 'q \<Rightarrow> 'q option) \<Rightarrow> ('q \<Rightarrow> ('q \<times> 'a option) option) \<Rightarrow>
    ('c \<Rightarrow> 'q \<Rightarrow> bool) \<Rightarrow> ('c, 'a) qop list \<Rightarrow> 'q \<Rightarrow> bool" where
  "legal_ops enq deq choice [] q = True"
| "legal_ops enq deq choice (Enq c x # ops) q =
     (choice c q \<and> (case enq c x q of None \<Rightarrow> True | Some q' \<Rightarrow> legal_ops enq deq choice ops q'))"
| "legal_ops enq deq choice (Deq # ops) q =
     (case deq q of None \<Rightarrow> True | Some (q', r) \<Rightarrow> legal_ops enq deq choice ops q')"

fun enqueued :: "('c, 'a) qop list \<Rightarrow> 'a list" where
  "enqueued [] = []"
| "enqueued (Enq c x # ops) = x # enqueued ops"
| "enqueued (Deq # ops) = enqueued ops"

locale fifo =
  fixes enq :: "'c \<Rightarrow> 'a \<Rightarrow> 'q \<Rightarrow> 'q option"
    and deq :: "'q \<Rightarrow> ('q \<times> 'a option) option"
    and contents :: "'q \<Rightarrow> 'a list"
    and invar :: "'q \<Rightarrow> bool"
    and choice :: "'c \<Rightarrow> 'q \<Rightarrow> bool"
  assumes enq_spec: "invar q \<Longrightarrow> choice c q \<Longrightarrow>
      \<exists>q'. enq c x q = Some q' \<and> invar q' \<and> contents q' = contents q @ [x]"
    and deq_empty: "invar q \<Longrightarrow> contents q = [] \<Longrightarrow> deq q = Some (q, None)"
    and deq_spec: "invar q \<Longrightarrow> contents q = x # xs \<Longrightarrow>
      \<exists>q'. deq q = Some (q', Some x) \<and> invar q' \<and> contents q' = xs"
begin

text \<open>
  Over any sequence of operations the values taken out followed by the values still queued
  are the values that were queued followed by the values put in: nothing is lost, copied or
  reordered, and no operation fails.
\<close>

lemma run_ops_fifo:
  assumes "invar q" and "legal_ops enq deq choice ops q"
  shows "\<exists>q' outs. run_ops enq deq ops q = Some (q', outs) \<and> invar q' \<and>
           outs @ contents q' = contents q @ enqueued ops"
  using assms
proof (induction ops arbitrary: q)
  case Nil
  then show ?case by simp
next
  case (Cons p ops)
  show ?case
  proof (cases p)
    case (Enq c x)
    with Cons.prems have "choice c q" by simp
    with Cons.prems(1) obtain q' where q': "enq c x q = Some q'" "invar q'"
        "contents q' = contents q @ [x]"
      using enq_spec [of q c x] by blast
    with Cons.prems Enq have "legal_ops enq deq choice ops q'" by simp
    with Cons.IH [of q'] q' Enq show ?thesis by fastforce
  next
    case Deq
    show ?thesis
    proof (cases "contents q")
      case Nil
      with Cons.prems(1) have d: "deq q = Some (q, None)" by (rule deq_empty)
      with Cons.prems Deq have "legal_ops enq deq choice ops q" by simp
      with Cons.IH [of q] Cons.prems(1) Deq d show ?thesis by auto
    next
      case (Cons x xs)
      then obtain q' where q': "deq q = Some (q', Some x)" "invar q'" "contents q' = xs"
        using deq_spec [of q x xs] Cons.prems(1) by blast
      with Cons.prems Deq have "legal_ops enq deq choice ops q'" by simp
      with Cons.IH [of q'] q' Deq Cons show ?thesis by auto
    qed
  qed
qed

lemma enq_then_deq:
  assumes "invar q" and "contents q = []" and "choice c q"
  shows "\<exists>q' q''. enq c x q = Some q' \<and> deq q' = Some (q'', Some x) \<and> contents q'' = []"
  using enq_spec [OF assms(1,3), of x] assms(2) deq_spec [of _ x "[]"] by fastforce

end

section \<open>The queue and its operations\<close>

record 'a node =
  node_value :: 'a
  node_next :: ptr

record 'a lfq =
  q_nodes :: "'a node heap"
  q_first :: ptr
  q_divider :: ptr
  q_last :: ptr
  q_size :: int

definition new_node :: "'a \<Rightarrow> 'a node" where
  "new_node v = \<lparr>node_value = v, node_next = None\<rparr>"

text \<open>The constructor: \<open>a\<close> is the address of the dummy node, \<open>dflt\<close> the value \<^verbatim>\<open>T()\<close>.\<close>

definition lfq_init :: "addr \<Rightarrow> 'a \<Rightarrow> 'a lfq" where
  "lfq_init a dflt = \<lparr>q_nodes = [(a, new_node dflt)], q_first = Some a, q_divider = Some a,
     q_last = Some a, q_size = 0\<rparr>"

text \<open>The statements of \<^verbatim>\<open>produce\<close>, one definition each; \<open>a\<close> is the address of the new node.\<close>

definition link_last :: "addr \<Rightarrow> 'a \<Rightarrow> 'a lfq \<Rightarrow> 'a lfq option" where
  "link_last a t q =
     (case q_last q of
        None \<Rightarrow> None
      | Some l \<Rightarrow> do { n \<leftarrow> deref (q_nodes q) (Some l);
          Some (q\<lparr>q_nodes := store l (n\<lparr>node_next := Some a\<rparr>) (store a (new_node t) (q_nodes q))\<rparr>) })"

definition advance_last :: "'a lfq \<Rightarrow> 'a lfq option" where
  "advance_last q = do { n \<leftarrow> deref (q_nodes q) (q_last q); Some (q\<lparr>q_last := node_next n\<rparr>) }"

definition incr_size :: "'a lfq \<Rightarrow> 'a lfq" where
  "incr_size q = q\<lparr>q_size := c_int (q_size q + 1)\<rparr>"

definition free_first :: "'a lfq \<Rightarrow> 'a lfq option" where
  "free_first q =
     (case q_first q of
        None \<Rightarrow> None
      | Some f \<Rightarrow> do { n \<leftarrow> deref (q_nodes q) (Some f);
          Some (q\<lparr>q_first := node_next n, q_nodes := release f (q_nodes q)\<rparr>) })"

lemma free_first_shrinks:
  "free_first q = Some q' \<Longrightarrow> length (q_nodes q') < length (q_nodes q)"
  by (auto simp: free_first_def split: option.splits bind_splits
      dest: deref_live intro!: length_release_less)

text \<open>The loop of \<^verbatim>\<open>produce\<close>: free nodes until \<open>first\<close> has caught up with \<open>divider\<close>.\<close>

function reclaim :: "'a lfq \<Rightarrow> 'a lfq option" where
  "reclaim q = (if q_divider q \<noteq> q_first q
     then (case free_first q of None \<Rightarrow> None | Some q' \<Rightarrow> reclaim q')
     else Some q)"
  by pat_completeness auto
termination
  by (relation "measure (\<lambda>q. length (q_nodes q))") (auto dest: free_first_shrinks)

declare reclaim.simps [simp del]

definition produce :: "addr \<Rightarrow> 'a \<Rightarrow> 'a lfq \<Rightarrow> 'a lfq option" where
  "produce a t q = do { q1 \<leftarrow> link_last a t q; q2 \<leftarrow> advance_last q1; reclaim (incr_size q2) }"

text \<open>The statements of \<^verbatim>\<open>consume\<close>.\<close>

definition read_next :: "'a lfq \<Rightarrow> 'a option" where
  "read_next q = do { d \<leftarrow> deref (q_nodes q) (q_divider q);
     n \<leftarrow> deref (q_nodes q) (node_next d); Some (node_value n) }"

definition advance_divider :: "'a lfq \<Rightarrow> 'a lfq option" where
  "advance_divider q = do { d \<leftarrow> deref (q_nodes q) (q_divider q);
     Some (q\<lparr>q_divider := node_next d\<rparr>) }"

definition decr_size :: "'a lfq \<Rightarrow> 'a lfq" where
  "decr_size q = q\<lparr>q_size := c_int (q_size q - 1)\<rparr>"

definition consume :: "'a lfq \<Rightarrow> ('a lfq \<times> 'a option) option" where
  "consume q = (if q_divider q \<noteq> q_last q
     then do { v \<leftarrow> read_next q; q1 \<leftarrow> advance_divider q; Some (decr_size q1, Some v) }
     else Some (q, None))"

definition lfq_empty :: "'a lfq \<Rightarrow> bool" where
  "lfq_empty q = (q_size q = 0)"

definition lfq_size :: "'a lfq \<Rightarrow> int" where
  "lfq_size q = q_size q"

text \<open>The destructor frees every node from \<open>first\<close> on.\<close>

function destroy :: "'a lfq \<Rightarrow> 'a lfq option" where
  "destroy q = (if q_first q \<noteq> None
     then (case free_first q of None \<Rightarrow> None | Some q' \<Rightarrow> destroy q')
     else Some (q\<lparr>q_size := 0\<rparr>))"
  by pat_completeness auto
termination
  by (relation "measure (\<lambda>q. length (q_nodes q))") (auto dest: free_first_shrinks)

declare destroy.simps [simp del]

section \<open>Paths through the nodes\<close>

fun path :: "'a node heap \<Rightarrow> ptr \<Rightarrow> addr list \<Rightarrow> ptr \<Rightarrow> bool" where
  "path h p [] r = (p = r)"
| "path h p (a # as) r = (p = Some a \<and>
     (case deref h (Some a) of None \<Rightarrow> False | Some n \<Rightarrow> path h (node_next n) as r))"

definition val_at :: "'a node heap \<Rightarrow> addr \<Rightarrow> 'a" where
  "val_at h a = (case deref h (Some a) of Some n \<Rightarrow> node_value n)"

lemma path_append: "path h p (as @ bs) r \<longleftrightarrow> (\<exists>m. path h p as m \<and> path h m bs r)"
  by (induction as arbitrary: p) (auto split: option.splits)

lemma path_store: "a \<notin> set as \<Longrightarrow> path (store a n h) p as r = path h p as r"
  by (induction as arbitrary: p) (auto simp: heap_simps split: option.splits)

lemma path_release: "a \<notin> set as \<Longrightarrow> path (release a h) p as r = path h p as r"
  by (induction as arbitrary: p) (auto simp: heap_simps split: option.splits)

lemma path_live: "path h p as r \<Longrightarrow> set as \<subseteq> live h"
  by (induction as arbitrary: p) (auto split: option.splits dest: deref_live)

lemma val_at_store: "val_at (store a n h) b = (if b = a then node_value n else val_at h b)"
  by (simp add: val_at_def heap_simps)

lemma val_at_release: "b \<noteq> a \<Longrightarrow> val_at (release a h) b = val_at h b"
  by (simp add: val_at_def heap_simps)

lemma vals_release: "a \<notin> set as \<Longrightarrow> map (val_at (release a h)) as = map (val_at h) as"
  by (induction as) (auto simp: val_at_release)

text \<open>Adding a node at the end of a path.\<close>

lemma path_snoc_link:
  assumes "path h p (as @ [l]) None" and "distinct (as @ [l])" and "a \<notin> set (as @ [l])"
    and "deref h (Some l) = Some n"
  shows "path (store l (n\<lparr>node_next := Some a\<rparr>) (store a (new_node t) h)) p (as @ [l, a]) None"
proof -
  from assms(1) obtain m where m: "path h p as m" "m = Some l"
    by (auto simp: path_append split: option.splits)
  with assms(2,3) have "path (store l (n\<lparr>node_next := Some a\<rparr>) (store a (new_node t) h)) p as m"
    by (simp add: path_store)
  with m assms(3) show ?thesis
    by (auto simp: path_append heap_simps new_node_def)
qed

section \<open>The shape of a queue\<close>

text \<open>
  The nodes from \<open>first\<close> on are the consumed ones (\<open>old\<close>), the divider node, the unread
  ones (\<open>new\<close>) and, while the producer is between its first two statements, the node it has
  linked but not yet published (\<open>ext\<close>). No other node is allocated.
\<close>

definition chain :: "'a lfq \<Rightarrow> addr list \<Rightarrow> addr \<Rightarrow> addr list \<Rightarrow> addr list \<Rightarrow> bool" where
  "chain q old d new ext \<longleftrightarrow>
     path (q_nodes q) (q_first q) (old @ d # new @ ext) None \<and>
     distinct (old @ d # new @ ext) \<and>
     live (q_nodes q) = set (old @ d # new @ ext) \<and>
     q_divider q = Some d \<and> q_last q = Some (last (d # new))"

abbreviation vals :: "'a lfq \<Rightarrow> addr list \<Rightarrow> 'a list" where
  "vals q as \<equiv> map (val_at (q_nodes q)) as"

lemma chain_init: "chain (lfq_init a dflt) [] a [] []"
  by (simp add: chain_def lfq_init_def new_node_def deref_def live_def)

lemma chain_first: "chain q old d new ext \<Longrightarrow> q_first q = Some (hd (old @ [d]))"
  by (cases old) (auto simp: chain_def)

lemma chain_caught_up: "chain q old d new ext \<Longrightarrow> q_divider q = q_first q \<longleftrightarrow> old = []"
  by (cases old) (auto simp: chain_def)

lemma chain_nothing_new: "chain q old d new ext \<Longrightarrow> q_divider q = q_last q \<longleftrightarrow> new = []"
  by (cases new rule: rev_cases) (auto simp: chain_def)

lemma chain_link_last:
  assumes c: "chain q old d new []" and a: "a \<notin> live (q_nodes q)"
  shows "\<exists>q'. link_last a t q = Some q' \<and> chain q' old d new [a] \<and> vals q' new = vals q new \<and>
           val_at (q_nodes q') a = t \<and> q_size q' = q_size q"
proof -
  obtain pre l where split: "old @ d # new = pre @ [l]" and l: "last (d # new) = l"
    by (metis append_butlast_last_id last_appendR list.distinct(1) append_is_Nil_conv)
  have p: "path (q_nodes q) (q_first q) (pre @ [l]) None" "distinct (pre @ [l])"
    and lq: "q_last q = Some l" and lv: "live (q_nodes q) = set (pre @ [l])"
    using c unfolding chain_def append_Nil2 split l by simp_all
  have a': "a \<notin> set (pre @ [l])" using a lv by simp
  obtain n where n: "deref (q_nodes q) (Some l) = Some n" using lv live_deref [of l] by auto
  define h where "h = store l (n\<lparr>node_next := Some a\<rparr>) (store a (new_node t) (q_nodes q))"
  have link: "link_last a t q = Some (q\<lparr>q_nodes := h\<rparr>)"
    using lq n by (simp add: link_last_def h_def)
  have "path h (q_first q) (pre @ [l, a]) None"
    using path_snoc_link [OF p a' n] by (simp add: h_def)
  moreover have "pre @ [l, a] = old @ d # new @ [a]" using split
    by (metis append.assoc append_Cons append_Nil)
  moreover have "distinct ((pre @ [l]) @ [a])" "live h = set ((pre @ [l]) @ [a])"
    using p(2) a' lv by (auto simp: h_def heap_simps)
  then have "distinct (old @ d # new @ [a])" "live h = set (old @ d # new @ [a])"
    unfolding split [symmetric] by simp_all
  ultimately have "chain (q\<lparr>q_nodes := h\<rparr>) old d new [a]"
    using c by (simp add: chain_def)
  moreover have "vals (q\<lparr>q_nodes := h\<rparr>) new = vals q new"
    using a' n split [symmetric] by (auto simp: h_def val_at_def heap_simps)
  moreover have "val_at h a = t" using a' by (simp add: h_def val_at_store new_node_def)
  ultimately show ?thesis using link by simp
qed

lemma chain_advance_last:
  assumes "chain q old d new [a]"
  shows "advance_last q = Some (q\<lparr>q_last := Some a\<rparr>)"
    and "chain (q\<lparr>q_last := Some a\<rparr>) old d (new @ [a]) []"
proof -
  obtain pre l where split: "d # new = pre @ [l]" and l: "last (d # new) = l"
    by (metis append_butlast_last_id list.distinct(1))
  have "path (q_nodes q) (q_first q) (old @ pre @ [l] @ [a]) None"
    using assms split by (simp add: chain_def) (metis append_Cons append.assoc append_Nil)
  then show "advance_last q = Some (q\<lparr>q_last := Some a\<rparr>)"
    using assms l by (auto simp: advance_last_def chain_def path_append split: option.splits)
  show "chain (q\<lparr>q_last := Some a\<rparr>) old d (new @ [a]) []"
    using assms by (simp add: chain_def)
qed

lemma chain_free_first:
  assumes "chain q (o1 # old) d new ext"
  shows "\<exists>q'. free_first q = Some q' \<and> chain q' old d new ext \<and> vals q' (new @ ext) = vals q (new @ ext) \<and>
           q_size q' = q_size q"
proof -
  from assms obtain n where n: "deref (q_nodes q) (Some o1) = Some n" "q_first q = Some o1"
    by (auto simp: chain_def split: option.splits)
  define q' where "q' = q\<lparr>q_first := node_next n, q_nodes := release o1 (q_nodes q)\<rparr>"
  have "free_first q = Some q'" using n by (simp add: free_first_def q'_def)
  moreover have "chain q' old d new ext"
    using assms n by (auto simp: chain_def q'_def heap_simps path_release)
  moreover have "vals q' (new @ ext) = vals q (new @ ext)"
    using assms vals_release [of o1 "new @ ext"] by (simp add: chain_def q'_def)
  ultimately show ?thesis by (simp add: q'_def)
qed

lemma chain_size [simp]:
  "chain (q\<lparr>q_size := n\<rparr>) old d new ext = chain q old d new ext"
  by (simp add: chain_def)

lemma chain_consumer:
  assumes "chain q old d (n # new) ext"
  shows "read_next q = Some (val_at (q_nodes q) n)"
    and "advance_divider q = Some (q\<lparr>q_divider := Some n\<rparr>)"
    and "chain (q\<lparr>q_divider := Some n\<rparr>) (old @ [d]) n new ext"
  using assms
  by (auto simp: chain_def read_next_def advance_divider_def val_at_def path_append
      split: option.splits)

section \<open>Sequential correctness\<close>

text \<open>The unread values, read off the heap by following the links from the divider.\<close>

function values_from :: "'a node heap \<Rightarrow> ptr \<Rightarrow> 'a list" where
  "values_from h p = (case p of None \<Rightarrow> [] | Some a \<Rightarrow>
     (case deref h (Some a) of None \<Rightarrow> []
      | Some n \<Rightarrow> node_value n # values_from (release a h) (node_next n)))"
  by pat_completeness auto
termination
  by (relation "measure (\<lambda>(h, p). length h)") (auto dest: deref_live intro!: length_release_less)

declare values_from.simps [simp del]

definition lfq_contents :: "'a lfq \<Rightarrow> 'a list" where
  "lfq_contents q = (case deref (q_nodes q) (q_divider q) of None \<Rightarrow> []
     | Some n \<Rightarrow> values_from (q_nodes q) (node_next n))"

definition lfq_inv :: "'a lfq \<Rightarrow> bool" where
  "lfq_inv q \<longleftrightarrow> (\<exists>old d new. chain q old d new [] \<and> q_size q = c_int (int (length new)))"

lemma lfq_invI: "chain q old d new [] \<Longrightarrow> q_size q = c_int (int (length new)) \<Longrightarrow> lfq_inv q"
  by (auto simp: lfq_inv_def)

lemma values_from_path:
  "path h p as None \<Longrightarrow> distinct as \<Longrightarrow> values_from h p = map (val_at h) as"
proof (induction as arbitrary: h p)
  case Nil
  then show ?case by (simp add: values_from.simps)
next
  case (Cons a as)
  then obtain n where n: "p = Some a" "deref h (Some a) = Some n" "path h (node_next n) as None"
    by (auto split: option.splits)
  with Cons have "values_from (release a h) (node_next n) = map (val_at (release a h)) as"
    by (simp add: path_release)
  also have "\<dots> = map (val_at h) as"
    using Cons.prems(2) by (simp add: vals_release)
  finally show ?case
    using n by (subst values_from.simps) (simp add: val_at_def [of h a])
qed

lemma chain_contents: "chain q old d new [] \<Longrightarrow> lfq_contents q = vals q new"
  by (auto simp: chain_def lfq_contents_def path_append split: option.splits
      intro!: values_from_path)

lemma reclaim_chain:
  assumes "chain q old d new []"
  shows "\<exists>q'. reclaim q = Some q' \<and> chain q' [] d new [] \<and> vals q' new = vals q new \<and>
           q_size q' = q_size q"
  using assms
proof (induction old arbitrary: q)
  case Nil
  then show ?case using chain_caught_up [OF Nil] by (simp add: reclaim.simps [of q])
next
  case (Cons o1 old)
  then obtain q' where q': "free_first q = Some q'" "chain q' old d new []"
      "vals q' new = vals q new" "q_size q' = q_size q"
    using chain_free_first [OF Cons.prems] by auto
  with Cons.IH [OF q'(2)] show ?case
    using chain_caught_up [OF Cons.prems] by (auto simp: reclaim.simps [of q])
qed


lemma produce_chain:
  assumes "chain q old d new []" and "a \<notin> live (q_nodes q)"
  shows "\<exists>q'. produce a t q = Some q' \<and> chain q' [] d (new @ [a]) [] \<and>
           vals q' (new @ [a]) = vals q new @ [t] \<and> q_size q' = c_int (q_size q + 1)"
proof -
  obtain q1 where q1: "link_last a t q = Some q1" "chain q1 old d new [a]"
      "vals q1 new = vals q new" "val_at (q_nodes q1) a = t" "q_size q1 = q_size q"
    using chain_link_last [OF assms, of t] by blast
  let ?q2 = "incr_size (q1\<lparr>q_last := Some a\<rparr>)"
  have "chain ?q2 old d (new @ [a]) []"
    using chain_advance_last(2) [OF q1(2)] by (simp add: incr_size_def)
  then obtain q3 where "reclaim ?q2 = Some q3" "chain q3 [] d (new @ [a]) []"
      "vals q3 (new @ [a]) = vals ?q2 (new @ [a])" "q_size q3 = q_size ?q2"
    using reclaim_chain by blast
  with q1 chain_advance_last(1) [OF q1(2)] show ?thesis
    by (simp add: produce_def incr_size_def)
qed

lemma consume_chain:
  assumes "chain q old d (n # new) []"
  shows "\<exists>q'. consume q = Some (q', Some (val_at (q_nodes q) n)) \<and> chain q' (old @ [d]) n new [] \<and>
           vals q' new = vals q new \<and> q_size q' = c_int (q_size q - 1)"
  using chain_consumer [OF assms] chain_nothing_new [OF assms]
  by (simp add: consume_def decr_size_def)

interpretation lfq: fifo produce consume lfq_contents lfq_inv "\<lambda>a q. a \<notin> live (q_nodes q)"
proof unfold_locales
  fix q :: "'a lfq" and a :: addr and t :: 'a
  assume "lfq_inv q" and a: "a \<notin> live (q_nodes q)"
  then obtain old d new where c: "chain q old d new []" and s: "q_size q = c_int (int (length new))"
    by (auto simp: lfq_inv_def)
  from produce_chain [OF c a, of t] obtain q' where q': "produce a t q = Some q'"
      "chain q' [] d (new @ [a]) []" "vals q' (new @ [a]) = vals q new @ [t]"
      "q_size q' = c_int (q_size q + 1)"
    by blast
  have "q_size q' = c_int (int (length (new @ [a])))"
    using q'(4) s c_int_add_left [of "int (length new)" 1] by (simp add: ac_simps)
  with q' have "lfq_inv q'" by (intro lfq_invI)
  moreover have "lfq_contents q' = lfq_contents q @ [t]"
    using chain_contents [OF q'(2)] chain_contents [OF c] q'(3) by simp
  ultimately show "\<exists>q'. produce a t q = Some q' \<and> lfq_inv q' \<and> lfq_contents q' = lfq_contents q @ [t]"
    using q'(1) by blast
next
  fix q :: "'a lfq"
  assume "lfq_inv q" and "lfq_contents q = []"
  then show "consume q = Some (q, None)"
    by (auto simp: lfq_inv_def chain_contents chain_nothing_new consume_def)
next
  fix q :: "'a lfq" and x xs
  assume "lfq_inv q" and cx: "lfq_contents q = x # xs"
  then obtain old d new where c: "chain q old d new []" and s: "q_size q = c_int (int (length new))"
    by (auto simp: lfq_inv_def)
  with cx obtain n new' where new: "new = n # new'" "val_at (q_nodes q) n = x" "vals q new' = xs"
    by (auto simp: chain_contents)
  with c consume_chain [of q old d n new'] obtain q' where
      "consume q = Some (q', Some x)" "chain q' (old @ [d]) n new' []" "vals q' new' = xs"
      "q_size q' = c_int (q_size q - 1)"
    by blast
  moreover from this s new(1) have "lfq_inv q'"
    by (intro lfq_invI) (auto simp: c_int_diff_left)
  ultimately show "\<exists>q'. consume q = Some (q', Some x) \<and> lfq_inv q' \<and> lfq_contents q' = xs"
    by (auto simp: chain_contents)
qed

lemma lfq_init_inv: "lfq_inv (lfq_init a dflt)" and lfq_init_contents: "lfq_contents (lfq_init a dflt) = []"
  using lfq_invI [OF chain_init] chain_contents [OF chain_init, of a dflt]
  by (simp_all add: c_int_def) (simp add: lfq_init_def)

lemma produce_reclaims:
  assumes "lfq_inv q" and "a \<notin> live (q_nodes q)" and "produce a t q = Some q'"
  shows "card (live (q_nodes q')) = length (lfq_contents q') + 1"
proof -
  from assms(1) obtain old d new where c: "chain q old d new []" by (auto simp: lfq_inv_def)
  with produce_chain [OF c assms(2), of t] assms(3) have c': "chain q' [] d (new @ [a]) []" by auto
  have "live (q_nodes q') = set (d # new @ [a])" "distinct (d # new @ [a])"
    using c' by (simp_all add: chain_def)
  then have "card (live (q_nodes q')) = length (d # new @ [a])" by (simp only: distinct_card)
  with chain_contents [OF c'] show ?thesis by simp
qed

lemma destroy_chain:
  assumes "path (q_nodes q) (q_first q) as None" and "distinct as" and "live (q_nodes q) = set as"
  shows "\<exists>q'. destroy q = Some q' \<and> q_nodes q' = [] \<and> q_size q' = 0"
  using assms
proof (induction as arbitrary: q)
  case Nil
  then show ?case by (auto simp: destroy.simps [of q] live_def)
next
  case (Cons a as)
  then obtain n where n: "deref (q_nodes q) (Some a) = Some n" "q_first q = Some a"
    by (auto split: option.splits)
  let ?q' = "q\<lparr>q_first := node_next n, q_nodes := release a (q_nodes q)\<rparr>"
  have f: "free_first q = Some ?q'" using n by (simp add: free_first_def)
  have "\<exists>q'. destroy ?q' = Some q' \<and> q_nodes q' = [] \<and> q_size q' = 0"
    using Cons.prems n by (intro Cons.IH) (auto simp: path_release heap_simps)
  then show ?case using f n by (auto simp: destroy.simps [of q])
qed

section \<open>One producer and one consumer, interleaved\<close>

text \<open>
  Each thread is at one of the points between the accesses its method makes to memory the
  other thread uses. \<open>producer_step\<close> and \<open>consumer_step\<close> execute the next access; \<open>None\<close>
  is the use of a freed or null node. Accesses are taken to be atomic and in program order,
  as the comment at the head of the class says of its pointers. \<open>lc_in\<close> records the values
  in the order the producer publishes them and \<open>lc_out\<close> the values in the order the consumer
  takes them.
\<close>

datatype 'a ppoint = P_idle | P_linked 'a | P_published | P_testing | P_freeing

datatype 'a cpoint = C_idle | C_nonempty | C_read 'a | C_taken 'a

record 'a lconf =
  lc_q :: "'a lfq"
  lc_p :: "'a ppoint"
  lc_c :: "'a cpoint"
  lc_in :: "'a list"
  lc_out :: "'a list"

definition producer_step :: "addr \<Rightarrow> 'a \<Rightarrow> 'a lconf \<Rightarrow> 'a lconf option" where
  "producer_step a t s = (case lc_p s of
     P_idle \<Rightarrow> do { q \<leftarrow> link_last a t (lc_q s); Some (s\<lparr>lc_q := q, lc_p := P_linked t\<rparr>) }
   | P_linked v \<Rightarrow> do { q \<leftarrow> advance_last (lc_q s);
       Some (s\<lparr>lc_q := q, lc_p := P_published, lc_in := lc_in s @ [v]\<rparr>) }
   | P_published \<Rightarrow> Some (s\<lparr>lc_q := incr_size (lc_q s), lc_p := P_testing\<rparr>)
   | P_testing \<Rightarrow> Some (s\<lparr>lc_p := (if q_divider (lc_q s) \<noteq> q_first (lc_q s) then P_freeing else P_idle)\<rparr>)
   | P_freeing \<Rightarrow> do { q \<leftarrow> free_first (lc_q s); Some (s\<lparr>lc_q := q, lc_p := P_testing\<rparr>) })"

definition consumer_step :: "'a lconf \<Rightarrow> 'a lconf option" where
  "consumer_step s = (case lc_c s of
     C_idle \<Rightarrow> Some (s\<lparr>lc_c := (if q_divider (lc_q s) \<noteq> q_last (lc_q s) then C_nonempty else C_idle)\<rparr>)
   | C_nonempty \<Rightarrow> do { v \<leftarrow> read_next (lc_q s); Some (s\<lparr>lc_c := C_read v\<rparr>) }
   | C_read v \<Rightarrow> do { q \<leftarrow> advance_divider (lc_q s);
       Some (s\<lparr>lc_q := q, lc_c := C_taken v, lc_out := lc_out s @ [v]\<rparr>) }
   | C_taken v \<Rightarrow> Some (s\<lparr>lc_q := decr_size (lc_q s), lc_c := C_idle\<rparr>))"

definition lconf_init :: "addr \<Rightarrow> 'a \<Rightarrow> 'a lconf" where
  "lconf_init a dflt = \<lparr>lc_q = lfq_init a dflt, lc_p = P_idle, lc_c = C_idle, lc_in = [], lc_out = []\<rparr>"

inductive spsc_reachable :: "'a lconf \<Rightarrow> bool" where
  start: "spsc_reachable (lconf_init a dflt)"
| producer: "spsc_reachable s \<Longrightarrow> a \<notin> live (q_nodes (lc_q s)) \<Longrightarrow> producer_step a t s = Some s' \<Longrightarrow>
    spsc_reachable s'"
| consumer: "spsc_reachable s \<Longrightarrow> consumer_step s = Some s' \<Longrightarrow> spsc_reachable s'"

text \<open>
  The invariant: where the threads are determines which of the four parts of the chain are
  occupied, and how far the counter is from the number of unread values.
\<close>

definition spsc_view :: "'a lconf \<Rightarrow> 'a list \<Rightarrow> bool" where
  "spsc_view s vs \<longleftrightarrow> lc_in s = lc_out s @ vs \<and>
     (case lc_c s of C_nonempty \<Rightarrow> vs \<noteq> [] | C_read v \<Rightarrow> vs \<noteq> [] \<and> hd vs = v | _ \<Rightarrow> True) \<and>
     q_size (lc_q s) = c_int (int (length vs)
       - (if lc_p s = P_published then 1 else 0) + (case lc_c s of C_taken v \<Rightarrow> 1 | _ \<Rightarrow> 0))"

definition spsc_shape :: "'a lconf \<Rightarrow> addr list \<Rightarrow> addr \<Rightarrow> addr list \<Rightarrow> addr list \<Rightarrow> bool" where
  "spsc_shape s old d new ext \<longleftrightarrow> chain (lc_q s) old d new ext \<and>
     (case lc_p s of P_linked v \<Rightarrow> length ext = 1 \<and> vals (lc_q s) ext = [v] | _ \<Rightarrow> ext = []) \<and>
     (lc_p s = P_freeing \<longrightarrow> old \<noteq> []) \<and> spsc_view s (vals (lc_q s) new)"

definition spsc_inv :: "'a lconf \<Rightarrow> bool" where
  "spsc_inv s \<longleftrightarrow> (\<exists>old d new ext. spsc_shape s old d new ext)"

lemma spsc_inv_init: "spsc_inv (lconf_init a dflt)"
proof -
  have "spsc_shape (lconf_init a dflt) [] a [] []"
    by (simp add: spsc_shape_def spsc_view_def lconf_init_def chain_init)
      (simp add: lfq_init_def c_int_def)
  then show ?thesis by (auto simp: spsc_inv_def)
qed

lemma producer_step_shape:
  assumes s: "spsc_shape s old d new ext" and a: "a \<notin> live (q_nodes (lc_q s))"
  shows "\<exists>s' old' new' ext'. producer_step a t s = Some s' \<and> spsc_shape s' old' d new' ext'"
proof (cases "lc_p s")
  case P_idle
  with s have "chain (lc_q s) old d new []" by (auto simp: spsc_shape_def)
  from chain_link_last [OF this a, of t] obtain q' where q': "link_last a t (lc_q s) = Some q'"
      "chain q' old d new [a]" "vals q' new = vals (lc_q s) new" "val_at (q_nodes q') a = t"
      "q_size q' = q_size (lc_q s)"
    by blast
  have "spsc_shape (s\<lparr>lc_q := q', lc_p := P_linked t\<rparr>) old d new [a]"
    using s q' P_idle by (simp add: spsc_shape_def spsc_view_def del: map_eq_conv)
  with q'(1) P_idle show ?thesis by (fastforce simp: producer_step_def)
next
  case (P_linked v)
  with s obtain x where x: "ext = [x]" "val_at (q_nodes (lc_q s)) x = v"
    by (auto simp: spsc_shape_def length_Suc_conv)
  with s have "chain (lc_q s) old d new [x]" by (simp add: spsc_shape_def)
  from chain_advance_last [OF this] P_linked s x
  have "\<exists>s'. producer_step a t s = Some s' \<and> spsc_shape s' old d (new @ [x]) []"
    by (auto simp: producer_step_def spsc_shape_def spsc_view_def split: cpoint.splits)
  then show ?thesis by blast
next
  case P_published
  then have e: "ext = []" using s by (auto simp: spsc_shape_def)
  define k where "k = (case lc_c s of C_taken v \<Rightarrow> 1 | _ \<Rightarrow> (0 :: int))"
  have "q_size (lc_q s) = c_int (int (length new) - 1 + k)"
    using s P_published by (simp add: spsc_shape_def spsc_view_def k_def)
  then have "c_int (q_size (lc_q s) + 1) = c_int (int (length new) + k)"
    by (simp add: c_int_add_left)
  then have "spsc_shape (s\<lparr>lc_q := incr_size (lc_q s), lc_p := P_testing\<rparr>) old d new []"
    using s e P_published by (simp add: spsc_shape_def spsc_view_def incr_size_def k_def)
  with P_published show ?thesis by (fastforce simp: producer_step_def)
next
  case P_testing
  with s have c: "chain (lc_q s) old d new []" by (auto simp: spsc_shape_def)
  from P_testing s chain_caught_up [OF c]
  have "\<exists>s'. producer_step a t s = Some s' \<and> spsc_shape s' old d new []"
    by (auto simp: producer_step_def spsc_shape_def spsc_view_def split: cpoint.splits)
  then show ?thesis by blast
next
  case P_freeing
  with s obtain o1 old' where old: "old = o1 # old'" and c: "chain (lc_q s) (o1 # old') d new []"
    by (cases old) (auto simp: spsc_shape_def)
  from chain_free_first [OF c] obtain q' where q': "free_first (lc_q s) = Some q'"
      "chain q' old' d new []" "vals q' new = vals (lc_q s) new" "q_size q' = q_size (lc_q s)"
    by auto
  have "spsc_shape (s\<lparr>lc_q := q', lc_p := P_testing\<rparr>) old' d new []"
    using s q' P_freeing by (simp add: spsc_shape_def spsc_view_def del: map_eq_conv)
  with q'(1) P_freeing show ?thesis by (fastforce simp: producer_step_def)
qed

lemma consumer_step_shape:
  assumes s: "spsc_shape s old d new ext"
  shows "\<exists>s' old' d' new'. consumer_step s = Some s' \<and> spsc_shape s' old' d' new' ext"
proof (cases "lc_c s")
  case C_idle
  with s chain_nothing_new [of "lc_q s" old d new ext]
  have "\<exists>s'. consumer_step s = Some s' \<and> spsc_shape s' old d new ext"
    by (auto simp: consumer_step_def spsc_shape_def spsc_view_def split: ppoint.splits)
  then show ?thesis by blast
next
  case C_nonempty
  with s obtain n new' where new: "new = n # new'" "chain (lc_q s) old d (n # new') ext"
    by (cases new) (auto simp: spsc_shape_def spsc_view_def)
  from chain_consumer(1) [OF new(2)] C_nonempty s new(1)
  have "\<exists>s'. consumer_step s = Some s' \<and> spsc_shape s' old d new ext"
    by (auto simp: consumer_step_def spsc_shape_def spsc_view_def split: ppoint.splits)
  then show ?thesis by blast
next
  case (C_read v)
  with s obtain n new' where new: "new = n # new'" "chain (lc_q s) old d (n # new') ext"
    by (cases new) (auto simp: spsc_shape_def spsc_view_def)
  let ?s' = "s\<lparr>lc_q := lc_q s\<lparr>q_divider := Some n\<rparr>, lc_c := C_taken v, lc_out := lc_out s @ [v]\<rparr>"
  have "spsc_shape ?s' (old @ [d]) n new' ext"
    using s new(1) C_read chain_consumer(3) [OF new(2)]
    by (simp add: spsc_shape_def spsc_view_def add.commute split: ppoint.splits)
  with chain_consumer(2) [OF new(2)] C_read show ?thesis by (fastforce simp: consumer_step_def)
next
  case (C_taken v)
  with s have "\<exists>s'. consumer_step s = Some s' \<and> spsc_shape s' old d new ext"
    by (auto simp: consumer_step_def spsc_shape_def spsc_view_def decr_size_def c_int_diff_left
        algebra_simps split: ppoint.splits)
  then show ?thesis by blast
qed

lemma spsc_reachable_inv: "spsc_reachable s \<Longrightarrow> spsc_inv s"
proof (induction rule: spsc_reachable.induct)
  case (start a dflt)
  show ?case by (rule spsc_inv_init)
next
  case (producer s a t s')
  then show ?case using producer_step_shape [of s _ _ _ _ a t] by (fastforce simp: spsc_inv_def)
next
  case (consumer s s')
  then show ?case using consumer_step_shape [of s] by (fastforce simp: spsc_inv_def)
qed

lemma spsc_reachable_shape:
  assumes "spsc_reachable s"
  obtains old d new ext where "spsc_shape s old d new ext"
  using spsc_reachable_inv [OF assms] by (auto simp: spsc_inv_def)

section \<open>Properties of the queue\<close>

text \<open>
  Whatever sequence of \<^verbatim>\<open>produce\<close> and \<^verbatim>\<open>consume\<close> calls is made on a new queue, with the
  allocator returning any unused address each time, no call uses a freed or null node, and
  the values consumed followed by the values still queued are exactly the values produced,
  in order.
\<close>

lemma lfq_runs_are_fifo:
  assumes "legal_ops produce consume (\<lambda>a q. a \<notin> live (q_nodes q)) ops (lfq_init a0 dflt)"
  shows "\<exists>q' outs. run_ops produce consume ops (lfq_init a0 dflt) = Some (q', outs) \<and>
           outs @ lfq_contents q' = enqueued ops"
  using lfq.run_ops_fifo [OF lfq_init_inv assms] by (auto simp: lfq_init_contents)

text \<open>
  C7. With one producer thread and one consumer thread interleaved in any way at their
  accesses to shared memory, neither thread ever follows a null pointer or a pointer to a
  freed node: the node the consumer reads is never one the producer has deleted.
\<close>

theorem spsc_no_dangling_access:
  assumes "spsc_reachable s" and "a \<notin> live (q_nodes (lc_q s))"
  shows "producer_step a t s \<noteq> None \<and> consumer_step s \<noteq> None"
proof -
  from assms(1) obtain old d new ext where "spsc_shape s old d new ext"
    by (rule spsc_reachable_shape)
  with producer_step_shape [OF this assms(2), of t] consumer_step_shape [OF this]
  show ?thesis by auto
qed

theorem spsc_no_dangling_access_witness:
  "spsc_reachable (lconf_init 0 (7 :: nat)) \<and> 1 \<notin> live (q_nodes (lc_q (lconf_init 0 (7 :: nat)))) \<and>
   producer_step 1 8 (lconf_init 0 (7 :: nat)) \<noteq> None \<and> consumer_step (lconf_init 0 (7 :: nat)) \<noteq> None"
proof -
  have r: "spsc_reachable (lconf_init 0 (7 :: nat))" by (rule spsc_reachable.start)
  have f: "1 \<notin> live (q_nodes (lc_q (lconf_init 0 (7 :: nat))))"
    by (simp add: lconf_init_def lfq_init_def live_def)
  show ?thesis using spsc_no_dangling_access [OF r f, of 8] r f by simp
qed

text \<open>
  C8. In every reachable state of the two threads the values the consumer has taken are a
  prefix of the values the producer has published, and between calls the rest is exactly the
  content of the queue and \<^verbatim>\<open>size()\<close> is its length (as an \<^verbatim>\<open>int\<close>).
\<close>

theorem spsc_in_order:
  assumes "spsc_reachable s"
  shows "(\<exists>vs. lc_in s = lc_out s @ vs) \<and>
    (lc_p s = P_idle \<longrightarrow> lc_c s = C_idle \<longrightarrow>
       lc_in s = lc_out s @ lfq_contents (lc_q s) \<and>
       lfq_size (lc_q s) = c_int (int (length (lfq_contents (lc_q s)))))"
proof -
  from assms obtain old d new ext where sh: "spsc_shape s old d new ext"
    by (rule spsc_reachable_shape)
  have "lc_p s = P_idle \<Longrightarrow> lfq_contents (lc_q s) = vals (lc_q s) new"
    using sh by (auto simp: spsc_shape_def intro: chain_contents)
  then show ?thesis using sh by (auto simp: spsc_shape_def spsc_view_def lfq_size_def)
qed

theorem spsc_in_order_witness:
  "spsc_reachable (lconf_init 0 (7 :: nat)) \<and>
   lc_in (lconf_init 0 (7 :: nat)) =
     lc_out (lconf_init 0 7) @ lfq_contents (lc_q (lconf_init 0 (7 :: nat))) \<and>
   lfq_size (lc_q (lconf_init 0 (7 :: nat))) = 0"
proof -
  have r: "spsc_reachable (lconf_init 0 (7 :: nat))" by (rule spsc_reachable.start)
  show ?thesis using spsc_in_order [OF r] r
    by (simp add: lconf_init_def lfq_init_contents c_int_def)
qed

text \<open>
  The counter is updated after the pointers, in both methods, so it can disagree with the
  queue while a call is in progress: here the consumer has taken the value before the
  producer has counted it.
\<close>

definition spsc_early_take :: "nat lconf option" where
  "spsc_early_take = do {
     s1 \<leftarrow> producer_step 1 5 (lconf_init 0 0); s2 \<leftarrow> producer_step 2 5 s1;
     s3 \<leftarrow> consumer_step s2; s4 \<leftarrow> consumer_step s3; s5 \<leftarrow> consumer_step s4; consumer_step s5 }"

lemma spsc_early_take_reachable: "spsc_early_take = Some s \<Longrightarrow> spsc_reachable s"
proof -
  assume e: "spsc_early_take = Some s"
  obtain s1 s2 s3 s4 s5 where st: "producer_step 1 5 (lconf_init 0 0) = Some s1"
      "producer_step 2 5 s1 = Some s2" "consumer_step s2 = Some s3" "consumer_step s3 = Some s4"
      "consumer_step s4 = Some s5" "consumer_step s5 = Some s"
    using e by (auto simp: spsc_early_take_def split: bind_splits)
  have "1 \<notin> live (q_nodes (lc_q (lconf_init 0 (0 :: nat))))"
    by (simp add: lconf_init_def lfq_init_def live_def)
  then have r1: "spsc_reachable s1"
    using st(1) by (rule spsc_reachable.producer [OF spsc_reachable.start])
  have "live (q_nodes (lc_q s1)) = {0, 1}"
    using st(1) by (simp add: producer_step_def lconf_init_def link_last_def lfq_init_def deref_def)
      (auto simp: store_def live_def)
  then have "2 \<notin> live (q_nodes (lc_q s1))" by simp
  then have "spsc_reachable s2" using st(2) by (rule spsc_reachable.producer [OF r1])
  then have "spsc_reachable s3" using st(3) by (rule spsc_reachable.consumer)
  then have "spsc_reachable s4" using st(4) by (rule spsc_reachable.consumer)
  then have "spsc_reachable s5" using st(5) by (rule spsc_reachable.consumer)
  then show ?thesis using st(6) by (rule spsc_reachable.consumer)
qed

text \<open>
  \<^verbatim>\<open>size()\<close> is not always a size: there is a reachable state of the two threads in which
  it returns -1 (and in which \<^verbatim>\<open>empty()\<close> is false although nothing is queued).
\<close>

lemma lfq_size_can_be_negative:
  "\<exists>s :: nat lconf. spsc_reachable s \<and> lfq_size (lc_q s) = - 1 \<and> \<not> lfq_empty (lc_q s) \<and>
     lc_in s = lc_out s"
proof -
  obtain s where s: "spsc_early_take = Some s" and p: "lfq_size (lc_q s) = - 1"
      "\<not> lfq_empty (lc_q s)" "lc_in s = lc_out s"
    by (simp add: spsc_early_take_def producer_step_def consumer_step_def lconf_init_def lfq_init_def
        link_last_def advance_last_def read_next_def advance_divider_def decr_size_def new_node_def
        deref_def store_def lfq_size_def lfq_empty_def c_int_def)
  then show ?thesis using spsc_early_take_reachable [OF s] by blast
qed

text \<open>
  Memory: after every \<^verbatim>\<open>produce\<close> the queue holds exactly one node more than it has
  unread values (the consumed nodes have been deleted), and the destructor deletes every node
  of a queue in any state between calls without touching a node twice.
\<close>

lemma lfq_frees_nodes:
  assumes "lfq_inv q" and "a \<notin> live (q_nodes q)"
  shows "(\<exists>q'. produce a t q = Some q' \<and> card (live (q_nodes q')) = length (lfq_contents q') + 1) \<and>
    (\<exists>q'. destroy q = Some q' \<and> q_nodes q' = [] \<and> lfq_size q' = 0)"
proof -
  obtain q' where "produce a t q = Some q'" using lfq.enq_spec [OF assms, of t] by blast
  moreover obtain old d new where "chain q old d new []" using assms(1) by (auto simp: lfq_inv_def)
  then have "\<exists>q'. destroy q = Some q' \<and> q_nodes q' = [] \<and> q_size q' = 0"
    unfolding chain_def by (blast intro: destroy_chain)
  ultimately show ?thesis using produce_reclaims [OF assms] by (auto simp: lfq_size_def)
qed

end
