(* ===== verification/Sds.thy ===== *)
theory Sds
  imports XrtcPrelude "HOL-Library.Monad_Syntax"
begin

text \<open>
  \<^verbatim>\<open>rtc_base/sds.h\<close> and \<^verbatim>\<open>rtc_base/sds.cc\<close>: the dynamic strings that hold the bytes a
  connection has read. A string is its header (\<open>len\<close> and \<open>free\<close>, both \<^verbatim>\<open>int\<close>) and its
  buffer, a list of cells in which \<open>None\<close> is memory the allocator has not initialised. A
  write outside the buffer is \<open>None\<close> at the level of the operation. The build defines
  \<^verbatim>\<open>NDEBUG\<close>, so the two assertions of \<^verbatim>\<open>sdsIncrLen\<close> do nothing. An allocation that fails ends
  the process (the default handler of \<^verbatim>\<open>zmalloc\<close> calls \<^verbatim>\<open>abort\<close>) and is not a state here.
\<close>

section \<open>The strings\<close>

record sds =
  sds_len :: int
  sds_free :: int
  sds_buf :: "byte option list"

definition SDS_MAX_PREALLOC :: int where
  "SDS_MAX_PREALLOC = 1024 * 1024"

definition sdslen :: "sds \<Rightarrow> int" where
  "sdslen s = c_size (sds_len s)"

definition sdsavail :: "sds \<Rightarrow> int" where
  "sdsavail s = c_size (sds_free s)"

text \<open>\<open>init = None\<close> is the null pointer: the new string is zero-filled.\<close>

definition sdsnewlen :: "bytes option \<Rightarrow> nat \<Rightarrow> sds" where
  "sdsnewlen init initlen = \<lparr>sds_len = c_int (int initlen), sds_free = 0,
     sds_buf = (case init of Some bs \<Rightarrow> map Some (take initlen bs) | None \<Rightarrow> replicate initlen (Some 0))
       @ [Some 0]\<rparr>"

definition sdsempty :: sds where
  "sdsempty = sdsnewlen (Some []) 0"

definition sdsclear :: "sds \<Rightarrow> sds" where
  "sdsclear s = s\<lparr>sds_free := c_int (sds_free s + sds_len s), sds_len := 0,
     sds_buf := (sds_buf s)[0 := Some 0]\<rparr>"

text \<open>What \<^verbatim>\<open>zrealloc\<close> does to a buffer: the common prefix is kept, new cells are arbitrary.\<close>

definition resize_buf :: "nat \<Rightarrow> byte option list \<Rightarrow> byte option list" where
  "resize_buf n b = take n b @ replicate (n - length b) None"

definition room_for :: "int \<Rightarrow> int \<Rightarrow> int" where
  "room_for len addlen =
     (let newlen = c_size (len + addlen)
      in if newlen < SDS_MAX_PREALLOC then c_size (newlen * 2) else c_size (newlen + SDS_MAX_PREALLOC))"

definition sdsMakeRoomFor :: "sds \<Rightarrow> int \<Rightarrow> sds" where
  "sdsMakeRoomFor s addlen =
     (if sdsavail s \<ge> addlen then s
      else let len = sdslen s; newlen = room_for len addlen
        in s\<lparr>sds_free := c_int (newlen - len),
             sds_buf := resize_buf (nat newlen + 1) (sds_buf s)\<rparr>)"

definition sdsRemoveFreeSpace :: "sds \<Rightarrow> sds" where
  "sdsRemoveFreeSpace s = s\<lparr>sds_free := 0, sds_buf := resize_buf (nat (sdslen s) + 1) (sds_buf s)\<rparr>"

definition sdsAllocSize :: "sds \<Rightarrow> int" where
  "sdsAllocSize s = c_size (8 + sds_len s + sds_free s + 1)"

text \<open>Writing bytes at an offset of the buffer, as \<^verbatim>\<open>memcpy\<close> or \<^verbatim>\<open>read\<close> do.\<close>

definition write_at :: "nat \<Rightarrow> bytes \<Rightarrow> sds \<Rightarrow> sds option" where
  "write_at off bs s = (if off + length bs \<le> length (sds_buf s)
     then Some (s\<lparr>sds_buf := take off (sds_buf s) @ map Some bs @ drop (off + length bs) (sds_buf s)\<rparr>)
     else None)"

definition sdsIncrLen :: "sds \<Rightarrow> int \<Rightarrow> sds option" where
  "sdsIncrLen s incr =
     (let l = c_int (sds_len s + incr)
      in if 0 \<le> l \<and> nat l < length (sds_buf s)
         then Some (s\<lparr>sds_len := l, sds_free := c_int (sds_free s - incr),
           sds_buf := (sds_buf s)[nat l := Some 0]\<rparr>)
         else None)"

definition sdscatlen :: "sds \<Rightarrow> bytes \<Rightarrow> sds option" where
  "sdscatlen s t =
     (let curlen = sdslen s; len = int (length t); s1 = sdsMakeRoomFor s len
      in do { s2 \<leftarrow> write_at (nat curlen) t s1;
              write_at (nat (curlen + len)) [0]
                (s2\<lparr>sds_len := c_int (curlen + len), sds_free := c_int (sds_free s2 - len)\<rparr>) })"

definition sdscpylen :: "sds \<Rightarrow> bytes \<Rightarrow> sds option" where
  "sdscpylen s t =
     (let len = int (length t); totlen = c_size (sds_free s + sds_len s);
          s1 = (if totlen < len then sdsMakeRoomFor s (c_size (len - sds_len s)) else s);
          totlen1 = (if totlen < len then c_size (sds_free s1 + sds_len s1) else totlen)
      in do { s2 \<leftarrow> write_at 0 t s1; s3 \<leftarrow> write_at (length t) [0] s2;
              Some (s3\<lparr>sds_len := c_int len, sds_free := c_int (totlen1 - len)\<rparr>) })"

definition sdsgrowzero :: "sds \<Rightarrow> int \<Rightarrow> sds option" where
  "sdsgrowzero s len =
     (let curlen = c_size (sds_len s)
      in if len \<le> curlen then Some s
         else let s1 = sdsMakeRoomFor s (c_size (len - curlen))
           in do { s2 \<leftarrow> write_at (nat curlen) (replicate (nat (len - curlen + 1)) 0) s1;
                   Some (s2\<lparr>sds_len := c_int len,
                     sds_free := c_int (c_size (sds_len s1 + sds_free s1) - c_int len)\<rparr>) })"

section \<open>Well-formed strings\<close>

definition sds_ok :: "sds \<Rightarrow> bool" where
  "sds_ok s \<longleftrightarrow> 0 \<le> sds_len s \<and> 0 \<le> sds_free s \<and> sds_len s + sds_free s < 2 ^ 31 \<and>
     length (sds_buf s) = nat (sds_len s + sds_free s) + 1 \<and>
     sds_buf s ! nat (sds_len s) = Some 0 \<and>
     None \<notin> set (take (nat (sds_len s)) (sds_buf s))"

definition sds_bytes :: "sds \<Rightarrow> bytes" where
  "sds_bytes s = map the (take (nat (sds_len s)) (sds_buf s))"

lemma sds_ok_lens [c_conv]:
  assumes "sds_ok s"
  shows "sdslen s = sds_len s" "sdsavail s = sds_free s"
  using assms by (auto simp: sds_ok_def sdslen_def sdsavail_def intro!: c_size_nonneg_int)

lemma sds_ok_length: "sds_ok s \<Longrightarrow> length (sds_bytes s) = nat (sds_len s)"
  by (auto simp: sds_ok_def sds_bytes_def)

lemma sdsempty_ok: "sds_ok sdsempty" and sdsempty_bytes: "sds_bytes sdsempty = []"
  by (simp_all add: sdsempty_def sdsnewlen_def sds_ok_def sds_bytes_def c_int_def)

lemma sdsnewlen_ok:
  assumes "n < 2 ^ 31" and "length bs \<ge> n"
  shows "sds_ok (sdsnewlen (Some bs) n)" "sds_bytes (sdsnewlen (Some bs) n) = take n bs"
  using assms by (auto simp: sdsnewlen_def sds_ok_def sds_bytes_def c_int_id nth_append min_def)

lemma sdsclear_ok: "sds_ok s \<Longrightarrow> sds_ok (sdsclear s)" and sdsclear_bytes: "sds_bytes (sdsclear s) = []"
  by (auto simp: sds_ok_def sdsclear_def sds_bytes_def c_int_id add.commute)

lemma take_resize: "n \<le> length b \<Longrightarrow> n \<le> m \<Longrightarrow> take n (resize_buf m b) = take n b"
  by (simp add: resize_buf_def)

lemma nth_resize: "n < length b \<Longrightarrow> n < m \<Longrightarrow> resize_buf m b ! n = b ! n"
  by (simp add: resize_buf_def nth_append)

lemma length_resize [simp]: "length (resize_buf n b) = n"
  by (simp add: resize_buf_def)

lemma room_for_bounds:
  assumes "0 \<le> len" "0 \<le> addlen" "len + addlen < 2 ^ 31 - SDS_MAX_PREALLOC"
  shows "len + addlen \<le> room_for len addlen" "room_for len addlen < 2 ^ 31"
  using assms by (auto simp: room_for_def Let_def SDS_MAX_PREALLOC_def c_size_id)

text \<open>
  As long as the new size fits in an \<^verbatim>\<open>int\<close> with the preallocated megabyte, making room keeps
  the string and leaves at least the requested space free.
\<close>

lemma sdsMakeRoomFor_ok:
  assumes ok: "sds_ok s" and "0 \<le> n" and "sds_len s + n < 2 ^ 31 - SDS_MAX_PREALLOC"
  shows "sds_ok (sdsMakeRoomFor s n)" "sds_bytes (sdsMakeRoomFor s n) = sds_bytes s"
    "sds_len (sdsMakeRoomFor s n) = sds_len s" "n \<le> sds_free (sdsMakeRoomFor s n)"
proof -
  let ?m = "room_for (sds_len s) n"
  have m: "sds_len s + n \<le> ?m" "?m < 2 ^ 31"
    using room_for_bounds [of "sds_len s" n] assms by (simp_all add: sds_ok_def)
  have "c_int (?m - sds_len s) = ?m - sds_len s"
    using m ok \<open>0 \<le> n\<close> by (intro c_int_id) (auto simp: sds_ok_def)
  then have eq: "sdsMakeRoomFor s n = (if n \<le> sds_free s then s
      else s\<lparr>sds_free := ?m - sds_len s, sds_buf := resize_buf (nat ?m + 1) (sds_buf s)\<rparr>)"
    using ok by (simp add: sdsMakeRoomFor_def Let_def sds_ok_lens)
  have pre: "nat (sds_len s) < length (sds_buf s)" "nat (sds_len s) < nat ?m + 1"
    using m ok \<open>0 \<le> n\<close> by (auto simp: sds_ok_def)
  show "sds_ok (sdsMakeRoomFor s n)"
    using ok m pre \<open>0 \<le> n\<close> unfolding eq
    by (auto simp: sds_ok_def take_resize nth_resize)
  show "sds_bytes (sdsMakeRoomFor s n) = sds_bytes s"
    unfolding eq sds_bytes_def using pre by (simp add: take_resize)
  show "sds_len (sdsMakeRoomFor s n) = sds_len s" "n \<le> sds_free (sdsMakeRoomFor s n)"
    unfolding eq using m by auto
qed

text \<open>Writing after the end and then counting the bytes appends them.\<close>

lemma sds_append_ok:
  assumes ok: "sds_ok s" and fits: "int (length bs) \<le> sds_free s"
  shows "\<exists>s1 s2. write_at (nat (sds_len s)) bs s = Some s1 \<and> sdsIncrLen s1 (int (length bs)) = Some s2 \<and>
           sds_ok s2 \<and> sds_bytes s2 = sds_bytes s @ bs \<and>
           sds_len s2 = sds_len s + int (length bs) \<and> sds_free s2 = sds_free s - int (length bs)"
proof -
  let ?l = "nat (sds_len s)" and ?n = "length bs"
  define b1 where "b1 = take ?l (sds_buf s) @ map Some bs @ drop (?l + ?n) (sds_buf s)"
  have len: "length (sds_buf s) = ?l + nat (sds_free s) + 1" "0 \<le> sds_len s" "0 \<le> sds_free s"
      "sds_len s + sds_free s < 2 ^ 31"
    using ok by (auto simp: sds_ok_def nat_add_distrib)
  have w: "write_at ?l bs s = Some (s\<lparr>sds_buf := b1\<rparr>)"
    using len fits by (simp add: write_at_def b1_def)
  have b1: "length b1 = length (sds_buf s)" "take (?l + ?n) b1 = take ?l (sds_buf s) @ map Some bs"
    using len fits by (auto simp: b1_def)
  define s2 where "s2 = s\<lparr>sds_len := sds_len s + int ?n, sds_free := sds_free s - int ?n,
    sds_buf := b1[?l + ?n := Some 0]\<rparr>"
  have "sdsIncrLen (s\<lparr>sds_buf := b1\<rparr>) (int ?n) = Some s2"
    using len fits b1(1) by (simp add: sdsIncrLen_def Let_def c_int_id s2_def nat_add_distrib)
  moreover have "sds_ok s2"
    using ok len fits b1 by (auto simp: sds_ok_def s2_def nat_add_distrib)
  moreover have "sds_bytes s2 = sds_bytes s @ bs"
    using len b1 by (simp add: sds_bytes_def s2_def nat_add_distrib comp_def)
  ultimately show ?thesis using w by (auto simp: s2_def)
qed

lemma sdscatlen_eq:
  assumes ok: "sds_ok s" and room: "sds_len s + int (length t) < 2 ^ 31 - SDS_MAX_PREALLOC"
  shows "sdscatlen s t = do { s2 \<leftarrow> write_at (nat (sds_len s)) t (sdsMakeRoomFor s (int (length t)));
           sdsIncrLen s2 (int (length t)) }"
proof -
  let ?s1 = "sdsMakeRoomFor s (int (length t))"
  have mr: "sds_ok ?s1" "sds_len ?s1 = sds_len s" "int (length t) \<le> sds_free ?s1"
    using sdsMakeRoomFor_ok [OF ok _ room] by simp_all
  from sds_append_ok [OF mr(1,3)] obtain s2 s3 where w: "write_at (nat (sds_len s)) t ?s1 = Some s2"
      and i: "sdsIncrLen s2 (int (length t)) = Some s3"
    using mr(2) by auto
  have s2: "sds_len s2 = sds_len s" "sds_free s2 = sds_free ?s1"
    using w mr(2) by (auto simp: write_at_def split: if_splits)
  have "0 \<le> sds_len s" "sds_len s + int (length t) < 2 ^ 31"
    using ok room by (auto simp: sds_ok_def SDS_MAX_PREALLOC_def)
  then show ?thesis
    using ok w i s2
    by (auto simp: sdscatlen_def Let_def sds_ok_lens sdsIncrLen_def write_at_def c_int_id
        upd_conv_take_nth_drop split: if_splits)
qed

section \<open>Properties of the strings\<close>

text \<open>
  The receive protocol of the string library: making room for \<open>n\<close> bytes, letting at most
  \<open>n\<close> bytes be written after the end, and counting them with \<^verbatim>\<open>sdsIncrLen\<close> appends exactly
  those bytes, never writes outside the buffer and leaves a well-formed string, provided the
  length fits in an \<^verbatim>\<open>int\<close> together with the preallocated megabyte.
\<close>

lemma sds_receive_appends:
  assumes "sds_ok s" and "length bs \<le> n" and "sds_len s + int n < 2 ^ 31 - SDS_MAX_PREALLOC"
  shows "\<exists>s1 s2. write_at (nat (sdslen s)) bs (sdsMakeRoomFor s (int n)) = Some s1 \<and>
    sdsIncrLen s1 (int (length bs)) = Some s2 \<and> sds_ok s2 \<and> sds_bytes s2 = sds_bytes s @ bs"
proof -
  have mr: "sds_ok (sdsMakeRoomFor s (int n))" "sds_bytes (sdsMakeRoomFor s (int n)) = sds_bytes s"
      "sds_len (sdsMakeRoomFor s (int n)) = sds_len s" "int n \<le> sds_free (sdsMakeRoomFor s (int n))"
    using sdsMakeRoomFor_ok [OF assms(1) _ assms(3)] by simp_all
  have "int (length bs) \<le> sds_free (sdsMakeRoomFor s (int n))" using mr(4) assms(2) by simp
  from sds_append_ok [OF mr(1) this] mr assms(1) show ?thesis
    by (auto simp: sds_ok_lens)
qed

text \<open>
  \<^verbatim>\<open>sdscatlen\<close> concatenates: under the same bound it returns a well-formed string whose
  bytes are the old ones followed by the argument.
\<close>

lemma sdscatlen_concatenates:
  assumes "sds_ok s" and "sds_len s + int (length t) < 2 ^ 31 - SDS_MAX_PREALLOC"
  shows "\<exists>s'. sdscatlen s t = Some s' \<and> sds_ok s' \<and> sds_bytes s' = sds_bytes s @ t"
proof -
  have mr: "sds_ok (sdsMakeRoomFor s (int (length t)))"
      "sds_bytes (sdsMakeRoomFor s (int (length t))) = sds_bytes s"
      "sds_len (sdsMakeRoomFor s (int (length t))) = sds_len s"
      "int (length t) \<le> sds_free (sdsMakeRoomFor s (int (length t)))"
    using sdsMakeRoomFor_ok [OF assms(1) _ assms(2)] by simp_all
  from sds_append_ok [OF mr(1,4)] mr show ?thesis
    by (auto simp: sdscatlen_eq [OF assms])
qed

text \<open>
  The bound is needed: a request for room close to the largest \<^verbatim>\<open>int\<close> (which a header may
  announce) makes the new size overflow the \<open>free\<close> field, which then is negative and is read
  by \<^verbatim>\<open>sdsavail\<close> as a huge amount of free space.
\<close>

lemma sdsMakeRoomFor_overflow:
  assumes "sds_ok s" and "2 ^ 31 - SDS_MAX_PREALLOC \<le> n" and "n < 2 ^ 31" and "sds_free s < n"
  shows "sds_free (sdsMakeRoomFor s n) < 0 \<and> sdsavail (sdsMakeRoomFor s n) \<ge> 2 ^ 63 \<and>
    \<not> sds_ok (sdsMakeRoomFor s n)"
proof -
  let ?l = "sds_len s"
  have l: "0 \<le> ?l" "?l < 2 ^ 31" using assms(1) by (auto simp: sds_ok_def)
  have r: "room_for ?l n = ?l + n + SDS_MAX_PREALLOC"
    using l assms(2,3) by (simp add: room_for_def Let_def SDS_MAX_PREALLOC_def c_size_id)
  have "c_int (n + SDS_MAX_PREALLOC) = n + SDS_MAX_PREALLOC - 2 ^ 32"
    using assms(2,3) by (intro c_int_wrap) (simp_all add: SDS_MAX_PREALLOC_def)
  then have f: "sds_free (sdsMakeRoomFor s n) = n + SDS_MAX_PREALLOC - 2 ^ 32"
    using assms(1,4) r by (simp add: sdsMakeRoomFor_def Let_def sds_ok_lens)
  moreover have "n + SDS_MAX_PREALLOC - 2 ^ 32 < 0" "- (2 ^ 32) \<le> n + SDS_MAX_PREALLOC - 2 ^ 32"
    using assms(2,3) by (simp_all add: SDS_MAX_PREALLOC_def)
  ultimately show ?thesis by (simp add: sdsavail_def sds_ok_def c_size_neg)
qed

end
