(* ===== verification/Crc32.thy ===== *)
theory Crc32
  imports XrtcPrelude
begin

text \<open>
  \<^verbatim>\<open>rtc_base/crc32.h\<close> and \<^verbatim>\<open>rtc_base/crc32.cc\<close>: the table-driven CRC-32 that
  \<^verbatim>\<open>RtcServer::_get_worker\<close> uses to place a stream on a worker, and its equivalence with the
  bit-by-bit division by the polynomial.
\<close>

section \<open>The table-driven checksum\<close>

definition kCrc32Polynomial :: "32 word" where
  "kCrc32Polynomial = 0xEDB88320"

text \<open>The body of the inner loop of \<^verbatim>\<open>LoadCrc32Table\<close>.\<close>

definition crc_step :: "32 word \<Rightarrow> 32 word" where
  "crc_step c = (if c AND 1 \<noteq> 0 then kCrc32Polynomial XOR drop_bit 1 c else drop_bit 1 c)"

definition LoadCrc32Table :: "32 word list" where
  "LoadCrc32Table = map (\<lambda>i. (crc_step ^^ 8) (word_of_nat i)) [0..<256]"

definition crc_update_byte :: "byte \<Rightarrow> 32 word \<Rightarrow> 32 word" where
  "crc_update_byte u c = LoadCrc32Table ! unat ((c XOR ucast u) AND 0xFF) XOR drop_bit 8 c"

definition UpdateCrc32 :: "32 word \<Rightarrow> bytes \<Rightarrow> 32 word" where
  "UpdateCrc32 start buf = fold crc_update_byte buf (start XOR 0xFFFFFFFF) XOR 0xFFFFFFFF"

definition ComputeCrc32 :: "string \<Rightarrow> 32 word" where
  "ComputeCrc32 str = UpdateCrc32 0 (bytes_of str)"

section \<open>The reference: one bit at a time\<close>

definition crc_bits :: "bytes \<Rightarrow> 32 word \<Rightarrow> 32 word" where
  "crc_bits buf c = fold (\<lambda>u c. (crc_step ^^ 8) (c XOR ucast u)) buf c"

lemma and_1_bit0: "(c AND 1 \<noteq> (0 :: 32 word)) \<longleftrightarrow> bit c 0"
  by (simp add: and_one_eq bit_0 odd_iff_mod_2_eq_one)

lemma crc_step_bit: "crc_step c = (if bit c 0 then kCrc32Polynomial XOR drop_bit 1 c else drop_bit 1 c)"
  by (simp only: crc_step_def and_1_bit0)

text \<open>A step is linear over exclusive or, and only shifts when the lowest bit is clear.\<close>

lemma crc_step_xor: "crc_step (a XOR b) = crc_step a XOR crc_step b"
proof -
  have "drop_bit 1 (a XOR b) = drop_bit 1 a XOR drop_bit 1 b"
    by (rule bit_word_eqI) (simp add: bit_simps)
  then show ?thesis
    by (auto simp: crc_step_bit bit_xor_iff xor.assoc xor.left_commute)
qed

lemma crc_steps_xor: "(crc_step ^^ n) (a XOR b) = (crc_step ^^ n) a XOR (crc_step ^^ n) b"
  by (induction n) (simp_all add: crc_step_xor)

lemma crc_steps_shift: "take_bit n c = 0 \<Longrightarrow> (crc_step ^^ n) c = drop_bit n c"
proof (induction n)
  case 0
  then show ?case by simp
next
  case (Suc n)
  have low: "\<not> bit c i" if "i < Suc n" for i
    using that Suc.prems by (metis bit_take_bit_iff bit_0_eq bot_apply bot_bool_def)
  then have "take_bit n c = 0"
    by (intro bit_word_eqI) (auto simp: bit_simps)
  with Suc.IH have "(crc_step ^^ Suc n) c = crc_step (drop_bit n c)" by simp
  also have "\<not> bit (drop_bit n c) 0" using low [of n] by (simp add: bit_drop_bit_eq)
  then have "crc_step (drop_bit n c) = drop_bit (Suc n) c"
    by (simp add: crc_step_bit add.commute)
  finally show ?case .
qed

lemma table_entry: "unat i < 256 \<Longrightarrow> LoadCrc32Table ! unat i = (crc_step ^^ 8) (i :: 32 word)"
  by (simp add: LoadCrc32Table_def)

lemma and_0xFF: "(w AND 0xFF :: 32 word) = take_bit 8 w"
  by (simp add: take_bit_eq_mask mask_eq_exp_minus_1)

lemma split_low_byte: "(w :: 32 word) = take_bit 8 w XOR push_bit 8 (drop_bit 8 w)"
  by (rule bit_word_eqI) (auto simp: bit_simps)

lemma eight_steps: "(crc_step ^^ 8) w = LoadCrc32Table ! unat (w AND 0xFF) XOR drop_bit 8 w"
proof -
  have small: "unat (take_bit 8 w) < 256"
    using take_bit_nat_less_exp [of 8 "unat w"] by (simp add: unsigned_take_bit_eq)
  have "take_bit 8 (push_bit 8 (drop_bit 8 w)) = 0"
    by (rule bit_word_eqI) (simp add: bit_simps)
  then have "(crc_step ^^ 8) (push_bit 8 (drop_bit 8 w)) = drop_bit 8 (push_bit 8 (drop_bit 8 w))"
    by (rule crc_steps_shift)
  also have "\<dots> = drop_bit 8 w"
    by (rule bit_word_eqI) (auto simp: bit_simps dest: bit_imp_le_length)
  finally have hi: "(crc_step ^^ 8) (push_bit 8 (drop_bit 8 w)) = drop_bit 8 w" .
  have "(crc_step ^^ 8) w = (crc_step ^^ 8) (take_bit 8 w XOR push_bit 8 (drop_bit 8 w))"
    using split_low_byte [of w] by simp
  also have "\<dots> = (crc_step ^^ 8) (take_bit 8 w) XOR drop_bit 8 w"
    by (simp only: crc_steps_xor hi)
  finally show ?thesis by (simp only: and_0xFF table_entry [OF small])
qed

lemma drop_byte: "drop_bit 8 (ucast (u :: byte) :: 32 word) = 0"
  by (rule bit_word_eqI) (auto simp: bit_simps dest: bit_imp_le_length)

lemma crc_update_byte_bits: "crc_update_byte u c = (crc_step ^^ 8) (c XOR ucast u)"
proof -
  have "drop_bit 8 (c XOR ucast u) = drop_bit 8 c XOR drop_bit 8 (ucast u)"
    by (rule bit_word_eqI) (simp add: bit_simps)
  then show ?thesis by (simp add: crc_update_byte_def eight_steps drop_byte)
qed

section \<open>Properties of the checksum\<close>

text \<open>
  C34. The table-driven checksum is the bit-by-bit division: \<^verbatim>\<open>UpdateCrc32\<close> computes, for every
  start value and buffer, what shifting the message through the polynomial one bit at a time
  computes.
\<close>

theorem UpdateCrc32_bitwise:
  "UpdateCrc32 start buf = crc_bits buf (start XOR 0xFFFFFFFF) XOR 0xFFFFFFFF"
proof -
  have "crc_update_byte = (\<lambda>u c. (crc_step ^^ 8) (c XOR ucast u))"
    by (intro ext) (rule crc_update_byte_bits)
  then show ?thesis by (simp add: UpdateCrc32_def crc_bits_def)
qed

text \<open>
  Checksums can be computed piecewise, as the comment of \<^verbatim>\<open>UpdateCrc32\<close> says: updating
  with a second buffer starting from the checksum of the first gives the checksum of the
  concatenation.
\<close>

lemma UpdateCrc32_append: "UpdateCrc32 start (xs @ ys) = UpdateCrc32 (UpdateCrc32 start xs) ys"
  by (simp add: UpdateCrc32_def xor.assoc)

end
