(* ===== verification/Xhead.thy ===== *)
theory Xhead
  imports XrtcPrelude
begin

text \<open>
  \<^verbatim>\<open>xrtc_server/src/base/xhead.h\<close>: the 36-byte header in front of every message. The code
  reads and writes it by casting the buffer to the struct, so the layout is the struct's on
  the little-endian machines the server is built for; the fields are aligned and the struct
  has no padding.
\<close>

definition XHEAD_SIZE :: nat where
  "XHEAD_SIZE = 36"

definition XHEAD_MAGIC_NUM :: "32 word" where
  "XHEAD_MAGIC_NUM = 0xfb202202"

record xhead =
  xh_id :: "16 word"
  xh_version :: "16 word"
  xh_log_id :: "32 word"
  xh_provider :: bytes
  xh_magic_num :: "32 word"
  xh_reserved :: "32 word"
  xh_body_len :: "32 word"

definition xhead_of :: "bytes \<Rightarrow> xhead" where
  "xhead_of b = \<lparr>xh_id = get_le16 0 b, xh_version = get_le16 2 b, xh_log_id = get_le32 4 b,
     xh_provider = take 16 (drop 8 b), xh_magic_num = get_le32 24 b,
     xh_reserved = get_le32 28 b, xh_body_len = get_le32 32 b\<rparr>"

definition xhead_bytes :: "xhead \<Rightarrow> bytes" where
  "xhead_bytes h = le16 (xh_id h) @ le16 (xh_version h) @ le32 (xh_log_id h) @ xh_provider h
     @ le32 (xh_magic_num h) @ le32 (xh_reserved h) @ le32 (xh_body_len h)"

text \<open>The assignment \<^verbatim>\<open>res_xh->body_len = n\<close> through the cast pointer.\<close>

definition set_body_len :: "32 word \<Rightarrow> bytes \<Rightarrow> bytes" where
  "set_body_len n b = take 32 b @ le32 n @ drop 36 b"

lemma length_xhead_bytes: "length (xh_provider h) = 16 \<Longrightarrow> length (xhead_bytes h) = XHEAD_SIZE"
  by (simp add: xhead_bytes_def XHEAD_SIZE_def)

lemma xhead_of_bytes:
  assumes "length (xh_provider h) = 16"
  shows "xhead_of (xhead_bytes h @ rest) = h"
proof -
  let ?b = "xhead_bytes h @ rest"
  have "get_le16 0 ?b = xh_id h" "get_le16 2 ?b = xh_version h"
    using get_le16_at [of "[]" 0] get_le16_at [of "le16 (xh_id h)" 2]
    by (simp_all add: xhead_bytes_def)
  moreover have "get_le32 4 ?b = xh_log_id h"
    using get_le32_at [of "le16 (xh_id h) @ le16 (xh_version h)" 4] by (simp add: xhead_bytes_def)
  moreover have "take 16 (drop 8 ?b) = xh_provider h"
    using assms by (simp add: xhead_bytes_def)
  moreover have "get_le32 24 ?b = xh_magic_num h"
    using assms get_le32_at [of "le16 (xh_id h) @ le16 (xh_version h) @ le32 (xh_log_id h) @ xh_provider h" 24]
    by (simp add: xhead_bytes_def)
  moreover have "get_le32 28 ?b = xh_reserved h"
    using assms get_le32_at [of "le16 (xh_id h) @ le16 (xh_version h) @ le32 (xh_log_id h) @ xh_provider h
        @ le32 (xh_magic_num h)" 28]
    by (simp add: xhead_bytes_def)
  moreover have "get_le32 32 ?b = xh_body_len h"
    using assms get_le32_at [of "le16 (xh_id h) @ le16 (xh_version h) @ le32 (xh_log_id h) @ xh_provider h
        @ le32 (xh_magic_num h) @ le32 (xh_reserved h)" 32]
    by (simp add: xhead_bytes_def)
  ultimately show ?thesis by (simp add: xhead_of_def)
qed

lemma xhead_of_prefix: "XHEAD_SIZE \<le> length b \<Longrightarrow> xhead_of (b @ rest) = xhead_of b"
  by (simp add: xhead_of_def XHEAD_SIZE_def get_le16_prefix get_le32_prefix)

text \<open>Overwriting the length field changes that field and no other, and keeps the bytes after
  the header.\<close>

lemma set_body_len_other:
  assumes "XHEAD_SIZE \<le> length b"
  shows "xhead_of (set_body_len n b) = (xhead_of b)\<lparr>xh_body_len := n\<rparr>"
    and "drop XHEAD_SIZE (set_body_len n b) = drop XHEAD_SIZE b"
    and "length (set_body_len n b) = length b"
proof -
  have b: "b = take 32 b @ drop 32 b" by simp
  have l: "length (take 32 b) = 32" using assms by (simp add: XHEAD_SIZE_def)
  have "get_le32 32 (set_body_len n b) = n"
    using get_le32_at [OF l] by (simp add: set_body_len_def)
  moreover have "get_le32 i (set_body_len n b) = get_le32 i b" if "i + 4 \<le> 32" for i
    using that l b get_le32_prefix [of i "take 32 b"] by (metis set_body_len_def)
  moreover have "get_le16 i (set_body_len n b) = get_le16 i b" if "i + 2 \<le> 32" for i
    using that l b get_le16_prefix [of i "take 32 b"] by (metis set_body_len_def)
  moreover have "take 16 (drop 8 (set_body_len n b)) = take 16 (drop 8 b)"
    using assms by (simp add: set_body_len_def XHEAD_SIZE_def drop_take min_def)
  ultimately show "xhead_of (set_body_len n b) = (xhead_of b)\<lparr>xh_body_len := n\<rparr>"
    by (simp add: xhead_of_def)
  show "drop XHEAD_SIZE (set_body_len n b) = drop XHEAD_SIZE b"
    "length (set_body_len n b) = length b"
    using assms by (simp_all add: set_body_len_def XHEAD_SIZE_def)
qed

lemma xhead_bytes_of_raw:
  assumes "length b = XHEAD_SIZE"
  shows "xhead_bytes (xhead_of b) = b"
proof -
  have c: "drop i b = take n (drop i b) @ drop (i + n) b" for i n
    by (metis append_take_drop_id drop_drop add.commute)
  have "b = take 2 b @ take 2 (drop 2 b) @ take 4 (drop 4 b) @ take 16 (drop 8 b) @ take 4 (drop 24 b)
      @ take 4 (drop 28 b) @ take 4 (drop 32 b) @ drop 36 b"
    using c [of 0 2] c [of 2 2] c [of 4 4] c [of 8 16] c [of 24 4] c [of 28 4] c [of 32 4] by simp
  also have "drop 36 b = []" using assms by (simp add: XHEAD_SIZE_def)
  finally show ?thesis
    using assms le16_get [of 0 b] le16_get [of 2 b] le32_get [of 4 b] le32_get [of 24 b]
      le32_get [of 28 b] le32_get [of 32 b]
    by (simp add: xhead_bytes_def xhead_of_def XHEAD_SIZE_def)
qed

section \<open>Properties of the header\<close>

text \<open>
  The header round-trips: reading the struct from the bytes of any header (whatever
  follows it in the buffer) gives that header back, and writing out the header read from any
  36 bytes gives those bytes back.
\<close>

lemma xhead_roundtrip:
  assumes "length (xh_provider h) = 16" and "length b = XHEAD_SIZE"
  shows "xhead_of (xhead_bytes h @ rest) = h \<and> xhead_bytes (xhead_of b) = b"
  using xhead_of_bytes [OF assms(1)] xhead_bytes_of_raw [OF assms(2)] by simp

end
