(* ===== verification/EventLoop.thy ===== *)
theory EventLoop
  imports XrtcPrelude Complex_Main
begin

text \<open>
  \<^verbatim>\<open>xrtc_server/src/base/event_loop.h\<close> and \<^verbatim>\<open>event_loop.cpp\<close>: the wrapper around libev.

  libev itself is a parameter: the record \<open>libev\<close> holds the functions and the mask constants
  the wrapper uses, over a type \<open>'l\<close> of loop states, and \<open>libev_ok\<close> states the documented
  behaviour that the wrapper relies on. The public members of a watcher that the wrapper reads
  (\<^verbatim>\<open>fd\<close>, \<^verbatim>\<open>events\<close>, whether it is active) are fields here. Times are exact: the source
  computes a timer's interval in single precision.
\<close>

section \<open>libev\<close>

record ev_io =
  io_active :: bool
  io_fd :: int
  io_events :: int

record ev_timer =
  tm_active :: bool
  tm_after :: rat
  tm_repeat :: rat

record 'l libev =
  EV_READ :: int
  EV_WRITE :: int
  EV_NONE :: int
  ev_io_init :: ev_io
  ev_io_set :: "ev_io \<Rightarrow> int \<Rightarrow> int \<Rightarrow> ev_io"
  ev_io_start :: "'l \<Rightarrow> ev_io \<Rightarrow> 'l \<times> ev_io"
  ev_io_stop :: "'l \<Rightarrow> ev_io \<Rightarrow> 'l \<times> ev_io"
  ev_timer_init :: ev_timer
  ev_timer_set :: "ev_timer \<Rightarrow> rat \<Rightarrow> rat \<Rightarrow> ev_timer"
  ev_timer_start :: "'l \<Rightarrow> ev_timer \<Rightarrow> 'l \<times> ev_timer"
  ev_timer_stop :: "'l \<Rightarrow> ev_timer \<Rightarrow> 'l \<times> ev_timer"
  ev_timer_again :: "'l \<Rightarrow> ev_timer \<Rightarrow> 'l \<times> ev_timer"
  ev_break_all :: "'l \<Rightarrow> 'l"
  ev_now_us :: "'l \<Rightarrow> int"

section \<open>Event masks\<close>

definition READ :: int where "READ = 1"

definition WRITE :: int where "WRITE = 2"

definition TRANS_TO_EV_MASK :: "'l libev \<Rightarrow> int \<Rightarrow> int" where
  "TRANS_TO_EV_MASK ev msk =
     (if msk AND READ \<noteq> 0 then EV_READ ev else 0) OR (if msk AND WRITE \<noteq> 0 then EV_WRITE ev else 0)"

definition TRANS_FROM_EV_MASK :: "'l libev \<Rightarrow> int \<Rightarrow> int" where
  "TRANS_FROM_EV_MASK ev msk =
     (if msk AND EV_READ ev \<noteq> 0 then READ else 0) OR (if msk AND EV_WRITE ev \<noteq> 0 then WRITE else 0)"

text \<open>
  What the wrapper relies on: the two masks are disjoint and not zero; setting a watcher
  stores the descriptor and the events, starting makes it active, stopping makes it inactive,
  and none of them changes anything else the wrapper looks at. (libev marks \<^verbatim>\<open>events\<close> with a
  bit of its own, which the translation ignores, so the laws speak of the translated mask.)
\<close>

definition libev_ok :: "'l libev \<Rightarrow> bool" where
  "libev_ok ev \<longleftrightarrow>
     EV_READ ev \<noteq> 0 \<and> EV_WRITE ev \<noteq> 0 \<and> EV_READ ev AND EV_WRITE ev = 0 \<and> EV_NONE ev = 0 \<and>
     \<not> io_active (ev_io_init ev) \<and> \<not> tm_active (ev_timer_init ev) \<and>
     (\<forall>io fd e. io_fd (ev_io_set ev io fd e) = fd \<and> io_active (ev_io_set ev io fd e) = io_active io \<and>
        TRANS_FROM_EV_MASK ev (io_events (ev_io_set ev io fd e)) = TRANS_FROM_EV_MASK ev e) \<and>
     (\<forall>l io. io_active (snd (ev_io_start ev l io)) \<and> io_fd (snd (ev_io_start ev l io)) = io_fd io \<and>
        TRANS_FROM_EV_MASK ev (io_events (snd (ev_io_start ev l io))) = TRANS_FROM_EV_MASK ev (io_events io)) \<and>
     (\<forall>l io. \<not> io_active (snd (ev_io_stop ev l io)) \<and> io_fd (snd (ev_io_stop ev l io)) = io_fd io \<and>
        TRANS_FROM_EV_MASK ev (io_events (snd (ev_io_stop ev l io))) = TRANS_FROM_EV_MASK ev (io_events io)) \<and>
     (\<forall>t a r. ev_timer_set ev t a r = t\<lparr>tm_after := a, tm_repeat := r\<rparr>) \<and>
     (\<forall>l t. snd (ev_timer_start ev l t) = t\<lparr>tm_active := True\<rparr>) \<and>
     (\<forall>l t. snd (ev_timer_stop ev l t) = t\<lparr>tm_active := False\<rparr>) \<and>
     (\<forall>l t. snd (ev_timer_again ev l t) = t\<lparr>tm_active := (tm_repeat t > 0)\<rparr>)"

lemmas masks = READ_def WRITE_def

section \<open>Watchers\<close>

text \<open>
  The callbacks the program registers, and the opaque \<^verbatim>\<open>data\<close> pointer passed back to them.
\<close>

datatype io_cb =
    Signaling_server_recv_notify | Accept_new_conn | Signaling_worker_recv_notify | Conn_io_cb
  | Rtc_server_recv_notify | Rtc_worker_recv_notify

datatype time_cb = Conn_timer_cb

record io_watcher =
  w_cb :: io_cb
  w_data :: addr
  w_io :: ev_io

record timer_watcher =
  t_cb :: time_cb
  t_data :: addr
  t_timer :: ev_timer
  t_need_repeat :: bool

text \<open>What libev's callback does: call the registered function with the translated events.\<close>

definition generic_io_cb :: "'l libev \<Rightarrow> io_watcher \<Rightarrow> int \<Rightarrow> io_cb \<times> int \<times> int \<times> addr" where
  "generic_io_cb ev w events = (w_cb w, io_fd (w_io w), TRANS_FROM_EV_MASK ev events, w_data w)"

definition generic_time_cb :: "timer_watcher \<Rightarrow> time_cb \<times> addr" where
  "generic_time_cb w = (t_cb w, t_data w)"

definition create_io_event :: "'l libev \<Rightarrow> io_cb \<Rightarrow> addr \<Rightarrow> io_watcher" where
  "create_io_event ev cb data = \<lparr>w_cb = cb, w_data = data, w_io = ev_io_init ev\<rparr>"

definition el_now :: "'l libev \<Rightarrow> 'l \<Rightarrow> int" where
  "el_now ev l = c_size (ev_now_us ev l)"

definition start_io_event :: "'l libev \<Rightarrow> io_watcher \<Rightarrow> int \<Rightarrow> int \<Rightarrow> 'l \<Rightarrow> 'l \<times> io_watcher" where
  "start_io_event ev w fd msk l =
     (let io = w_io w in
      if io_active io then
        let active_events = TRANS_FROM_EV_MASK ev (io_events io);
            new_events = active_events OR msk
        in if new_events = active_events then (l, w)
           else let libev_events = TRANS_TO_EV_MASK ev new_events;
                    (l1, io1) = ev_io_stop ev l io;
                    (l2, io2) = ev_io_start ev l1 (ev_io_set ev io1 fd libev_events)
             in (l2, w\<lparr>w_io := io2\<rparr>)
      else let libev_events = TRANS_TO_EV_MASK ev msk;
               (l1, io1) = ev_io_start ev l (ev_io_set ev io fd libev_events)
        in (l1, w\<lparr>w_io := io1\<rparr>))"

definition stop_io_event :: "'l libev \<Rightarrow> io_watcher \<Rightarrow> int \<Rightarrow> int \<Rightarrow> 'l \<Rightarrow> 'l \<times> io_watcher" where
  "stop_io_event ev w fd msk l =
     (let io = w_io w;
          active_events = TRANS_FROM_EV_MASK ev (io_events io);
          new_events = active_events AND NOT msk
      in if new_events = active_events then (l, w)
         else let ev_events = TRANS_TO_EV_MASK ev new_events;
                  (l1, io1) = ev_io_stop ev l io
           in if ev_events \<noteq> EV_NONE ev
              then let (l2, io2) = ev_io_start ev l1 (ev_io_set ev io1 fd ev_events)
                in (l2, w\<lparr>w_io := io2\<rparr>)
              else (l1, w\<lparr>w_io := io1\<rparr>))"

text \<open>Deleting a watcher stops it in the loop; the object is gone afterwards.\<close>

definition delete_io_event :: "'l libev \<Rightarrow> io_watcher \<Rightarrow> 'l \<Rightarrow> 'l" where
  "delete_io_event ev w l = fst (ev_io_stop ev l (w_io w))"

definition create_timer :: "'l libev \<Rightarrow> time_cb \<Rightarrow> addr \<Rightarrow> bool \<Rightarrow> timer_watcher" where
  "create_timer ev cb data need_repeat =
     \<lparr>t_cb = cb, t_data = data, t_timer = ev_timer_init ev, t_need_repeat = need_repeat\<rparr>"

definition start_timer :: "'l libev \<Rightarrow> timer_watcher \<Rightarrow> nat \<Rightarrow> 'l \<Rightarrow> 'l \<times> timer_watcher" where
  "start_timer ev w usec l =
     (let sec = of_nat usec / 1000000; timer = t_timer w in
      if \<not> t_need_repeat w then
        let (l1, t1) = ev_timer_stop ev l timer;
            (l2, t2) = ev_timer_start ev l1 (ev_timer_set ev t1 sec 0)
        in (l2, w\<lparr>t_timer := t2\<rparr>)
      else let (l1, t1) = ev_timer_again ev l (timer\<lparr>tm_repeat := sec\<rparr>)
        in (l1, w\<lparr>t_timer := t1\<rparr>))"

definition stop_timer :: "'l libev \<Rightarrow> timer_watcher \<Rightarrow> 'l \<Rightarrow> 'l \<times> timer_watcher" where
  "stop_timer ev w l = (let (l1, t1) = ev_timer_stop ev l (t_timer w) in (l1, w\<lparr>t_timer := t1\<rparr>))"

definition delete_timer :: "'l libev \<Rightarrow> timer_watcher \<Rightarrow> 'l \<Rightarrow> 'l" where
  "delete_timer ev w l = fst (stop_timer ev w l)"

definition el_stop :: "'l libev \<Rightarrow> 'l \<Rightarrow> 'l" where
  "el_stop ev l = ev_break_all ev l"

section \<open>Masks and watchers under the laws of libev\<close>

text \<open>The events a watcher is registered for, in the wrapper's own mask.\<close>

definition watched :: "'l libev \<Rightarrow> io_watcher \<Rightarrow> int" where
  "watched ev w = (if io_active (w_io w) then TRANS_FROM_EV_MASK ev (io_events (w_io w)) else 0)"

lemma trans_from_cases: "TRANS_FROM_EV_MASK ev m \<in> {0, 1, 2, 3}"
  by (simp add: TRANS_FROM_EV_MASK_def masks)

lemma trans_from_to:
  assumes "libev_ok ev"
  shows "TRANS_FROM_EV_MASK ev (TRANS_TO_EV_MASK ev m) =
    (if m AND READ \<noteq> 0 then READ else 0) OR (if m AND WRITE \<noteq> 0 then WRITE else 0)"
proof -
  have "EV_READ ev \<noteq> 0" "EV_WRITE ev \<noteq> 0" "EV_READ ev AND EV_WRITE ev = 0"
    "EV_WRITE ev AND EV_READ ev = 0"
    using assms by (auto simp: libev_ok_def and.commute)
  then show ?thesis
    by (simp add: TRANS_FROM_EV_MASK_def TRANS_TO_EV_MASK_def bit.conj_disj_distrib2)
qed

lemma and_READ_bit: "m AND READ \<noteq> 0 \<longleftrightarrow> bit m 0"
  using and_exp_eq_0_iff_not_bit [of m 0] by (simp add: READ_def)

lemma and_WRITE_bit: "m AND WRITE \<noteq> 0 \<longleftrightarrow> bit m 1"
  using and_exp_eq_0_iff_not_bit [of m 1] by (simp add: WRITE_def)

lemma bit_3: "bit (3 :: int) n \<longleftrightarrow> n = 0 \<or> n = 1"
  by (cases n; cases "n - 1") (auto simp: bit_0 bit_Suc)

lemma mask3:
  "(if m AND READ \<noteq> 0 then READ else 0) OR (if m AND WRITE \<noteq> 0 then WRITE else 0) = m AND (3 :: int)"
  unfolding and_READ_bit and_WRITE_bit
  by (rule bit_eqI) (auto simp: bit_simps masks bit_3, (metis neq0_conv)+)

lemma trans_to_zero:
  assumes "libev_ok ev"
  shows "TRANS_TO_EV_MASK ev m = EV_NONE ev \<longleftrightarrow> m AND 3 = 0"
  using assms unfolding TRANS_TO_EV_MASK_def mask3 [symmetric]
  by (auto simp: libev_ok_def or_eq_0_iff masks)

lemma trans_from_and3: "TRANS_FROM_EV_MASK ev e AND 3 = TRANS_FROM_EV_MASK ev e"
  using trans_from_cases [of ev e] by auto

lemma libev_io_laws:
  assumes "libev_ok ev"
  shows "io_fd (ev_io_set ev io fd e) = fd" "io_active (ev_io_set ev io fd e) = io_active io"
    "TRANS_FROM_EV_MASK ev (io_events (ev_io_set ev io fd e)) = TRANS_FROM_EV_MASK ev e"
    "io_active (snd (ev_io_start ev l io))" "io_fd (snd (ev_io_start ev l io)) = io_fd io"
    "TRANS_FROM_EV_MASK ev (io_events (snd (ev_io_start ev l io))) = TRANS_FROM_EV_MASK ev (io_events io)"
    "\<not> io_active (snd (ev_io_stop ev l io))" "io_fd (snd (ev_io_stop ev l io)) = io_fd io"
    "TRANS_FROM_EV_MASK ev (io_events (snd (ev_io_stop ev l io))) = TRANS_FROM_EV_MASK ev (io_events io)"
    "\<not> io_active (ev_io_init ev)" "EV_NONE ev = 0"
  using assms by (simp_all add: libev_ok_def)

lemma libev_timer_laws:
  assumes "libev_ok ev"
  shows "ev_timer_set ev t a r = t\<lparr>tm_after := a, tm_repeat := r\<rparr>"
    "snd (ev_timer_start ev l t) = t\<lparr>tm_active := True\<rparr>"
    "snd (ev_timer_stop ev l t) = t\<lparr>tm_active := False\<rparr>"
    "snd (ev_timer_again ev l t) = t\<lparr>tm_active := (tm_repeat t > 0)\<rparr>"
    "\<not> tm_active (ev_timer_init ev)"
  using assms by (simp_all add: libev_ok_def)

lemma trans_from_to3:
  "libev_ok ev \<Longrightarrow> TRANS_FROM_EV_MASK ev (TRANS_TO_EV_MASK ev m) = m AND 3"
  by (simp only: trans_from_to mask3)

lemma start_io_event_active:
  "libev_ok ev \<Longrightarrow> io_active (w_io (snd (start_io_event ev w fd msk l)))"
  by (simp add: start_io_event_def Let_def split_def libev_io_laws)

lemma start_io_event_watched:
  assumes ok: "libev_ok ev"
  shows "watched ev (snd (start_io_event ev w fd msk l)) = watched ev w OR (msk AND 3)"
proof -
  let ?a = "TRANS_FROM_EV_MASK ev (io_events (w_io w))"
  have dist: "(?a OR msk) AND 3 = ?a OR (msk AND 3)"
    by (simp add: bit.conj_disj_distrib2 trans_from_and3)
  then have same: "?a OR (msk AND 3) = ?a" if "?a OR msk = ?a"
    using that trans_from_and3 [of ev "io_events (w_io w)"] by simp
  show ?thesis
    by (simp add: start_io_event_def watched_def Let_def split_def libev_io_laws [OF ok]
        trans_from_to3 [OF ok] dist same)
qed

lemma stop_io_event_watched:
  assumes ok: "libev_ok ev" and act: "io_active (w_io w)"
  shows "watched ev (snd (stop_io_event ev w fd msk l)) = watched ev w AND NOT msk"
proof -
  let ?a = "TRANS_FROM_EV_MASK ev (io_events (w_io w))"
  have three: "(?a AND NOT msk) AND 3 = ?a AND NOT msk"
    by (metis and.commute and.left_commute trans_from_and3)
  show ?thesis
    using act trans_to_zero [OF ok, of "?a AND NOT msk"] three
    by (simp add: stop_io_event_def watched_def Let_def split_def libev_io_laws [OF ok]
        trans_from_to3 [OF ok])
qed

section \<open>Properties of the event loop\<close>

text \<open>A libev over a loop without state, to instantiate the parameter.\<close>

definition plain_libev :: "unit libev" where
  "plain_libev = \<lparr>EV_READ = 1, EV_WRITE = 2, EV_NONE = 0,
     ev_io_init = \<lparr>io_active = False, io_fd = 0, io_events = 0\<rparr>,
     ev_io_set = (\<lambda>io fd e. io\<lparr>io_fd := fd, io_events := e\<rparr>),
     ev_io_start = (\<lambda>l io. (l, io\<lparr>io_active := True\<rparr>)),
     ev_io_stop = (\<lambda>l io. (l, io\<lparr>io_active := False\<rparr>)),
     ev_timer_init = \<lparr>tm_active = False, tm_after = 0, tm_repeat = 0\<rparr>,
     ev_timer_set = (\<lambda>t a r. t\<lparr>tm_after := a, tm_repeat := r\<rparr>),
     ev_timer_start = (\<lambda>l t. (l, t\<lparr>tm_active := True\<rparr>)),
     ev_timer_stop = (\<lambda>l t. (l, t\<lparr>tm_active := False\<rparr>)),
     ev_timer_again = (\<lambda>l t. (l, t\<lparr>tm_active := (tm_repeat t > 0)\<rparr>)),
     ev_break_all = (\<lambda>l. l), ev_now_us = (\<lambda>l. 0)\<rparr>"

lemma plain_libev_ok: "libev_ok plain_libev"
  by (simp add: libev_ok_def plain_libev_def)

text \<open>
  Interest in events is a set: starting a watcher for a mask adds exactly the events of
  the mask to those it is registered for and leaves it active, and stopping an active watcher
  for a mask removes exactly those events, making the watcher inactive when none is left.
\<close>

lemma io_event_interest:
  assumes "libev_ok ev"
  shows "watched ev (snd (start_io_event ev w fd msk l)) = watched ev w OR (msk AND 3) \<and>
    io_active (w_io (snd (start_io_event ev w fd msk l))) \<and>
    (io_active (w_io w) \<longrightarrow>
       watched ev (snd (stop_io_event ev w fd msk l)) = watched ev w AND NOT msk \<and>
       (watched ev w AND NOT msk = 0 \<longrightarrow> watched ev w \<noteq> 0 \<longrightarrow>
          \<not> io_active (w_io (snd (stop_io_event ev w fd msk l)))))"
proof -
  let ?a = "TRANS_FROM_EV_MASK ev (io_events (w_io w))"
  have "\<not> io_active (w_io (snd (stop_io_event ev w fd msk l)))"
    if "?a AND NOT msk = 0" "?a \<noteq> 0"
    using that trans_to_zero [OF assms, of 0]
    by (simp add: stop_io_event_def Let_def split_def libev_io_laws [OF assms])
  then show ?thesis
    using start_io_event_watched [OF assms] start_io_event_active [OF assms]
      stop_io_event_watched [OF assms] by (simp add: watched_def)
qed

text \<open>
  \<^verbatim>\<open>stop_io_event\<close> does not look at whether the watcher is active: a watcher that was
  stopped for all its events is started again by a further stop for only one of them.
\<close>

lemma stop_io_event_restarts:
  assumes "libev_ok ev"
  shows "\<exists>w. \<not> io_active (w_io w) \<and> io_active (w_io (snd (stop_io_event ev w fd WRITE l))) \<and>
    watched ev (snd (stop_io_event ev w fd WRITE l)) = READ"
proof -
  define w where "w = create_io_event ev Conn_io_cb 0
    \<lparr>w_io := ev_io_set ev (ev_io_init ev) fd (TRANS_TO_EV_MASK ev 3)\<rparr>"
  have ev: "TRANS_FROM_EV_MASK ev (io_events (w_io w)) = 3"
    by (simp add: w_def libev_io_laws [OF assms] trans_from_to3 [OF assms])
  have m: "(3 :: int) AND NOT WRITE = READ" by (simp add: masks)
  have nz: "TRANS_TO_EV_MASK ev READ \<noteq> 0"
    using trans_to_zero [OF assms, of READ] by (simp add: libev_io_laws [OF assms] READ_def)
  have "\<not> io_active (w_io w)" by (simp add: w_def libev_io_laws [OF assms])
  moreover have "io_active (w_io (snd (stop_io_event ev w fd WRITE l)))"
    "watched ev (snd (stop_io_event ev w fd WRITE l)) = READ"
    using nz by (simp_all add: stop_io_event_def watched_def Let_def split_def ev m
        libev_io_laws [OF assms] trans_from_to3 [OF assms]) (simp_all add: READ_def)
  ultimately show ?thesis by blast
qed

lemma start_timer_repeating:
  assumes "libev_ok ev" and "t_need_repeat w" and "usec > 0"
  shows "tm_active (t_timer (snd (start_timer ev w usec l)))"
    and "tm_repeat (t_timer (snd (start_timer ev w usec l))) = of_nat usec / 1000000"
  using assms by (simp_all add: start_timer_def Let_def split_def libev_timer_laws [OF assms(1)])

end
