(* ===== verification/Sockets.thy ===== *)
theory Sockets
  imports XrtcPrelude
begin

text \<open>
  \<^verbatim>\<open>xrtc_server/src/base/socket.cpp\<close>. The operating system is a parameter: the record \<open>os\<close>
  holds the system calls the server makes, each taking the state \<open>'w\<close> of the outside world and
  returning its result with the new state; a failed call returns the value of \<^verbatim>\<open>errno\<close>.
  Results of C functions keep their integer codes, so \<open>-1\<close> is the source's error return.
\<close>

datatype errno = EAGAIN | EEXIST | EOther nat

abbreviation EWOULDBLOCK :: errno where
  "EWOULDBLOCK \<equiv> EAGAIN"

record sockaddr =
  sin_port :: "16 word"
  sin_addr :: "32 word"

record 'w os =
  sys_socket :: "'w \<Rightarrow> (errno + int) \<times> 'w"
  sys_reuseaddr :: "int \<Rightarrow> 'w \<Rightarrow> errno option \<times> 'w"
  inet_aton :: "string \<Rightarrow> 32 word option"
  inet_ntop :: "32 word \<Rightarrow> string"
  sys_bind :: "int \<Rightarrow> sockaddr \<Rightarrow> 'w \<Rightarrow> errno option \<times> 'w"
  sys_listen :: "int \<Rightarrow> int \<Rightarrow> 'w \<Rightarrow> errno option \<times> 'w"
  sys_accept :: "int \<Rightarrow> 'w \<Rightarrow> (errno + int \<times> sockaddr) \<times> 'w"
  sys_close :: "int \<Rightarrow> 'w \<Rightarrow> 'w"
  sys_getfl :: "int \<Rightarrow> 'w \<Rightarrow> (errno + int) \<times> 'w"
  sys_setfl :: "int \<Rightarrow> int \<Rightarrow> 'w \<Rightarrow> errno option \<times> 'w"
  sys_nodelay :: "int \<Rightarrow> 'w \<Rightarrow> errno option \<times> 'w"
  sys_getpeername :: "int \<Rightarrow> 'w \<Rightarrow> (errno + sockaddr) \<times> 'w"
  sys_read :: "int \<Rightarrow> int \<Rightarrow> 'w \<Rightarrow> (errno + bytes) \<times> 'w"
  sys_write :: "int \<Rightarrow> bytes \<Rightarrow> 'w \<Rightarrow> (errno + nat) \<times> 'w"
  sys_pipe :: "'w \<Rightarrow> (errno + int \<times> int) \<times> 'w"

definition O_NONBLOCK :: int where
  "O_NONBLOCK = 2048"

definition INADDR_ANY :: "32 word" where
  "INADDR_ANY = 0"

definition create_tcp_socket :: "'w os \<Rightarrow> string option \<Rightarrow> int \<Rightarrow> 'w \<Rightarrow> int \<times> 'w" where
  "create_tcp_socket os addr port w =
     (case sys_socket os w of
        (Inl e, w1) \<Rightarrow> (- 1, w1)
      | (Inr sock, w1) \<Rightarrow>
        (case sys_reuseaddr os sock w1 of
           (Some e, w2) \<Rightarrow> (- 1, sys_close os sock w2)
         | (None, w2) \<Rightarrow>
           (case (case addr of None \<Rightarrow> Some INADDR_ANY | Some a \<Rightarrow> inet_aton os a) of
              None \<Rightarrow> (- 1, sys_close os sock w2)
            | Some ia \<Rightarrow>
              (case sys_bind os sock \<lparr>sin_port = word_of_int port, sin_addr = ia\<rparr> w2 of
                 (Some e, w3) \<Rightarrow> (- 1, sys_close os sock w3)
               | (None, w3) \<Rightarrow>
                 (case sys_listen os sock 4096 w3 of
                    (Some e, w4) \<Rightarrow> (- 1, sys_close os sock w4)
                  | (None, w4) \<Rightarrow> (sock, w4))))))"

text \<open>
  The loop of \<^verbatim>\<open>generic_accept\<close>: \<^verbatim>\<open>accept\<close> has been called once, before the loop, and its
  result \<open>r\<close> is tested again in every round.
\<close>

partial_function (option) accept_loop ::
  "'w os \<Rightarrow> int \<Rightarrow> errno + int \<times> sockaddr \<Rightarrow> 'w \<Rightarrow> ((int \<times> sockaddr) option \<times> 'w) option" where
  "accept_loop os sock r w =
     (case r of
        Inl e \<Rightarrow> if e = EAGAIN \<or> e = EWOULDBLOCK then accept_loop os sock r w
                 else Some (None, sys_close os sock w)
      | Inr c \<Rightarrow> Some (Some c, w))"

definition generic_accept :: "'w os \<Rightarrow> int \<Rightarrow> 'w \<Rightarrow> ((int \<times> sockaddr) option \<times> 'w) option" where
  "generic_accept os sock w = (case sys_accept os sock w of (r, w1) \<Rightarrow> accept_loop os sock r w1)"

text \<open>\<open>None\<close> outside: the call does not return. \<open>None\<close> inside: it returns -1.\<close>

definition tcp_accept :: "'w os \<Rightarrow> int \<Rightarrow> 'w \<Rightarrow> ((int \<times> string \<times> int) option \<times> 'w) option" where
  "tcp_accept os fd w =
     (case generic_accept os fd w of
        None \<Rightarrow> None
      | Some (None, w1) \<Rightarrow> Some (None, w1)
      | Some (Some (cfd, sa), w1) \<Rightarrow> Some (Some (cfd, inet_ntop os (sin_addr sa), uint (sin_port sa)), w1))"

definition sock_set_non_block :: "'w os \<Rightarrow> int \<Rightarrow> 'w \<Rightarrow> int \<times> 'w" where
  "sock_set_non_block os fd w =
     (case sys_getfl os fd w of
        (Inl e, w1) \<Rightarrow> (- 1, w1)
      | (Inr flags, w1) \<Rightarrow>
        (case sys_setfl os fd (flags OR O_NONBLOCK) w1 of (Some e, w2) \<Rightarrow> (- 1, w2) | (None, w2) \<Rightarrow> (0, w2)))"

definition sock_set_tcp_nodelay :: "'w os \<Rightarrow> int \<Rightarrow> 'w \<Rightarrow> int \<times> 'w" where
  "sock_set_tcp_nodelay os fd w =
     (case sys_nodelay os fd w of (Some e, w1) \<Rightarrow> (- 1, w1) | (None, w1) \<Rightarrow> (0, w1))"

text \<open>
  The peer address is written into the caller's \<open>ip\<close> buffer. On failure the code clears
  \<^verbatim>\<open>sizeof(ip)\<close> bytes of it, which is the size of the pointer, 8.
\<close>

definition sock_peer_to_string :: "'w os \<Rightarrow> int \<Rightarrow> string \<Rightarrow> 'w \<Rightarrow> (int \<times> string \<times> int) \<times> 'w" where
  "sock_peer_to_string os fd ip w =
     (case sys_getpeername os fd w of
        (Inl e, w1) \<Rightarrow> ((- 1, replicate 8 (CHR 0x00) @ drop 8 ip, 0), w1)
      | (Inr sa, w1) \<Rightarrow>
        (let s = inet_ntop os (sin_addr sa)
         in ((0, s @ [CHR 0x00] @ drop (length s + 1) ip, uint (sin_port sa)), w1)))"

text \<open>The bytes read are returned beside the code: the call stores them in the caller's buffer.\<close>

definition sock_read_data :: "'w os \<Rightarrow> int \<Rightarrow> int \<Rightarrow> 'w \<Rightarrow> (int \<times> bytes) \<times> 'w" where
  "sock_read_data os fd len w =
     (case sys_read os fd (c_size len) w of
        (Inl e, w1) \<Rightarrow> if e = EAGAIN then ((0, []), w1) else ((- 1, []), w1)
      | (Inr bs, w1) \<Rightarrow> if bs = [] then ((- 1, []), w1) else ((c_int (int (length bs)), bs), w1))"

definition sock_write_data :: "'w os \<Rightarrow> int \<Rightarrow> bytes \<Rightarrow> 'w \<Rightarrow> int \<times> 'w" where
  "sock_write_data os sock buf w =
     (case sys_write os sock buf w of
        (Inl e, w1) \<Rightarrow> if e = EAGAIN then (0, w1) else (- 1, w1)
      | (Inr n, w1) \<Rightarrow> (c_int (int n), w1))"

section \<open>What the server relies on\<close>

text \<open>\<^verbatim>\<open>read\<close> returns no more than it was asked for and \<^verbatim>\<open>write\<close> takes no more than it was given.\<close>

definition os_ok :: "'w os \<Rightarrow> bool" where
  "os_ok os \<longleftrightarrow>
     (\<forall>fd n w bs w'. sys_read os fd n w = (Inr bs, w') \<longrightarrow> int (length bs) \<le> n) \<and>
     (\<forall>fd bs w n w'. sys_write os fd bs w = (Inr n, w') \<longrightarrow> n \<le> length bs)"

lemma sock_read_data_spec:
  assumes "os_ok os" and "0 \<le> len" and "len < 2 ^ 31"
    and "sock_read_data os fd len w = ((nread, bs), w')"
  shows "nread = - 1 \<and> bs = [] \<or> nread = int (length bs) \<and> length bs \<le> nat len"
proof -
  have "c_size len = len" using assms(2,3) by (intro c_size_nonneg_int)
  moreover have "int (length xs) \<le> len" if "sys_read os fd len w = (Inr xs, w')" for xs w'
    using that assms(1) unfolding os_ok_def by blast
  ultimately show ?thesis
    using assms(2-4) by (auto simp: sock_read_data_def c_int_id split: prod.splits sum.splits if_splits)
qed

lemma accept_loop_EAGAIN: "accept_loop os sock (Inl EAGAIN) w = None"
proof (rule ccontr)
  assume "accept_loop os sock (Inl EAGAIN) w \<noteq> None"
  then obtain y where y: "accept_loop os sock (Inl EAGAIN) w = Some y" by blast
  have "(Inl EAGAIN :: errno + int \<times> sockaddr) \<noteq> Inl EAGAIN"
    by (rule accept_loop.raw_induct [where P = "\<lambda>os sock r w y. r \<noteq> Inl EAGAIN", OF _ y])
      (auto split: sum.splits if_splits)
  then show False by simp
qed

lemma accept_loop_cases:
  "accept_loop os sock r w = (case r of Inr c \<Rightarrow> Some (Some c, w)
     | Inl e \<Rightarrow> if e = EAGAIN then None else Some (None, sys_close os sock w))"
proof (cases r)
  case (Inl e)
  then show ?thesis
    by (cases "e = EAGAIN") (simp_all add: accept_loop_EAGAIN, simp add: accept_loop.simps)
next
  case (Inr c)
  then show ?thesis by (simp add: accept_loop.simps)
qed

section \<open>Properties of the socket functions\<close>

text \<open>
  No descriptor leaks when the listening socket cannot be set up: whenever
  \<^verbatim>\<open>create_tcp_socket\<close> returns -1 although the socket was created, closing that socket is the
  last thing it does; and a result that is not -1 is the socket that was created.
\<close>

lemma create_tcp_socket_no_leak:
  assumes "create_tcp_socket os addr port w = (r, w')" and "sys_socket os w = (Inr sock, w1)"
    and "sock \<noteq> - 1"
  shows "r = sock \<or> r = - 1 \<and> (\<exists>w2. w' = sys_close os sock w2)"
  using assms by (auto simp: create_tcp_socket_def split: option.splits prod.splits)

text \<open>A world that counts the calls, in which binding fails.\<close>

definition busy_os :: "int list os" where
  "busy_os = \<lparr>sys_socket = (\<lambda>w. (Inr 3, w)), sys_reuseaddr = (\<lambda>fd w. (None, w)),
     inet_aton = (\<lambda>s. Some 1), inet_ntop = (\<lambda>a. ''127.0.0.1''),
     sys_bind = (\<lambda>fd sa w. (Some (EOther 98), w)), sys_listen = (\<lambda>fd n w. (None, w)),
     sys_accept = (\<lambda>fd w. (Inl EAGAIN, w)), sys_close = (\<lambda>fd w. w @ [fd]),
     sys_getfl = (\<lambda>fd w. (Inr 2, w)), sys_setfl = (\<lambda>fd fl w. (None, w)),
     sys_nodelay = (\<lambda>fd w. (None, w)), sys_getpeername = (\<lambda>fd w. (Inr \<lparr>sin_port = 80, sin_addr = 1\<rparr>, w)),
     sys_read = (\<lambda>fd n w. (Inl EAGAIN, w)), sys_write = (\<lambda>fd bs w. (Inr (length bs), w)),
     sys_pipe = (\<lambda>w. (Inr (4, 5), w))\<rparr>"

text \<open>
  A listening socket that is not ready hangs the thread: when \<^verbatim>\<open>accept\<close> reports EAGAIN
  the loop tests the same stale result forever and \<^verbatim>\<open>tcp_accept\<close> never returns. In every other
  case it returns, with the accepted descriptor or, after closing the listening socket, -1.
\<close>

lemma tcp_accept_returns_iff:
  "(tcp_accept os fd w = None \<longleftrightarrow> fst (sys_accept os fd w) = Inl EAGAIN) \<and>
   (\<forall>cfd sa w1. sys_accept os fd w = (Inr (cfd, sa), w1) \<longrightarrow>
      tcp_accept os fd w = Some (Some (cfd, inet_ntop os (sin_addr sa), uint (sin_port sa)), w1)) \<and>
   (\<forall>e w1. sys_accept os fd w = (Inl e, w1) \<longrightarrow> e \<noteq> EAGAIN \<longrightarrow>
      tcp_accept os fd w = Some (None, sys_close os fd w1))"
  by (cases "sys_accept os fd w"; cases "fst (sys_accept os fd w)")
    (auto simp: tcp_accept_def generic_accept_def accept_loop_cases)

end
