(* ===== verification/RtcMsg.thy ===== *)
theory RtcMsg
  imports LockFreeQueue Sockets
begin

text \<open>
  \<^verbatim>\<open>xrtc_server/src/base/xrtcserver_def.h\<close>: the message that travels from a signaling worker
  through the RTC server to an RTC worker and back, the queue of such messages that two of the
  threads guard with a mutex, and the pipe over which a thread is told that something waits
  for it. A message is a value: the code passes one shared object along, and only the thread
  that has taken it from a queue uses it.
\<close>

section \<open>Messages\<close>

definition CMDNO_PUSH :: int where "CMDNO_PUSH = 1"
definition CMDNO_PULL :: int where "CMDNO_PULL = 2"
definition CMDNO_ANSWER :: int where "CMDNO_ANSWER = 3"
definition CMDNO_STOPPUSH :: int where "CMDNO_STOPPUSH = 4"
definition CMDNO_STOPPULL :: int where "CMDNO_STOPPULL = 5"
definition MAX_RES_BUF :: nat where "MAX_RES_BUF = 4096"

lemmas cmdnos = CMDNO_PUSH_def CMDNO_PULL_def CMDNO_ANSWER_def CMDNO_STOPPUSH_def CMDNO_STOPPULL_def

record rtc_msg =
  m_cmdno :: int
  m_stream_name :: string
  m_audio :: int
  m_video :: int
  m_uid :: int
  m_certificate :: ptr
  m_log_id :: int
  m_worker :: ptr
  m_conn :: ptr
  m_fd :: int
  m_sdp :: string
  m_err_no :: int

text \<open>\<^verbatim>\<open>make_shared<RtcMsg>()\<close> followed by the assignments of the fields without a default.\<close>

definition new_rtc_msg :: "int \<Rightarrow> string \<Rightarrow> int \<Rightarrow> int \<Rightarrow> int \<Rightarrow> int \<Rightarrow> rtc_msg" where
  "new_rtc_msg cmdno name audio video uid log_id =
     \<lparr>m_cmdno = cmdno, m_stream_name = name, m_audio = audio, m_video = video, m_uid = uid,
      m_certificate = None, m_log_id = log_id, m_worker = None, m_conn = None, m_fd = - 1,
      m_sdp = [], m_err_no = 0\<rparr>"

definition RtcMsg_to_string :: "rtc_msg \<Rightarrow> string" where
  "RtcMsg_to_string m =
     ''cmdno: '' @ to_string (m_cmdno m) @ '', stream_name: '' @ m_stream_name m @
     '', audio: '' @ to_string (m_audio m) @ '', video: '' @ to_string (m_video m) @
     '', uid: '' @ to_string (m_uid m) @ '', log_id: '' @ to_string (m_log_id m)"

section \<open>The queue under a mutex\<close>

text \<open>
  A \<^verbatim>\<open>std::queue\<close> used only inside a lock is a list. \<open>RtcServer\<close> and \<open>SignalingServerWorker\<close>
  both push with a lock held and pop with a lock held, returning null when nothing is queued.
\<close>

definition mq_push :: "'m \<Rightarrow> 'm list \<Rightarrow> 'm list" where
  "mq_push m q = q @ [m]"

definition mq_pop :: "'m list \<Rightarrow> 'm list \<times> 'm option" where
  "mq_pop q = (case q of [] \<Rightarrow> ([], None) | m # q' \<Rightarrow> (q', Some m))"

interpretation mq: fifo "\<lambda>_ m q. Some (mq_push m q)" "\<lambda>q. Some (mq_pop q)" "\<lambda>q. q" "\<lambda>_. True" "\<lambda>(_ :: unit) _. True"
  by unfold_locales (auto simp: mq_push_def mq_pop_def)

section \<open>The notification pipe\<close>

text \<open>
  \<^verbatim>\<open>write(_notify_send_fd, &msg, sizeof(msg))\<close>: all four classes that own a pipe write the
  notification as the bytes of one \<^verbatim>\<open>int\<close> and compare the result with its size.
\<close>

definition notify_write :: "'w os \<Rightarrow> int \<Rightarrow> int \<Rightarrow> 'w \<Rightarrow> bool \<times> 'w" where
  "notify_write os fd msg w =
     (case sys_write os fd (le32 (word_of_int msg)) w of
        (Inl e, w1) \<Rightarrow> (False, w1)
      | (Inr n, w1) \<Rightarrow> (n = 4, w1))"

text \<open>\<^verbatim>\<open>read(fd, &msg, sizeof(msg))\<close> in the callbacks: a short read is reported and ignored.\<close>

definition notify_read :: "'w os \<Rightarrow> int \<Rightarrow> 'w \<Rightarrow> int option \<times> 'w" where
  "notify_read os fd w =
     (case sys_read os fd 4 w of
        (Inl e, w1) \<Rightarrow> (None, w1)
      | (Inr bs, w1) \<Rightarrow> (if length bs = 4 then Some (sint (get_le32 0 bs)) else None, w1))"

text \<open>The four bytes of a notification read back as the number that was written.\<close>

lemma notify_roundtrip:
  assumes "- (2 ^ 31) \<le> msg" and "msg < 2 ^ 31"
  shows "sint (get_le32 0 (le32 (word_of_int msg))) = msg"
proof -
  have "get_le32 0 (le32 (word_of_int msg)) = (word_of_int msg :: 32 word)"
    using get_le32_at [of "[]" 0 "word_of_int msg" "[]"] by simp
  moreover have "sint (word_of_int msg :: 32 word) = signed_take_bit 31 msg"
    by (simp add: sint_sbintrunc')
  ultimately show ?thesis
    using assms by (simp add: signed_take_bit_int_eq_self_iff)
qed

end
