(* ===== verification/StringEncode.thy ===== *)
theory StringEncode
  imports XrtcPrelude
begin

text \<open>
  \<^verbatim>\<open>rtc_base/string_encode.cc\<close>: hexadecimal text with an optional delimiter between bytes (the
  form of a certificate fingerprint in an offer), and splitting, tokenizing and joining of
  delimited strings. A delimiter of \<^verbatim>\<open>0\<close> (no delimiter) is \<open>None\<close>. The result of decoding is
  the list of decoded bytes; the error return 0 is the empty list.
\<close>

section \<open>Hexadecimal text\<close>

definition HEX :: string where
  "HEX = ''0123456789abcdef''"

definition hex_encode_nibble :: "nat \<Rightarrow> char" where
  "hex_encode_nibble v = (if v < 16 then HEX ! v else CHR ''!'')"

definition hex_decode_char :: "char \<Rightarrow> nat option" where
  "hex_decode_char ch =
     (let c = of_char ch :: nat in
      if 48 \<le> c \<and> c \<le> 57 then Some (c - 48)
      else if 65 \<le> c \<and> c \<le> 70 then Some (c - 65 + 10)
      else if 97 \<le> c \<and> c \<le> 102 then Some (c - 97 + 10)
      else None)"

definition hex_encode_output_length :: "nat \<Rightarrow> char option \<Rightarrow> nat" where
  "hex_encode_output_length srclen delimiter =
     (if delimiter \<noteq> None \<and> srclen > 0 then srclen * 3 - 1 else srclen * 2)"

fun hex_encode_with_delimiter :: "bytes \<Rightarrow> char option \<Rightarrow> string" where
  "hex_encode_with_delimiter [] d = []"
| "hex_encode_with_delimiter (ch # src) d =
     hex_encode_nibble (unat (drop_bit 4 ch AND 0xF)) # hex_encode_nibble (unat (ch AND 0xF))
     # (case d of Some c \<Rightarrow> if src \<noteq> [] then [c] else [] | None \<Rightarrow> [])
     @ hex_encode_with_delimiter src d"

text \<open>
  The loop of \<^verbatim>\<open>hex_decode_with_delimiter\<close> on the part of the source not read yet; \<open>None\<close> is a
  \<^verbatim>\<open>return 0\<close>.
\<close>

function hex_decode_loop :: "string \<Rightarrow> char option \<Rightarrow> bytes option" where
  "hex_decode_loop src d =
     (if src = [] then Some []
      else if length src < 2 then None
      else case (hex_decode_char (src ! 0), hex_decode_char (src ! 1)) of
          (Some h1, Some h2) \<Rightarrow>
            (let rest = drop 2 src; b = word_of_nat (16 * h1 + h2) in
             case d of
               Some c \<Rightarrow>
                 if length rest > 1
                 then (if rest ! 0 \<noteq> c then None else map_option (Cons b) (hex_decode_loop (drop 1 rest) d))
                 else map_option (Cons b) (hex_decode_loop rest d)
             | None \<Rightarrow> map_option (Cons b) (hex_decode_loop rest d))
        | _ \<Rightarrow> None)"
  by pat_completeness auto
termination
  by (relation "measure (\<lambda>(src, d). length src)") auto

declare hex_decode_loop.simps [simp del]

definition hex_decode_with_delimiter :: "nat \<Rightarrow> string \<Rightarrow> char option \<Rightarrow> bytes" where
  "hex_decode_with_delimiter buflen source d =
     (if buflen = 0 then []
      else let srclen = length source; needed = (if d \<noteq> None then (srclen + 1) div 3 else srclen div 2)
        in if buflen < needed then []
           else case hex_decode_loop source d of None \<Rightarrow> [] | Some bs \<Rightarrow> bs)"

section \<open>Splitting and joining\<close>

text \<open>
  The scanning loops of \<^verbatim>\<open>split\<close> and \<^verbatim>\<open>tokenize\<close>: \<open>cur\<close> is the text since the last delimiter.
\<close>

fun split_loop :: "char \<Rightarrow> string \<Rightarrow> string \<Rightarrow> string list" where
  "split_loop d cur [] = [cur]"
| "split_loop d cur (c # cs) = (if c = d then cur # split_loop d [] cs else split_loop d (cur @ [c]) cs)"

definition split :: "string \<Rightarrow> char \<Rightarrow> string list" where
  "split source d = split_loop d [] source"

fun tokenize_loop :: "char \<Rightarrow> string \<Rightarrow> string \<Rightarrow> string list" where
  "tokenize_loop d cur [] = (if cur \<noteq> [] then [cur] else [])"
| "tokenize_loop d cur (c # cs) =
     (if c = d then (if cur \<noteq> [] then [cur] else []) @ tokenize_loop d [] cs
      else tokenize_loop d (cur @ [c]) cs)"

definition tokenize :: "string \<Rightarrow> char \<Rightarrow> string list" where
  "tokenize source d = tokenize_loop d [] source"

definition tokenize_first :: "string \<Rightarrow> char \<Rightarrow> (string \<times> string) option" where
  "tokenize_first source d =
     (if d \<in> set source
      then Some (takeWhile (\<lambda>c. c \<noteq> d) source,
                 dropWhile (\<lambda>c. c = d) (dropWhile (\<lambda>c. c \<noteq> d) source))
      else None)"

fun join :: "string list \<Rightarrow> char \<Rightarrow> string" where
  "join [] d = []"
| "join [s] d = s"
| "join (s # t # ss) d = s @ d # join (t # ss) d"

section \<open>Round trips\<close>

lemma less_16_cases:
  "(v :: nat) < 16 \<Longrightarrow> v \<in> {0, 1, 2, 3, 4, 5, 6, 7, 8, 9, 10, 11, 12, 13, 14, 15}"
  by (simp, arith)

lemma hex_nibble_roundtrip: "v < 16 \<Longrightarrow> hex_decode_char (hex_encode_nibble v) = Some v"
  by (drule less_16_cases) (auto simp: hex_decode_char_def hex_encode_nibble_def HEX_def Let_def)

text \<open>The upper-case form, as it appears in an offer, decodes to the same value.\<close>

definition to_upper :: "char \<Rightarrow> char" where
  "to_upper c = (let n = of_char c :: nat in if 97 \<le> n \<and> n \<le> 122 then char_of (n - 32) else c)"

lemma hex_upper_roundtrip: "v < 16 \<Longrightarrow> hex_decode_char (to_upper (hex_encode_nibble v)) = Some v"
  by (drule less_16_cases)
    (auto simp: hex_decode_char_def hex_encode_nibble_def HEX_def Let_def to_upper_def)

lemma nibbles:
  fixes b :: byte
  shows "unat (drop_bit 4 b AND 0xF) < 16" "unat (b AND 0xF) < 16"
    "word_of_nat (16 * unat (drop_bit 4 b AND 0xF) + unat (b AND 0xF)) = b"
proof -
  have m: "w AND 0xF = take_bit 4 w" for w :: byte
    by (simp add: take_bit_eq_mask mask_eq_exp_minus_1)
  have lo: "b AND 0xF = take_bit 4 b" by (rule m)
  have hi: "drop_bit 4 b AND 0xF = drop_bit 4 b" unfolding m
    by (rule bit_word_eqI) (auto simp: bit_simps dest: bit_imp_le_length)
  show "unat (b AND 0xF) < 16" unfolding lo
    using take_bit_nat_less_exp [of 4 "unat b"] by (simp add: unsigned_take_bit_eq)
  have u: "unat (drop_bit 4 b) = unat b div 16"
    by (simp only: unat_drop_bit_eq drop_bit_eq_div [of 4 "unat b"]) simp
  have "unat b < 256" using unsigned_less [of b] by simp
  then show "unat (drop_bit 4 b AND 0xF) < 16" unfolding hi u by simp
  have "unat (take_bit 4 b) = unat b mod 16"
    by (simp only: unsigned_take_bit_eq take_bit_eq_mod [of 4 "unat b"]) simp
  then have "16 * unat (drop_bit 4 b) + unat (take_bit 4 b) = unat b"
    using u by simp
  then show "word_of_nat (16 * unat (drop_bit 4 b AND 0xF) + unat (b AND 0xF)) = b"
    unfolding lo hi by simp
qed

lemma length_hex_encode:
  "length (hex_encode_with_delimiter bs d) = hex_encode_output_length (length bs) d"
  by (induction bs d rule: hex_encode_with_delimiter.induct)
    (auto simp: hex_encode_output_length_def split: option.splits)

text \<open>
  Decoding inverts encoding, also after a change of letter case \<open>f\<close> that keeps the value of
  every digit and the delimiter.
\<close>

lemma hex_decode_loop_encode:
  assumes digit: "\<And>v. v < 16 \<Longrightarrow> hex_decode_char (f (hex_encode_nibble v)) = Some v"
    and delim: "case d of Some c \<Rightarrow> f c = c | None \<Rightarrow> True"
  shows "hex_decode_loop (map f (hex_encode_with_delimiter bs d)) d = Some bs"
proof (induction bs)
  case Nil
  show ?case by (simp add: hex_decode_loop.simps)
next
  case (Cons b bs)
  have two: "2 \<le> length (hex_encode_with_delimiter bs d)" if "bs \<noteq> []"
    using that by (cases bs) auto
  define hi lo where "hi = unat (drop_bit 4 b AND 0xF)" and "lo = unat (b AND 0xF)"
  have hl: "hi < 16" "lo < 16" "word_of_nat (16 * hi + lo) = b"
    unfolding hi_def lo_def by (rule nibbles)+
  have enc: "hex_encode_with_delimiter (b # bs) d = hex_encode_nibble hi # hex_encode_nibble lo
      # (case d of Some c \<Rightarrow> if bs \<noteq> [] then [c] else [] | None \<Rightarrow> []) @ hex_encode_with_delimiter bs d"
    by (simp only: hex_encode_with_delimiter.simps hi_def lo_def)
  note dig = digit [OF hl(1)] digit [OF hl(2)]
  show ?case
  proof (cases d)
    case None
    with Cons dig hl(3) show ?thesis
      unfolding enc by (subst hex_decode_loop.simps) (simp add: Let_def)
  next
    case (Some c)
    show ?thesis
    proof (cases "bs = []")
      case True
      with Some dig hl(3) show ?thesis
        unfolding enc by (subst hex_decode_loop.simps) (simp add: hex_decode_loop.simps Let_def)
    next
      case False
      with Some dig hl(3) two delim Cons show ?thesis
        unfolding enc by (subst hex_decode_loop.simps) (auto simp: Let_def)
    qed
  qed
qed

text \<open>The number of decoded bytes is never more than the space the function checks for.\<close>

lemma hex_decode_loop_SomeD:
  assumes "hex_decode_loop src d = Some bs" and "src \<noteq> []"
  shows "\<exists>b bs' rest. bs = b # bs' \<and> hex_decode_loop rest d = Some bs' \<and> length rest < length src \<and>
    (if d = None then length src = length rest + 2
     else length src = length rest + 3 \<or> length src = length rest + 2 \<and> length rest \<le> 1)"
proof (cases d)
  case None
  have "\<exists>b bs'. bs = b # bs' \<and> hex_decode_loop (drop 2 src) d = Some bs' \<and> 2 \<le> length src"
    using assms None
    by (subst (asm) hex_decode_loop.simps) (auto simp: Let_def not_less split: if_splits option.splits)
  then obtain b bs' where "bs = b # bs'" "hex_decode_loop (drop 2 src) d = Some bs'" "2 \<le> length src"
    by blast
  with None show ?thesis by (intro exI [of _ b] exI [of _ bs'] exI [of _ "drop 2 src"]) auto
next
  case (Some c)
  have "\<exists>b bs'. bs = b # bs' \<and>
      (hex_decode_loop (drop 3 src) d = Some bs' \<and> 3 \<le> length src \<or>
       hex_decode_loop (drop 2 src) d = Some bs' \<and> 2 \<le> length src \<and> length src \<le> 3)"
    using assms Some
    by (subst (asm) hex_decode_loop.simps) (auto simp: Let_def not_less eval_nat_numeral split: if_splits option.splits)
  then obtain b bs' where r: "bs = b # bs'"
      "hex_decode_loop (drop 3 src) d = Some bs' \<and> 3 \<le> length src \<or>
       hex_decode_loop (drop 2 src) d = Some bs' \<and> 2 \<le> length src \<and> length src \<le> 3" by blast
  from r(2) show ?thesis
  proof
    assume "hex_decode_loop (drop 3 src) d = Some bs' \<and> 3 \<le> length src"
    with r(1) Some show ?thesis by (intro exI [of _ b] exI [of _ bs'] exI [of _ "drop 3 src"]) auto
  next
    assume "hex_decode_loop (drop 2 src) d = Some bs' \<and> 2 \<le> length src \<and> length src \<le> 3"
    with r(1) Some show ?thesis by (intro exI [of _ b] exI [of _ bs'] exI [of _ "drop 2 src"]) auto
  qed
qed

lemma hex_decode_loop_length:
  "hex_decode_loop src d = Some bs \<Longrightarrow>
   length bs \<le> (if d \<noteq> None then (length src + 1) div 3 else length src div 2)"
proof (induction src arbitrary: bs rule: length_induct)
  case (1 src)
  show ?case
  proof (cases "src = []")
    case True
    with 1(2) show ?thesis by (simp add: hex_decode_loop.simps)
  next
    case False
    with hex_decode_loop_SomeD [OF 1(2)] obtain b bs' rest where r: "bs = b # bs'"
        "hex_decode_loop rest d = Some bs'" "length rest < length src"
        "if d = None then length src = length rest + 2
         else length src = length rest + 3 \<or> length src = length rest + 2 \<and> length rest \<le> 1"
      by blast
    from 1(1) r(2,3) have "length bs' \<le> (if d \<noteq> None then (length rest + 1) div 3 else length rest div 2)"
      by blast
    with r(1,4) show ?thesis by (auto split: if_splits)
  qed
qed

lemma join_split_loop: "join (split_loop d cur s) d = cur @ s"
proof (induction s arbitrary: cur)
  case Nil
  then show ?case by simp
next
  case (Cons c s)
  have ne: "split_loop d x s \<noteq> []" for x by (induction s arbitrary: x) auto
  have "join (a # xs) d = a @ d # join xs d" if "xs \<noteq> []" for a xs
    using that by (cases xs) auto
  with Cons ne show ?case by auto
qed

lemma split_loop_field: "d \<notin> set s \<Longrightarrow> split_loop d cur (s @ d # t) = (cur @ s) # split_loop d [] t"
  by (induction s arbitrary: cur) auto

lemma split_loop_last: "d \<notin> set s \<Longrightarrow> split_loop d cur s = [cur @ s]"
  by (induction s arbitrary: cur) auto

lemma split_join:
  "fields \<noteq> [] \<Longrightarrow> \<forall>f \<in> set fields. d \<notin> set f \<Longrightarrow> split (join fields d) d = fields"
  by (induction fields d rule: join.induct)
    (auto simp: split_def split_loop_last split_loop_field)

lemma tokenize_loop_split:
  "tokenize_loop d cur s = filter (\<lambda>f. f \<noteq> []) (split_loop d cur s)"
  by (induction s arbitrary: cur) auto

lemma hex_decode_whole:
  assumes "length bs \<le> buflen" and "bs \<noteq> []"
    and "hex_decode_loop (map f (hex_encode_with_delimiter bs d)) d = Some bs"
  shows "hex_decode_with_delimiter buflen (map f (hex_encode_with_delimiter bs d)) d = bs"
proof -
  have "(hex_encode_output_length (length bs) d + 1) div 3 \<le> length bs" if "d \<noteq> None"
    using that by (auto simp: hex_encode_output_length_def)
  moreover have "hex_encode_output_length (length bs) None div 2 = length bs"
    by (simp add: hex_encode_output_length_def)
  moreover have "0 < buflen" using assms(1,2) by (cases bs) auto
  ultimately show ?thesis
    using assms by (auto simp: hex_decode_with_delimiter_def Let_def length_hex_encode)
qed

lemma hex_decode_upper:
  assumes "length bs \<le> buflen" and "bs \<noteq> []" and "case d of Some c \<Rightarrow> to_upper c = c | None \<Rightarrow> True"
  shows "hex_decode_with_delimiter buflen (map to_upper (hex_encode_with_delimiter bs d)) d = bs"
  by (rule hex_decode_whole [OF assms(1,2)], rule hex_decode_loop_encode)
    (auto simp: hex_upper_roundtrip assms(3))

section \<open>Properties of the encodings\<close>

text \<open>
  Hexadecimal text round-trips, with or without a delimiter and with the letters in upper
  or lower case: decoding into a large enough buffer what was encoded gives the bytes back.
\<close>

lemma hex_roundtrip:
  assumes "length bs \<le> buflen" and "bs \<noteq> []" and "case d of Some c \<Rightarrow> to_upper c = c | None \<Rightarrow> True"
  shows "hex_decode_with_delimiter buflen (hex_encode_with_delimiter bs d) d = bs \<and>
    hex_decode_with_delimiter buflen (map to_upper (hex_encode_with_delimiter bs d)) d = bs"
proof -
  have "hex_decode_loop (map (\<lambda>c. c) (hex_encode_with_delimiter bs d)) d = Some bs"
    by (rule hex_decode_loop_encode) (auto simp: hex_nibble_roundtrip split: option.splits)
  from hex_decode_whole [OF assms(1,2) this] hex_decode_upper [OF assms] show ?thesis by simp
qed

text \<open>
  Decoding stays inside the caller's buffer for every input: the bytes decoded are at most
  \<open>buflen\<close>, and encoding produces exactly the length that is allocated for it.
\<close>

lemma hex_bounds:
  "length (hex_decode_with_delimiter buflen source d) \<le> buflen \<and>
   length (hex_encode_with_delimiter bs d) = hex_encode_output_length (length bs) d"
  using hex_decode_loop_length [of source d]
  by (fastforce simp: hex_decode_with_delimiter_def Let_def length_hex_encode
      split: option.splits if_splits)

text \<open>
  \<^verbatim>\<open>split\<close> and \<^verbatim>\<open>join\<close> are inverse: joining what \<^verbatim>\<open>split\<close> returns gives the source back,
  and splitting a joined list of fields without delimiters gives the fields back;
  \<^verbatim>\<open>tokenize\<close> returns the non-empty fields of \<^verbatim>\<open>split\<close>.
\<close>

lemma split_join_inverse:
  "join (split source d) d = source \<and>
   (fields \<noteq> [] \<longrightarrow> (\<forall>f \<in> set fields. d \<notin> set f) \<longrightarrow> split (join fields d) d = fields) \<and>
   tokenize source d = filter (\<lambda>f. f \<noteq> []) (split source d)"
  by (simp add: split_join join_split_loop tokenize_loop_split tokenize_def split_def [of source])

end
