(* ===== verification/Credentials.thy ===== *)
theory Credentials
  imports XrtcPrelude
begin

text \<open>
  Random strings (\<^verbatim>\<open>rtc_base/helpers.cc\<close>) and the ICE credentials made of them
  (\<^verbatim>\<open>xrtc_server/src/ice\<close>). \<^verbatim>\<open>RAND_bytes\<close> of OpenSSL is a parameter: given a length and the
  state of the world it returns the bytes, or nothing when it fails. A failed \<^verbatim>\<open>RTC_CHECK\<close>,
  which ends the process, is \<open>None\<close>.
\<close>

section \<open>Random generators\<close>

type_synonym 'w rand_bytes = "nat \<Rightarrow> 'w \<Rightarrow> bytes option \<times> 'w"

datatype rng = SecureRandomGenerator | TestRandomGenerator int

definition GetRandom :: "int \<Rightarrow> int \<times> int" where
  "GetRandom seed = (let s = c_int (seed * 214013 + 2531011) in (drop_bit 16 s AND 0x7fff, s))"

fun test_generate :: "nat \<Rightarrow> int \<Rightarrow> bytes \<times> int" where
  "test_generate 0 seed = ([], seed)"
| "test_generate (Suc n) seed =
     (let (x, seed1) = GetRandom seed; (bs, seed2) = test_generate n seed1
      in (word_of_int x # bs, seed2))"

definition Generate :: "'w rand_bytes \<Rightarrow> rng \<Rightarrow> nat \<Rightarrow> 'w \<Rightarrow> bytes option \<times> rng \<times> 'w" where
  "Generate rand g len w =
     (case g of
        SecureRandomGenerator \<Rightarrow> (case rand len w of (r, w1) \<Rightarrow> (r, g, w1))
      | TestRandomGenerator seed \<Rightarrow>
          (case test_generate len seed of (bs, seed1) \<Rightarrow> (Some bs, TestRandomGenerator seed1, w)))"

definition SetRandomTestMode :: "bool \<Rightarrow> rng" where
  "SetRandomTestMode test = (if \<not> test then SecureRandomGenerator else TestRandomGenerator 7)"

section \<open>Random strings\<close>

definition kBase64 :: string where
  "kBase64 = ''ABCDEFGHIJKLMNOPQRSTUVWXYZabcdefghijklmnopqrstuvwxyz0123456789+/''"

definition kHex :: string where
  "kHex = ''0123456789abcdef''"

definition kUuidDigit17 :: string where
  "kUuidDigit17 = ''89ab''"

text \<open>
  The static three-argument \<^verbatim>\<open>CreateRandomString\<close>: \<open>None\<close> is the result \<^verbatim>\<open>false\<close>. An empty table
  makes \<^verbatim>\<open>256 % table_size\<close> a division by zero, which the source does not guard; it is
  reported as failure here and excluded from every statement.
\<close>

definition table_char :: "string \<Rightarrow> byte \<Rightarrow> char" where
  "table_char table b = table ! (unat b mod length table)"

definition CreateRandomString_table ::
    "'w rand_bytes \<Rightarrow> nat \<Rightarrow> string \<Rightarrow> rng \<Rightarrow> 'w \<Rightarrow> string option \<times> rng \<times> 'w" where
  "CreateRandomString_table rand len table g w =
     (if table = [] \<or> 256 mod length table \<noteq> 0 then (None, g, w)
      else case Generate rand g len w of
          (None, g1, w1) \<Rightarrow> (None, g1, w1)
        | (Some bs, g1, w1) \<Rightarrow> (Some (map (table_char table) (take len bs)), g1, w1))"

definition CreateRandomString :: "'w rand_bytes \<Rightarrow> nat \<Rightarrow> rng \<Rightarrow> 'w \<Rightarrow> (string \<times> rng \<times> 'w) option" where
  "CreateRandomString rand len g w =
     (case CreateRandomString_table rand len kBase64 g w of
        (None, _) \<Rightarrow> None
      | (Some s, g1, w1) \<Rightarrow> Some (s, g1, w1))"

definition hex_digits :: "bytes \<Rightarrow> nat \<Rightarrow> nat \<Rightarrow> string" where
  "hex_digits bs i j = map (table_char kHex) (take (j - i) (drop i bs))"

definition CreateRandomUuid :: "'w rand_bytes \<Rightarrow> rng \<Rightarrow> 'w \<Rightarrow> (string \<times> rng \<times> 'w) option" where
  "CreateRandomUuid rand g w =
     (case Generate rand g 31 w of
        (None, _) \<Rightarrow> None
      | (Some bs, g1, w1) \<Rightarrow>
          Some (hex_digits bs 0 8 @ ''-'' @ hex_digits bs 8 12 @ ''-'' @ ''4'' @ hex_digits bs 12 15 @
                ''-'' @ [table_char kUuidDigit17 (bs ! 15)] @ hex_digits bs 16 19 @ ''-'' @
                hex_digits bs 19 31, g1, w1))"

definition CreateRandomId :: "'w rand_bytes \<Rightarrow> rng \<Rightarrow> 'w \<Rightarrow> (32 word \<times> rng \<times> 'w) option" where
  "CreateRandomId rand g w =
     (case Generate rand g 4 w of
        (None, _) \<Rightarrow> None
      | (Some bs, g1, w1) \<Rightarrow> Some (get_le32 0 bs, g1, w1))"

section \<open>ICE credentials\<close>

definition ICE_UFRAG_LEN :: nat where "ICE_UFRAG_LEN = 4"
definition ICE_PASSWORD_LEN :: nat where "ICE_PASSWORD_LEN = 24"

record ice_parameters =
  ice_ufrag :: string
  ice_password :: string

text \<open>
  The two calls are arguments of one constructor call, whose order of evaluation the language
  leaves open; the model evaluates the fragment first. Nothing proved depends on it.
\<close>

definition create_random_ice_credentials ::
    "'w rand_bytes \<Rightarrow> rng \<Rightarrow> 'w \<Rightarrow> (ice_parameters \<times> rng \<times> 'w) option" where
  "create_random_ice_credentials rand g w =
     (case CreateRandomString rand ICE_UFRAG_LEN g w of
        None \<Rightarrow> None
      | Some (u, g1, w1) \<Rightarrow>
          (case CreateRandomString rand ICE_PASSWORD_LEN g1 w1 of
             None \<Rightarrow> None
           | Some (p, g2, w2) \<Rightarrow> Some (\<lparr>ice_ufrag = u, ice_password = p\<rparr>, g2, w2)))"

section \<open>Lemmas\<close>

text \<open>The documented behaviour of \<^verbatim>\<open>RAND_bytes\<close>: on success the whole buffer is filled.\<close>

definition rand_ok :: "'w rand_bytes \<Rightarrow> bool" where
  "rand_ok rand \<longleftrightarrow> (\<forall>n w bs w1. rand n w = (Some bs, w1) \<longrightarrow> length bs = n)"

lemma length_test_generate: "test_generate n seed = (bs, seed1) \<Longrightarrow> length bs = n"
  by (induction n arbitrary: seed bs seed1) (auto simp: Let_def split: prod.splits)

lemma Generate_length:
  "rand_ok rand \<Longrightarrow> Generate rand g n w = (Some bs, g1, w1) \<Longrightarrow> length bs = n"
  by (auto simp: Generate_def rand_ok_def length_test_generate split: rng.splits prod.splits)

lemma table_char_in: "table \<noteq> [] \<Longrightarrow> table_char table b \<in> set table"
  by (simp add: table_char_def)

lemma CreateRandomString_shape:
  assumes "rand_ok rand" and "CreateRandomString rand n g w = Some (s, g1, w1)"
  shows "length s = n \<and> set s \<subseteq> set kBase64"
proof -
  from assms(2) obtain bs where bs: "Generate rand g n w = (Some bs, g1, w1)"
      and s: "s = map (table_char kBase64) (take n bs)"
    by (auto simp: CreateRandomString_def CreateRandomString_table_def
        split: prod.splits option.splits if_splits)
  have "kBase64 \<noteq> []" by (simp add: kBase64_def)
  with Generate_length [OF assms(1) bs] s table_char_in show ?thesis by auto
qed

lemma CreateRandomString_test_mode:
  "\<exists>s seed1. CreateRandomString rand n (TestRandomGenerator seed) w = Some (s, TestRandomGenerator seed1, w)"
  by (cases "test_generate n seed")
    (simp add: CreateRandomString_def CreateRandomString_table_def Generate_def kBase64_def)

lemma length_hex_digits: "i \<le> j \<Longrightarrow> j \<le> length bs \<Longrightarrow> length (hex_digits bs i j) = j - i"
  by (simp add: hex_digits_def)

lemma hex_digits_in: "set (hex_digits bs i j) \<subseteq> set kHex"
  using table_char_in [of kHex] by (auto simp: hex_digits_def kHex_def)

text \<open>The bytes that select one entry of a table whose size divides 256.\<close>

lemma residue_class_card:
  assumes "0 < k" and "k dvd 256" and "i < k"
  shows "card {b :: byte. unat b mod k = i} = 256 div k"
proof -
  from assms(2) obtain q where q: "256 = k * q" by (rule dvdE)
  let ?f = "\<lambda>j. word_of_nat (i + k * j) :: byte"
  have bound: "i + k * j < 256" if "j < q" for j
  proof -
    have "k * j + k \<le> k * q" using that by (metis Suc_leI add.commute mult_Suc_right mult_le_mono2)
    with q assms(3) show ?thesis by linarith
  qed
  have un: "unat (?f j) = i + k * j" if "j < q" for j
    using bound [OF that] unat_of_nat [of "i + k * j", where ?'a = 8] by (simp del: of_nat_add of_nat_mult)
  have "{b :: byte. unat b mod k = i} = ?f ` {..<q}"
  proof (intro set_eqI iffI)
    fix b :: byte assume b: "b \<in> {b. unat b mod k = i}"
    have "unat b < 256" using unsigned_less [of b, where ?'a = nat] by simp
    with q have "unat b div k < q" by (metis less_mult_imp_div_less mult.commute)
    moreover have "unat b = i + k * (unat b div k)"
      using b by (metis (mono_tags) mem_Collect_eq mod_mult_div_eq)
    then have "b = ?f (unat b div k)" by (metis of_nat_unat ucast_id)
    ultimately show "b \<in> ?f ` {..<q}" by blast
  next
    fix b assume "b \<in> ?f ` {..<q}"
    then obtain j where "j < q" "b = ?f j" by auto
    with un assms(3) show "b \<in> {b. unat b mod k = i}" by simp
  qed
  moreover have "inj_on ?f {..<q}"
  proof (rule inj_onI)
    fix j j' assume "j \<in> {..<q}" "j' \<in> {..<q}" "?f j = ?f j'"
    then have "i + k * j = i + k * j'" using un by (metis lessThan_iff)
    with assms(1) show "j = j'" by simp
  qed
  ultimately have "card {b :: byte. unat b mod k = i} = q" by (simp add: card_image)
  moreover have "256 div k = q" using q assms(1) by (metis less_numeral_extra(3) nonzero_mult_div_cancel_left)
  ultimately show ?thesis by simp
qed

lemma ice_credentials_text:
  "rand_ok rand \<Longrightarrow> create_random_ice_credentials rand g w = Some (ice, g1, w1) \<Longrightarrow>
     length (ice_ufrag ice) = 4 \<and> length (ice_password ice) = 24 \<and>
     set (ice_ufrag ice) \<subseteq> set kBase64 \<and> set (ice_password ice) \<subseteq> set kBase64"
  using CreateRandomString_shape [of rand]
  by (fastforce simp: create_random_ice_credentials_def ICE_UFRAG_LEN_def ICE_PASSWORD_LEN_def
      split: option.splits prod.splits)

section \<open>Properties of the credentials\<close>

text \<open>
  The credentials of an offer have the lengths ICE asks for (a fragment of 4 and a
  password of 24 characters) and contain only base-64 characters, hence no white space and no
  line breaks, whatever random bytes were drawn; with the test generator they are always made.
\<close>

lemma ice_credentials_shape:
  "rand_ok rand \<Longrightarrow> create_random_ice_credentials rand g w = Some (ice, g1, w1) \<Longrightarrow>
     length (ice_ufrag ice) = 4 \<and> length (ice_password ice) = 24 \<and>
     set (ice_ufrag ice) \<union> set (ice_password ice) \<subseteq> set kBase64"
  by (drule (1) ice_credentials_text) simp

text \<open>
  The modulo that picks a character is unbiased, as the comment in the source asks for:
  when the size of the table divides 256 (which is checked first), every entry is chosen by
  exactly \<open>256 / size\<close> of the 256 byte values.
\<close>

lemma table_char_unbiased:
  assumes "distinct table" and "table \<noteq> []" and "256 mod length table = 0" and "c \<in> set table"
  shows "card {b. table_char table b = c} = 256 div length table"
proof -
  from assms(4) obtain i where i: "i < length table" "table ! i = c" by (metis in_set_conv_nth)
  have "{b. table_char table b = c} = {b. unat b mod length table = i}"
    using i assms(1,2) by (auto simp: table_char_def nth_eq_iff_index_eq)
  with residue_class_card [of "length table" i] i(1) assms(2,3) show ?thesis by (simp add: dvd_eq_mod_eq_0)
qed

text \<open>
  A random UUID has the version 4 form: 36 characters, dashes at the four separators, the
  version digit 4, a variant digit out of 8, 9, a, b, and hexadecimal digits everywhere else.
\<close>

lemma CreateRandomUuid_form:
  assumes "rand_ok rand" and "CreateRandomUuid rand g w = Some (s, g1, w1)"
  shows "length s = 36 \<and> (\<forall>i \<in> {8, 13, 18, 23}. s ! i = CHR ''-'') \<and> s ! 14 = CHR ''4'' \<and>
    s ! 19 \<in> set kUuidDigit17 \<and> set s \<subseteq> insert CHR ''-'' (set kHex)"
proof -
  from assms(2) obtain bs where bs: "Generate rand g 31 w = (Some bs, g1, w1)"
    and s: "s = hex_digits bs 0 8 @ ''-'' @ hex_digits bs 8 12 @ ''-'' @ ''4'' @ hex_digits bs 12 15 @
      ''-'' @ [table_char kUuidDigit17 (bs ! 15)] @ hex_digits bs 16 19 @ ''-'' @ hex_digits bs 19 31"
    by (auto simp: CreateRandomUuid_def split: prod.splits option.splits)
  have len: "length bs = 31" using Generate_length [OF assms(1) bs] .
  have d: "table_char kUuidDigit17 (bs ! 15) \<in> set kUuidDigit17"
    by (rule table_char_in) (simp add: kUuidDigit17_def)
  have "set kUuidDigit17 \<subseteq> set kHex" and "CHR ''4'' \<in> set kHex" by (auto simp: kUuidDigit17_def kHex_def)
  with d hex_digits_in [of bs] have "set s \<subseteq> insert CHR ''-'' (set kHex)" unfolding s by (simp, blast)
  moreover have "length s = 36" unfolding s using len by (simp add: length_hex_digits)
  ultimately show ?thesis
    unfolding s using len d by (simp add: nth_append length_hex_digits)
qed

end
