(* ===== verification/Certificates.thy ===== *)
theory Certificates
  imports StringEncode
begin

text \<open>
  Certificates and their fingerprints: \<^verbatim>\<open>rtc_base/rtc_certificate.cc\<close>,
  \<^verbatim>\<open>rtc_certificate_generator.cc\<close>, \<^verbatim>\<open>ssl_fingerprint.cc\<close>, the key parameters of
  \<^verbatim>\<open>ssl_identity.cc\<close> and the algorithm names of \<^verbatim>\<open>message_digest.cc\<close>. What OpenSSL computes (a
  key pair with its self-signed certificate, the digest of a certificate) is given: a
  certificate is a record of what the code asks it, and \<^verbatim>\<open>SSLIdentity::Create\<close> is a parameter.
\<close>

section \<open>Digest algorithms\<close>

definition DIGEST_MD5 :: string where "DIGEST_MD5 = ''md5''"
definition DIGEST_SHA_1 :: string where "DIGEST_SHA_1 = ''sha-1''"
definition DIGEST_SHA_224 :: string where "DIGEST_SHA_224 = ''sha-224''"
definition DIGEST_SHA_256 :: string where "DIGEST_SHA_256 = ''sha-256''"
definition DIGEST_SHA_384 :: string where "DIGEST_SHA_384 = ''sha-384''"
definition DIGEST_SHA_512 :: string where "DIGEST_SHA_512 = ''sha-512''"

definition MessageDigest_kMaxSize :: nat where "MessageDigest_kMaxSize = 64"

definition IsFips180DigestAlgorithm :: "string \<Rightarrow> bool" where
  "IsFips180DigestAlgorithm alg \<longleftrightarrow>
     alg = DIGEST_SHA_1 \<or> alg = DIGEST_SHA_224 \<or> alg = DIGEST_SHA_256 \<or> alg = DIGEST_SHA_384 \<or>
     alg = DIGEST_SHA_512"

section \<open>Key parameters\<close>

datatype key_params = RSA int int | ECDSA nat

definition EC_NIST_P256 :: nat where "EC_NIST_P256 = 0"
definition kRsaMinModSize :: int where "kRsaMinModSize = 1024"
definition kRsaMaxModSize :: int where "kRsaMaxModSize = 8192"

text \<open>\<^verbatim>\<open>KeyParams()\<close>: the default key type is \<^verbatim>\<open>KT_ECDSA\<close>.\<close>

definition KeyParams_default :: key_params where
  "KeyParams_default = ECDSA EC_NIST_P256"

definition KeyParams_IsValid :: "key_params \<Rightarrow> bool" where
  "KeyParams_IsValid k =
     (case k of
        RSA mod_size pub_exp \<Rightarrow>
          kRsaMinModSize \<le> mod_size \<and> mod_size \<le> kRsaMaxModSize \<and> mod_size < pub_exp
      | ECDSA curve \<Rightarrow> curve = EC_NIST_P256)"

section \<open>Certificates\<close>

text \<open>
  What the code asks of an \<^verbatim>\<open>SSLIdentity\<close> and its \<^verbatim>\<open>SSLCertificate\<close>: the digest algorithm of its
  signature, its digest under an algorithm (\<^verbatim>\<open>ComputeDigest\<close>), and its time of expiry in seconds
  (-1 when unknown).
\<close>

record certificate =
  cert_signature_alg :: "string option"
  cert_digest :: "string \<Rightarrow> bytes option"
  cert_expiration_time :: int

definition kNumMillisecsPerSec :: int where "kNumMillisecsPerSec = 1000"

definition Expires :: "certificate \<Rightarrow> int" where
  "Expires c =
     (let e = cert_expiration_time c in if e \<noteq> - 1 then c_size (c_size e * kNumMillisecsPerSec) else 0)"

definition HasExpired :: "certificate \<Rightarrow> int \<Rightarrow> bool" where
  "HasExpired c now \<longleftrightarrow> Expires c \<le> now"

definition kIdentityName :: string where "kIdentityName = ''WebRTC''"
definition kYearInSeconds :: int where "kYearInSeconds = 365 * 24 * 60 * 60"

type_synonym 'w ssl_create = "string \<Rightarrow> key_params \<Rightarrow> int option \<Rightarrow> 'w \<Rightarrow> certificate option \<times> 'w"

definition GenerateCertificate ::
    "'w ssl_create \<Rightarrow> key_params \<Rightarrow> int option \<Rightarrow> 'w \<Rightarrow> certificate option \<times> 'w" where
  "GenerateCertificate create key_params expires_ms w =
     (if \<not> KeyParams_IsValid key_params then (None, w)
      else case expires_ms of
          None \<Rightarrow> create kIdentityName key_params None w
        | Some ms \<Rightarrow> create kIdentityName key_params (Some (min (ms div 1000) kYearInSeconds)) w)"

section \<open>Fingerprints\<close>

record fingerprint =
  fp_algorithm :: string
  fp_digest :: bytes

definition SSLFingerprint_Create :: "string \<Rightarrow> certificate \<Rightarrow> fingerprint option" where
  "SSLFingerprint_Create algorithm cert =
     (case cert_digest cert algorithm of
        None \<Rightarrow> None
      | Some d \<Rightarrow> Some \<lparr>fp_algorithm = algorithm, fp_digest = d\<rparr>)"

definition CreateFromCertificate :: "certificate \<Rightarrow> fingerprint option" where
  "CreateFromCertificate cert =
     (case cert_signature_alg cert of
        None \<Rightarrow> None
      | Some alg \<Rightarrow> SSLFingerprint_Create alg cert)"

definition CreateUniqueFromRfc4572 :: "string \<Rightarrow> string \<Rightarrow> fingerprint option" where
  "CreateUniqueFromRfc4572 algorithm fp =
     (if algorithm = [] \<or> \<not> IsFips180DigestAlgorithm algorithm then None
      else if fp = [] then None
      else let v = hex_decode_with_delimiter MessageDigest_kMaxSize fp (Some CHR '':'') in
        if v = [] then None else Some \<lparr>fp_algorithm = algorithm, fp_digest = v\<rparr>)"

definition GetRfc4572Fingerprint :: "fingerprint \<Rightarrow> string" where
  "GetRfc4572Fingerprint fp = map to_upper (hex_encode_with_delimiter (fp_digest fp) (Some CHR '':''))"

definition SSLFingerprint_ToString :: "fingerprint \<Rightarrow> string" where
  "SSLFingerprint_ToString fp = fp_algorithm fp @ '' '' @ GetRfc4572Fingerprint fp"

section \<open>Lemmas\<close>

text \<open>
  The documented behaviour of a certificate: its digest fits the 64-byte buffer it is computed
  into and is not empty, and the algorithm of its signature is a FIPS 180 one.
\<close>

definition certificate_ok :: "certificate \<Rightarrow> bool" where
  "certificate_ok c \<longleftrightarrow>
     (\<exists>alg d. cert_signature_alg c = Some alg \<and> IsFips180DigestAlgorithm alg \<and>
        cert_digest c alg = Some d \<and> d \<noteq> [] \<and> length d \<le> 64)"

definition sample_certificate :: certificate where
  "sample_certificate =
     \<lparr>cert_signature_alg = Some ''sha-256'', cert_digest = (\<lambda>_. Some (replicate 32 171)),
      cert_expiration_time = 2000000000\<rparr>"

lemma sample_certificate_ok: "certificate_ok sample_certificate"
  by (simp add: certificate_ok_def sample_certificate_def IsFips180DigestAlgorithm_def DIGEST_SHA_256_def)

lemma length_fingerprint: "length (GetRfc4572Fingerprint fp) \<le> 3 * length (fp_digest fp)"
  by (simp add: GetRfc4572Fingerprint_def length_hex_encode hex_encode_output_length_def) linarith

lemma hex_encode_nonempty: "bs \<noteq> [] \<Longrightarrow> hex_encode_with_delimiter bs d \<noteq> []"
  by (cases bs) auto

lemma Expires_exact:
  "0 \<le> cert_expiration_time c \<Longrightarrow> cert_expiration_time c < 2 ^ 54 \<Longrightarrow>
   Expires c = 1000 * cert_expiration_time c"
  by (simp add: Expires_def Let_def kNumMillisecsPerSec_def c_size_id)

lemma fingerprint_parses:
  assumes "IsFips180DigestAlgorithm (fp_algorithm fp)" and "fp_digest fp \<noteq> []"
    and "length (fp_digest fp) \<le> MessageDigest_kMaxSize"
  shows "CreateUniqueFromRfc4572 (fp_algorithm fp) (GetRfc4572Fingerprint fp) = Some fp"
proof -
  have c: "case Some CHR '':'' of Some c \<Rightarrow> to_upper c = c | None \<Rightarrow> True" by (simp add: to_upper_def)
  have "fp_algorithm fp \<noteq> []"
    using assms(1) by (auto simp: IsFips180DigestAlgorithm_def DIGEST_SHA_1_def DIGEST_SHA_224_def
        DIGEST_SHA_256_def DIGEST_SHA_384_def DIGEST_SHA_512_def)
  moreover have "hex_decode_with_delimiter MessageDigest_kMaxSize (GetRfc4572Fingerprint fp) (Some CHR '':'') = fp_digest fp"
    unfolding GetRfc4572Fingerprint_def using hex_decode_upper [OF assms(3,2) c] .
  ultimately show ?thesis
    using assms(1,2) hex_encode_nonempty [OF assms(2)]
    by (simp add: CreateUniqueFromRfc4572_def Let_def GetRfc4572Fingerprint_def)
qed

section \<open>Properties of certificates and fingerprints\<close>

text \<open>
  A fingerprint of a FIPS 180 algorithm reads back from its RFC 4572 text, for every digest
  of at most 64 bytes: parsing the algorithm and the upper-case hexadecimal text that an offer
  contains gives the same fingerprint. So two fingerprints of
  one algorithm with the same text are equal.
\<close>

lemma fingerprint_roundtrip:
  assumes "IsFips180DigestAlgorithm (fp_algorithm fp)" and "fp_digest fp \<noteq> []"
    and "length (fp_digest fp) \<le> MessageDigest_kMaxSize"
    and "fp_algorithm fp' = fp_algorithm fp" and "fp_digest fp' \<noteq> []"
    and "length (fp_digest fp') \<le> MessageDigest_kMaxSize"
  shows "CreateUniqueFromRfc4572 (fp_algorithm fp) (GetRfc4572Fingerprint fp) = Some fp \<and>
    (GetRfc4572Fingerprint fp' = GetRfc4572Fingerprint fp \<longleftrightarrow> fp' = fp)"
  using fingerprint_parses [of fp] fingerprint_parses [of fp'] assms by (metis option.inject)

text \<open>
  Certificate lifetimes: the lifetime a certificate is generated with never exceeds a year,
  whatever was asked for; the year in milliseconds that the server asks for is exactly this
  bound; and a certificate of known expiry counts as expired from its expiry on and not before,
  while one of unknown expiry always does.
\<close>

lemma certificate_lifetime:
  assumes "KeyParams_IsValid k" and "0 \<le> cert_expiration_time c" and "cert_expiration_time c < 2 ^ 54"
  shows "(\<exists>life. GenerateCertificate create k (Some ms) w = create kIdentityName k (Some life) w \<and>
            life \<le> kYearInSeconds \<and> life \<le> ms div 1000) \<and>
     GenerateCertificate create k (Some (365 * 24 * 3600 * 1000)) w = create kIdentityName k (Some kYearInSeconds) w \<and>
     (HasExpired c now \<longleftrightarrow> 1000 * cert_expiration_time c \<le> now) \<and>
     (0 \<le> now \<longrightarrow> HasExpired (c\<lparr>cert_expiration_time := - 1\<rparr>) now)"
  using assms Expires_exact [of c]
  by (auto simp: GenerateCertificate_def HasExpired_def kYearInSeconds_def Expires_def [of "c\<lparr>cert_expiration_time := - 1\<rparr>"])

end
