(* ===== verification/SessionDescription.thy ===== *)
theory SessionDescription
  imports Certificates Credentials "HOL-Library.Monad_Syntax"
begin

text \<open>
  \<^verbatim>\<open>xrtc_server/src/pc/codec_info.h\<close> and \<^verbatim>\<open>session_description.{h,cpp}\<close>: codecs, media contents,
  content groups and transports, and the text of a session description. A null dereference
  (a video codec in an audio content has no \<^verbatim>\<open>channels\<close>) is \<open>None\<close>. A \<^verbatim>\<open>std::map\<close> is an
  association list sorted by key. \<^verbatim>\<open>MediaContentDescription::set_rtcp_mux\<close> is declared to return
  \<^verbatim>\<open>bool\<close> and has no \<^verbatim>\<open>return\<close>: what running off its end does is the parameter \<open>noret\<close> of the
  functions that call it, \<open>None\<close> when the program does not survive it and \<open>Some k\<close> when it
  goes on with some value \<open>k\<close>.
\<close>

section \<open>Codecs\<close>

record feedback_param =
  fb_id :: string
  fb_param :: string

definition FeedBackParam :: "string \<Rightarrow> string \<Rightarrow> feedback_param" where
  "FeedBackParam i param = \<lparr>fb_id = i, fb_param = param\<rparr>"

text \<open>The order of \<^verbatim>\<open>std::string\<close> and insertion into a \<^verbatim>\<open>std::map\<close> by \<^verbatim>\<open>operator[]\<close>.\<close>

fun str_less :: "string \<Rightarrow> string \<Rightarrow> bool" where
  "str_less _ [] = False"
| "str_less [] (b # bs) = True"
| "str_less (a # as) (b # bs) = ((of_char a :: nat) < of_char b \<or> a = b \<and> str_less as bs)"

fun cmap_set :: "string \<Rightarrow> string \<Rightarrow> (string \<times> string) list \<Rightarrow> (string \<times> string) list" where
  "cmap_set k v [] = [(k, v)]"
| "cmap_set k v ((k', v') # m) =
     (if k = k' then (k, v) # m
      else if str_less k k' then (k, v) # (k', v') # m
      else (k', v') # cmap_set k v m)"

text \<open>\<open>codec_channels\<close> is present exactly for an \<^verbatim>\<open>AudioCodecInfo\<close>: \<^verbatim>\<open>as_audio\<close> is null otherwise.\<close>

record codec_info =
  codec_id :: int
  codec_name :: string
  codec_clock_rate :: int
  codec_fb_params :: "feedback_param list"
  codec_params :: "(string \<times> string) list"
  codec_channels :: "int option"

definition opus_codec :: codec_info where
  "opus_codec =
     \<lparr>codec_id = 111, codec_name = ''opus'', codec_clock_rate = 48000,
      codec_fb_params = [FeedBackParam ''transport-cc'' []],
      codec_params = cmap_set ''useinbandfec'' ''1'' (cmap_set ''minptime'' ''10'' []),
      codec_channels = Some 2\<rparr>"

definition h264_codec :: codec_info where
  "h264_codec =
     \<lparr>codec_id = 107, codec_name = ''h264'', codec_clock_rate = 90000,
      codec_fb_params = [FeedBackParam ''goog-remb'' [], FeedBackParam ''transport-cc'' [],
        FeedBackParam ''ccm'' ''fir'', FeedBackParam ''nack'' [], FeedBackParam ''nack'' ''pli''],
      codec_params = cmap_set ''profile-level-id'' ''42e01''
        (cmap_set ''packetization-mode'' ''1'' (cmap_set ''level-asymmetry-allowed'' ''1'' [])),
      codec_channels = None\<rparr>"

definition rtx_codec :: codec_info where
  "rtx_codec =
     \<lparr>codec_id = 99, codec_name = ''rtx'', codec_clock_rate = 90000, codec_fb_params = [],
      codec_params = cmap_set ''apt'' (to_string (codec_id h264_codec)) [], codec_channels = None\<rparr>"

section \<open>Media contents, groups and transports\<close>

datatype SdpType = OFFER | ANSWER
datatype MediaType = AUDIO | VIDEO
datatype RtpDirection = SendOnly | ReceiveOnly | SendReceive | Inactive
datatype ConnectionRole = ROLE_NONE | ACTIVE | PASSIVE | ACTPASS | HOLECONN

record media_content =
  mc_type :: MediaType
  mc_codecs :: "codec_info list"
  mc_direction :: RtpDirection
  mc_rtcp_mux :: bool

definition AudioContentDescription :: media_content where
  "AudioContentDescription =
     \<lparr>mc_type = AUDIO, mc_codecs = [opus_codec], mc_direction = Inactive, mc_rtcp_mux = True\<rparr>"

definition VideoContentDescription :: media_content where
  "VideoContentDescription =
     \<lparr>mc_type = VIDEO, mc_codecs = [h264_codec, rtx_codec], mc_direction = Inactive, mc_rtcp_mux = True\<rparr>"

definition mid :: "media_content \<Rightarrow> string" where
  "mid d = (case mc_type d of AUDIO \<Rightarrow> ''audio'' | VIDEO \<Rightarrow> ''video'')"

definition set_direction :: "RtpDirection \<Rightarrow> media_content \<Rightarrow> media_content" where
  "set_direction dir d = d\<lparr>mc_direction := dir\<rparr>"

definition set_rtcp_mux :: "int option \<Rightarrow> bool \<Rightarrow> media_content \<Rightarrow> media_content option" where
  "set_rtcp_mux noret mux d = (case noret of None \<Rightarrow> None | Some _ \<Rightarrow> Some (d\<lparr>mc_rtcp_mux := mux\<rparr>))"

record content_group =
  cg_semantic :: string
  cg_contents :: "string list"

definition ContentGroup :: "string \<Rightarrow> content_group" where
  "ContentGroup semantic = \<lparr>cg_semantic = semantic, cg_contents = []\<rparr>"

definition has_content :: "string \<Rightarrow> content_group \<Rightarrow> bool" where
  "has_content content g \<longleftrightarrow> content \<in> set (cg_contents g)"

definition add_content :: "string \<Rightarrow> content_group \<Rightarrow> content_group" where
  "add_content content g =
     (if \<not> has_content content g then g\<lparr>cg_contents := cg_contents g @ [content]\<rparr> else g)"

record transport_description =
  td_mid :: string
  td_ice_ufrag :: string
  td_ice_password :: string
  td_identity_fingerprint :: "fingerprint option"
  td_role :: ConnectionRole

record session_description =
  sd_type :: SdpType
  sd_media_descs :: "media_content list"
  sd_content_groups :: "content_group list"
  sd_transports :: "transport_description list"

definition SessionDescription_new :: "SdpType \<Rightarrow> session_description" where
  "SessionDescription_new t =
     \<lparr>sd_type = t, sd_media_descs = [], sd_content_groups = [], sd_transports = []\<rparr>"

definition add_media_desc :: "media_content \<Rightarrow> session_description \<Rightarrow> session_description" where
  "add_media_desc d sd = sd\<lparr>sd_media_descs := sd_media_descs sd @ [d]\<rparr>"

definition add_content_group :: "content_group \<Rightarrow> session_description \<Rightarrow> session_description" where
  "add_content_group g sd = sd\<lparr>sd_content_groups := sd_content_groups sd @ [g]\<rparr>"

text \<open>
  \<open>cert\<close> is the certificate argument, \<open>None\<close> for a null pointer. The result carries the
  \<^verbatim>\<open>bool\<close> that the function returns; on failure nothing is added.
\<close>

definition add_transport_info ::
    "string \<Rightarrow> ice_parameters \<Rightarrow> certificate option \<Rightarrow> session_description \<Rightarrow> bool \<times> session_description" where
  "add_transport_info m params cert sd =
     (let t = \<lparr>td_mid = m, td_ice_ufrag = ice_ufrag params, td_ice_password = ice_password params,
               td_identity_fingerprint = Option.bind cert CreateFromCertificate,
               td_role = (if sd_type sd = OFFER then ACTPASS else ACTIVE)\<rparr>
      in if cert \<noteq> None \<and> td_identity_fingerprint t = None then (False, sd)
         else (True, sd\<lparr>sd_transports := sd_transports sd @ [t]\<rparr>))"

definition get_transport :: "string \<Rightarrow> session_description \<Rightarrow> transport_description option" where
  "get_transport m sd = find (\<lambda>t. td_mid t = m) (sd_transports sd)"

definition get_group_by_name :: "string \<Rightarrow> session_description \<Rightarrow> content_group list" where
  "get_group_by_name name sd = filter (\<lambda>g. cg_semantic g = name) (sd_content_groups sd)"

section \<open>The text of a description\<close>

definition crlf :: string where
  "crlf = [CHR 0x0D, CHR 0x0A]"

definition k_media_protocol_dtls_savpf :: string where
  "k_media_protocol_dtls_savpf = ''UDP/TLS/RTP/SAVPF''"

definition k_connection_role_map :: "ConnectionRole \<Rightarrow> string" where
  "k_connection_role_map r =
     (case r of ROLE_NONE \<Rightarrow> ''none'' | ACTIVE \<Rightarrow> ''active'' | PASSIVE \<Rightarrow> ''passive''
      | ACTPASS \<Rightarrow> ''actpass'' | HOLECONN \<Rightarrow> ''holeconn'')"

fun fmtp_params :: "bool \<Rightarrow> (string \<times> string) list \<Rightarrow> string" where
  "fmtp_params isFirst [] = []"
| "fmtp_params isFirst ((k, v) # m) = (if isFirst then [] else '';'') @ k @ ''='' @ v @ fmtp_params False m"

definition add_fmtp_line :: "codec_info \<Rightarrow> string" where
  "add_fmtp_line c =
     (if codec_params c = [] then []
      else ''a=fmtp:'' @ to_string (codec_id c) @ '' '' @ fmtp_params True (codec_params c) @ crlf)"

definition add_rtcp_fb_line :: "codec_info \<Rightarrow> string" where
  "add_rtcp_fb_line c =
     concat (map (\<lambda>fb. ''a=rtcp-fb:'' @ to_string (codec_id c) @ '' '' @ fb_id fb @
       (if fb_param fb \<noteq> [] then '' '' @ fb_param fb else []) @ crlf) (codec_fb_params c))"

definition build_rtp_direction :: "media_content \<Rightarrow> string" where
  "build_rtp_direction d =
     (case mc_direction d of
        SendReceive \<Rightarrow> ''a=sendrecv'' @ crlf
      | SendOnly \<Rightarrow> ''a=sendonly'' @ crlf
      | ReceiveOnly \<Rightarrow> ''a=recvonly'' @ crlf
      | Inactive \<Rightarrow> ''a=inactive'' @ crlf)"

fun build_rtp_map :: "MediaType \<Rightarrow> codec_info list \<Rightarrow> string option" where
  "build_rtp_map t [] = Some []"
| "build_rtp_map t (c # cs) =
     do { ch \<leftarrow> (if t = AUDIO then map_option (\<lambda>n. ''/'' @ to_string n) (codec_channels c) else Some []);
          rest \<leftarrow> build_rtp_map t cs;
          Some (''a=rtpmap:'' @ to_string (codec_id c) @ '' '' @ codec_name c @ ''/'' @
                to_string (codec_clock_rate c) @ ch @ crlf @ add_rtcp_fb_line c @ add_fmtp_line c @ rest) }"

definition transport_text :: "transport_description option \<Rightarrow> string" where
  "transport_text t =
     (case t of
        None \<Rightarrow> []
      | Some t \<Rightarrow>
          ''a=ice-ufrag:'' @ td_ice_ufrag t @ crlf @ ''a=ice-pwd:'' @ td_ice_password t @ crlf @
          (case td_identity_fingerprint t of
             None \<Rightarrow> []
           | Some fp \<Rightarrow> ''a=fingerprint:'' @ fp_algorithm fp @ '' '' @ GetRfc4572Fingerprint fp @ crlf @
               ''a=setup:'' @ k_connection_role_map (td_role t) @ crlf))"

definition media_text :: "session_description \<Rightarrow> media_content \<Rightarrow> string option" where
  "media_text sd d =
     do { rtp \<leftarrow> build_rtp_map (mc_type d) (mc_codecs d);
          Some (''m='' @ mid d @ '' 9 '' @ k_media_protocol_dtls_savpf @
                concat (map (\<lambda>c. '' '' @ to_string (codec_id c)) (mc_codecs d)) @ crlf @
                ''c=IN IP4 0.0.0.0'' @ crlf @ ''a=rtcp:9 IN IP4 0.0.0.0'' @ crlf @
                ''a=mid:'' @ mid d @ crlf @ build_rtp_direction d @
                (if mc_rtcp_mux d then ''a=rtcp-mux'' @ crlf else []) @
                transport_text (get_transport (mid d) sd) @ rtp) }"

definition SessionDescription_to_string :: "session_description \<Rightarrow> string option" where
  "SessionDescription_to_string sd =
     (let groups = get_group_by_name ''BUNDLE'' sd in
      do { media \<leftarrow> those (map (media_text sd) (sd_media_descs sd));
           Some (''v=0'' @ crlf @ ''o=- 1234567890 1234567890 IN IP4 127.0.0.1'' @ crlf @
                 ''s=-'' @ crlf @ ''t=0 0'' @ crlf @
                 (if groups \<noteq> [] then ''a=group:'' @ cg_semantic (hd groups) else []) @
                 concat (map (\<lambda>g. concat (map (\<lambda>c. '' '' @ c) (cg_contents g)) @ crlf) groups) @
                 ''a=msid-semantic: WMS *'' @ crlf @ concat media) })"

section \<open>Descriptions as lists of lines\<close>

text \<open>
  The specification of the text: a list of lines, each ended by CR LF, with one section of
  lines per media content.
\<close>

definition sdp_text :: "string list \<Rightarrow> string" where
  "sdp_text ls = concat (map (\<lambda>l. l @ crlf) ls)"

definition codec_lines :: "MediaType \<Rightarrow> codec_info \<Rightarrow> string list" where
  "codec_lines t c =
     (''a=rtpmap:'' @ to_string (codec_id c) @ '' '' @ codec_name c @ ''/'' @ to_string (codec_clock_rate c) @
        (if t = AUDIO then ''/'' @ to_string (the (codec_channels c)) else [])) #
     map (\<lambda>fb. ''a=rtcp-fb:'' @ to_string (codec_id c) @ '' '' @ fb_id fb @
        (if fb_param fb \<noteq> [] then '' '' @ fb_param fb else [])) (codec_fb_params c) @
     (if codec_params c = [] then []
      else [''a=fmtp:'' @ to_string (codec_id c) @ '' '' @ fmtp_params True (codec_params c)])"

definition direction_line :: "RtpDirection \<Rightarrow> string" where
  "direction_line dir =
     (case dir of SendReceive \<Rightarrow> ''a=sendrecv'' | SendOnly \<Rightarrow> ''a=sendonly''
      | ReceiveOnly \<Rightarrow> ''a=recvonly'' | Inactive \<Rightarrow> ''a=inactive'')"

definition transport_lines :: "transport_description option \<Rightarrow> string list" where
  "transport_lines t =
     (case t of
        None \<Rightarrow> []
      | Some t \<Rightarrow>
          [''a=ice-ufrag:'' @ td_ice_ufrag t, ''a=ice-pwd:'' @ td_ice_password t] @
          (case td_identity_fingerprint t of
             None \<Rightarrow> []
           | Some fp \<Rightarrow> [''a=fingerprint:'' @ SSLFingerprint_ToString fp,
               ''a=setup:'' @ k_connection_role_map (td_role t)]))"

definition media_lines :: "session_description \<Rightarrow> media_content \<Rightarrow> string list" where
  "media_lines sd d =
     [''m='' @ mid d @ '' 9 '' @ k_media_protocol_dtls_savpf @
        concat (map (\<lambda>c. '' '' @ to_string (codec_id c)) (mc_codecs d)),
      ''c=IN IP4 0.0.0.0'', ''a=rtcp:9 IN IP4 0.0.0.0'', ''a=mid:'' @ mid d, direction_line (mc_direction d)] @
     (if mc_rtcp_mux d then [''a=rtcp-mux''] else []) @
     transport_lines (get_transport (mid d) sd) @ concat (map (codec_lines (mc_type d)) (mc_codecs d))"

definition sdp_lines :: "session_description \<Rightarrow> string list" where
  "sdp_lines sd =
     [''v=0'', ''o=- 1234567890 1234567890 IN IP4 127.0.0.1'', ''s=-'', ''t=0 0''] @
     map (\<lambda>g. ''a=group:'' @ cg_semantic g @ concat (map (\<lambda>c. '' '' @ c) (cg_contents g)))
       (get_group_by_name ''BUNDLE'' sd) @
     [''a=msid-semantic: WMS *''] @ concat (map (media_lines sd) (sd_media_descs sd))"

definition audio_codecs_ok :: "media_content \<Rightarrow> bool" where
  "audio_codecs_ok d \<longleftrightarrow> (mc_type d = AUDIO \<longrightarrow> (\<forall>c \<in> set (mc_codecs d). codec_channels c \<noteq> None))"

named_theorems sdp_simps \<open>the text of lists of lines\<close>

lemma sdp_text_simps [sdp_simps]:
  "sdp_text [] = []" "sdp_text (l # ls) = l @ crlf @ sdp_text ls"
  "sdp_text (xs @ ys) = sdp_text xs @ sdp_text ys"
  by (simp_all add: sdp_text_def)

lemma sdp_text_map [sdp_simps]: "sdp_text (map f xs) = concat (map (\<lambda>x. f x @ crlf) xs)"
  by (induction xs) (simp_all add: sdp_simps)

lemma sdp_text_concat: "sdp_text (concat lss) = concat (map sdp_text lss)"
  by (induction lss) (simp_all add: sdp_simps)

lemma codec_text:
  "sdp_text (codec_lines t c) =
     ''a=rtpmap:'' @ to_string (codec_id c) @ '' '' @ codec_name c @ ''/'' @ to_string (codec_clock_rate c) @
     (if t = AUDIO then ''/'' @ to_string (the (codec_channels c)) else []) @ crlf @
     add_rtcp_fb_line c @ add_fmtp_line c"
  by (simp add: codec_lines_def add_rtcp_fb_line_def add_fmtp_line_def sdp_simps)

lemma build_rtp_map_lines:
  "t = AUDIO \<longrightarrow> (\<forall>c \<in> set cs. codec_channels c \<noteq> None) \<Longrightarrow>
   build_rtp_map t cs = Some (sdp_text (concat (map (codec_lines t) cs)))"
proof (induction cs)
  case Nil
  then show ?case by (simp add: sdp_simps)
next
  case (Cons c cs)
  then have "build_rtp_map t cs = Some (sdp_text (concat (map (codec_lines t) cs)))" by simp
  moreover have "(if t = AUDIO then map_option (\<lambda>n. ''/'' @ to_string n) (codec_channels c) else Some []) =
      Some (if t = AUDIO then ''/'' @ to_string (the (codec_channels c)) else [])"
    using Cons.prems by auto
  ultimately show ?case by (simp add: codec_text sdp_simps)
qed

lemma transport_text_lines: "transport_text t = sdp_text (transport_lines t)"
  by (simp add: transport_text_def transport_lines_def SSLFingerprint_ToString_def sdp_simps
      split: option.splits)

lemma build_rtp_direction_line: "build_rtp_direction d = direction_line (mc_direction d) @ crlf"
  by (simp add: build_rtp_direction_def direction_line_def split: RtpDirection.splits)

lemma media_text_lines: "audio_codecs_ok d \<Longrightarrow> media_text sd d = Some (sdp_text (media_lines sd d))"
  using build_rtp_map_lines [of "mc_type d" "mc_codecs d"]
  by (simp add: audio_codecs_ok_def media_text_def media_lines_def sdp_simps transport_text_lines
      build_rtp_direction_line)

lemma those_map_Some: "\<forall>x \<in> set xs. f x = Some (g x) \<Longrightarrow> those (map f xs) = Some (map g xs)"
  by (induction xs) auto

text \<open>
  With at most one BUNDLE group, the text is the list of the lines. A second group would
  continue without \<^verbatim>\<open>a=group:\<close>.
\<close>

lemma description_text_lines:
  assumes "length (get_group_by_name ''BUNDLE'' sd) \<le> 1"
    and "\<forall>d \<in> set (sd_media_descs sd). audio_codecs_ok d"
  shows "SessionDescription_to_string sd = Some (sdp_text (sdp_lines sd))"
proof -
  have m: "those (map (media_text sd) (sd_media_descs sd)) =
      Some (map (\<lambda>d. sdp_text (media_lines sd d)) (sd_media_descs sd))"
    using assms(2) by (intro those_map_Some) (simp add: media_text_lines)
  from assms(1) consider "get_group_by_name ''BUNDLE'' sd = []"
    | g where "get_group_by_name ''BUNDLE'' sd = [g]"
    by (cases "get_group_by_name ''BUNDLE'' sd") auto
  then show ?thesis
    by cases (simp_all add: m SessionDescription_to_string_def sdp_lines_def sdp_simps sdp_text_concat comp_def Let_def)
qed

end
