(* ===== verification/PeerConnection.thy ===== *)
theory PeerConnection
  imports SessionDescription
begin

text \<open>
  \<^verbatim>\<open>xrtc_server/src/pc/peer_connection.{h,cpp}\<close> and \<^verbatim>\<open>xrtc_server/src/stream\<close>: the offer of a peer
  connection, the push stream that owns one, and the manager of the streams of an RTC worker.
  Certificates live in a heap, since a peer connection keeps a raw pointer to one that the RTC
  server owns; reading a freed or uninitialised pointer is \<open>None\<close>, as is a run that does not
  survive the missing \<^verbatim>\<open>return\<close> of \<^verbatim>\<open>set_rtcp_mux\<close> (\<open>noret\<close>) or fails an \<^verbatim>\<open>RTC_CHECK\<close>.
\<close>

section \<open>Peer connections\<close>

record rtc_offer_answer_options =
  send_audio :: bool
  send_video :: bool
  recv_audio :: bool
  recv_video :: bool
  use_rtp_mux :: bool
  use_rtcp_mux :: bool
  dtls_on :: bool

definition RTCOfferAnswerOptions :: rtc_offer_answer_options where
  "RTCOfferAnswerOptions =
     \<lparr>send_audio = True, send_video = True, recv_audio = True, recv_video = True,
      use_rtp_mux = True, use_rtcp_mux = True, dtls_on = True\<rparr>"

definition get_rtp_dir :: "bool \<Rightarrow> bool \<Rightarrow> RtpDirection" where
  "get_rtp_dir send recv =
     (if send \<and> recv then SendReceive else if send then SendOnly else if recv then ReceiveOnly else Inactive)"

text \<open>The certificate pointer is not initialised by the constructor: \<open>None\<close> until \<^verbatim>\<open>init\<close>.\<close>

record peer_connection =
  pc_local_desc :: "session_description option"
  pc_certificate :: "ptr option"

definition PeerConnection_new :: peer_connection where
  "PeerConnection_new = \<lparr>pc_local_desc = None, pc_certificate = None\<rparr>"

definition PeerConnection_init :: "ptr \<Rightarrow> peer_connection \<Rightarrow> peer_connection \<times> int" where
  "PeerConnection_init cert pc = (pc\<lparr>pc_certificate := Some cert\<rparr>, 0)"

definition cert_arg :: "certificate heap \<Rightarrow> ptr \<Rightarrow> certificate option option" where
  "cert_arg certs p = (if p = None then Some None else map_option Some (deref certs p))"

text \<open>One media section of the offer: the content, then its transport (whose result is ignored).\<close>

definition add_media ::
    "int option \<Rightarrow> certificate heap \<Rightarrow> ptr \<Rightarrow> ice_parameters \<Rightarrow> media_content \<Rightarrow> RtpDirection \<Rightarrow> bool \<Rightarrow>
     session_description \<Rightarrow> session_description option" where
  "add_media noret certs p ice d0 dir mux sd =
     do { d \<leftarrow> set_rtcp_mux noret mux (set_direction dir d0);
          cert \<leftarrow> cert_arg certs p;
          Some (snd (add_transport_info (mid d) ice cert (add_media_desc d sd))) }"

definition bundle_group :: "session_description \<Rightarrow> content_group" where
  "bundle_group sd = fold (\<lambda>d. add_content (mid d)) (sd_media_descs sd) (ContentGroup ''BUNDLE'')"

definition add_bundle :: "session_description \<Rightarrow> session_description" where
  "add_bundle sd = (if cg_contents (bundle_group sd) \<noteq> [] then add_content_group (bundle_group sd) sd else sd)"

definition create_offer ::
    "int option \<Rightarrow> 'w rand_bytes \<Rightarrow> certificate heap \<Rightarrow> rtc_offer_answer_options \<Rightarrow> peer_connection \<Rightarrow>
     rng \<Rightarrow> 'w \<Rightarrow> (string \<times> peer_connection \<times> rng \<times> 'w) option" where
  "create_offer noret rand certs opts pc g w =
     do { p \<leftarrow> pc_certificate pc;
          if dtls_on opts \<and> p = None then Some ([], pc, g, w)
          else do {
            (ice, g1, w1) \<leftarrow> create_random_ice_credentials rand g w;
            let sd0 = SessionDescription_new OFFER;
            sd1 \<leftarrow> (if recv_audio opts
              then add_media noret certs p ice AudioContentDescription
                     (get_rtp_dir (send_audio opts) (recv_audio opts)) (use_rtcp_mux opts) sd0
              else Some sd0);
            sd2 \<leftarrow> (if recv_video opts
              then add_media noret certs p ice VideoContentDescription
                     (get_rtp_dir (send_video opts) (recv_video opts)) (use_rtcp_mux opts) sd1
              else Some sd1);
            let sd3 = (if use_rtp_mux opts then add_bundle sd2 else sd2);
            offer \<leftarrow> SessionDescription_to_string sd3;
            Some (offer, pc\<lparr>pc_local_desc := Some sd3\<rparr>, g1, w1) } }"

section \<open>Streams\<close>

record push_stream =
  ps_uid :: int
  ps_stream_name :: string
  ps_audio :: bool
  ps_video :: bool
  ps_log_id :: int
  ps_pc :: peer_connection

definition PushStream_new :: "int \<Rightarrow> string \<Rightarrow> bool \<Rightarrow> bool \<Rightarrow> int \<Rightarrow> push_stream" where
  "PushStream_new uid name audio video log_id =
     \<lparr>ps_uid = uid, ps_stream_name = name, ps_audio = audio, ps_video = video, ps_log_id = log_id,
      ps_pc = PeerConnection_new\<rparr>"

definition RtcStream_start :: "ptr \<Rightarrow> push_stream \<Rightarrow> push_stream \<times> int" where
  "RtcStream_start cert s = (case PeerConnection_init cert (ps_pc s) of (pc, r) \<Rightarrow> (s\<lparr>ps_pc := pc\<rparr>, r))"

definition PushStream_options :: "push_stream \<Rightarrow> rtc_offer_answer_options" where
  "PushStream_options s =
     RTCOfferAnswerOptions\<lparr>send_audio := False, send_video := False,
       recv_audio := ps_audio s, recv_video := ps_video s\<rparr>"

definition PushStream_create_offer ::
    "int option \<Rightarrow> 'w rand_bytes \<Rightarrow> certificate heap \<Rightarrow> push_stream \<Rightarrow> rng \<Rightarrow> 'w \<Rightarrow>
     (string \<times> push_stream \<times> rng \<times> 'w) option" where
  "PushStream_create_offer noret rand certs s g w =
     do { (offer, pc, g1, w1) \<leftarrow> create_offer noret rand certs (PushStream_options s) (ps_pc s) g w;
          Some (offer, s\<lparr>ps_pc := pc\<rparr>, g1, w1) }"

text \<open>
  The manager: the registry \<^verbatim>\<open>_push_streams\<close> of pointers by stream name, and the heap of the
  streams it has allocated.
\<close>

record stream_manager =
  sm_push_streams :: "(string \<times> ptr) list"
  sm_heap :: "push_stream heap"

definition RtcStreamManager_new :: stream_manager where
  "RtcStreamManager_new = \<lparr>sm_push_streams = [], sm_heap = []\<rparr>"

definition find_push_stream :: "string \<Rightarrow> stream_manager \<Rightarrow> ptr" where
  "find_push_stream name m = (case map_of (sm_push_streams m) name of None \<Rightarrow> None | Some p \<Rightarrow> p)"

text \<open>\<open>a\<close> is the address that \<^verbatim>\<open>new PushStream\<close> returns.\<close>

definition create_push_stream ::
    "int option \<Rightarrow> 'w rand_bytes \<Rightarrow> certificate heap \<Rightarrow> addr \<Rightarrow> int \<Rightarrow> string \<Rightarrow> bool \<Rightarrow> bool \<Rightarrow> int \<Rightarrow> ptr \<Rightarrow>
     stream_manager \<Rightarrow> rng \<Rightarrow> 'w \<Rightarrow> (int \<times> string \<times> stream_manager \<times> rng \<times> 'w) option" where
  "create_push_stream noret rand certs a uid name audio video log_id cert m g w =
     do { let m1 = (case find_push_stream name m of
            None \<Rightarrow> m
          | Some old \<Rightarrow> m\<lparr>sm_push_streams := filter (\<lambda>kv. fst kv \<noteq> name) (sm_push_streams m),
                           sm_heap := release old (sm_heap m)\<rparr>);
          let s = fst (RtcStream_start cert (PushStream_new uid name audio video log_id));
          (offer, s1, g1, w1) \<leftarrow> PushStream_create_offer noret rand certs s g w;
          Some (0, offer, m1\<lparr>sm_heap := store a s1 (sm_heap m1)\<rparr>, g1, w1) }"

section \<open>The offer that is built\<close>

definition offered_transport :: "string \<Rightarrow> ice_parameters \<Rightarrow> fingerprint \<Rightarrow> transport_description" where
  "offered_transport m ice fp =
     \<lparr>td_mid = m, td_ice_ufrag = ice_ufrag ice, td_ice_password = ice_password ice,
      td_identity_fingerprint = Some fp, td_role = ACTPASS\<rparr>"

definition offered_media :: "rtc_offer_answer_options \<Rightarrow> media_content list" where
  "offered_media opts =
     (if recv_audio opts then [AudioContentDescription\<lparr>mc_direction := get_rtp_dir (send_audio opts) True,
        mc_rtcp_mux := use_rtcp_mux opts\<rparr>] else []) @
     (if recv_video opts then [VideoContentDescription\<lparr>mc_direction := get_rtp_dir (send_video opts) True,
        mc_rtcp_mux := use_rtcp_mux opts\<rparr>] else [])"

definition offered_description :: "rtc_offer_answer_options \<Rightarrow> ice_parameters \<Rightarrow> fingerprint \<Rightarrow> session_description" where
  "offered_description opts ice fp =
     \<lparr>sd_type = OFFER, sd_media_descs = offered_media opts,
      sd_content_groups = (if use_rtp_mux opts \<and> offered_media opts \<noteq> []
        then [\<lparr>cg_semantic = ''BUNDLE'', cg_contents = map mid (offered_media opts)\<rparr>] else []),
      sd_transports = map (\<lambda>d. offered_transport (mid d) ice fp) (offered_media opts)\<rparr>"

lemma mid_audio: "mc_type d = AUDIO \<Longrightarrow> mid d = ''audio''"
  by (simp add: mid_def)

lemma mid_video: "mc_type d = VIDEO \<Longrightarrow> mid d = ''video''"
  by (simp add: mid_def)

lemma create_offer_description:
  assumes "pc_certificate pc = Some (Some c)" and "deref certs (Some c) = Some cert"
    and "CreateFromCertificate cert = Some fp"
    and "create_random_ice_credentials rand g w = Some (ice, g1, w1)" and "noret = Some k"
  shows "create_offer noret rand certs opts pc g w =
    do { offer \<leftarrow> SessionDescription_to_string (offered_description opts ice fp);
         Some (offer, pc\<lparr>pc_local_desc := Some (offered_description opts ice fp)\<rparr>, g1, w1) }"
  using assms
  by (simp add: create_offer_def add_media_def set_rtcp_mux_def set_direction_def cert_arg_def
      add_transport_info_def add_media_desc_def SessionDescription_new_def add_bundle_def bundle_group_def
      add_content_def has_content_def ContentGroup_def add_content_group_def offered_description_def
      offered_media_def offered_transport_def mid_def AudioContentDescription_def VideoContentDescription_def Let_def)

lemma offered_description_text:
  "SessionDescription_to_string (offered_description opts ice fp) =
     Some (sdp_text (sdp_lines (offered_description opts ice fp)))"
  by (rule description_text_lines)
    (auto simp: offered_description_def get_group_by_name_def audio_codecs_ok_def offered_media_def
      AudioContentDescription_def VideoContentDescription_def opus_codec_def split: if_splits)

lemmas offer_defs = sdp_lines_def media_lines_def offered_description_def offered_media_def
  offered_transport_def AudioContentDescription_def VideoContentDescription_def get_group_by_name_def
  get_transport_def mid_def transport_lines_def k_media_protocol_dtls_savpf_def

section \<open>Lines of the offer\<close>

text \<open>A line of a session description: a type letter, an equals sign, and text without line breaks.\<close>

definition sdp_line :: "string \<Rightarrow> bool" where
  "sdp_line l \<longleftrightarrow> 2 \<le> length l \<and> l ! 0 \<in> set ''vostacm'' \<and> l ! 1 = CHR ''='' \<and>
     CHR 0x0D \<notin> set l \<and> CHR 0x0A \<notin> set l"


definition plain_text :: "string \<Rightarrow> bool" where
  "plain_text s \<longleftrightarrow> CHR 0x0D \<notin> set s \<and> CHR 0x0A \<notin> set s"

definition offered_mids :: "rtc_offer_answer_options \<Rightarrow> string list" where
  "offered_mids opts = (if recv_audio opts then [''audio''] else []) @ (if recv_video opts then [''video''] else [])"

lemma offered_mids_media: "map mid (offered_media opts) = offered_mids opts"
  by (simp add: offered_mids_def offered_media_def mid_def AudioContentDescription_def VideoContentDescription_def)

lemma sdp_lineI:
  "l = k # CHR ''='' # v \<Longrightarrow> k \<in> set ''vostacm'' \<Longrightarrow> plain_text v \<Longrightarrow> sdp_line l"
  by (auto simp: sdp_line_def plain_text_def)

lemma plain_text_append [simp]: "plain_text (xs @ ys) \<longleftrightarrow> plain_text xs \<and> plain_text ys"
  by (auto simp: plain_text_def)

lemma decimal_literals:
  "to_string 111 = ''111''" "to_string 107 = ''107''" "to_string 99 = ''99''"
  "to_string 48000 = ''48000''" "to_string 90000 = ''90000''" "to_string 2 = ''2''"
  by (simp_all add: to_string_def digits_of.simps char_of_def bit_0)

lemma audio_codec_lines:
  "concat (map (codec_lines AUDIO) [opus_codec]) =
     [''a=rtpmap:111 opus/48000/2'', ''a=rtcp-fb:111 transport-cc'', ''a=fmtp:111 minptime=10;useinbandfec=1'']"
  by (simp add: codec_lines_def opus_codec_def FeedBackParam_def decimal_literals)

lemma video_codec_lines:
  "concat (map (codec_lines VIDEO) [h264_codec, rtx_codec]) =
     [''a=rtpmap:107 h264/90000'', ''a=rtcp-fb:107 goog-remb'', ''a=rtcp-fb:107 transport-cc'',
      ''a=rtcp-fb:107 ccm fir'', ''a=rtcp-fb:107 nack'', ''a=rtcp-fb:107 nack pli'',
      ''a=fmtp:107 level-asymmetry-allowed=1;packetization-mode=1;profile-level-id=42e01'',
      ''a=rtpmap:99 rtx/90000'', ''a=fmtp:99 apt=107'']"
  by (simp add: codec_lines_def h264_codec_def rtx_codec_def FeedBackParam_def decimal_literals)

lemma codec_ids:
  "concat (map (\<lambda>c. '' '' @ to_string (codec_id c)) [opus_codec]) = '' 111''"
  "concat (map (\<lambda>c. '' '' @ to_string (codec_id c)) [h264_codec, rtx_codec]) = '' 107 99''"
  by code_simp+

definition transport_section :: "ice_parameters \<Rightarrow> fingerprint \<Rightarrow> string list" where
  "transport_section ice fp =
     [''a=ice-ufrag:'' @ ice_ufrag ice, ''a=ice-pwd:'' @ ice_password ice,
      ''a=fingerprint:'' @ SSLFingerprint_ToString fp, ''a=setup:actpass'']"

definition media_section :: "rtc_offer_answer_options \<Rightarrow> ice_parameters \<Rightarrow> fingerprint \<Rightarrow> string \<Rightarrow> bool \<Rightarrow> string list \<Rightarrow> string \<Rightarrow> string list" where
  "media_section opts ice fp m send codecs ids =
     [''m='' @ m @ '' 9 UDP/TLS/RTP/SAVPF'' @ ids, ''c=IN IP4 0.0.0.0'', ''a=rtcp:9 IN IP4 0.0.0.0'',
      ''a=mid:'' @ m, (if send then ''a=sendrecv'' else ''a=recvonly'')] @
     (if use_rtcp_mux opts then [''a=rtcp-mux''] else []) @ transport_section ice fp @ codecs"

definition offer_lines :: "rtc_offer_answer_options \<Rightarrow> ice_parameters \<Rightarrow> fingerprint \<Rightarrow> string list" where
  "offer_lines opts ice fp =
     [''v=0'', ''o=- 1234567890 1234567890 IN IP4 127.0.0.1'', ''s=-'', ''t=0 0''] @
     (if use_rtp_mux opts \<and> offered_mids opts \<noteq> []
      then [''a=group:BUNDLE'' @ concat (map (\<lambda>m. '' '' @ m) (offered_mids opts))] else []) @
     [''a=msid-semantic: WMS *''] @
     (if recv_audio opts
      then media_section opts ice fp ''audio'' (send_audio opts)
        (concat (map (codec_lines AUDIO) [opus_codec])) '' 111'' else []) @
     (if recv_video opts
      then media_section opts ice fp ''video'' (send_video opts)
        (concat (map (codec_lines VIDEO) [h264_codec, rtx_codec])) '' 107 99'' else [])"

lemma transport_lines_offered:
  "transport_lines (Some (offered_transport m ice fp)) = transport_section ice fp"
  by (simp add: transport_lines_def offered_transport_def transport_section_def k_connection_role_map_def)

lemma find_offered:
  "m \<in> set (offered_mids opts) \<Longrightarrow>
   get_transport m (offered_description opts ice fp) = Some (offered_transport m ice fp)"
  by (auto simp: get_transport_def offered_description_def offered_mids_def offered_media_def
      offered_transport_def mid_def AudioContentDescription_def VideoContentDescription_def split: if_splits)

lemma media_lines_audio:
  "recv_audio opts \<Longrightarrow>
   media_lines (offered_description opts ice fp)
     (AudioContentDescription\<lparr>mc_direction := get_rtp_dir (send_audio opts) True, mc_rtcp_mux := use_rtcp_mux opts\<rparr>) =
   media_section opts ice fp ''audio'' (send_audio opts) (concat (map (codec_lines AUDIO) [opus_codec])) '' 111''"
  using find_offered [of "''audio''" opts ice fp] codec_ids(1)
  by (simp add: media_lines_def AudioContentDescription_def mid_def offered_mids_def transport_lines_offered
      media_section_def direction_line_def get_rtp_dir_def k_media_protocol_dtls_savpf_def)

lemma media_lines_video:
  "recv_video opts \<Longrightarrow>
   media_lines (offered_description opts ice fp)
     (VideoContentDescription\<lparr>mc_direction := get_rtp_dir (send_video opts) True, mc_rtcp_mux := use_rtcp_mux opts\<rparr>) =
   media_section opts ice fp ''video'' (send_video opts)
     (concat (map (codec_lines VIDEO) [h264_codec, rtx_codec])) '' 107 99''"
  using find_offered [of "''video''" opts ice fp] codec_ids(2)
  by (simp add: media_lines_def VideoContentDescription_def mid_def offered_mids_def transport_lines_offered
      media_section_def direction_line_def get_rtp_dir_def k_media_protocol_dtls_savpf_def)

lemma offered_lines: "sdp_lines (offered_description opts ice fp) = offer_lines opts ice fp"
proof -
  have "concat (map (media_lines (offered_description opts ice fp)) (offered_media opts)) =
      (if recv_audio opts then media_section opts ice fp ''audio'' (send_audio opts)
         (concat (map (codec_lines AUDIO) [opus_codec])) '' 111'' else []) @
      (if recv_video opts then media_section opts ice fp ''video'' (send_video opts)
         (concat (map (codec_lines VIDEO) [h264_codec, rtx_codec])) '' 107 99'' else [])"
    using media_lines_audio [of opts ice fp] media_lines_video [of opts ice fp]
    by (simp add: offered_media_def)
  moreover have "offered_media opts = [] \<longleftrightarrow> offered_mids opts = []"
    by (simp add: offered_mids_def offered_media_def)
  ultimately show ?thesis
    using offered_mids_media [of opts]
    by (simp add: sdp_lines_def offer_lines_def offered_description_def get_group_by_name_def del: append.simps)
qed

lemma base64_plain: "set s \<subseteq> set kBase64 \<Longrightarrow> plain_text s"
  by (auto simp: plain_text_def kBase64_def)

lemma fips_plain: "IsFips180DigestAlgorithm alg \<Longrightarrow> plain_text alg \<and> length alg \<le> 7"
  by (auto simp: IsFips180DigestAlgorithm_def DIGEST_SHA_1_def DIGEST_SHA_224_def DIGEST_SHA_256_def
      DIGEST_SHA_384_def DIGEST_SHA_512_def plain_text_def)












lemma certificate_fingerprint:
  assumes "certificate_ok cert"
  obtains alg d where "cert_signature_alg cert = Some alg" and "cert_digest cert alg = Some d"
    and "CreateFromCertificate cert = Some \<lparr>fp_algorithm = alg, fp_digest = d\<rparr>"
    and "IsFips180DigestAlgorithm alg" and "d \<noteq> []" and "length d \<le> 64"
  using assms by (auto simp: certificate_ok_def CreateFromCertificate_def SSLFingerprint_Create_def)

lemma ice_plain:
  assumes "rand_ok rand" and "create_random_ice_credentials rand g w = Some (ice, g1, w1)"
  shows "plain_text (ice_ufrag ice)" "plain_text (ice_password ice)"
    "length (ice_ufrag ice) = 4" "length (ice_password ice) = 24"
  using ice_credentials_text [OF assms] by (auto intro: base64_plain)

lemma create_offer_text:
  assumes "pc_certificate pc = Some (Some c)" and "deref certs (Some c) = Some cert"
    and "CreateFromCertificate cert = Some fp"
    and "create_random_ice_credentials rand g w = Some (ice, g1, w1)"
  shows "create_offer (Some k) rand certs opts pc g w =
    Some (sdp_text (offer_lines opts ice fp),
      pc\<lparr>pc_local_desc := Some (offered_description opts ice fp)\<rparr>, g1, w1)"
  using create_offer_description [OF assms refl, of k opts]
  by (simp add: offered_description_text offered_lines)


lemma length_sdp_text: "length (sdp_text ls) = sum_list (map length ls) + 2 * length ls"
  by (induction ls) (simp_all add: sdp_simps crlf_def)

lemma offer_length:
  assumes "length (ice_ufrag ice) = 4" "length (ice_password ice) = 24"
    and "length (fp_algorithm fp) \<le> 7" "length (fp_digest fp) \<le> 64"
  shows "length (sdp_text (offer_lines opts ice fp)) \<le> 1600"
proof -
  have "length (SSLFingerprint_ToString fp) \<le> 200"
    using assms(3,4) length_fingerprint [of fp] by (simp add: SSLFingerprint_ToString_def)
  then show ?thesis
    using assms(1,2)
    by (simp add: length_sdp_text offer_lines_def media_section_def transport_section_def
        audio_codec_lines [simplified] video_codec_lines [simplified] offered_mids_def)
qed

lemma create_push_stream_eq:
  assumes "deref certs (Some c) = Some cert" and "CreateFromCertificate cert = Some fp"
    and "create_random_ice_credentials rand g w = Some (ice, g1, w1)" and "sm_push_streams m = []"
  shows "\<exists>s. create_push_stream (Some k) rand certs a uid name audio video log_id (Some c) m g w =
    Some (0, sdp_text (offer_lines (RTCOfferAnswerOptions\<lparr>send_audio := False, send_video := False,
        recv_audio := audio, recv_video := video\<rparr>) ice fp), m\<lparr>sm_heap := store a s (sm_heap m)\<rparr>, g1, w1)"
  using create_offer_text [OF _ assms(1-3), of "\<lparr>pc_local_desc = None, pc_certificate = Some (Some c)\<rparr>" k
      "RTCOfferAnswerOptions\<lparr>send_audio := False, send_video := False, recv_audio := audio, recv_video := video\<rparr>"]
    assms(4)
  by (simp add: create_push_stream_def find_push_stream_def PushStream_create_offer_def RtcStream_start_def
      PeerConnection_init_def PeerConnection_new_def PushStream_new_def PushStream_options_def Let_def)
    blast

section \<open>Properties of offers\<close>



text \<open>
  An offer has at most 1600 bytes, for every choice of media and every certificate with a
  digest of at most 64 bytes: so even with every byte escaped to two, a reply that carries it
  stays below the 4096 bytes that are allocated for a reply body.
\<close>

lemma create_offer_length:
  assumes "pc_certificate pc = Some (Some c)" and "deref certs (Some c) = Some cert"
    and "certificate_ok cert" and "rand_ok rand"
    and "create_random_ice_credentials rand g w = Some (ice, g1, w1)"
  shows "\<exists>offer pc'. create_offer (Some k) rand certs opts pc g w = Some (offer, pc', g1, w1) \<and>
    length offer \<le> 1600"
proof -
  from assms(3) obtain alg d where fp: "CreateFromCertificate cert = Some \<lparr>fp_algorithm = alg, fp_digest = d\<rparr>"
      "IsFips180DigestAlgorithm alg" "length d \<le> 64"
    by (rule certificate_fingerprint)
  with create_offer_text [OF assms(1,2) fp(1) assms(5), of k opts]
    offer_length [of ice "\<lparr>fp_algorithm = alg, fp_digest = d\<rparr>" opts]
    ice_plain [OF assms(4,5)] fips_plain [OF fp(2)]
  show ?thesis by simp
qed

text \<open>
  A push stream is never registered: \<^verbatim>\<open>create_push_stream\<close> looks the name up and would erase
  an old stream, but never inserts the new one. From an empty registry every request therefore
  leaves the registry empty, the stream just made cannot be found under its name, and one more
  stream stays allocated for ever.
\<close>

lemma push_stream_never_registered:
  assumes "sm_push_streams m = []"
    and "create_push_stream noret rand certs a uid name audio video log_id cert m g w =
      Some (r, offer, m1, g1, w1)"
  shows "r = 0 \<and> sm_push_streams m1 = [] \<and> find_push_stream name m1 = None \<and>
    live (sm_heap m1) = insert a (live (sm_heap m))"
  using assms
  by (auto simp: create_push_stream_def find_push_stream_def Let_def live_store split: bind_splits prod.splits)

end
