(* ===== verification/SignalingBase.thy ===== *)
theory SignalingBase
  imports RtcMsg EventLoop Sds Xhead Credentials Certificates "HOL-Library.Monad_Syntax"
begin

text \<open>
  What the threads of the server share: the environment of the program (system calls, libev,
  jsoncpp, OpenSSL), \<^verbatim>\<open>server/tcp_connection.{h,cpp}\<close>, the data of \<^verbatim>\<open>SignalingServerWorker\<close>
  (\<^verbatim>\<open>server/signaling_worker.h\<close>) and those of its operations that other threads call:
  \<^verbatim>\<open>notify_new_conn\<close>, \<^verbatim>\<open>send_rtc_msg\<close> and the queue of answers. Undefined behaviour, such as the use
  of a null or freed pointer or a write outside an array, is \<open>None\<close>.
\<close>

section \<open>The environment\<close>

text \<open>
  jsoncpp as the server uses it: parsing a body into a value of type \<open>'j\<close>, reading a member of
  the value with a conversion (\<open>None\<close> is a \<^verbatim>\<open>Json::Exception\<close>), and writing an object of integers
  and strings without indentation.
\<close>

datatype json_field = JInt int | JString string

record 'j jsoncpp =
  json_parse :: "bytes \<Rightarrow> 'j option"
  json_asInt :: "'j \<Rightarrow> string \<Rightarrow> int option"
  json_asUInt64 :: "'j \<Rightarrow> string \<Rightarrow> int option"
  json_asString :: "'j \<Rightarrow> string \<Rightarrow> string option"
  json_write :: "(string \<times> json_field) list \<Rightarrow> bytes"

text \<open>
  yaml-cpp: a loaded file answers a path of keys with a conversion, \<open>None\<close> being a
  \<^verbatim>\<open>YAML::Exception\<close>.
\<close>

record yaml =
  yaml_int :: "string list \<Rightarrow> int option"
  yaml_string :: "string list \<Rightarrow> string option"
  yaml_bool :: "string list \<Rightarrow> bool option"

text \<open>
  \<open>e_yaml\<close> is \<^verbatim>\<open>YAML::LoadFile\<close>. \<open>e_noret\<close>: what a function that runs off its end without a \<^verbatim>\<open>return\<close> gives its caller, \<open>None\<close>
  when the program does not survive it. \<open>e_time\<close> is \<^verbatim>\<open>time(NULL)\<close>.
\<close>

record ('w, 'l, 'j) env =
  e_os :: "'w os"
  e_ev :: "'l libev"
  e_json :: "'j jsoncpp"
  e_rand :: "'w rand_bytes"
  e_ssl_create :: "'w ssl_create"
  e_time :: "'w \<Rightarrow> int"
  e_yaml :: "string \<Rightarrow> yaml option"
  e_noret :: "int option"

section \<open>Connections\<close>

datatype conn_state = STATE_HEAD | STATE_BODY

record tcp_connection =
  c_fd :: int
  c_ip :: string
  c_port :: int
  c_io_watcher :: "io_watcher option"
  c_timer_watcher :: "timer_watcher option"
  c_querybuf :: sds
  c_bytes_expected :: int
  c_bytes_processed :: int
  c_currentState :: conn_state
  c_last_active_time :: int
  c_reply_msgs :: "bytes list"

definition TcpConnection_new :: "int \<Rightarrow> tcp_connection" where
  "TcpConnection_new fd =
     \<lparr>c_fd = fd, c_ip = replicate 64 (CHR 0x00), c_port = 0, c_io_watcher = None, c_timer_watcher = None,
      c_querybuf = sdsempty, c_bytes_expected = int XHEAD_SIZE, c_bytes_processed = 0,
      c_currentState = STATE_HEAD, c_last_active_time = 0, c_reply_msgs = []\<rparr>"

text \<open>
  The destructor closes the descriptor and frees the buffer and the pending replies; the
  object leaves the heap with \<^verbatim>\<open>delete\<close>.
\<close>

definition TcpConnection_destroy :: "'w os \<Rightarrow> tcp_connection \<Rightarrow> 'w \<Rightarrow> 'w" where
  "TcpConnection_destroy os c w = sys_close os (c_fd c) w"

section \<open>Threads\<close>

text \<open>
  Where a \<^verbatim>\<open>std::thread\<close> that was started is when its owner is destroyed: still in its event loop,
  returned from it but not joined, or joined. Deleting a thread that was not joined terminates the
  program.
\<close>

datatype thread_state = In_loop | Returned | Joined

section \<open>Signaling workers\<close>

record signaling_server_options =
  so_host :: string
  so_port :: int
  so_worker_thread_num :: int
  so_connection_timeout_ms :: int

definition SW_QUIT :: int where "SW_QUIT = 0"
definition SW_NEW_CONN :: int where "SW_NEW_CONN = 1"
definition SW_RTC_MSG :: int where "SW_RTC_MSG = 2"

lemmas sw_msgs = SW_QUIT_def SW_NEW_CONN_def SW_RTC_MSG_def

record 'l sworker =
  sw_worker_id :: int
  sw_addr :: addr
  sw_el :: 'l
  sw_pipe_watcher :: "io_watcher option"
  sw_notify_recv_fd :: int
  sw_notify_send_fd :: int
  sw_thread :: bool
  sw_q_conn :: "int lfq"
  sw_conns :: "ptr list"
  sw_heap :: "tcp_connection heap"
  sw_options :: signaling_server_options
  sw_q_rtc_msg :: "rtc_msg list"

text \<open>\<open>this\<close> is the address of the object, \<open>a\<close> the address of the first node of \<^verbatim>\<open>_q_conn\<close>.\<close>

definition SignalingServerWorker_new ::
    "addr \<Rightarrow> addr \<Rightarrow> 'l \<Rightarrow> int \<Rightarrow> signaling_server_options \<Rightarrow> 'l sworker" where
  "SignalingServerWorker_new this a el worker_id options =
     \<lparr>sw_worker_id = worker_id, sw_addr = this, sw_el = el, sw_pipe_watcher = None,
      sw_notify_recv_fd = - 1, sw_notify_send_fd = - 1, sw_thread = False, sw_q_conn = lfq_init a 0,
      sw_conns = [], sw_heap = [], sw_options = options, sw_q_rtc_msg = []\<rparr>"

definition sw_notify :: "'w os \<Rightarrow> int \<Rightarrow> 'l sworker \<Rightarrow> 'w \<Rightarrow> int \<times> 'w" where
  "sw_notify os msg sw w =
     (case notify_write os (sw_notify_send_fd sw) msg w of (ok, w1) \<Rightarrow> (if ok then 0 else - 1, w1))"

definition sw_stop :: "'w os \<Rightarrow> 'l sworker \<Rightarrow> 'w \<Rightarrow> 'w" where
  "sw_stop os sw w = snd (sw_notify os SW_QUIT sw w)"

definition notify_new_conn :: "'w os \<Rightarrow> addr \<Rightarrow> int \<Rightarrow> 'l sworker \<Rightarrow> 'w \<Rightarrow> (int \<times> 'l sworker \<times> 'w) option" where
  "notify_new_conn os a fd sw w =
     do { q \<leftarrow> produce a fd (sw_q_conn sw);
          let sw1 = sw\<lparr>sw_q_conn := q\<rparr>;
          Some (case sw_notify os SW_NEW_CONN sw1 w of (r, w1) \<Rightarrow> (r, sw1, w1)) }"

definition push_rtc_msg :: "rtc_msg \<Rightarrow> 'l sworker \<Rightarrow> 'l sworker" where
  "push_rtc_msg m sw = sw\<lparr>sw_q_rtc_msg := mq_push m (sw_q_rtc_msg sw)\<rparr>"

definition pop_rtc_msg :: "'l sworker \<Rightarrow> 'l sworker \<times> rtc_msg option" where
  "pop_rtc_msg sw = (case mq_pop (sw_q_rtc_msg sw) of (q, m) \<Rightarrow> (sw\<lparr>sw_q_rtc_msg := q\<rparr>, m))"

definition sw_send_rtc_msg :: "'w os \<Rightarrow> rtc_msg \<Rightarrow> 'l sworker \<Rightarrow> 'w \<Rightarrow> int \<times> 'l sworker \<times> 'w" where
  "sw_send_rtc_msg os m sw w =
     (let sw1 = push_rtc_msg m sw in case sw_notify os SW_RTC_MSG sw1 w of (r, w1) \<Rightarrow> (r, sw1, w1))"

lemma sw_send_rtc_msg_queue:
  "sw_send_rtc_msg os m sw w = (r, sw1, w1) \<Longrightarrow> sw1 = sw\<lparr>sw_q_rtc_msg := sw_q_rtc_msg sw @ [m]\<rparr>"
  by (auto simp: sw_send_rtc_msg_def push_rtc_msg_def mq_push_def Let_def split: prod.splits)

lemma notify_new_conn_queue:
  assumes "lfq_inv (sw_q_conn sw)" and "a \<notin> live (q_nodes (sw_q_conn sw))"
  shows "\<exists>r q w1. notify_new_conn os a fd sw w = Some (r, sw\<lparr>sw_q_conn := q\<rparr>, w1) \<and> lfq_inv q \<and>
    lfq_contents q = lfq_contents (sw_q_conn sw) @ [fd]"
  using lfq.enq_spec [OF assms, of fd] by (fastforce simp: notify_new_conn_def Let_def split: prod.splits)

end
