(* ===== verification/RtcWorker.thy ===== *)
theory RtcWorker
  imports SignalingBase PeerConnection
begin

text \<open>
  \<^verbatim>\<open>server/rtc_worker.{h,cpp}\<close>: the threads that own the streams. A worker takes messages from its
  lock-free queue, one for each notification on its pipe, makes the offer for a push and hands
  the message back to the signaling worker that sent it. The bodies of \<^verbatim>\<open>_process_pull\<close>,
  \<^verbatim>\<open>_process_stop_push\<close>, \<^verbatim>\<open>_process_stop_pull\<close> and \<^verbatim>\<open>_process_answer\<close> are empty in the source. A
  thread is the fact that it was started; \<^verbatim>\<open>join\<close> only waits and is not a state change.
\<close>

section \<open>State\<close>

record rtc_server_options =
  ro_worker_num :: int

definition RW_QUIT :: int where "RW_QUIT = 0"
definition RW_RTC_MSG :: int where "RW_RTC_MSG = 1"

record 'l rworker =
  rw_options :: rtc_server_options
  rw_worker_id :: int
  rw_addr :: addr
  rw_el :: 'l
  rw_pipe_watcher :: "io_watcher option"
  rw_notify_recv_fd :: int
  rw_notify_send_fd :: int
  rw_thread :: bool
  rw_q_msg :: "rtc_msg lfq"
  rw_stream_mgr :: stream_manager

text \<open>
  What a worker reaches through pointers: the signaling workers that messages name, the
  certificates, the random generator and the world.
\<close>

record ('w, 'l) shared =
  sh_sworkers :: "'l sworker heap"
  sh_certs :: "certificate heap"
  sh_rng :: rng
  sh_w :: 'w

text \<open>The value in the first, never consumed node of the queue.\<close>

definition no_msg :: rtc_msg where
  "no_msg = new_rtc_msg 0 [] 0 0 0 0"

definition RtcWorker_new :: "addr \<Rightarrow> addr \<Rightarrow> 'l \<Rightarrow> int \<Rightarrow> rtc_server_options \<Rightarrow> 'l rworker" where
  "RtcWorker_new this a el worker_id options =
     \<lparr>rw_options = options, rw_worker_id = worker_id, rw_addr = this, rw_el = el, rw_pipe_watcher = None,
      rw_notify_recv_fd = - 1, rw_notify_send_fd = - 1, rw_thread = False, rw_q_msg = lfq_init a no_msg,
      rw_stream_mgr = RtcStreamManager_new\<rparr>"

section \<open>Operations\<close>

definition rw_init :: "('w, 'l, 'j) env \<Rightarrow> 'l rworker \<Rightarrow> 'w \<Rightarrow> int \<times> 'l rworker \<times> 'w" where
  "rw_init e rw w =
     (case sys_pipe (e_os e) w of
        (Inl err, w1) \<Rightarrow> (- 1, rw, w1)
      | (Inr (rfd, sfd), w1) \<Rightarrow>
          (case start_io_event (e_ev e) (create_io_event (e_ev e) Rtc_worker_recv_notify (rw_addr rw)) rfd READ (rw_el rw) of
             (l, pw) \<Rightarrow> (0, rw\<lparr>rw_notify_recv_fd := rfd, rw_notify_send_fd := sfd,
                            rw_pipe_watcher := Some pw, rw_el := l\<rparr>, w1)))"

definition rw_start :: "'l rworker \<Rightarrow> bool \<times> 'l rworker" where
  "rw_start rw = (if rw_thread rw then (False, rw) else (True, rw\<lparr>rw_thread := True\<rparr>))"

interpretation rwt: startable rw_start rw_thread
  by unfold_locales (simp_all add: rw_start_def)

definition rw_notify :: "'w os \<Rightarrow> int \<Rightarrow> 'l rworker \<Rightarrow> 'w \<Rightarrow> int \<times> 'w" where
  "rw_notify os msg rw w =
     (case notify_write os (rw_notify_send_fd rw) msg w of (ok, w1) \<Rightarrow> (if ok then 0 else - 1, w1))"

definition rw_stop :: "'w os \<Rightarrow> 'l rworker \<Rightarrow> 'w \<Rightarrow> 'w" where
  "rw_stop os rw w = snd (rw_notify os RW_QUIT rw w)"

definition rw_push_msg :: "addr \<Rightarrow> rtc_msg \<Rightarrow> 'l rworker \<Rightarrow> 'l rworker option" where
  "rw_push_msg a m rw = do { q \<leftarrow> produce a m (rw_q_msg rw); Some (rw\<lparr>rw_q_msg := q\<rparr>) }"

definition rw_pop_msg :: "'l rworker \<Rightarrow> ('l rworker \<times> rtc_msg option) option" where
  "rw_pop_msg rw = do { (q, m) \<leftarrow> consume (rw_q_msg rw); Some (rw\<lparr>rw_q_msg := q\<rparr>, m) }"

definition rw_send_rtc_msg ::
    "'w os \<Rightarrow> addr \<Rightarrow> rtc_msg \<Rightarrow> 'l rworker \<Rightarrow> 'w \<Rightarrow> (int \<times> 'l rworker \<times> 'w) option" where
  "rw_send_rtc_msg os a m rw w =
     do { rw1 \<leftarrow> rw_push_msg a m rw;
          Some (case rw_notify os RW_RTC_MSG rw1 w of (r, w1) \<Rightarrow> (r, rw1, w1)) }"

text \<open>\<open>a\<close> is the address of the stream that is allocated.\<close>

definition rw_process_push ::
    "('w, 'l, 'j) env \<Rightarrow> addr \<Rightarrow> rtc_msg \<Rightarrow> 'l rworker \<Rightarrow> ('w, 'l) shared \<Rightarrow> ('l rworker \<times> ('w, 'l) shared) option" where
  "rw_process_push e a m rw sh =
     do { (ret, offer, mgr, g, w) \<leftarrow>
            create_push_stream (e_noret e) (e_rand e) (sh_certs sh) a (m_uid m) (m_stream_name m)
              (m_audio m \<noteq> 0) (m_video m \<noteq> 0) (c_uint (m_log_id m)) (m_certificate m)
              (rw_stream_mgr rw) (sh_rng sh) (sh_w sh);
          let rw1 = rw\<lparr>rw_stream_mgr := mgr\<rparr>;
          let sh1 = sh\<lparr>sh_rng := g, sh_w := w\<rparr>;
          if ret \<noteq> 0 then Some (rw1, sh1)
          else case m_worker m of
              None \<Rightarrow> Some (rw1, sh1)
            | Some p \<Rightarrow>
                do { sw \<leftarrow> deref (sh_sworkers sh1) (Some p);
                     Some (case sw_send_rtc_msg (e_os e) (m\<lparr>m_sdp := offer\<rparr>) sw (sh_w sh1) of
                       (r, sw1, w1) \<Rightarrow> (rw1, sh1\<lparr>sh_sworkers := store p sw1 (sh_sworkers sh1), sh_w := w1\<rparr>)) } }"

definition rw_process_pull :: "rtc_msg \<Rightarrow> 'l rworker \<Rightarrow> 'l rworker" where
  "rw_process_pull m rw = rw"

definition rw_process_stop_push :: "rtc_msg \<Rightarrow> 'l rworker \<Rightarrow> 'l rworker" where
  "rw_process_stop_push m rw = rw"

definition rw_process_stop_pull :: "rtc_msg \<Rightarrow> 'l rworker \<Rightarrow> 'l rworker" where
  "rw_process_stop_pull m rw = rw"

definition rw_process_answer :: "rtc_msg \<Rightarrow> 'l rworker \<Rightarrow> 'l rworker" where
  "rw_process_answer m rw = rw"

definition rw_process_rtc_msg ::
    "('w, 'l, 'j) env \<Rightarrow> addr \<Rightarrow> 'l rworker \<Rightarrow> ('w, 'l) shared \<Rightarrow> ('l rworker \<times> ('w, 'l) shared) option" where
  "rw_process_rtc_msg e a rw sh =
     do { (rw1, popped) \<leftarrow> rw_pop_msg rw;
          case popped of
            None \<Rightarrow> Some (rw1, sh)
          | Some m \<Rightarrow>
              if m_cmdno m = CMDNO_PUSH then rw_process_push e a m rw1 sh
              else if m_cmdno m = CMDNO_PULL then Some (rw_process_pull m rw1, sh)
              else if m_cmdno m = CMDNO_STOPPUSH then Some (rw_process_stop_push m rw1, sh)
              else if m_cmdno m = CMDNO_STOPPULL then Some (rw_process_stop_pull m rw1, sh)
              else if m_cmdno m = CMDNO_ANSWER then Some (rw_process_answer m rw1, sh)
              else Some (rw1, sh) }"

definition rw_do_stop :: "('w, 'l, 'j) env \<Rightarrow> 'l rworker \<Rightarrow> 'w \<Rightarrow> ('l rworker \<times> 'w) option" where
  "rw_do_stop e rw w =
     (if \<not> rw_thread rw then Some (rw, w)
      else do { pw \<leftarrow> rw_pipe_watcher rw;
                Some (rw\<lparr>rw_el := el_stop (e_ev e) (delete_io_event (e_ev e) pw (rw_el rw))\<rparr>,
                      sys_close (e_os e) (rw_notify_send_fd rw) (sys_close (e_os e) (rw_notify_recv_fd rw) w)) })"

definition rw_process_notify ::
    "('w, 'l, 'j) env \<Rightarrow> addr \<Rightarrow> int \<Rightarrow> 'l rworker \<Rightarrow> ('w, 'l) shared \<Rightarrow> ('l rworker \<times> ('w, 'l) shared) option" where
  "rw_process_notify e a msg rw sh =
     (if msg = RW_QUIT then do { (rw1, w1) \<leftarrow> rw_do_stop e rw (sh_w sh); Some (rw1, sh\<lparr>sh_w := w1\<rparr>) }
      else if msg = RW_RTC_MSG then rw_process_rtc_msg e a rw sh
      else Some (rw, sh))"

text \<open>The callback of the pipe: a short read is logged and dropped.\<close>

definition rtc_worker_recv_notify ::
    "('w, 'l, 'j) env \<Rightarrow> addr \<Rightarrow> int \<Rightarrow> 'l rworker \<Rightarrow> ('w, 'l) shared \<Rightarrow> ('l rworker \<times> ('w, 'l) shared) option" where
  "rtc_worker_recv_notify e a fd rw sh =
     (case notify_read (e_os e) fd (sh_w sh) of
        (None, w1) \<Rightarrow> Some (rw, sh\<lparr>sh_w := w1\<rparr>)
      | (Some msg, w1) \<Rightarrow> rw_process_notify e a msg rw (sh\<lparr>sh_w := w1\<rparr>))"

text \<open>
  The destructor deletes the event loop, which is undefined while the thread runs in it, and the
  thread, which must have been joined.
\<close>

definition RtcWorker_destroy :: "thread_state \<Rightarrow> 'l rworker \<Rightarrow> 'l rworker option" where
  "RtcWorker_destroy t rw = (if rw_thread rw \<and> t \<noteq> Joined then None else Some (rw\<lparr>rw_thread := False\<rparr>))"

section \<open>Lemmas\<close>

definition rw_inv :: "'l rworker \<Rightarrow> bool" where
  "rw_inv rw \<longleftrightarrow> lfq_inv (rw_q_msg rw) \<and> sm_push_streams (rw_stream_mgr rw) = []"

definition push_options :: "rtc_msg \<Rightarrow> rtc_offer_answer_options" where
  "push_options m = RTCOfferAnswerOptions\<lparr>send_audio := False, send_video := False,
     recv_audio := (m_audio m \<noteq> 0), recv_video := (m_video m \<noteq> 0)\<rparr>"

lemma RtcWorker_new_inv: "rw_inv (RtcWorker_new this a el i options)"
  by (simp add: rw_inv_def RtcWorker_new_def lfq_init_inv RtcStreamManager_new_def)

lemma rw_send_queue:
  assumes "rw_inv rw" and "a \<notin> live (q_nodes (rw_q_msg rw))"
  shows "\<exists>r q w1. rw_send_rtc_msg os a m rw w = Some (r, rw\<lparr>rw_q_msg := q\<rparr>, w1) \<and> lfq_inv q \<and>
    lfq_contents q = lfq_contents (rw_q_msg rw) @ [m]"
  using lfq.enq_spec [of "rw_q_msg rw" a m] assms
  by (fastforce simp: rw_inv_def rw_send_rtc_msg_def rw_push_msg_def split: prod.splits)

lemma rw_pop_first:
  assumes "rw_inv rw" and "lfq_contents (rw_q_msg rw) = m # ms"
  shows "\<exists>q. rw_pop_msg rw = Some (rw\<lparr>rw_q_msg := q\<rparr>, Some m) \<and> lfq_inv q \<and> lfq_contents q = ms"
  using lfq.deq_spec [of "rw_q_msg rw" m ms] assms by (fastforce simp: rw_inv_def rw_pop_msg_def)

text \<open>A push with a live certificate: the offer goes back to the signaling worker of the message.\<close>

lemma rw_process_push_answers:
  assumes "rw_inv rw" and "e_noret e = Some k" and "m_certificate m = Some c"
    and "deref (sh_certs sh) (Some c) = Some cert" and "CreateFromCertificate cert = Some fp"
    and "create_random_ice_credentials (e_rand e) (sh_rng sh) (sh_w sh) = Some (ice, g1, w1)"
    and "m_worker m = Some p" and "deref (sh_sworkers sh) (Some p) = Some sw"
  shows "\<exists>mgr w2. rw_process_push e a m rw sh =
      Some (rw\<lparr>rw_stream_mgr := mgr\<rparr>,
        sh\<lparr>sh_rng := g1, sh_sworkers := store p (sw\<lparr>sw_q_rtc_msg := sw_q_rtc_msg sw @
          [m\<lparr>m_sdp := sdp_text (offer_lines (push_options m) ice fp)\<rparr>]\<rparr>) (sh_sworkers sh), sh_w := w2\<rparr>) \<and>
      sm_push_streams mgr = []"
proof -
  let ?offer = "sdp_text (offer_lines (push_options m) ice fp)"
  from assms(1) have empty: "sm_push_streams (rw_stream_mgr rw) = []" by (simp add: rw_inv_def)
  obtain s where s: "create_push_stream (Some k) (e_rand e) (sh_certs sh) a (m_uid m) (m_stream_name m)
      (m_audio m \<noteq> 0) (m_video m \<noteq> 0) (c_uint (m_log_id m)) (Some c) (rw_stream_mgr rw) (sh_rng sh) (sh_w sh) =
      Some (0, ?offer, (rw_stream_mgr rw)\<lparr>sm_heap := store a s (sm_heap (rw_stream_mgr rw))\<rparr>, g1, w1)"
    using create_push_stream_eq [OF assms(4-6) empty] unfolding push_options_def by blast
  obtain r sw1 w2 where w2: "sw_send_rtc_msg (e_os e) (m\<lparr>m_sdp := ?offer\<rparr>) sw w1 = (r, sw1, w2)"
    by (metis surj_pair)
  note q = sw_send_rtc_msg_queue [OF w2]
  show ?thesis
    using assms(2,3,7,8) s w2 empty
    by (intro exI [of _ "(rw_stream_mgr rw)\<lparr>sm_heap := store a s (sm_heap (rw_stream_mgr rw))\<rparr>"] exI [of _ w2])
      (simp add: rw_process_push_def q Let_def)
qed

end
