(* ===== verification/RtcServer.thy ===== *)
theory RtcServer
  imports RtcWorker Crc32
begin

text \<open>
  \<^verbatim>\<open>server/rtc_server.{h,cpp}\<close>: the thread between the signaling workers and the RTC workers. It
  owns the certificate, takes one message from its queue for each notification, renews the
  certificate when it has expired, and routes the message to the RTC worker that the checksum of
  the stream name selects.
\<close>

section \<open>State\<close>

definition RS_QUIT :: int where "RS_QUIT = 0"
definition RS_RTC_MSG :: int where "RS_RTC_MSG = 1"
definition k_year_in_ms :: int where "k_year_in_ms = 365 * 24 * 3600 * 1000"

record 'l rtc_server =
  rs_addr :: addr
  rs_el :: 'l
  rs_options :: rtc_server_options
  rs_thread :: bool
  rs_pipe_watcher :: "io_watcher option"
  rs_notify_recv_fd :: int
  rs_notify_send_fd :: int
  rs_q_msg :: "rtc_msg list"
  rs_workers :: "addr list"
  rs_certificate :: ptr

definition RtcServer_new :: "addr \<Rightarrow> 'l \<Rightarrow> rtc_server_options \<Rightarrow> 'l rtc_server" where
  "RtcServer_new this el options =
     \<lparr>rs_addr = this, rs_el = el, rs_options = options, rs_thread = False, rs_pipe_watcher = None,
      rs_notify_recv_fd = - 1, rs_notify_send_fd = - 1, rs_q_msg = [], rs_workers = [], rs_certificate = None\<rparr>"

section \<open>The certificate\<close>

text \<open>
  \<open>a\<close> is the address of a newly generated certificate. Assigning the \<^verbatim>\<open>scoped_refptr\<close> drops the
  only reference to the old certificate and frees it, also when the generation has failed.
\<close>

definition free_certificate :: "ptr \<Rightarrow> certificate heap \<Rightarrow> certificate heap" where
  "free_certificate p h = (case p of None \<Rightarrow> h | Some c \<Rightarrow> release c h)"

definition generate_and_check_certificate ::
    "('w, 'l, 'j) env \<Rightarrow> addr \<Rightarrow> 'l rtc_server \<Rightarrow> ('w, 'l) shared \<Rightarrow> (int \<times> 'l rtc_server \<times> ('w, 'l) shared) option" where
  "generate_and_check_certificate e a rs sh =
     do { expired \<leftarrow> (case rs_certificate rs of
            None \<Rightarrow> Some True
          | Some c \<Rightarrow> map_option (\<lambda>cert. HasExpired cert (c_size (e_time e (sh_w sh) * 1000)))
                       (deref (sh_certs sh) (Some c)));
          if \<not> expired then Some (0, rs, sh)
          else Some (case GenerateCertificate (e_ssl_create e) KeyParams_default (Some k_year_in_ms) (sh_w sh) of
              (None, w1) \<Rightarrow> (- 1, rs\<lparr>rs_certificate := None\<rparr>,
                 sh\<lparr>sh_certs := free_certificate (rs_certificate rs) (sh_certs sh), sh_w := w1\<rparr>)
            | (Some cert, w1) \<Rightarrow> (0, rs\<lparr>rs_certificate := Some a\<rparr>,
                 sh\<lparr>sh_certs := store a cert (free_certificate (rs_certificate rs) (sh_certs sh)), sh_w := w1\<rparr>)) }"

section \<open>Starting\<close>

text \<open>
  \<open>fresh i\<close> gives what the allocator provides for the \<open>i\<close>th worker: its address, the address of
  the first node of its queue, and its new event loop.
\<close>

definition rs_create_worker ::
    "('w, 'l, 'j) env \<Rightarrow> (int \<Rightarrow> addr \<times> addr \<times> 'l) \<Rightarrow> int \<Rightarrow> 'l rtc_server \<Rightarrow> 'l rworker heap \<Rightarrow> 'w \<Rightarrow>
     int \<times> 'l rtc_server \<times> 'l rworker heap \<times> 'w" where
  "rs_create_worker e fresh worker_id rs rws w =
     (case fresh worker_id of (this, a, el) \<Rightarrow>
      case rw_init e (RtcWorker_new this a el worker_id (rs_options rs)) w of
        (r, rw, w1) \<Rightarrow>
          if r \<noteq> 0 then (- 1, rs, store this rw rws, w1)
          else case rw_start rw of
              (False, rw1) \<Rightarrow> (- 1, rs, store this rw1 rws, w1)
            | (True, rw1) \<Rightarrow> (0, rs\<lparr>rs_workers := rs_workers rs @ [this]\<rparr>, store this rw1 rws, w1))"

fun rs_create_workers ::
    "('w, 'l, 'j) env \<Rightarrow> (int \<Rightarrow> addr \<times> addr \<times> 'l) \<Rightarrow> int list \<Rightarrow> 'l rtc_server \<Rightarrow> 'l rworker heap \<Rightarrow> 'w \<Rightarrow>
     int \<times> 'l rtc_server \<times> 'l rworker heap \<times> 'w" where
  "rs_create_workers e fresh [] rs rws w = (0, rs, rws, w)"
| "rs_create_workers e fresh (i # is) rs rws w =
     (case rs_create_worker e fresh i rs rws w of
        (r, rs1, rws1, w1) \<Rightarrow> if r \<noteq> 0 then (- 1, rs1, rws1, w1) else rs_create_workers e fresh is rs1 rws1 w1)"

definition rs_init ::
    "('w, 'l, 'j) env \<Rightarrow> (int \<Rightarrow> addr \<times> addr \<times> 'l) \<Rightarrow> addr \<Rightarrow> string option \<Rightarrow> 'l rtc_server \<Rightarrow> 'l rworker heap \<Rightarrow>
     ('w, 'l) shared \<Rightarrow> (int \<times> 'l rtc_server \<times> 'l rworker heap \<times> ('w, 'l) shared) option" where
  "rs_init e fresh a conf_file rs rws sh =
     (case conf_file of
        None \<Rightarrow> Some (- 1, rs, rws, sh)
      | Some f \<Rightarrow>
        (case Option.bind (e_yaml e f) (\<lambda>y. yaml_int y [''worker_num'']) of
           None \<Rightarrow> Some (- 1, rs, rws, sh)
         | Some n \<Rightarrow>
           do { (r, rs1, sh1) \<leftarrow> generate_and_check_certificate e a (rs\<lparr>rs_options := \<lparr>ro_worker_num = n\<rparr>\<rparr>) sh;
                if r \<noteq> 0 then Some (- 1, rs1, rws, sh1)
                else case sys_pipe (e_os e) (sh_w sh1) of
                    (Inl err, w1) \<Rightarrow> Some (- 1, rs1, rws, sh1\<lparr>sh_w := w1\<rparr>)
                  | (Inr (rfd, sfd), w1) \<Rightarrow>
                      (case start_io_event (e_ev e) (create_io_event (e_ev e) Rtc_server_recv_notify (rs_addr rs))
                              rfd READ (rs_el rs1) of
                         (l, pw) \<Rightarrow>
                           (case rs_create_workers e fresh [0..n - 1]
                                   (rs1\<lparr>rs_notify_recv_fd := rfd, rs_notify_send_fd := sfd,
                                        rs_pipe_watcher := Some pw, rs_el := l\<rparr>) rws w1 of
                              (r2, rs2, rws2, w2) \<Rightarrow> Some (r2, rs2, rws2, sh1\<lparr>sh_w := w2\<rparr>))) }))"

definition rs_start :: "'l rtc_server \<Rightarrow> bool \<times> 'l rtc_server" where
  "rs_start rs = (if rs_thread rs then (False, rs) else (True, rs\<lparr>rs_thread := True\<rparr>))"

interpretation rst: startable rs_start rs_thread
  by unfold_locales (simp_all add: rs_start_def)

section \<open>Messages\<close>

definition rs_notify :: "'w os \<Rightarrow> int \<Rightarrow> 'l rtc_server \<Rightarrow> 'w \<Rightarrow> int \<times> 'w" where
  "rs_notify os msg rs w =
     (case notify_write os (rs_notify_send_fd rs) msg w of (ok, w1) \<Rightarrow> (if ok then 0 else - 1, w1))"

definition rs_stop :: "'w os \<Rightarrow> 'l rtc_server \<Rightarrow> 'w \<Rightarrow> 'w" where
  "rs_stop os rs w = snd (rs_notify os RS_QUIT rs w)"

definition rs_push_msg :: "rtc_msg \<Rightarrow> 'l rtc_server \<Rightarrow> 'l rtc_server" where
  "rs_push_msg m rs = rs\<lparr>rs_q_msg := mq_push m (rs_q_msg rs)\<rparr>"

definition rs_pop_msg :: "'l rtc_server \<Rightarrow> 'l rtc_server \<times> rtc_msg option" where
  "rs_pop_msg rs = (case mq_pop (rs_q_msg rs) of (q, m) \<Rightarrow> (rs\<lparr>rs_q_msg := q\<rparr>, m))"

definition rs_send_rtc_msg :: "'w os \<Rightarrow> rtc_msg \<Rightarrow> 'l rtc_server \<Rightarrow> 'w \<Rightarrow> int \<times> 'l rtc_server \<times> 'w" where
  "rs_send_rtc_msg os m rs w =
     (let rs1 = rs_push_msg m rs in case rs_notify os RS_RTC_MSG rs1 w of (r, w1) \<Rightarrow> (r, rs1, w1))"

definition rs_get_worker :: "string \<Rightarrow> 'l rtc_server \<Rightarrow> ptr option" where
  "rs_get_worker stream_name rs =
     (let n = ro_worker_num (rs_options rs) in
      if rs_workers rs = [] \<or> int (length (rs_workers rs)) \<noteq> c_size n then Some None
      else let index = nat (uint (ComputeCrc32 stream_name) mod c_uint n)
        in if index < length (rs_workers rs) then Some (Some (rs_workers rs ! index)) else None)"

text \<open>
  The message is logged with \<^verbatim>\<open>msg->to_string()\<close> before it is tested for null, so an empty queue is
  a null dereference. \<open>ac\<close> and \<open>an\<close> are the addresses of a new certificate and of a new queue node.
\<close>

definition rs_process_rtc_msg ::
    "('w, 'l, 'j) env \<Rightarrow> addr \<Rightarrow> addr \<Rightarrow> 'l rtc_server \<Rightarrow> 'l rworker heap \<Rightarrow> ('w, 'l) shared \<Rightarrow>
     ('l rtc_server \<times> 'l rworker heap \<times> ('w, 'l) shared) option" where
  "rs_process_rtc_msg e ac an rs rws sh =
     (case rs_pop_msg rs of
        (rs1, None) \<Rightarrow> None
      | (rs1, Some m) \<Rightarrow>
          do { (r, rs2, sh1) \<leftarrow> generate_and_check_certificate e ac rs1 sh;
               if r \<noteq> 0 then Some (rs2, rws, sh1)
               else do { worker \<leftarrow> rs_get_worker (m_stream_name m) rs2;
                         case worker of
                           None \<Rightarrow> Some (rs2, rws, sh1)
                         | Some p \<Rightarrow>
                             do { rw \<leftarrow> deref rws (Some p);
                                  (r2, rw1, w1) \<leftarrow> rw_send_rtc_msg (e_os e) an
                                    (m\<lparr>m_certificate := rs_certificate rs2\<rparr>) rw (sh_w sh1);
                                  Some (rs2, store p rw1 rws, sh1\<lparr>sh_w := w1\<rparr>) } } })"

fun rs_stop_workers :: "'w os \<Rightarrow> 'l rworker heap \<Rightarrow> addr list \<Rightarrow> 'w \<Rightarrow> 'w option" where
  "rs_stop_workers os rws [] w = Some w"
| "rs_stop_workers os rws (p # ps) w =
     do { rw \<leftarrow> deref rws (Some p); rs_stop_workers os rws ps (rw_stop os rw w) }"

definition rs_do_stop ::
    "('w, 'l, 'j) env \<Rightarrow> 'l rtc_server \<Rightarrow> 'l rworker heap \<Rightarrow> 'w \<Rightarrow> ('l rtc_server \<times> 'w) option" where
  "rs_do_stop e rs rws w =
     do { pw \<leftarrow> rs_pipe_watcher rs;
          let rs1 = rs\<lparr>rs_el := el_stop (e_ev e) (delete_io_event (e_ev e) pw (rs_el rs))\<rparr>;
          w1 \<leftarrow> rs_stop_workers (e_os e) rws (rs_workers rs)
                 (sys_close (e_os e) (rs_notify_send_fd rs) (sys_close (e_os e) (rs_notify_recv_fd rs) w));
          Some (rs1, w1) }"

definition rs_process_notify ::
    "('w, 'l, 'j) env \<Rightarrow> addr \<Rightarrow> addr \<Rightarrow> int \<Rightarrow> 'l rtc_server \<Rightarrow> 'l rworker heap \<Rightarrow> ('w, 'l) shared \<Rightarrow>
     ('l rtc_server \<times> 'l rworker heap \<times> ('w, 'l) shared) option" where
  "rs_process_notify e ac an msg rs rws sh =
     (if msg = RS_QUIT then do { (rs1, w1) \<leftarrow> rs_do_stop e rs rws (sh_w sh); Some (rs1, rws, sh\<lparr>sh_w := w1\<rparr>) }
      else if msg = RS_RTC_MSG then rs_process_rtc_msg e ac an rs rws sh
      else Some (rs, rws, sh))"

definition rtc_server_recv_notify ::
    "('w, 'l, 'j) env \<Rightarrow> addr \<Rightarrow> addr \<Rightarrow> int \<Rightarrow> 'l rtc_server \<Rightarrow> 'l rworker heap \<Rightarrow> ('w, 'l) shared \<Rightarrow>
     ('l rtc_server \<times> 'l rworker heap \<times> ('w, 'l) shared) option" where
  "rtc_server_recv_notify e ac an fd rs rws sh =
     (case notify_read (e_os e) fd (sh_w sh) of
        (None, w1) \<Rightarrow> Some (rs, rws, sh\<lparr>sh_w := w1\<rparr>)
      | (Some msg, w1) \<Rightarrow> rs_process_notify e ac an msg rs rws (sh\<lparr>sh_w := w1\<rparr>))"

text \<open>The destructor, with the states \<open>ts\<close> of the workers' threads and \<open>t\<close> of the server's own.\<close>

fun rs_delete_workers :: "(addr \<Rightarrow> thread_state) \<Rightarrow> addr list \<Rightarrow> 'l rworker heap \<Rightarrow> 'l rworker heap option" where
  "rs_delete_workers ts [] rws = Some rws"
| "rs_delete_workers ts (p # ps) rws =
     do { rw \<leftarrow> deref rws (Some p);
          rw1 \<leftarrow> RtcWorker_destroy (ts p) rw;
          rs_delete_workers ts ps (release p rws) }"

definition RtcServer_destroy ::
    "(addr \<Rightarrow> thread_state) \<Rightarrow> thread_state \<Rightarrow> 'l rtc_server \<Rightarrow> 'l rworker heap \<Rightarrow> ('l rtc_server \<times> 'l rworker heap) option" where
  "RtcServer_destroy ts t rs rws =
     (if rs_thread rs \<and> t \<noteq> Joined then None
      else do { rws1 \<leftarrow> rs_delete_workers ts (rs_workers rs) rws;
                Some (rs\<lparr>rs_thread := False, rs_workers := []\<rparr>, rws1) })"

section \<open>The ready server\<close>

text \<open>
  The state after a successful start: as many workers as configured, at least one, all of them
  live with a well-formed queue.
\<close>

definition rs_ready :: "'l rtc_server \<Rightarrow> 'l rworker heap \<Rightarrow> bool" where
  "rs_ready rs rws \<longleftrightarrow> rs_workers rs \<noteq> [] \<and> ro_worker_num (rs_options rs) < 2 ^ 31 \<and>
     int (length (rs_workers rs)) = ro_worker_num (rs_options rs) \<and>
     (\<forall>p \<in> set (rs_workers rs). \<exists>rw. deref rws (Some p) = Some rw \<and> rw_inv rw)"

text \<open>The worker of a stream: the checksum of its name modulo the number of workers.\<close>

definition stream_index :: "string \<Rightarrow> 'l rtc_server \<Rightarrow> nat" where
  "stream_index name rs = unat (ComputeCrc32 name) mod length (rs_workers rs)"

lemma rs_get_worker_ready:
  assumes "rs_ready rs rws"
  shows "rs_get_worker name rs = Some (Some (rs_workers rs ! stream_index name rs))"
    and "stream_index name rs < length (rs_workers rs)"
proof -
  let ?n = "ro_worker_num (rs_options rs)"
  have n: "rs_workers rs \<noteq> []" "?n < 2 ^ 31" "int (length (rs_workers rs)) = ?n"
    using assms by (simp_all add: rs_ready_def)
  then show less: "stream_index name rs < length (rs_workers rs)" by (simp add: stream_index_def)
  from n have c: "c_size ?n = ?n" "c_uint ?n = ?n" by (auto intro!: c_size_nonneg_int c_uint_id)
  have "nat (uint (ComputeCrc32 name) mod ?n) = stream_index name rs"
    unfolding stream_index_def n(3) [symmetric]
    by (metis nat_int of_nat_mod uint_nat)
  with n(1,3) c less show "rs_get_worker name rs = Some (Some (rs_workers rs ! stream_index name rs))"
    by (simp add: rs_get_worker_def Let_def)
qed

lemma rs_ready_queue: "rs_ready (rs\<lparr>rs_q_msg := q\<rparr>) rws \<longleftrightarrow> rs_ready rs rws"
  by (simp add: rs_ready_def)

lemma rs_ready_certificate: "rs_ready (rs\<lparr>rs_certificate := p\<rparr>) rws \<longleftrightarrow> rs_ready rs rws"
  by (simp add: rs_ready_def)

lemma rs_ready_store:
  "rs_ready rs rws \<Longrightarrow> rw_inv rw \<Longrightarrow> rs_ready rs (store p rw rws)"
  by (simp add: rs_ready_def heap_simps)

lemma generate_and_check_keeps:
  assumes "rs_certificate rs = Some c" and "deref (sh_certs sh) (Some c) = Some cert"
    and "\<not> HasExpired cert (c_size (e_time e (sh_w sh) * 1000))"
  shows "generate_and_check_certificate e a rs sh = Some (0, rs, sh)"
  using assms by (simp add: generate_and_check_certificate_def)

lemma rs_pop_cons: "rs_q_msg rs = m # ms \<Longrightarrow> rs_pop_msg rs = (rs\<lparr>rs_q_msg := ms\<rparr>, Some m)"
  by (simp add: rs_pop_msg_def mq_pop_def)

lemma rs_process_forwards:
  assumes "rs_ready rs rws" and "rs_q_msg rs = m # ms" and "rs_certificate rs = Some c"
    and "deref (sh_certs sh) (Some c) = Some cert"
    and "\<not> HasExpired cert (c_size (e_time e (sh_w sh) * 1000))"
    and "p = rs_workers rs ! stream_index (m_stream_name m) rs" and "deref rws (Some p) = Some rw"
    and "an \<notin> live (q_nodes (rw_q_msg rw))"
  shows "\<exists>q w1. rs_process_rtc_msg e ac an rs rws sh =
      Some (rs\<lparr>rs_q_msg := ms\<rparr>, store p (rw\<lparr>rw_q_msg := q\<rparr>) rws, sh\<lparr>sh_w := w1\<rparr>) \<and> lfq_inv q \<and>
    lfq_contents q = lfq_contents (rw_q_msg rw) @ [m\<lparr>m_certificate := Some c\<rparr>]"
proof -
  let ?rs = "rs\<lparr>rs_q_msg := ms\<rparr>"
  have ready: "rs_ready ?rs rws" using assms(1) by (simp add: rs_ready_queue)
  have idx: "stream_index name ?rs = stream_index name rs" for name by (simp add: stream_index_def)
  have g: "rs_get_worker (m_stream_name m) ?rs = Some (Some p)"
    using rs_get_worker_ready(1) [OF ready, of "m_stream_name m"] assms(6) by (simp add: idx)
  have "p \<in> set (rs_workers rs)"
    using rs_get_worker_ready(2) [OF assms(1), of "m_stream_name m"] assms(6) by simp
  then have "rw_inv rw" using assms(1,7) unfolding rs_ready_def by fastforce
  with rw_send_queue [of rw an "e_os e" "m\<lparr>m_certificate := Some c\<rparr>" "sh_w sh"] assms(8)
  obtain r q w1 where q: "rw_send_rtc_msg (e_os e) an (m\<lparr>m_certificate := Some c\<rparr>) rw (sh_w sh) =
      Some (r, rw\<lparr>rw_q_msg := q\<rparr>, w1)" "lfq_inv q"
      "lfq_contents q = lfq_contents (rw_q_msg rw) @ [m\<lparr>m_certificate := Some c\<rparr>]" by blast
  have k: "generate_and_check_certificate e ac ?rs sh = Some (0, ?rs, sh)"
    using assms(3-5) by (intro generate_and_check_keeps) simp_all
  show ?thesis
    using q g assms(3,7)
    by (intro exI [of _ q] exI [of _ w1]) (simp add: rs_process_rtc_msg_def rs_pop_cons [OF assms(2)] k)
qed

text \<open>Starting the workers, one after the other.\<close>

lemma rs_create_worker_ok:
  assumes "rs_create_worker e fresh i rs rws w = (0, rs1, rws1, w1)" and "fresh i = (this, a, el)"
  shows "\<exists>rw. rs1 = rs\<lparr>rs_workers := rs_workers rs @ [this]\<rparr> \<and> rws1 = store this rw rws \<and> rw_inv rw"
  using assms RtcWorker_new_inv [of this a el i "rs_options rs"]
  by (fastforce simp: rs_create_worker_def rw_init_def rw_start_def rw_inv_def RtcWorker_new_def
      split: prod.splits sum.splits if_splits bool.splits)

lemma rs_create_workers_ok:
  assumes "rs_create_workers e fresh is rs rws w = (0, rs1, rws1, w1)"
    and "distinct (map (fst \<circ> fresh) is)"
    and "\<forall>p \<in> set (rs_workers rs). p \<notin> set (map (fst \<circ> fresh) is) \<and> (\<exists>rw. deref rws (Some p) = Some rw \<and> rw_inv rw)"
  shows "rs_workers rs1 = rs_workers rs @ map (fst \<circ> fresh) is \<and> rs_options rs1 = rs_options rs \<and>
    rs_certificate rs1 = rs_certificate rs \<and> rs_q_msg rs1 = rs_q_msg rs \<and>
    (\<forall>p \<in> set (rs_workers rs1). \<exists>rw. deref rws1 (Some p) = Some rw \<and> rw_inv rw)"
  using assms
proof (induction "is" arbitrary: rs rws w)
  case Nil
  then show ?case by auto
next
  case (Cons i "is")
  obtain r rs2 rws2 w2 where c: "rs_create_worker e fresh i rs rws w = (r, rs2, rws2, w2)" by (metis surj_pair)
  with Cons.prems(1) have r: "r = 0" and rest: "rs_create_workers e fresh is rs2 rws2 w2 = (0, rs1, rws1, w1)"
    by (auto split: if_splits)
  obtain this' a el where f: "fresh i = (this', a, el)" by (metis surj_pair)
  from rs_create_worker_ok [OF c [unfolded r] f] obtain rw
    where rw: "rs2 = rs\<lparr>rs_workers := rs_workers rs @ [this']\<rparr>" "rws2 = store this' rw rws" "rw_inv rw" by blast
  have "\<forall>p \<in> set (rs_workers rs2). p \<notin> set (map (fst \<circ> fresh) is) \<and> (\<exists>rw. deref rws2 (Some p) = Some rw \<and> rw_inv rw)"
    using Cons.prems(2,3) rw f by (auto simp: heap_simps)
  with Cons.IH [OF rest] Cons.prems(2) rw f show ?case by simp
qed

section \<open>Properties of the RTC server\<close>

text \<open>A world in which every system call succeeds, to instantiate the environment.\<close>

definition calm_env :: "(unit, unit, unit) env" where
  "calm_env =
     \<lparr>e_os = \<lparr>sys_socket = (\<lambda>w. (Inr 3, w)), sys_reuseaddr = (\<lambda>fd w. (None, w)),
        inet_aton = (\<lambda>s. Some 1), inet_ntop = (\<lambda>a. ''127.0.0.1''),
        sys_bind = (\<lambda>fd sa w. (None, w)), sys_listen = (\<lambda>fd n w. (None, w)),
        sys_accept = (\<lambda>fd w. (Inr (9, \<lparr>sin_port = 80, sin_addr = 1\<rparr>), w)), sys_close = (\<lambda>fd w. w),
        sys_getfl = (\<lambda>fd w. (Inr 2, w)), sys_setfl = (\<lambda>fd fl w. (None, w)),
        sys_nodelay = (\<lambda>fd w. (None, w)), sys_getpeername = (\<lambda>fd w. (Inr \<lparr>sin_port = 80, sin_addr = 1\<rparr>, w)),
        sys_read = (\<lambda>fd n w. (Inl EAGAIN, w)), sys_write = (\<lambda>fd bs w. (Inr (length bs), w)),
        sys_pipe = (\<lambda>w. (Inr (4, 5), w))\<rparr>,
      e_ev = plain_libev,
      e_json = \<lparr>json_parse = (\<lambda>_. None), json_asInt = (\<lambda>_ _. None), json_asUInt64 = (\<lambda>_ _. None),
        json_asString = (\<lambda>_ _. None), json_write = (\<lambda>_. [])\<rparr>,
      e_rand = (\<lambda>n w. (Some (replicate n 7), w)),
      e_ssl_create = (\<lambda>_ _ _ w. (Some sample_certificate, w)),
      e_time = (\<lambda>w. 1700000000),
      e_yaml = (\<lambda>f. Some \<lparr>yaml_int = (\<lambda>_. Some 2), yaml_string = (\<lambda>_. Some ''x''), yaml_bool = (\<lambda>_. Some False)\<rparr>),
      e_noret = Some 1\<rparr>"

definition sample_server :: "unit rtc_server" where
  "sample_server = (RtcServer_new 2 () \<lparr>ro_worker_num = 1\<rparr>)
     \<lparr>rs_workers := [7], rs_certificate := Some 3, rs_q_msg := [new_rtc_msg 1 ''room'' 1 1 42 9]\<rparr>"

definition sample_rworkers :: "unit rworker heap" where
  "sample_rworkers = [(7, RtcWorker_new 7 20 () 0 \<lparr>ro_worker_num = 1\<rparr>)]"

definition sample_shared :: "(unit, unit) shared" where
  "sample_shared = \<lparr>sh_sworkers = [], sh_certs = [(3, sample_certificate)], sh_rng = SecureRandomGenerator, sh_w = ()\<rparr>"

lemma sample_server_ready: "rs_ready sample_server sample_rworkers"
  by (simp add: rs_ready_def sample_server_def sample_rworkers_def RtcServer_new_def RtcWorker_new_inv deref_def)

lemma sample_certificate_valid:
  "\<not> HasExpired sample_certificate (c_size (e_time calm_env (sh_w sample_shared) * 1000))"
  by (simp add: HasExpired_def Expires_def sample_certificate_def kNumMillisecsPerSec_def calm_env_def
      sample_shared_def c_size_id Let_def)

text \<open>
  C26. Messages are routed by stream: a started server hands the message at the head of its queue
  to exactly one worker, the one whose index is the CRC-32 of the stream name modulo the number
  of workers, at the end of that worker's queue and with the pointer of the current, live
  certificate. No other worker, message or field changes. Since the index depends on the name
  only, all messages of a stream reach the same worker, in the order they were sent.
\<close>

theorem rs_routes_by_stream:
  assumes "rs_ready rs rws" and "rs_q_msg rs = m # ms" and "rs_certificate rs = Some c"
    and "deref (sh_certs sh) (Some c) = Some cert"
    and "\<not> HasExpired cert (c_size (e_time e (sh_w sh) * 1000))"
    and "p = rs_workers rs ! (unat (ComputeCrc32 (m_stream_name m)) mod length (rs_workers rs))"
    and "deref rws (Some p) = Some rw" and "an \<notin> live (q_nodes (rw_q_msg rw))"
  shows "\<exists>q w1. rs_process_rtc_msg e ac an rs rws sh =
      Some (rs\<lparr>rs_q_msg := ms\<rparr>, store p (rw\<lparr>rw_q_msg := q\<rparr>) rws, sh\<lparr>sh_w := w1\<rparr>) \<and>
    lfq_contents q = lfq_contents (rw_q_msg rw) @ [m\<lparr>m_certificate := Some c\<rparr>] \<and>
    rs_ready (rs\<lparr>rs_q_msg := ms\<rparr>) (store p (rw\<lparr>rw_q_msg := q\<rparr>) rws)"
proof -
  have p: "p = rs_workers rs ! stream_index (m_stream_name m) rs"
    using assms(6) by (simp add: stream_index_def)
  from rs_process_forwards [OF assms(1-5) p assms(7,8)] obtain q w1 where
    q: "rs_process_rtc_msg e ac an rs rws sh =
      Some (rs\<lparr>rs_q_msg := ms\<rparr>, store p (rw\<lparr>rw_q_msg := q\<rparr>) rws, sh\<lparr>sh_w := w1\<rparr>)" "lfq_inv q"
      "lfq_contents q = lfq_contents (rw_q_msg rw) @ [m\<lparr>m_certificate := Some c\<rparr>]" by blast
  have "p \<in> set (rs_workers rs)" using rs_get_worker_ready(2) [OF assms(1)] p by simp
  then have "rw_inv rw" using assms(1,7) unfolding rs_ready_def by fastforce
  with q(2) have "rw_inv (rw\<lparr>rw_q_msg := q\<rparr>)" by (simp add: rw_inv_def)
  with assms(1) have "rs_ready (rs\<lparr>rs_q_msg := ms\<rparr>) (store p (rw\<lparr>rw_q_msg := q\<rparr>) rws)"
    by (simp add: rs_ready_queue rs_ready_store)
  with q show ?thesis by blast
qed

theorem rs_routes_by_stream_witness:
  "\<exists>q. rs_process_rtc_msg calm_env 30 31 sample_server sample_rworkers sample_shared =
      Some (sample_server\<lparr>rs_q_msg := []\<rparr>,
        store 7 ((RtcWorker_new 7 20 () 0 \<lparr>ro_worker_num = 1\<rparr>)\<lparr>rw_q_msg := q\<rparr>) sample_rworkers, sample_shared) \<and>
    lfq_contents q = [(new_rtc_msg 1 ''room'' 1 1 42 9)\<lparr>m_certificate := Some 3\<rparr>]"
proof -
  let ?rw = "RtcWorker_new 7 20 () 0 \<lparr>ro_worker_num = 1\<rparr>"
  have h: "rs_q_msg sample_server = [new_rtc_msg 1 ''room'' 1 1 42 9]" "rs_certificate sample_server = Some 3"
    "deref (sh_certs sample_shared) (Some 3) = Some sample_certificate"
    "deref sample_rworkers (Some 7) = Some ?rw" "31 \<notin> live (q_nodes (rw_q_msg ?rw))"
    "lfq_contents (rw_q_msg ?rw) = []"
    by (simp_all add: sample_server_def sample_shared_def sample_rworkers_def deref_def RtcWorker_new_def
        lfq_init_def live_def lfq_init_contents [unfolded lfq_init_def])
  have p: "7 = rs_workers sample_server ! (unat (ComputeCrc32 (m_stream_name (new_rtc_msg 1 ''room'' 1 1 42 9)))
      mod length (rs_workers sample_server))"
    by (simp add: sample_server_def)
  from rs_routes_by_stream [OF sample_server_ready h(1-3) sample_certificate_valid p h(4,5), of 30] h(6)
  show ?thesis by (auto simp: sample_shared_def)
qed

text \<open>
  A successful start makes the server ready: when \<^verbatim>\<open>init\<close> returns 0 for a positive number of
  workers and the allocator gives distinct addresses, exactly the configured number of workers
  runs, each with an empty well-formed queue, and the server holds a certificate.
\<close>

lemma rs_init_ready:
  assumes "rs_init e fresh a (Some f) (RtcServer_new this el opts) [] sh = Some (0, rs1, rws1, sh1)"
    and "e_yaml e f = Some y" and "yaml_int y [''worker_num''] = Some n" and "0 < n" and "n < 2 ^ 31"
    and "distinct (map (fst \<circ> fresh) [0..n - 1])"
  shows "rs_ready rs1 rws1 \<and> rs_workers rs1 = map (fst \<circ> fresh) [0..n - 1] \<and> rs_q_msg rs1 = [] \<and>
    rs_certificate rs1 = Some a"
proof -
  let ?rs = "(RtcServer_new this el opts)\<lparr>rs_options := \<lparr>ro_worker_num = n\<rparr>\<rparr>"
  from assms(1-3) obtain rs2 sh2 w3 rfd sfd pw l where
    g: "generate_and_check_certificate e a ?rs sh = Some (0, rs2, sh2)" and
    c: "rs_create_workers e fresh [0..n - 1]
      (rs2\<lparr>rs_notify_recv_fd := rfd, rs_notify_send_fd := sfd, rs_pipe_watcher := Some pw, rs_el := l\<rparr>) [] w3 =
      (0, rs1, rws1, sh_w sh1)"
    by (auto simp: rs_init_def split: bind_splits if_splits prod.splits sum.splits)
  from g have rs2: "rs2 = ?rs\<lparr>rs_certificate := Some a\<rparr>"
    by (auto simp: generate_and_check_certificate_def RtcServer_new_def split: prod.splits option.splits)
  have "rs_workers rs1 = map (fst \<circ> fresh) [0..n - 1] \<and> rs_options rs1 = \<lparr>ro_worker_num = n\<rparr> \<and>
      rs_certificate rs1 = Some a \<and> rs_q_msg rs1 = [] \<and>
      (\<forall>p \<in> set (rs_workers rs1). \<exists>rw. deref rws1 (Some p) = Some rw \<and> rw_inv rw)"
    using rs_create_workers_ok [OF c assms(6)] rs2 by (simp add: RtcServer_new_def)
  moreover have "[0..n - 1] \<noteq> []" using assms(4) by simp
  ultimately show ?thesis using assms(4,5) by (auto simp: rs_ready_def)
qed

lemma rs_addr_new: "rs_addr (RtcServer_new this el options) = this"
  by (simp add: RtcServer_new_def)

lemma calm_create_workers: "\<exists>rs1 rws1. rs_create_workers calm_env fresh is rs rws () = (0, rs1, rws1, ())"
proof (induction "is" arbitrary: rs rws)
  case (Cons i "is")
  have "\<exists>rs1 rws1. rs_create_worker calm_env fresh i rs rws () = (0, rs1, rws1, ())"
    by (cases "fresh i") (auto simp: rs_create_worker_def rw_init_def rw_start_def RtcWorker_new_def calm_env_def
        split: prod.splits)
  with Cons show ?case by auto
qed simp

text \<open>
  C38. The certificate pointer in a queued message can dangle: when the server renews an expired
  certificate, the old one is freed although messages sent to the workers earlier still carry a
  raw pointer to it, and a worker that takes such a push message (the new certificate not being
  at the same address) runs into undefined behaviour.
\<close>

theorem renewal_dangles_queued_messages:
  assumes "rs_certificate rs = Some c" and "deref (sh_certs sh) (Some c) = Some cert"
    and "HasExpired cert (c_size (e_time e (sh_w sh) * 1000))" and "a \<noteq> c"
    and "generate_and_check_certificate e a rs sh = Some (r, rs1, sh1)"
    and "m_certificate m = Some c" and "m_audio m \<noteq> 0 \<or> m_video m \<noteq> 0"
  shows "deref (sh_certs sh1) (Some c) = None \<and> rw_process_push e s m rw sh1 = None"
proof -
  have d: "deref (sh_certs sh1) (Some c) = None"
    using assms(1-5)
    by (auto simp: generate_and_check_certificate_def free_certificate_def heap_simps split: prod.splits option.splits)
  have "create_push_stream nr rand (sh_certs sh1) s uid name au vi li (Some c) mgr g w = None"
    if "au \<or> vi" for nr rand uid name au vi li mgr g and w :: 'b
    using d that
    by (auto simp: create_push_stream_def PushStream_create_offer_def create_offer_def RtcStream_start_def
        PeerConnection_init_def PushStream_new_def PushStream_options_def RTCOfferAnswerOptions_def add_media_def
        cert_arg_def Let_def split: bind_splits prod.splits)
  with d assms(6,7) show ?thesis by (auto simp: rw_process_push_def)
qed

theorem renewal_dangles_queued_messages_witness:
  "\<exists>r rs1 sh1. generate_and_check_certificate (calm_env\<lparr>e_time := (\<lambda>w. 2000000001)\<rparr>) 30 sample_server sample_shared =
      Some (r, rs1, sh1) \<and>
    rw_process_push (calm_env\<lparr>e_time := (\<lambda>w. 2000000001)\<rparr>) 40
      ((new_rtc_msg 1 ''room'' 1 1 42 9)\<lparr>m_certificate := Some 3\<rparr>) (RtcWorker_new 7 20 () 0 \<lparr>ro_worker_num = 1\<rparr>) sh1 = None"
proof -
  let ?e = "calm_env\<lparr>e_time := (\<lambda>w. 2000000001)\<rparr>"
  let ?m = "(new_rtc_msg 1 ''room'' 1 1 42 9)\<lparr>m_certificate := Some 3\<rparr>"
  have c: "rs_certificate sample_server = Some 3" "deref (sh_certs sample_shared) (Some 3) = Some sample_certificate"
    by (simp_all add: sample_server_def sample_shared_def deref_def)
  have x: "HasExpired sample_certificate (c_size (e_time ?e (sh_w sample_shared) * 1000))"
    by (simp add: HasExpired_def Expires_def sample_certificate_def kNumMillisecsPerSec_def c_size_id Let_def)
  have "generate_and_check_certificate ?e 30 sample_server sample_shared \<noteq> None"
    using c x by (simp add: generate_and_check_certificate_def)
  then obtain r rs1 sh1 where g: "generate_and_check_certificate ?e 30 sample_server sample_shared = Some (r, rs1, sh1)"
    by auto
  have m: "m_certificate ?m = Some 3" "m_audio ?m \<noteq> 0 \<or> m_video ?m \<noteq> 0" by (simp_all add: new_rtc_msg_def)
  from renewal_dangles_queued_messages [OF c x _ g m, of 40 "RtcWorker_new 7 20 () 0 \<lparr>ro_worker_num = 1\<rparr>"] g
  show ?thesis by auto
qed

end
