(* ===== verification/SignalingWorker.thy ===== *)
theory SignalingWorker
  imports RtcServer
begin

text \<open>
  \<^verbatim>\<open>server/signaling_worker.cpp\<close>: the threads that own the client connections. A worker reacts to
  three kinds of events: a number on its notification pipe (stop, a new connection, an answer
  from an RTC worker), a connection that is readable or writable, and the timer of a
  connection. Every handler takes and returns the worker, the RTC server (which it sends
  requests to) and the world.

  A handler without loops returns an \<open>option\<close>, \<open>None\<close> being undefined behaviour. Two loops of the
  source need not end, so they and the handlers around them return a \<open>res option\<close>: \<open>None\<close> when the
  call does not return, \<open>Some UB\<close> for undefined behaviour, \<open>Some (Ret x)\<close> for a result.
\<close>

section \<open>State\<close>

datatype 'a res = UB | Ret 'a

definition of_option :: "'a option \<Rightarrow> 'a res option" where
  "of_option r = Some (case r of None \<Rightarrow> UB | Some x \<Rightarrow> Ret x)"

record ('w, 'l) ctx =
  x_sw :: "'l sworker"
  x_rs :: "'l rtc_server"
  x_w :: 'w

abbreviation conn_at :: "('w, 'l) ctx \<Rightarrow> addr \<Rightarrow> tcp_connection option" where
  "conn_at x a \<equiv> deref (sw_heap (x_sw x)) (Some a)"

definition set_conn :: "addr \<Rightarrow> tcp_connection \<Rightarrow> ('w, 'l) ctx \<Rightarrow> ('w, 'l) ctx" where
  "set_conn a c x = x\<lparr>x_sw := (x_sw x)\<lparr>sw_heap := store a c (sw_heap (x_sw x))\<rparr>\<rparr>"

definition set_el :: "'l \<Rightarrow> ('w, 'l) ctx \<Rightarrow> ('w, 'l) ctx" where
  "set_el l x = x\<lparr>x_sw := (x_sw x)\<lparr>sw_el := l\<rparr>\<rparr>"

text \<open>Reading \<open>n\<close> initialised bytes at an offset of a query buffer.\<close>

definition buf_slice :: "nat \<Rightarrow> nat \<Rightarrow> sds \<Rightarrow> bytes option" where
  "buf_slice off n s =
     (let cells = take n (drop off (sds_buf s))
      in if length cells = n \<and> None \<notin> set cells then Some (map the cells) else None)"

section \<open>Closing\<close>

text \<open>
  \<^verbatim>\<open>_conns[c->fd] = nullptr\<close> outside the vector is undefined; \<^verbatim>\<open>delete c\<close> runs the destructor, which
  closes the descriptor once more.
\<close>

definition remove_conn :: "('w, 'l, 'j) env \<Rightarrow> addr \<Rightarrow> ('w, 'l) ctx \<Rightarrow> ('w, 'l) ctx option" where
  "remove_conn e a x =
     do { c \<leftarrow> conn_at x a;
          tw \<leftarrow> c_timer_watcher c;
          iw \<leftarrow> c_io_watcher c;
          let sw = x_sw x;
          if 0 \<le> c_fd c \<and> nat (c_fd c) < length (sw_conns sw)
          then Some (x\<lparr>x_sw := sw\<lparr>sw_el := delete_io_event (e_ev e) iw (delete_timer (e_ev e) tw (sw_el sw)),
                                   sw_conns := (sw_conns sw)[nat (c_fd c) := None],
                                   sw_heap := release a (sw_heap sw)\<rparr>,
                       x_w := TcpConnection_destroy (e_os e) c (x_w x)\<rparr>)
          else None }"

definition close_conn :: "('w, 'l, 'j) env \<Rightarrow> addr \<Rightarrow> ('w, 'l) ctx \<Rightarrow> ('w, 'l) ctx option" where
  "close_conn e a x =
     do { c \<leftarrow> conn_at x a; remove_conn e a (x\<lparr>x_w := sys_close (e_os e) (c_fd c) (x_w x)\<rparr>) }"

section \<open>Requests\<close>

text \<open>
  The members of the request are read inside one \<^verbatim>\<open>try\<close>; any exception makes the function return
  -1. \<^verbatim>\<open>uint32_t log_id\<close> becomes an \<^verbatim>\<open>int\<close> in the call.
\<close>

definition process_push ::
    "('w, 'l, 'j) env \<Rightarrow> int \<Rightarrow> addr \<Rightarrow> 'j \<Rightarrow> int \<Rightarrow> ('w, 'l) ctx \<Rightarrow> (int \<times> ('w, 'l) ctx) option" where
  "process_push e cmdno a json log_id x =
     (case do { uid \<leftarrow> json_asUInt64 (e_json e) json ''uid'';
                name \<leftarrow> json_asString (e_json e) json ''stream_name'';
                audio \<leftarrow> json_asInt (e_json e) json ''audio'';
                video \<leftarrow> json_asInt (e_json e) json ''video'';
                Some (new_rtc_msg cmdno name audio video uid log_id) } of
        None \<Rightarrow> Some (- 1, x)
      | Some m \<Rightarrow>
          do { c \<leftarrow> conn_at x a;
               Some (case rs_send_rtc_msg (e_os e)
                        (m\<lparr>m_worker := Some (sw_addr (x_sw x)), m_conn := Some a, m_fd := c_fd c\<rparr>)
                        (x_rs x) (x_w x) of
                 (r, rs, w) \<Rightarrow> (r, x\<lparr>x_rs := rs, x_w := w\<rparr>)) })"

definition process_request ::
    "('w, 'l, 'j) env \<Rightarrow> addr \<Rightarrow> bytes \<Rightarrow> bytes \<Rightarrow> ('w, 'l) ctx \<Rightarrow> (int \<times> ('w, 'l) ctx) option" where
  "process_request e a header body x =
     (let log_id = uint (xh_log_id (xhead_of header)) in
      case json_parse (e_json e) body of
        None \<Rightarrow> Some (- 1, x)
      | Some json \<Rightarrow>
          (case json_asInt (e_json e) json ''cmdno'' of
             None \<Rightarrow> Some (- 1, x)
           | Some cmdno \<Rightarrow>
               if cmdno = CMDNO_PUSH then process_push e cmdno a json (c_int log_id) x
               else map_option (\<lambda>k. (k, x)) (e_noret e)))"

text \<open>
  One round of the loop of \<^verbatim>\<open>_process_query_buffer\<close>: \<open>Some r\<close> is \<^verbatim>\<open>return r\<close>, \<open>None\<close> goes on.
\<close>

definition query_step ::
    "('w, 'l, 'j) env \<Rightarrow> addr \<Rightarrow> tcp_connection \<Rightarrow> ('w, 'l) ctx \<Rightarrow> (int option \<times> ('w, 'l) ctx) option" where
  "query_step e a c x =
     do { header \<leftarrow> buf_slice 0 XHEAD_SIZE (c_querybuf c);
          let head = xhead_of header;
          if c_currentState c = STATE_HEAD then
            if xh_magic_num head \<noteq> XHEAD_MAGIC_NUM then Some (Some (- 1), x)
            else Some (None, set_conn a (c\<lparr>c_currentState := STATE_BODY, c_bytes_processed := int XHEAD_SIZE,
                                           c_bytes_expected := uint (xh_body_len head)\<rparr>) x)
          else do {
            body \<leftarrow> buf_slice XHEAD_SIZE (unat (xh_body_len head)) (c_querybuf c);
            (ret, x1) \<leftarrow> process_request e a header body x;
            if ret \<noteq> 0 then Some (Some (- 1), x1)
            else do { c1 \<leftarrow> conn_at x1 a; Some (None, set_conn a (c1\<lparr>c_bytes_processed := 65535\<rparr>) x1) } } }"

partial_function (option) process_query_buffer ::
    "('w, 'l, 'j) env \<Rightarrow> addr \<Rightarrow> ('w, 'l) ctx \<Rightarrow> (int \<times> ('w, 'l) ctx) res option" where
  "process_query_buffer e a x =
     (case conn_at x a of
        None \<Rightarrow> Some UB
      | Some c \<Rightarrow>
          if sdslen (c_querybuf c) < c_size (c_bytes_expected c + c_bytes_processed c) then Some (Ret (0, x))
          else case query_step e a c x of
              None \<Rightarrow> Some UB
            | Some (r, x1) \<Rightarrow>
                (case r of Some ret \<Rightarrow> Some (Ret (ret, x1)) | None \<Rightarrow> process_query_buffer e a x1))"

section \<open>Reading\<close>

definition conn_slot :: "int \<Rightarrow> ('w, 'l) ctx \<Rightarrow> ptr" where
  "conn_slot fd x = (if 0 \<le> fd \<and> nat fd < length (sw_conns (x_sw x)) then sw_conns (x_sw x) ! nat fd else None)"

text \<open>What follows the processing of the buffer in \<^verbatim>\<open>_read_conn\<close>.\<close>

definition finish_read ::
    "('w, 'l, 'j) env \<Rightarrow> addr \<Rightarrow> (int \<times> ('w, 'l) ctx) res option \<Rightarrow> ('w, 'l) ctx res option" where
  "finish_read e a r =
     (case r of
        None \<Rightarrow> None
      | Some UB \<Rightarrow> Some UB
      | Some (Ret (ret, x)) \<Rightarrow> if ret \<noteq> 0 then of_option (close_conn e a x) else Some (Ret x))"

definition receive :: "('w, 'l, 'j) env \<Rightarrow> tcp_connection \<Rightarrow> int \<Rightarrow> ('w, 'l) ctx \<Rightarrow> (int \<times> tcp_connection \<times> 'w) option" where
  "receive e c fd x =
     (let read_len = c_int (c_bytes_expected c);
          qb_len = c_int (sdslen (c_querybuf c));
          qb = sdsMakeRoomFor (c_querybuf c) (c_size read_len)
      in case sock_read_data (e_os e) fd read_len (x_w x) of
           ((nread, bs), w) \<Rightarrow>
             do { qb1 \<leftarrow> write_at (nat qb_len) bs qb;
                  qb2 \<leftarrow> (if nread > 0 then sdsIncrLen qb1 nread else Some qb1);
                  Some (nread, c\<lparr>c_querybuf := qb2, c_last_active_time := el_now (e_ev e) (sw_el (x_sw x))\<rparr>, w) })"

definition read_conn :: "('w, 'l, 'j) env \<Rightarrow> int \<Rightarrow> ('w, 'l) ctx \<Rightarrow> ('w, 'l) ctx res option" where
  "read_conn e fd x =
     (case conn_slot fd x of
        None \<Rightarrow> Some (Ret x)
      | Some a \<Rightarrow>
          (case conn_at x a of
             None \<Rightarrow> Some UB
           | Some c \<Rightarrow>
               (case receive e c fd x of
                  None \<Rightarrow> Some UB
                | Some (nread, c1, w) \<Rightarrow>
                    (let x1 = set_conn a c1 (x\<lparr>x_w := w\<rparr>)
                     in if nread = - 1 then of_option (close_conn e a x1)
                        else finish_read e a (process_query_buffer e a x1)))))"

section \<open>Answers\<close>

definition add_reply :: "('w, 'l, 'j) env \<Rightarrow> addr \<Rightarrow> bytes \<Rightarrow> ('w, 'l) ctx \<Rightarrow> ('w, 'l) ctx option" where
  "add_reply e a msg x =
     do { c \<leftarrow> conn_at x a;
          iw \<leftarrow> c_io_watcher c;
          Some (case start_io_event (e_ev e) iw (c_fd c) WRITE (sw_el (x_sw x)) of
            (l, iw1) \<Rightarrow> set_el l (set_conn a (c\<lparr>c_reply_msgs := c_reply_msgs c @ [msg], c_io_watcher := Some iw1\<rparr>) x)) }"

definition response_body :: "'j jsoncpp \<Rightarrow> rtc_msg \<Rightarrow> bytes" where
  "response_body js m =
     json_write js
       (if m_err_no m \<noteq> 0
        then [(''err_no'', JInt (m_err_no m)), (''err_msg'', JString ''process sdp error''), (''offer'', JString [])]
        else [(''err_no'', JInt (m_err_no m)), (''err_msg'', JString ''process sdp success''),
              (''offer'', JString (m_sdp m))])"

text \<open>
  The reply is built in a buffer of \<^verbatim>\<open>XHEAD_SIZE + MAX_RES_BUF\<close> bytes without a check: a longer body
  overflows it.
\<close>

definition response_server_offer :: "('w, 'l, 'j) env \<Rightarrow> rtc_msg \<Rightarrow> ('w, 'l) ctx \<Rightarrow> ('w, 'l) ctx option" where
  "response_server_offer e m x =
     (case m_conn m of
        None \<Rightarrow> Some x
      | Some a \<Rightarrow>
          if m_fd m \<le> 0 \<or> length (sw_conns (x_sw x)) \<le> nat (m_fd m) then Some x
          else if sw_conns (x_sw x) ! nat (m_fd m) \<noteq> Some a then Some x
          else do { c \<leftarrow> conn_at x a;
                    header \<leftarrow> buf_slice 0 XHEAD_SIZE (c_querybuf c);
                    let body = response_body (e_json e) m;
                    if length body \<le> MAX_RES_BUF
                    then add_reply e a (set_body_len (word_of_nat (length body)) header @ body) x
                    else None })"

definition sw_process_rtc_msg :: "('w, 'l, 'j) env \<Rightarrow> ('w, 'l) ctx \<Rightarrow> (int \<times> ('w, 'l) ctx) option" where
  "sw_process_rtc_msg e x =
     (case pop_rtc_msg (x_sw x) of
        (sw, None) \<Rightarrow> Some (0, x\<lparr>x_sw := sw\<rparr>)
      | (sw, Some m) \<Rightarrow>
          do { x1 \<leftarrow> (if m_cmdno m = CMDNO_PUSH then response_server_offer e m (x\<lparr>x_sw := sw\<rparr>)
                      else Some (x\<lparr>x_sw := sw\<rparr>));
               k \<leftarrow> e_noret e;
               Some (k, x1) })"

section \<open>Writing\<close>

text \<open>
  The loop of \<^verbatim>\<open>_write_conn\<close>; it always writes from the start of the message. The result tells
  whether the loop ended with all replies sent (\<open>True\<close>) or closed the connection (\<open>False\<close>).
\<close>

partial_function (option) write_loop ::
    "('w, 'l, 'j) env \<Rightarrow> addr \<Rightarrow> int \<Rightarrow> int \<Rightarrow> ('w, 'l) ctx \<Rightarrow> (bool \<times> ('w, 'l) ctx) res option" where
  "write_loop e a fd cur_pos x =
     (case conn_at x a of
        None \<Rightarrow> Some UB
      | Some c \<Rightarrow>
          (case c_reply_msgs c of
             [] \<Rightarrow> Some (Ret (True, x))
           | msg # rest \<Rightarrow>
               (case sock_write_data (e_os e) fd msg (x_w x) of
                  (ret, w) \<Rightarrow>
                    (let x1 = x\<lparr>x_w := w\<rparr>
                     in if ret < 0 then of_option (map_option (Pair False) (close_conn e a x1))
                        else if ret = 0 then write_loop e a fd cur_pos x1
                        else if c_size (ret + cur_pos) \<ge> int (length msg)
                          then write_loop e a fd 0 (set_conn a (c\<lparr>c_reply_msgs := rest\<rparr>) x1)
                        else write_loop e a fd (c_int (cur_pos + ret)) x1))))"

definition finish_write :: "('w, 'l, 'j) env \<Rightarrow> addr \<Rightarrow> ('w, 'l) ctx \<Rightarrow> ('w, 'l) ctx option" where
  "finish_write e a x =
     do { c \<leftarrow> conn_at x a;
          let c1 = c\<lparr>c_last_active_time := el_now (e_ev e) (sw_el (x_sw x))\<rparr>;
          if c_reply_msgs c1 = [] then
            do { iw \<leftarrow> c_io_watcher c1;
                 Some (case stop_io_event (e_ev e) iw (c_fd c1) WRITE (sw_el (x_sw x)) of
                   (l, iw1) \<Rightarrow> set_el l (set_conn a (c1\<lparr>c_io_watcher := Some iw1\<rparr>) x)) }
          else Some (set_conn a c1 x) }"

definition write_conn :: "('w, 'l, 'j) env \<Rightarrow> int \<Rightarrow> ('w, 'l) ctx \<Rightarrow> ('w, 'l) ctx res option" where
  "write_conn e fd x =
     (if fd \<le> 0 then Some (Ret x)
      else case conn_slot fd x of
          None \<Rightarrow> Some (Ret x)
        | Some a \<Rightarrow>
            (case write_loop e a fd 0 x of
               None \<Rightarrow> None
             | Some UB \<Rightarrow> Some UB
             | Some (Ret (finished, x1)) \<Rightarrow> if finished then of_option (finish_write e a x1) else Some (Ret x1)))"

section \<open>New connections, timers, notifications\<close>

text \<open>\<open>a\<close> is the address of the new \<^verbatim>\<open>TcpConnection\<close>.\<close>

definition new_conn :: "('w, 'l, 'j) env \<Rightarrow> addr \<Rightarrow> int \<Rightarrow> ('w, 'l) ctx \<Rightarrow> ('w, 'l) ctx option" where
  "new_conn e a fd x =
     (if fd < 0 then Some x
      else case sock_set_non_block (e_os e) fd (x_w x) of
        (r1, w1) \<Rightarrow>
          if r1 < 0 then Some (x\<lparr>x_w := sys_close (e_os e) fd w1\<rparr>)
          else case sock_set_tcp_nodelay (e_os e) fd w1 of
            (r2, w2) \<Rightarrow>
              if r2 < 0 then Some (x\<lparr>x_w := sys_close (e_os e) fd w2\<rparr>)
              else
                (let c0 = TcpConnection_new fd in
                 case sock_peer_to_string (e_os e) fd (c_ip c0) w2 of
                   ((r3, ip, port), w3) \<Rightarrow>
                     (let c1 = c0\<lparr>c_ip := ip, c_port := port\<rparr> in
                      if r3 < 0 then Some (set_conn a c1 (x\<lparr>x_w := sys_close (e_os e) fd w3\<rparr>))
                      else
                        (let sw = x_sw x;
                             (l1, iw) = start_io_event (e_ev e) (create_io_event (e_ev e) Conn_io_cb (sw_addr sw)) fd READ (sw_el sw);
                             (l2, tw) = start_timer (e_ev e) (create_timer (e_ev e) Conn_timer_cb a True) 100000 l1;
                             c2 = c1\<lparr>c_io_watcher := Some iw, c_timer_watcher := Some tw,
                                     c_last_active_time := el_now (e_ev e) l2\<rparr>;
                             conns = (if int (length (sw_conns sw)) \<le> fd
                               then take (nat (c_int (fd * 2))) (sw_conns sw) @
                                    replicate (nat (c_int (fd * 2)) - length (sw_conns sw)) None
                               else sw_conns sw)
                         in if nat fd < length conns
                            then Some (set_conn a c2 (x\<lparr>x_sw := sw\<lparr>sw_el := l2, sw_conns := conns[nat fd := Some a]\<rparr>, x_w := w3\<rparr>))
                            else None))))"

definition process_timeout :: "('w, 'l, 'j) env \<Rightarrow> addr \<Rightarrow> ('w, 'l) ctx \<Rightarrow> ('w, 'l) ctx option" where
  "process_timeout e a x =
     do { c \<leftarrow> conn_at x a;
          if c_size (el_now (e_ev e) (sw_el (x_sw x)) - c_last_active_time c)
             \<ge> c_uint (so_connection_timeout_ms (sw_options (x_sw x)))
          then close_conn e a x else Some x }"

definition sw_do_stop :: "('w, 'l, 'j) env \<Rightarrow> ('w, 'l) ctx \<Rightarrow> ('w, 'l) ctx option" where
  "sw_do_stop e x =
     (let sw = x_sw x in
      if \<not> sw_thread sw then Some x
      else do { pw \<leftarrow> sw_pipe_watcher sw;
                Some (x\<lparr>x_sw := sw\<lparr>sw_el := el_stop (e_ev e) (delete_io_event (e_ev e) pw (sw_el sw))\<rparr>,
                        x_w := sys_close (e_os e) (sw_notify_send_fd sw)
                                 (sys_close (e_os e) (sw_notify_recv_fd sw) (x_w x))\<rparr>) })"

definition sw_process_notify :: "('w, 'l, 'j) env \<Rightarrow> addr \<Rightarrow> int \<Rightarrow> ('w, 'l) ctx \<Rightarrow> ('w, 'l) ctx option" where
  "sw_process_notify e a msg x =
     (if msg = SW_QUIT then sw_do_stop e x
      else if msg = SW_NEW_CONN then
        do { (q, taken) \<leftarrow> consume (sw_q_conn (x_sw x));
             let x1 = x\<lparr>x_sw := (x_sw x)\<lparr>sw_q_conn := q\<rparr>\<rparr>;
             case taken of None \<Rightarrow> Some x1 | Some fd \<Rightarrow> new_conn e a fd x1 }
      else if msg = SW_RTC_MSG then map_option snd (sw_process_rtc_msg e x)
      else Some x)"

section \<open>Callbacks and start\<close>

definition signaling_worker_recv_notify ::
    "('w, 'l, 'j) env \<Rightarrow> addr \<Rightarrow> int \<Rightarrow> ('w, 'l) ctx \<Rightarrow> ('w, 'l) ctx option" where
  "signaling_worker_recv_notify e a fd x =
     (case notify_read (e_os e) fd (x_w x) of
        (None, w) \<Rightarrow> Some (x\<lparr>x_w := w\<rparr>)
      | (Some msg, w) \<Rightarrow> sw_process_notify e a msg (x\<lparr>x_w := w\<rparr>))"

definition conn_io_cb :: "('w, 'l, 'j) env \<Rightarrow> int \<Rightarrow> int \<Rightarrow> ('w, 'l) ctx \<Rightarrow> ('w, 'l) ctx res option" where
  "conn_io_cb e fd events x =
     (case (if events AND READ \<noteq> 0 then read_conn e fd x else Some (Ret x)) of
        None \<Rightarrow> None
      | Some UB \<Rightarrow> Some UB
      | Some (Ret x1) \<Rightarrow> if events AND WRITE \<noteq> 0 then write_conn e fd x1 else Some (Ret x1))"

definition conn_timer_cb :: "('w, 'l, 'j) env \<Rightarrow> addr \<Rightarrow> ('w, 'l) ctx \<Rightarrow> ('w, 'l) ctx option" where
  "conn_timer_cb e a x = process_timeout e a x"

definition sw_init :: "('w, 'l, 'j) env \<Rightarrow> 'l sworker \<Rightarrow> 'w \<Rightarrow> (int \<times> 'l sworker \<times> 'w) option" where
  "sw_init e sw w =
     (case sys_pipe (e_os e) w of
        (Inl err, w1) \<Rightarrow> Some (- 1, sw, w1)
      | (Inr (rfd, sfd), w1) \<Rightarrow>
          (case start_io_event (e_ev e) (create_io_event (e_ev e) Signaling_worker_recv_notify (sw_addr sw)) rfd READ (sw_el sw) of
             (l, pw) \<Rightarrow>
               map_option (\<lambda>k. (k, sw\<lparr>sw_notify_recv_fd := rfd, sw_notify_send_fd := sfd,
                                      sw_pipe_watcher := Some pw, sw_el := l\<rparr>, w1)) (e_noret e)))"

definition sw_start :: "'l sworker \<Rightarrow> bool \<times> 'l sworker" where
  "sw_start sw = (if sw_thread sw then (False, sw) else (True, sw\<lparr>sw_thread := True\<rparr>))"

interpretation swt: startable sw_start sw_thread
  by unfold_locales (simp_all add: sw_start_def)

text \<open>
  The destructor closes the connections that are left (its range loop reads the vector that
  \<^verbatim>\<open>_close_conn\<close> clears entries of), deletes the event loop, closes both ends of the pipe and joins the
  thread. Destroying the loop of a thread that still runs in it is undefined, and joining a thread
  that has been joined before throws out of the destructor, which ends the program: both are
  \<open>None\<close>.
\<close>

fun close_all :: "('w, 'l, 'j) env \<Rightarrow> ptr list \<Rightarrow> ('w, 'l) ctx \<Rightarrow> ('w, 'l) ctx option" where
  "close_all e [] x = Some x"
| "close_all e (None # ps) x = close_all e ps x"
| "close_all e (Some a # ps) x = do { x1 \<leftarrow> close_conn e a x; close_all e ps x1 }"

definition sw_destroy :: "('w, 'l, 'j) env \<Rightarrow> thread_state \<Rightarrow> ('w, 'l) ctx \<Rightarrow> ('w, 'l) ctx option" where
  "sw_destroy e t x =
     do { x1 \<leftarrow> close_all e (sw_conns (x_sw x)) x;
          if sw_thread (x_sw x1) \<and> t \<noteq> Returned then None
          else Some (x1\<lparr>x_sw := (x_sw x1)\<lparr>sw_conns := [], sw_thread := False\<rparr>,
                   x_w := sys_close (e_os e) (sw_notify_send_fd (x_sw x1))
                            (sys_close (e_os e) (sw_notify_recv_fd (x_sw x1)) (x_w x1))\<rparr>) }"

section \<open>Frames\<close>

text \<open>
  The specification of the wire format: what the bytes a client has sent so far amount to.
\<close>

datatype frame = Incomplete | Bad_magic | Complete bytes bytes

definition body_len :: "bytes \<Rightarrow> nat" where
  "body_len b = unat (xh_body_len (xhead_of b))"

definition frame_of :: "bytes \<Rightarrow> frame" where
  "frame_of b =
     (if length b < XHEAD_SIZE then Incomplete
      else if xh_magic_num (xhead_of b) \<noteq> XHEAD_MAGIC_NUM then Bad_magic
      else if length b < XHEAD_SIZE + body_len b then Incomplete
      else Complete (take XHEAD_SIZE b) (take (body_len b) (drop XHEAD_SIZE b)))"

lemma xhead_of_take: "XHEAD_SIZE \<le> length b \<Longrightarrow> xhead_of (take XHEAD_SIZE b) = xhead_of b"
  using xhead_of_prefix [of "take XHEAD_SIZE b" "drop XHEAD_SIZE b"] by (simp add: min_def)

lemma body_len_append: "XHEAD_SIZE \<le> length b \<Longrightarrow> body_len (b @ bs) = body_len b"
  by (simp add: body_len_def xhead_of_prefix)

lemma uint_body_len: "uint (xh_body_len (xhead_of b)) = int (body_len b)"
  by (simp add: body_len_def)

lemma body_len_bound: "body_len b < 2 ^ 32"
  unfolding body_len_def using unsigned_less [of "xh_body_len (xhead_of b)", where ?'a = nat] by simp

section \<open>The state of a connection between two events\<close>

definition handled :: "tcp_connection \<Rightarrow> bool" where
  "handled c \<longleftrightarrow> c_bytes_processed c = 65535"

definition conn_bytes :: "tcp_connection \<Rightarrow> bytes" where
  "conn_bytes c = sds_bytes (c_querybuf c)"

text \<open>
  Between events a connection either waits for the rest of its header or of its body, or its
  one request has been handled; what it has received is in its buffer.
\<close>

definition conn_rest :: "tcp_connection \<Rightarrow> bool" where
  "conn_rest c \<longleftrightarrow> sds_ok (c_querybuf c) \<and>
     (case c_currentState c of
        STATE_HEAD \<Rightarrow> c_bytes_expected c = int XHEAD_SIZE \<and> c_bytes_processed c = 0 \<and>
          length (conn_bytes c) < XHEAD_SIZE
      | STATE_BODY \<Rightarrow> XHEAD_SIZE \<le> length (conn_bytes c) \<and>
          xh_magic_num (xhead_of (conn_bytes c)) = XHEAD_MAGIC_NUM \<and>
          c_bytes_expected c = int (body_len (conn_bytes c)) \<and>
          (c_bytes_processed c = int XHEAD_SIZE \<and> length (conn_bytes c) < XHEAD_SIZE + body_len (conn_bytes c) \<or>
           handled c \<and> XHEAD_SIZE + body_len (conn_bytes c) \<le> length (conn_bytes c) \<and>
           length (conn_bytes c) < body_len (conn_bytes c) + 65535))"

text \<open>
  The invariant of a worker: every pointer in the vector of connections refers to a live
  connection with both watchers and proper replies, stored under its own descriptor; and the connections rest,
  except perhaps those in \<open>A\<close>, which a handler is working on.
\<close>

definition conn_wf :: "tcp_connection \<Rightarrow> bool" where
  "conn_wf c \<longleftrightarrow> c_io_watcher c \<noteq> None \<and> c_timer_watcher c \<noteq> None \<and>
     (\<forall>m \<in> set (c_reply_msgs c). 0 < length m \<and> length m < 2 ^ 31)"

definition slots_but :: "addr set \<Rightarrow> ('w, 'l) ctx \<Rightarrow> bool" where
  "slots_but A x \<longleftrightarrow>
     (\<forall>fd a. conn_slot fd x = Some a \<longrightarrow>
        (\<exists>c. conn_at x a = Some c \<and> c_fd c = fd \<and> conn_wf c \<and> (a \<notin> A \<longrightarrow> conn_rest c)))"

abbreviation slots_ok :: "('w, 'l) ctx \<Rightarrow> bool" where
  "slots_ok \<equiv> slots_but {}"

lemma buf_slice_bytes:
  assumes "sds_ok s" and "off + n \<le> length (sds_bytes s)"
  shows "buf_slice off n s = Some (take n (drop off (sds_bytes s)))"
proof -
  let ?l = "nat (sds_len s)"
  have l: "length (sds_bytes s) = ?l" using assms(1) by (rule sds_ok_length)
  then have le: "off + n \<le> ?l" using assms(2) by simp
  have buf: "?l \<le> length (sds_buf s)" "None \<notin> set (take ?l (sds_buf s))"
    using assms(1) by (auto simp: sds_ok_def)
  have cells: "take n (drop off (sds_buf s)) = take n (drop off (take ?l (sds_buf s)))"
    using le by (simp add: drop_take min_def)
  have "None \<notin> set (take n (drop off (take ?l (sds_buf s))))"
    using buf(2) by (meson in_set_dropD in_set_takeD)
  moreover have "length (take n (drop off (sds_buf s))) = n" using le buf(1) by simp
  ultimately show ?thesis
    unfolding buf_slice_def Let_def cells by (simp add: sds_bytes_def take_map drop_map cells)
qed

lemma buf_header:
  assumes "sds_ok s" and "XHEAD_SIZE \<le> length (sds_bytes s)"
  shows "buf_slice 0 XHEAD_SIZE s = Some (take XHEAD_SIZE (sds_bytes s))"
  using buf_slice_bytes [of s 0 XHEAD_SIZE] assms by simp

lemma set_conn_simps [simp]:
  "x_rs (set_conn a c x) = x_rs x" "x_w (set_conn a c x) = x_w x"
  "sw_conns (x_sw (set_conn a c x)) = sw_conns (x_sw x)" "sw_el (x_sw (set_conn a c x)) = sw_el (x_sw x)"
  "sw_addr (x_sw (set_conn a c x)) = sw_addr (x_sw x)" "sw_options (x_sw (set_conn a c x)) = sw_options (x_sw x)"
  "sw_q_rtc_msg (x_sw (set_conn a c x)) = sw_q_rtc_msg (x_sw x)" "sw_q_conn (x_sw (set_conn a c x)) = sw_q_conn (x_sw x)"
  "conn_at (set_conn a c x) b = (if b = a then Some c else conn_at x b)"
  by (simp_all add: set_conn_def heap_simps)

lemma process_request_sw:
  "process_request e a header body x = Some (r, x1) \<Longrightarrow> x_sw x1 = x_sw x"
  by (auto simp: process_request_def process_push_def Let_def split: option.splits if_splits prod.splits bind_splits)

lemma process_request_defined:
  assumes "e_noret e \<noteq> None" and "conn_at x a \<noteq> None"
  shows "process_request e a header body x \<noteq> None"
  using assms
  by (auto simp: process_request_def process_push_def Let_def split: option.splits bind_splits)

text \<open>What the loop does with a buffer that holds a whole frame.\<close>

definition handle_frame ::
    "('w, 'l, 'j) env \<Rightarrow> addr \<Rightarrow> tcp_connection \<Rightarrow> bytes \<Rightarrow> bytes \<Rightarrow> ('w, 'l) ctx \<Rightarrow> (int \<times> ('w, 'l) ctx) res option" where
  "handle_frame e a c header body x =
     (case process_request e a header body x of
        None \<Rightarrow> Some UB
      | Some (r, x1) \<Rightarrow> if r \<noteq> 0 then Some (Ret (- 1, x1))
                        else Some (Ret (0, set_conn a (c\<lparr>c_bytes_processed := 65535\<rparr>) x1)))"

lemma sdslen_bytes: "sds_ok s \<Longrightarrow> sdslen s = int (length (sds_bytes s))"
  by (simp add: sds_ok_lens sds_ok_length) (simp add: sds_ok_def)

lemma query_waits:
  assumes "conn_at x a = Some c" and "sds_ok (c_querybuf c)"
    and "c_bytes_expected c + c_bytes_processed c < 2 ^ 64" and "0 \<le> c_bytes_expected c + c_bytes_processed c"
    and "int (length (conn_bytes c)) < c_bytes_expected c + c_bytes_processed c"
  shows "process_query_buffer e a x = Some (Ret (0, x))"
  using assms by (subst process_query_buffer.simps) (simp add: sdslen_bytes c_size_id conn_bytes_def)

lemma query_body:
  assumes c: "conn_at x a = Some c" and ok: "sds_ok (c_querybuf c)" and st: "c_currentState c = STATE_BODY"
    and ex: "c_bytes_expected c = int (body_len (conn_bytes c))" and pr: "c_bytes_processed c = int XHEAD_SIZE"
    and len: "XHEAD_SIZE + body_len (conn_bytes c) \<le> length (conn_bytes c)"
      "length (conn_bytes c) < body_len (conn_bytes c) + 65535"
  shows "process_query_buffer e a x = handle_frame e a c (take XHEAD_SIZE (conn_bytes c))
    (take (body_len (conn_bytes c)) (drop XHEAD_SIZE (conn_bytes c))) x"
proof -
  let ?b = "conn_bytes c" let ?n = "body_len (conn_bytes c)"
  let ?h = "take XHEAD_SIZE ?b" and ?body = "take ?n (drop XHEAD_SIZE ?b)"
  have n: "int ?n < 2 ^ 32" using body_len_bound [of ?b] by simp
  then have sz: "c_size (int ?n + int XHEAD_SIZE) = int ?n + int XHEAD_SIZE" "c_size (int ?n + 65535) = int ?n + 65535"
    by (auto intro!: c_size_id simp: XHEAD_SIZE_def)
  have h: "buf_slice 0 XHEAD_SIZE (c_querybuf c) = Some ?h"
    using buf_header [OF ok] len(1) by (simp add: conn_bytes_def)
  have hd: "unat (xh_body_len (xhead_of ?h)) = ?n"
    using len(1) by (simp add: xhead_of_take body_len_def)
  have b: "buf_slice XHEAD_SIZE ?n (c_querybuf c) = Some ?body"
    using buf_slice_bytes [OF ok, of XHEAD_SIZE ?n] len(1) by (simp add: conn_bytes_def)
  have step: "query_step e a c x =
      (case process_request e a ?h ?body x of None \<Rightarrow> None
       | Some (r, x1) \<Rightarrow> if r \<noteq> 0 then Some (Some (- 1), x1)
           else Some (None, set_conn a (c\<lparr>c_bytes_processed := 65535\<rparr>) x1))"
  proof (cases "process_request e a ?h ?body x")
    case None
    then show ?thesis by (simp add: query_step_def h hd b st)
  next
    case (Some y)
    obtain r x1 where y: "y = (r, x1)" by (cases y)
    then have "x_sw x1 = x_sw x" using Some process_request_sw by blast
    with Some y c show ?thesis by (simp add: query_step_def h hd b st)
  qed
  have again: "process_query_buffer e a (set_conn a (c\<lparr>c_bytes_processed := 65535\<rparr>) x1) =
      Some (Ret (0, set_conn a (c\<lparr>c_bytes_processed := 65535\<rparr>) x1))" for x1
    using ok len(2) n by (intro query_waits [where c = "c\<lparr>c_bytes_processed := 65535\<rparr>"])
      (simp_all add: ex conn_bytes_def)
  have "\<not> sdslen (c_querybuf c) < c_size (c_bytes_expected c + c_bytes_processed c)"
    using len(1) ok by (simp add: ex pr sz [unfolded conn_bytes_def] sdslen_bytes conn_bytes_def)
  then have unfold: "process_query_buffer e a x = (case query_step e a c x of None \<Rightarrow> Some UB
      | Some (r, x1) \<Rightarrow> (case r of Some ret \<Rightarrow> Some (Ret (ret, x1)) | None \<Rightarrow> process_query_buffer e a x1))"
    by (subst process_query_buffer.simps) (simp only: c option.case if_False)
  show ?thesis
  proof (cases "process_request e a ?h ?body x")
    case None
    then show ?thesis by (simp add: unfold step handle_frame_def)
  next
    case (Some y)
    obtain r x1 where "y = (r, x1)" by (cases y)
    with Some again [of x1] show ?thesis by (simp add: unfold step handle_frame_def)
  qed
qed

definition in_body :: "tcp_connection \<Rightarrow> tcp_connection" where
  "in_body c = c\<lparr>c_currentState := STATE_BODY, c_bytes_processed := int XHEAD_SIZE,
     c_bytes_expected := int (body_len (conn_bytes c))\<rparr>"

lemma in_body_simps [simp]:
  "c_fd (in_body c) = c_fd c" "c_io_watcher (in_body c) = c_io_watcher c"
  "c_timer_watcher (in_body c) = c_timer_watcher c" "c_querybuf (in_body c) = c_querybuf c"
  "c_reply_msgs (in_body c) = c_reply_msgs c" "conn_bytes (in_body c) = conn_bytes c"
  "c_currentState (in_body c) = STATE_BODY" "c_bytes_processed (in_body c) = int XHEAD_SIZE"
  "c_bytes_expected (in_body c) = int (body_len (conn_bytes c))"
  by (simp_all add: in_body_def conn_bytes_def)

lemma store_twice: "store a v (store a v' h) = store a v h"
  by (simp add: store_def)

lemma set_conn_twice [simp]: "set_conn a c (set_conn a c' x) = set_conn a c x"
  by (simp add: set_conn_def store_twice)

lemma query_head:
  assumes c: "conn_at x a = Some c" and ok: "sds_ok (c_querybuf c)" and st: "c_currentState c = STATE_HEAD"
    and ex: "c_bytes_expected c = int XHEAD_SIZE" "c_bytes_processed c = 0"
    and len: "XHEAD_SIZE \<le> length (conn_bytes c)"
  shows "process_query_buffer e a x =
    (if xh_magic_num (xhead_of (conn_bytes c)) \<noteq> XHEAD_MAGIC_NUM then Some (Ret (- 1, x))
     else process_query_buffer e a (set_conn a (in_body c) x))"
proof -
  have h: "buf_slice 0 XHEAD_SIZE (c_querybuf c) = Some (take XHEAD_SIZE (conn_bytes c))"
    using buf_header [OF ok] len by (simp add: conn_bytes_def)
  have "c_size (int XHEAD_SIZE) = int XHEAD_SIZE" by (simp add: XHEAD_SIZE_def c_size_id)
  then have "\<not> sdslen (c_querybuf c) < c_size (c_bytes_expected c + c_bytes_processed c)"
    using len by (simp add: ex sdslen_bytes [OF ok] conn_bytes_def)
  moreover have "query_step e a c x = (if xh_magic_num (xhead_of (conn_bytes c)) \<noteq> XHEAD_MAGIC_NUM
      then Some (Some (- 1), x) else Some (None, set_conn a (in_body c) x))"
    using len by (simp add: query_step_def h st xhead_of_take uint_body_len in_body_def Let_def)
  ultimately show ?thesis
    by (subst process_query_buffer.simps) (simp add: c)
qed

text \<open>
  The buffer after new bytes have been appended to that of a resting connection without a
  handled request, in terms of the frame the bytes amount to.
\<close>

definition frame_result ::
    "('w, 'l, 'j) env \<Rightarrow> addr \<Rightarrow> tcp_connection \<Rightarrow> ('w, 'l) ctx \<Rightarrow> (int \<times> ('w, 'l) ctx) res option" where
  "frame_result e a c x =
     (case frame_of (conn_bytes c) of
        Incomplete \<Rightarrow> Some (Ret (0, set_conn a (if length (conn_bytes c) < XHEAD_SIZE then c else in_body c) x))
      | Bad_magic \<Rightarrow> Some (Ret (- 1, x))
      | Complete h b \<Rightarrow> handle_frame e a (in_body c) h b (set_conn a (in_body c) x))"

lemma in_body_eq:
  "c_currentState c = STATE_BODY \<Longrightarrow> c_bytes_processed c = int XHEAD_SIZE \<Longrightarrow>
   c_bytes_expected c = int (body_len (conn_bytes c)) \<Longrightarrow> in_body c = c"
  by (simp add: in_body_def)

lemma query_in_body:
  assumes "conn_at x a = Some (in_body c)" and "sds_ok (c_querybuf c)"
    and "XHEAD_SIZE \<le> length (conn_bytes c)" and "xh_magic_num (xhead_of (conn_bytes c)) = XHEAD_MAGIC_NUM"
    and "length (conn_bytes c) < body_len (conn_bytes c) + 65535" and "set_conn a (in_body c) x = x"
  shows "process_query_buffer e a x = frame_result e a c x"
proof (cases "length (conn_bytes c) < XHEAD_SIZE + body_len (conn_bytes c)")
  case True
  have "int (body_len (conn_bytes c)) < 2 ^ 32" using body_len_bound [of "conn_bytes c"] by simp
  then have "process_query_buffer e a x = Some (Ret (0, x))"
    using assms(1,2) True by (intro query_waits [where c = "in_body c"]) (simp_all add: XHEAD_SIZE_def)
  with True assms(3,4,6) show ?thesis by (simp add: frame_result_def frame_of_def)
next
  case False
  then have "process_query_buffer e a x = handle_frame e a (in_body c) (take XHEAD_SIZE (conn_bytes c))
      (take (body_len (conn_bytes c)) (drop XHEAD_SIZE (conn_bytes c))) x"
    using query_body [OF assms(1)] assms(2,5) by simp
  with False assms(3,4,6) show ?thesis by (simp add: frame_result_def frame_of_def)
qed

lemma query_frame:
  assumes rest: "conn_rest c0" "\<not> handled c0" and ok: "sds_ok (c_querybuf c)"
    and same: "c_currentState c = c_currentState c0" "c_bytes_expected c = c_bytes_expected c0"
      "c_bytes_processed c = c_bytes_processed c0"
    and bytes: "conn_bytes c = conn_bytes c0 @ bs"
    and small: "XHEAD_SIZE \<le> length (conn_bytes c) \<Longrightarrow> length (conn_bytes c) < body_len (conn_bytes c) + 65535"
  shows "process_query_buffer e a (set_conn a c x) = frame_result e a c (set_conn a c x)"
proof (cases "c_currentState c0")
  case STATE_HEAD
  with rest same have st: "c_currentState c = STATE_HEAD" "c_bytes_expected c = int XHEAD_SIZE" "c_bytes_processed c = 0"
    by (simp_all add: conn_rest_def)
  show ?thesis
  proof (cases "length (conn_bytes c) < XHEAD_SIZE")
    case True
    then have "process_query_buffer e a (set_conn a c x) = Some (Ret (0, set_conn a c x))"
      using st ok by (intro query_waits [where c = c]) (simp_all add: XHEAD_SIZE_def)
    with True show ?thesis by (simp add: frame_result_def frame_of_def)
  next
    case False
    then have len: "XHEAD_SIZE \<le> length (conn_bytes c)" by simp
    show ?thesis
    proof (cases "xh_magic_num (xhead_of (conn_bytes c)) = XHEAD_MAGIC_NUM")
      case True
      have "process_query_buffer e a (set_conn a c x) = process_query_buffer e a (set_conn a (in_body c) x)"
        using query_head [where x = "set_conn a c x", of a c e] ok st len True by simp
      also have "\<dots> = frame_result e a c (set_conn a (in_body c) x)"
        using ok len True small [OF len] by (intro query_in_body) simp_all
      also have "\<dots> = frame_result e a c (set_conn a c x)"
        using len True by (auto simp: frame_result_def frame_of_def)
      finally show ?thesis .
    next
      case False
      then show ?thesis
        using query_head [where x = "set_conn a c x", of a c e] ok st len by (simp add: frame_result_def frame_of_def)
    qed
  qed
next
  case STATE_BODY
  with rest have r: "XHEAD_SIZE \<le> length (conn_bytes c0)" "xh_magic_num (xhead_of (conn_bytes c0)) = XHEAD_MAGIC_NUM"
    "c_bytes_expected c0 = int (body_len (conn_bytes c0))" "c_bytes_processed c0 = int XHEAD_SIZE"
    by (auto simp: conn_rest_def)
  have len: "XHEAD_SIZE \<le> length (conn_bytes c)" using r(1) bytes by simp
  have "in_body c = c"
    using STATE_BODY r same bytes by (intro in_body_eq) (simp_all add: body_len_append)
  then show ?thesis
    using ok len r small [OF len] bytes by (intro query_in_body) (simp_all add: xhead_of_prefix)
qed

section \<open>The invariant of a worker\<close>

lemma slots_butD:
  assumes "slots_but A x" and "conn_slot fd x = Some a"
  obtains c where "conn_at x a = Some c" "c_fd c = fd" "conn_wf c"
    "a \<notin> A \<Longrightarrow> conn_rest c"
  using assms unfolding slots_but_def by blast

lemma conn_slot_set_conn [simp]: "conn_slot fd (set_conn a c x) = conn_slot fd x"
  by (simp add: conn_slot_def)

lemma conn_slot_frame [simp]:
  "conn_slot fd (x\<lparr>x_w := w\<rparr>) = conn_slot fd x" "conn_slot fd (x\<lparr>x_rs := r\<rparr>) = conn_slot fd x"
  "conn_slot fd (set_el l x) = conn_slot fd x"
  "conn_slot fd (x\<lparr>x_sw := (x_sw x)\<lparr>sw_q_conn := q\<rparr>\<rparr>) = conn_slot fd x"
  "conn_slot fd (x\<lparr>x_sw := (x_sw x)\<lparr>sw_q_rtc_msg := ms\<rparr>\<rparr>) = conn_slot fd x"
  by (simp_all add: conn_slot_def set_el_def)

lemma set_el_simps [simp]:
  "x_rs (set_el l x) = x_rs x" "x_w (set_el l x) = x_w x" "sw_conns (x_sw (set_el l x)) = sw_conns (x_sw x)"
  "conn_at (set_el l x) a = conn_at x a" "sw_q_rtc_msg (x_sw (set_el l x)) = sw_q_rtc_msg (x_sw x)"
  by (simp_all add: set_el_def)

lemma slots_but_frame [simp]:
  "slots_but A (x\<lparr>x_w := w\<rparr>) = slots_but A x" "slots_but A (x\<lparr>x_rs := r\<rparr>) = slots_but A x"
  "slots_but A (set_el l x) = slots_but A x"
  "slots_but A (x\<lparr>x_sw := (x_sw x)\<lparr>sw_q_conn := q\<rparr>\<rparr>) = slots_but A x"
  "slots_but A (x\<lparr>x_sw := (x_sw x)\<lparr>sw_q_rtc_msg := ms\<rparr>\<rparr>) = slots_but A x"
  by (simp_all add: slots_but_def)

lemma slots_but_sw: "x_sw x1 = x_sw x \<Longrightarrow> slots_but A x1 = slots_but A x"
  by (simp add: slots_but_def conn_slot_def)

lemma conn_slot_sw: "x_sw x1 = x_sw x \<Longrightarrow> conn_slot fd x1 = conn_slot fd x"
  by (simp add: conn_slot_def)

lemma slot_unique:
  "slots_but A x \<Longrightarrow> conn_slot fd x = Some a \<Longrightarrow> conn_slot fd' x = Some a \<Longrightarrow> fd' = fd"
  by (metis slots_butD option.inject)

lemma slots_but_set_conn:
  assumes "slots_but A x" and "conn_slot fd x = Some a" and "c_fd c = fd"
    and "conn_wf c" and "a \<notin> B \<Longrightarrow> conn_rest c" and "A \<subseteq> insert a B"
  shows "slots_but B (set_conn a c x)"
  unfolding slots_but_def
proof (intro allI impI)
  fix fd' b assume "conn_slot fd' (set_conn a c x) = Some b"
  then have slot: "conn_slot fd' x = Some b" by simp
  show "\<exists>c'. conn_at (set_conn a c x) b = Some c' \<and> c_fd c' = fd' \<and> conn_wf c' \<and> (b \<notin> B \<longrightarrow> conn_rest c')"
  proof (cases "b = a")
    case True
    with slot_unique [OF assms(1,2)] slot assms show ?thesis by simp
  next
    case False
    from slots_butD [OF assms(1) slot] obtain c' where "conn_at x b = Some c'" "c_fd c' = fd'"
      "conn_wf c'" "b \<notin> A \<Longrightarrow> conn_rest c'" by metis
    with False assms(6) show ?thesis by auto
  qed
qed

lemma close_conn_ok:
  assumes "slots_but A x" and "conn_slot fd x = Some a" and "A \<subseteq> insert a B"
  shows "\<exists>x1. close_conn e a x = Some x1 \<and> slots_but B x1 \<and> conn_slot fd x1 = None \<and> conn_at x1 a = None \<and>
    x_rs x1 = x_rs x \<and> (\<forall>fd'. fd' \<noteq> fd \<longrightarrow> conn_slot fd' x1 = conn_slot fd' x) \<and>
    (\<forall>b. b \<noteq> a \<longrightarrow> conn_at x1 b = conn_at x b)"
proof -
  from slots_butD [OF assms(1,2)] obtain c where c: "conn_at x a = Some c" "c_fd c = fd" "conn_wf c" by metis
  then obtain iw tw where w: "c_io_watcher c = Some iw" "c_timer_watcher c = Some tw" by (auto simp: conn_wf_def)
  have fd: "0 \<le> fd" "nat fd < length (sw_conns (x_sw x))"
    using assms(2) by (auto simp: conn_slot_def split: if_splits)
  let ?sw = "(x_sw x)\<lparr>sw_el := delete_io_event (e_ev e) iw (delete_timer (e_ev e) tw (sw_el (x_sw x))),
    sw_conns := (sw_conns (x_sw x))[nat fd := None], sw_heap := release a (sw_heap (x_sw x))\<rparr>"
  let ?x1 = "x\<lparr>x_sw := ?sw, x_w := TcpConnection_destroy (e_os e) c (sys_close (e_os e) fd (x_w x))\<rparr>"
  have x1: "close_conn e a x = Some ?x1"
    using c w fd by (simp add: close_conn_def remove_conn_def Let_def)
  have gone: "conn_slot fd ?x1 = None" using fd by (simp add: conn_slot_def)
  have others: "conn_slot fd' ?x1 = conn_slot fd' x" if "fd' \<noteq> fd" for fd'
    using that fd by (auto simp: conn_slot_def nth_list_update)
  have heap: "conn_at ?x1 b = (if b = a then None else conn_at x b)" for b by (simp add: heap_simps)
  have "slots_but B ?x1"
    unfolding slots_but_def
  proof (intro allI impI)
    fix fd' b assume b: "conn_slot fd' ?x1 = Some b"
    with gone have ne: "fd' \<noteq> fd" by auto
    with b others have slot: "conn_slot fd' x = Some b" by simp
    with ne slot_unique [OF assms(1,2)] have "b \<noteq> a" by blast
    moreover from slots_butD [OF assms(1) slot] obtain c' where "conn_at x b = Some c'" "c_fd c' = fd'"
      "conn_wf c'" "b \<notin> A \<Longrightarrow> conn_rest c'" by metis
    ultimately show "\<exists>c. conn_at ?x1 b = Some c \<and> c_fd c = fd' \<and> conn_wf c \<and> (b \<notin> B \<longrightarrow> conn_rest c)"
      using heap [of b] assms(3) by auto
  qed
  with x1 gone others heap show ?thesis by simp
qed

section \<open>Reading from a connection\<close>

text \<open>The next read of a connection stays within what an \<^verbatim>\<open>sds\<close> string can hold.\<close>

definition readable :: "tcp_connection \<Rightarrow> bool" where
  "readable c \<longleftrightarrow> int (length (conn_bytes c)) + c_bytes_expected c < 2 ^ 31 - SDS_MAX_PREALLOC"

lemma conn_rest_expected: "conn_rest c \<Longrightarrow> 0 \<le> c_bytes_expected c"
  by (auto simp: conn_rest_def split: conn_state.splits)

lemma conn_rest_sds: "conn_rest c \<Longrightarrow> sds_ok (c_querybuf c)"
  by (simp add: conn_rest_def)

lemma write_at_nothing: "off \<le> length (sds_buf s) \<Longrightarrow> write_at off [] s = Some s"
  by (simp add: write_at_def)

lemma receive_spec:
  assumes "conn_rest c" and "readable c" and "os_ok (e_os e)"
    and "sock_read_data (e_os e) fd (c_bytes_expected c) (x_w x) = ((nread, bs), w)"
  shows "\<exists>qb. receive e c fd x =
      Some (nread, c\<lparr>c_querybuf := qb, c_last_active_time := el_now (e_ev e) (sw_el (x_sw x))\<rparr>, w) \<and>
    sds_ok qb \<and> sds_bytes qb = conn_bytes c @ bs \<and>
    (nread = - 1 \<and> bs = [] \<or> nread = int (length bs) \<and> int (length bs) \<le> c_bytes_expected c)"
proof -
  let ?s = "c_querybuf c" and ?n = "c_bytes_expected c"
  have ok: "sds_ok ?s" and n: "0 \<le> ?n" using assms(1) by (auto intro: conn_rest_sds conn_rest_expected)
  have len: "int (length (conn_bytes c)) = sds_len ?s" "0 \<le> sds_len ?s"
    using sds_ok_length [OF ok] ok by (auto simp: conn_bytes_def sds_ok_def)
  with assms(2) have fits: "sds_len ?s + ?n < 2 ^ 31 - SDS_MAX_PREALLOC" by (simp add: readable_def)
  then have small: "?n < 2 ^ 31" "sds_len ?s < 2 ^ 31" using n len by (auto simp: SDS_MAX_PREALLOC_def)
  have conv: "c_int ?n = ?n" "c_size ?n = ?n" "c_int (sdslen ?s) = sds_len ?s"
    using n small len ok by (auto simp: c_int_id c_size_nonneg_int sds_ok_lens)
  note mr = sdsMakeRoomFor_ok [OF ok n fits]
  let ?q = "sdsMakeRoomFor ?s ?n"
  have res: "nread = - 1 \<and> bs = [] \<or> nread = int (length bs) \<and> length bs \<le> nat ?n"
    using sock_read_data_spec [OF assms(3) n small(1) assms(4)] .
  have room: "int (length bs) \<le> sds_free ?q" using res mr(4) n by auto
  have buf: "nat (sds_len ?s) \<le> length (sds_buf ?q)" using mr(1,3) by (simp add: sds_ok_def le_SucI nat_mono)
  from sds_append_ok [OF mr(1) room] mr(2,3) obtain q1 q2 where
    q: "write_at (nat (sds_len ?s)) bs ?q = Some q1" "sdsIncrLen q1 (int (length bs)) = Some q2" "sds_ok q2"
      "sds_bytes q2 = conn_bytes c @ bs" by (auto simp: conn_bytes_def)
  show ?thesis
  proof (cases "bs = []")
    case True
    then have "\<not> nread > 0" using res by auto
    with True res mr buf show ?thesis
      using n by (intro exI [of _ ?q]) (auto simp: receive_def conv assms(4) write_at_nothing conn_bytes_def)
  next
    case False
    then have "nread = int (length bs)" "nread > 0" using res by auto
    with q res n show ?thesis
      by (intro exI [of _ q2]) (auto simp: receive_def conv assms(4))
  qed
qed

text \<open>The client has sent 65499 bytes more than its first frame.\<close>

definition overrun :: "bytes \<Rightarrow> bool" where
  "overrun b \<longleftrightarrow> XHEAD_SIZE \<le> length b \<and> body_len b + 65535 \<le> length b"

definition received :: "('w, 'l, 'j) env \<Rightarrow> sds \<Rightarrow> tcp_connection \<Rightarrow> ('w, 'l) ctx \<Rightarrow> tcp_connection" where
  "received e qb c x = c\<lparr>c_querybuf := qb, c_last_active_time := el_now (e_ev e) (sw_el (x_sw x))\<rparr>"

lemma received_simps [simp]:
  "c_fd (received e qb c x) = c_fd c" "c_io_watcher (received e qb c x) = c_io_watcher c"
  "c_timer_watcher (received e qb c x) = c_timer_watcher c" "c_querybuf (received e qb c x) = qb"
  "c_currentState (received e qb c x) = c_currentState c" "c_bytes_expected (received e qb c x) = c_bytes_expected c"
  "c_bytes_processed (received e qb c x) = c_bytes_processed c" "c_reply_msgs (received e qb c x) = c_reply_msgs c"
  "conn_bytes (received e qb c x) = sds_bytes qb" "handled (received e qb c x) = handled c"
  by (simp_all add: received_def conn_bytes_def handled_def)

lemma conn_wf_simps [simp]:
  "conn_wf (received e qb c x) = conn_wf c" "conn_wf (in_body c) = conn_wf c"
  "conn_wf (c\<lparr>c_bytes_processed := n\<rparr>) = conn_wf c" "conn_wf (c\<lparr>c_last_active_time := n\<rparr>) = conn_wf c"
  by (simp_all add: conn_wf_def)

lemma rest_incomplete:
  assumes "sds_ok (c_querybuf c)" and "frame_of (conn_bytes c) = Incomplete"
    and "length (conn_bytes c) < XHEAD_SIZE \<Longrightarrow> c_currentState c = STATE_HEAD \<and>
      c_bytes_expected c = int XHEAD_SIZE \<and> c_bytes_processed c = 0"
  shows "conn_rest (if length (conn_bytes c) < XHEAD_SIZE then c else in_body c)"
proof (cases "length (conn_bytes c) < XHEAD_SIZE")
  case True
  with assms show ?thesis by (simp add: conn_rest_def)
next
  case False
  with assms(1,2) show ?thesis by (simp add: conn_rest_def frame_of_def split: if_splits)
qed

lemma rest_handled:
  assumes "sds_ok (c_querybuf c)" and "frame_of (conn_bytes c) = Complete h b" and "\<not> overrun (conn_bytes c)"
  shows "conn_rest ((in_body c)\<lparr>c_bytes_processed := 65535\<rparr>)"
proof -
  have "conn_bytes ((in_body c)\<lparr>c_bytes_processed := 65535\<rparr>) = conn_bytes c" by (simp add: conn_bytes_def)
  with assms show ?thesis by (simp add: conn_rest_def frame_of_def overrun_def handled_def split: if_splits)
qed

lemma read_conn_closes:
  assumes "slots_ok x" and "conn_slot fd x = Some a" and "conn_at x a = Some c" and "readable c"
    and "os_ok (e_os e)" and "sock_read_data (e_os e) fd (c_bytes_expected c) (x_w x) = ((- 1, bs), w)"
  shows "\<exists>x1. read_conn e fd x = Some (Ret x1) \<and> slots_ok x1 \<and> conn_slot fd x1 = None \<and> x_rs x1 = x_rs x"
proof -
  from slots_butD [OF assms(1,2)] assms(3) have c: "c_fd c = fd" "conn_wf c"
    "conn_rest c" by (metis empty_iff option.inject)+
  from receive_spec [OF c(3) assms(4,5,6)] obtain qb where r: "receive e c fd x = Some (- 1, received e qb c x, w)"
    unfolding received_def by blast
  have "slots_but {a} (set_conn a (received e qb c x) (x\<lparr>x_w := w\<rparr>))"
    using assms(1,2) c by (intro slots_but_set_conn [where A = "{}" and fd = fd]) simp_all
  from close_conn_ok [OF this, where fd = fd and B = "{}" and e = e] assms(2) show ?thesis
    by (auto simp: read_conn_def assms(2,3) r of_option_def)
qed

lemma read_conn_receives:
  assumes "slots_ok x" and "conn_slot fd x = Some a" and "conn_at x a = Some c" and "readable c"
    and "os_ok (e_os e)" and "sock_read_data (e_os e) fd (c_bytes_expected c) (x_w x) = ((int (length bs), bs), w)"
  shows "\<exists>qb. read_conn e fd x = finish_read e a (process_query_buffer e a (set_conn a (received e qb c x) (x\<lparr>x_w := w\<rparr>))) \<and>
    sds_ok qb \<and> sds_bytes qb = conn_bytes c @ bs \<and>
    slots_but {a} (set_conn a (received e qb c x) (x\<lparr>x_w := w\<rparr>))"
proof -
  from slots_butD [OF assms(1,2)] assms(3) have c: "c_fd c = fd" "conn_wf c"
    "conn_rest c" by (metis empty_iff option.inject)+
  from receive_spec [OF c(3) assms(4,5,6)] obtain qb where
    r: "receive e c fd x = Some (int (length bs), received e qb c x, w)" "sds_ok qb" "sds_bytes qb = conn_bytes c @ bs"
    unfolding received_def by blast
  have "slots_but {a} (set_conn a (received e qb c x) (x\<lparr>x_w := w\<rparr>))"
    using assms(1,2) c by (intro slots_but_set_conn [where A = "{}" and fd = fd]) simp_all
  with r show ?thesis by (intro exI [of _ qb]) (simp add: read_conn_def assms(2,3))
qed

text \<open>The whole of a read event on a connection whose request has not been handled.\<close>

lemma read_conn_frame:
  assumes "slots_ok x" and "conn_slot fd x = Some a" and "conn_at x a = Some c" and "readable c" and "\<not> handled c"
    and "os_ok (e_os e)" and "sock_read_data (e_os e) fd (c_bytes_expected c) (x_w x) = ((int (length bs), bs), w)"
    and "\<not> overrun (conn_bytes c @ bs)"
  shows "\<exists>qb. let c1 = received e qb c x; x1 = set_conn a c1 (x\<lparr>x_w := w\<rparr>) in
    read_conn e fd x = finish_read e a (frame_result e a c1 x1) \<and>
    sds_ok qb \<and> sds_bytes qb = conn_bytes c @ bs \<and> slots_but {a} x1"
proof -
  from read_conn_receives [OF assms(1-4,6,7)] obtain qb where
    r: "read_conn e fd x = finish_read e a (process_query_buffer e a (set_conn a (received e qb c x) (x\<lparr>x_w := w\<rparr>)))"
      "sds_ok qb" "sds_bytes qb = conn_bytes c @ bs" "slots_but {a} (set_conn a (received e qb c x) (x\<lparr>x_w := w\<rparr>))" by blast
  have rest: "conn_rest c" using slots_butD [OF assms(1,2)] assms(3) by (metis empty_iff option.inject)
  have "process_query_buffer e a (set_conn a (received e qb c x) (x\<lparr>x_w := w\<rparr>)) =
      frame_result e a (received e qb c x) (set_conn a (received e qb c x) (x\<lparr>x_w := w\<rparr>))"
    using assms(8) r(2,3) by (intro query_frame [OF rest assms(5), where bs = bs]) (auto simp: overrun_def)
  with r show ?thesis by (intro exI [of _ qb]) (simp add: Let_def)
qed

lemma finish_frame:
  assumes slots: "slots_but {a} (set_conn a c x)" and slot: "conn_slot fd x = Some a"
    and c: "c_fd c = fd" "conn_wf c" "sds_ok (c_querybuf c)"
    and head: "length (conn_bytes c) < XHEAD_SIZE \<Longrightarrow> c_currentState c = STATE_HEAD \<and>
      c_bytes_expected c = int XHEAD_SIZE \<and> c_bytes_processed c = 0"
    and small: "\<not> overrun (conn_bytes c)" and nr: "e_noret e \<noteq> None"
  shows "\<exists>x1. finish_read e a (frame_result e a c (set_conn a c x)) = Some (Ret x1) \<and> slots_ok x1"
proof (cases "frame_of (conn_bytes c)")
  case Incomplete
  let ?c = "if length (conn_bytes c) < XHEAD_SIZE then c else in_body c"
  have "slots_ok (set_conn a ?c x)"
    using slots_but_set_conn [OF slots, of fd a ?c "{}"] slot c rest_incomplete [OF c(3) Incomplete head] by simp
  with Incomplete show ?thesis by (simp add: frame_result_def finish_read_def)
next
  case Bad_magic
  from close_conn_ok [OF slots, where fd = fd and B = "{}" and e = e] slot Bad_magic show ?thesis
    by (auto simp: frame_result_def finish_read_def of_option_def)
next
  case (Complete h b)
  let ?x = "set_conn a (in_body c) x"
  have sx: "slots_but {a} ?x"
    using slots slot c slots_but_set_conn [of "{a}" "set_conn a c x" fd a "in_body c" "{a}"] by simp
  from process_request_defined [OF nr, of ?x a h b] obtain r x1 where
    p: "process_request e a h b ?x = Some (r, x1)" by auto
  have x1: "x_sw x1 = x_sw ?x" using process_request_sw [OF p] .
  then have s1: "slots_but {a} x1" "conn_slot fd x1 = Some a"
    using sx slot by (simp_all add: slots_but_sw [OF x1] conn_slot_sw [OF x1])
  show ?thesis
  proof (cases "r = 0")
    case True
    have "slots_ok (set_conn a ((in_body c)\<lparr>c_bytes_processed := 65535\<rparr>) x1)"
      using s1 c rest_handled [OF c(3) Complete small]
      by (intro slots_but_set_conn [where A = "{a}" and fd = fd]) simp_all
    with True Complete p show ?thesis by (simp add: frame_result_def handle_frame_def finish_read_def)
  next
    case False
    with close_conn_ok [OF s1, where B = "{}" and e = e] Complete p show ?thesis
      by (auto simp: frame_result_def handle_frame_def finish_read_def of_option_def)
  qed
qed

end
