(* ===== verification/SignalingSafety.thy ===== *)
theory SignalingSafety
  imports SignalingWorker
begin

text \<open>
  The handlers of a signaling worker keep its invariant, and what they do: reading and the
  frames of the wire format, answers and the bytes written for them, new connections, timeouts
  and notifications, and the step relation of a worker with the states it can reach.
\<close>

section \<open>Reading\<close>

lemma query_handled:
  assumes "conn_rest c0" and "handled c0" and "sds_ok (c_querybuf c)"
    and "c_bytes_expected c = c_bytes_expected c0" "c_bytes_processed c = c_bytes_processed c0"
    and "conn_bytes c = conn_bytes c0 @ bs" and "\<not> overrun (conn_bytes c)"
  shows "process_query_buffer e a (set_conn a c x) = Some (Ret (0, set_conn a c x))"
proof -
  from assms(1,2) have st: "XHEAD_SIZE \<le> length (conn_bytes c0)" "c_bytes_expected c0 = int (body_len (conn_bytes c0))"
    by (auto simp: conn_rest_def handled_def XHEAD_SIZE_def split: conn_state.splits)
  then have len: "XHEAD_SIZE \<le> length (conn_bytes c)" "body_len (conn_bytes c) = body_len (conn_bytes c0)"
    using assms(6) by (simp_all add: body_len_append)
  then have "length (conn_bytes c) < body_len (conn_bytes c0) + 65535" using assms(7) by (simp add: overrun_def)
  moreover have "int (body_len (conn_bytes c0)) < 2 ^ 32" using body_len_bound [of "conn_bytes c0"] by simp
  ultimately show ?thesis
    using assms(2-5) st(2) by (intro query_waits [where c = c]) (simp_all add: handled_def)
qed

lemma rest_handled_more:
  assumes "conn_rest c" and "handled c" and "sds_ok qb" and "sds_bytes qb = conn_bytes c @ bs"
    and "\<not> overrun (conn_bytes c @ bs)"
  shows "conn_rest (received e qb c x)"
proof -
  from assms(1,2) have "c_currentState c = STATE_BODY" "XHEAD_SIZE \<le> length (conn_bytes c)"
    "xh_magic_num (xhead_of (conn_bytes c)) = XHEAD_MAGIC_NUM" "c_bytes_expected c = int (body_len (conn_bytes c))"
    "XHEAD_SIZE + body_len (conn_bytes c) \<le> length (conn_bytes c)"
    by (auto simp: conn_rest_def handled_def XHEAD_SIZE_def split: conn_state.splits)
  with assms(2-5) show ?thesis by (simp add: conn_rest_def body_len_append xhead_of_prefix overrun_def)
qed

lemma read_conn_ok:
  assumes "slots_ok x" and "conn_slot fd x = Some a" and "conn_at x a = Some c" and "readable c"
    and "os_ok (e_os e)" and "e_noret e \<noteq> None"
    and "sock_read_data (e_os e) fd (c_bytes_expected c) (x_w x) = ((nread, bs), w)"
    and "\<not> overrun (conn_bytes c @ bs)"
  shows "\<exists>x1. read_conn e fd x = Some (Ret x1) \<and> slots_ok x1"
proof -
  obtain c': "c_fd c = fd" "conn_wf c" "conn_rest c"
    using slots_butD [OF assms(1,2)] assms(3) by (metis empty_iff option.inject)
  have "nread = - 1 \<or> nread = int (length bs)"
    using receive_spec [OF c'(3) assms(4,5,7)] by auto
  then show ?thesis
  proof
    assume "nread = - 1"
    with read_conn_closes [OF assms(1-5)] assms(7) show ?thesis by blast
  next
    assume n: "nread = int (length bs)"
    show ?thesis
    proof (cases "handled c")
      case True
      from read_conn_receives [OF assms(1-5) assms(7) [unfolded n]] obtain qb where
        r: "read_conn e fd x = finish_read e a (process_query_buffer e a (set_conn a (received e qb c x) (x\<lparr>x_w := w\<rparr>)))"
          "sds_ok qb" "sds_bytes qb = conn_bytes c @ bs" by blast
      have "process_query_buffer e a (set_conn a (received e qb c x) (x\<lparr>x_w := w\<rparr>)) =
          Some (Ret (0, set_conn a (received e qb c x) (x\<lparr>x_w := w\<rparr>)))"
        using r(2,3) assms(8) by (intro query_handled [OF c'(3) True]) simp_all
      moreover have "slots_ok (set_conn a (received e qb c x) (x\<lparr>x_w := w\<rparr>))"
        using assms(1,2) c' rest_handled_more [OF c'(3) True r(2,3) assms(8)]
        by (intro slots_but_set_conn [where A = "{}" and fd = fd]) simp_all
      ultimately show ?thesis using r(1) by (simp add: finish_read_def)
    next
      case False
      from read_conn_frame [OF assms(1-4) False assms(5) assms(7) [unfolded n] assms(8)] obtain qb where
        r: "read_conn e fd x = finish_read e a (frame_result e a (received e qb c x) (set_conn a (received e qb c x) (x\<lparr>x_w := w\<rparr>)))"
          "sds_ok qb" "sds_bytes qb = conn_bytes c @ bs" "slots_but {a} (set_conn a (received e qb c x) (x\<lparr>x_w := w\<rparr>))"
        unfolding Let_def by blast
      have "length (conn_bytes c @ bs) < XHEAD_SIZE \<Longrightarrow> c_currentState c = STATE_HEAD \<and>
          c_bytes_expected c = int XHEAD_SIZE \<and> c_bytes_processed c = 0"
        using c'(3) by (auto simp: conn_rest_def split: conn_state.splits)
      with finish_frame [OF r(4), where fd = fd and e = e] r(1-3) c' assms(2,6,8) show ?thesis by simp
    qed
  qed
qed

section \<open>Answers\<close>

lemma conn_rest_fields:
  "conn_rest (c\<lparr>c_reply_msgs := ms\<rparr>) = conn_rest c" "conn_rest (c\<lparr>c_io_watcher := iw\<rparr>) = conn_rest c"
  "conn_rest (c\<lparr>c_last_active_time := t\<rparr>) = conn_rest c"
  by (simp_all add: conn_rest_def conn_bytes_def handled_def split: conn_state.split)

lemma add_reply_ok:
  assumes "slots_but A x" and "conn_slot fd x = Some a" and "conn_at x a = Some c"
    and "0 < length msg" and "length msg < 2 ^ 31"
  shows "\<exists>iw l. add_reply e a msg x =
      Some (set_el l (set_conn a (c\<lparr>c_reply_msgs := c_reply_msgs c @ [msg], c_io_watcher := Some iw\<rparr>) x)) \<and>
    slots_but A (set_el l (set_conn a (c\<lparr>c_reply_msgs := c_reply_msgs c @ [msg], c_io_watcher := Some iw\<rparr>) x)) \<and>
    (libev_ok (e_ev e) \<longrightarrow> watched (e_ev e) iw AND WRITE \<noteq> 0)"
proof -
  obtain w: "c_fd c = fd" "conn_wf c" "a \<notin> A \<Longrightarrow> conn_rest c"
    using slots_butD [OF assms(1,2)] assms(3) by (metis option.inject)
  then obtain iw0 where iw0: "c_io_watcher c = Some iw0" by (auto simp: conn_wf_def)
  obtain l iw where s: "start_io_event (e_ev e) iw0 fd WRITE (sw_el (x_sw x)) = (l, iw)" by (metis surj_pair)
  let ?c = "c\<lparr>c_reply_msgs := c_reply_msgs c @ [msg], c_io_watcher := Some iw\<rparr>"
  have "slots_but A (set_conn a ?c x)"
    using assms(1,2,4,5) w by (intro slots_but_set_conn [where A = A and fd = fd]) (auto simp: conn_rest_fields conn_wf_def)
  moreover have "watched (e_ev e) iw AND WRITE \<noteq> 0" if "libev_ok (e_ev e)"
    using start_io_event_watched [OF that, of iw0 fd WRITE "sw_el (x_sw x)"] s
    by (simp add: masks bit.conj_disj_distrib2 or_eq_0_iff)
  ultimately show ?thesis
    using assms(3) w(1) iw0 s by (intro exI [of _ iw] exI [of _ l]) (simp add: add_reply_def)
qed

text \<open>The reply to a request: the header of the request with a new length, then the body.\<close>

definition reply_of :: "'j jsoncpp \<Rightarrow> tcp_connection \<Rightarrow> rtc_msg \<Rightarrow> bytes" where
  "reply_of js c m =
     set_body_len (word_of_nat (length (response_body js m))) (take XHEAD_SIZE (conn_bytes c)) @ response_body js m"

lemma length_reply:
  "XHEAD_SIZE \<le> length (conn_bytes c) \<Longrightarrow> length (reply_of js c m) = XHEAD_SIZE + length (response_body js m)"
  using set_body_len_other(3) [of "take XHEAD_SIZE (conn_bytes c)"] by (simp add: reply_of_def)

lemma reply_is_frame:
  assumes "XHEAD_SIZE \<le> length (conn_bytes c)" and "length (response_body js m) \<le> MAX_RES_BUF"
    and "xh_magic_num (xhead_of (conn_bytes c)) = XHEAD_MAGIC_NUM"
  shows "\<exists>h. frame_of (reply_of js c m) = Complete h (response_body js m) \<and>
    xhead_of h = (xhead_of (conn_bytes c))\<lparr>xh_body_len := word_of_nat (length (response_body js m))\<rparr>"
proof -
  let ?b = "response_body js m"
  let ?h = "set_body_len (word_of_nat (length ?b)) (take XHEAD_SIZE (conn_bytes c))"
  have l: "XHEAD_SIZE \<le> length (take XHEAD_SIZE (conn_bytes c))" using assms(1) by simp
  have h: "xhead_of ?h = (xhead_of (conn_bytes c))\<lparr>xh_body_len := word_of_nat (length ?b)\<rparr>"
    using set_body_len_other(1) [OF l] xhead_of_take [OF assms(1)] by simp
  have hl: "length ?h = XHEAD_SIZE" using set_body_len_other(3) [OF l] assms(1) by simp
  have r: "xhead_of (reply_of js c m) = xhead_of ?h"
    using xhead_of_prefix [of ?h ?b] hl by (simp add: reply_of_def)
  have "body_len (reply_of js c m) = length ?b"
    using assms(2) unfolding body_len_def r h by (simp add: unat_of_nat MAX_RES_BUF_def)
  with r h hl assms(3) show ?thesis by (intro exI [of _ ?h]) (simp add: frame_of_def reply_of_def)
qed

lemma response_delivers:
  assumes "slots_ok x" and "conn_slot (m_fd m) x = Some a" and "0 < m_fd m" and "m_conn m = Some a"
    and "conn_at x a = Some c" and "XHEAD_SIZE \<le> length (conn_bytes c)"
    and "length (response_body (e_json e) m) \<le> MAX_RES_BUF"
  shows "\<exists>x1 iw. response_server_offer e m x = Some x1 \<and> slots_ok x1 \<and>
    conn_at x1 a = Some (c\<lparr>c_reply_msgs := c_reply_msgs c @ [reply_of (e_json e) c m], c_io_watcher := Some iw\<rparr>) \<and>
    (libev_ok (e_ev e) \<longrightarrow> watched (e_ev e) iw AND WRITE \<noteq> 0)"
proof -
  have slot: "\<not> length (sw_conns (x_sw x)) \<le> nat (m_fd m)" "sw_conns (x_sw x) ! nat (m_fd m) = Some a"
    using assms(2) by (auto simp: conn_slot_def split: if_splits)
  have "conn_rest c" using slots_butD [OF assms(1,2)] assms(5) by (metis empty_iff option.inject)
  then have "buf_slice 0 XHEAD_SIZE (c_querybuf c) = Some (take XHEAD_SIZE (conn_bytes c))"
    using buf_header [OF conn_rest_sds] assms(6) by (simp add: conn_bytes_def)
  then have "response_server_offer e m x = add_reply e a (reply_of (e_json e) c m) x"
    using assms(3-5,7) slot by (simp add: response_server_offer_def reply_of_def Let_def)
  moreover have "0 < length (reply_of (e_json e) c m)" "length (reply_of (e_json e) c m) < 2 ^ 31"
    using assms(7) unfolding length_reply [OF assms(6)] by (simp_all add: XHEAD_SIZE_def MAX_RES_BUF_def)
  ultimately show ?thesis
    using add_reply_ok [OF assms(1,2,5), of "reply_of (e_json e) c m" e] by fastforce
qed

lemma response_ignored:
  assumes "m_conn m = None \<or> m_fd m \<le> 0 \<or> conn_slot (m_fd m) x \<noteq> m_conn m"
  shows "response_server_offer e m x = Some x"
  using assms by (auto simp: response_server_offer_def conn_slot_def split: option.splits if_splits)

section \<open>Writing\<close>

text \<open>
  The kernel takes each message whole. Under this assumption the loop sends the queued messages
  in order.
\<close>

definition whole_writes :: "'w os \<Rightarrow> int \<Rightarrow> bool" where
  "whole_writes os fd \<longleftrightarrow> (\<forall>bs w. \<exists>w1. sys_write os fd bs w = (Inr (length bs), w1))"

fun sent :: "'w os \<Rightarrow> int \<Rightarrow> bytes list \<Rightarrow> 'w \<Rightarrow> 'w" where
  "sent os fd [] w = w"
| "sent os fd (m # ms) w = sent os fd ms (snd (sys_write os fd m w))"

lemma set_conn_w: "(set_conn a c x)\<lparr>x_w := w\<rparr> = set_conn a c (x\<lparr>x_w := w\<rparr>)"
  by (simp add: set_conn_def)

lemma write_loop_whole:
  assumes "whole_writes (e_os e) fd" and "conn_at x a = Some c" and "c_reply_msgs c = m # ms"
    and "0 < length m" and "length m < 2 ^ 31"
  shows "write_loop e a fd 0 x =
    write_loop e a fd 0 (set_conn a (c\<lparr>c_reply_msgs := ms\<rparr>) (x\<lparr>x_w := snd (sys_write (e_os e) fd m (x_w x))\<rparr>))"
proof -
  obtain w1 where w1: "sys_write (e_os e) fd m (x_w x) = (Inr (length m), w1)"
    using assms(1) unfolding whole_writes_def by blast
  then have "sock_write_data (e_os e) fd m (x_w x) = (int (length m), w1)"
    using assms(5) by (simp add: sock_write_data_def c_int_id)
  moreover have "c_size (int (length m)) = int (length m)" using assms(5) by (intro c_size_nonneg_int) simp_all
  ultimately show ?thesis
    using assms(2-4) w1 by (subst write_loop.simps) (simp add: Let_def)
qed

lemma write_loop_sends_stored:
  assumes "whole_writes (e_os e) fd" and "\<forall>m \<in> set ms. 0 < length m \<and> length m < 2 ^ 31"
  shows "write_loop e a fd 0 (set_conn a (c\<lparr>c_reply_msgs := ms\<rparr>) x) =
    Some (Ret (True, set_conn a (c\<lparr>c_reply_msgs := []\<rparr>) (x\<lparr>x_w := sent (e_os e) fd ms (x_w x)\<rparr>)))"
  using assms(2)
proof (induction ms arbitrary: x)
  case Nil
  then show ?case by (subst write_loop.simps) simp
next
  case (Cons m ms)
  from write_loop_whole [OF assms(1), of "set_conn a (c\<lparr>c_reply_msgs := m # ms\<rparr>) x" a "c\<lparr>c_reply_msgs := m # ms\<rparr>" m ms] Cons.prems
  have "write_loop e a fd 0 (set_conn a (c\<lparr>c_reply_msgs := m # ms\<rparr>) x) =
      write_loop e a fd 0 (set_conn a (c\<lparr>c_reply_msgs := ms\<rparr>) (x\<lparr>x_w := snd (sys_write (e_os e) fd m (x_w x))\<rparr>))"
    by (simp add: set_conn_w)
  with Cons show ?case by simp
qed

lemma write_loop_sends:
  assumes "whole_writes (e_os e) fd" and "conn_at x a = Some c" and "conn_wf c" and "c_reply_msgs c \<noteq> []"
  shows "write_loop e a fd 0 x =
    Some (Ret (True, set_conn a (c\<lparr>c_reply_msgs := []\<rparr>) (x\<lparr>x_w := sent (e_os e) fd (c_reply_msgs c) (x_w x)\<rparr>)))"
proof -
  from assms(4) obtain m ms where m: "c_reply_msgs c = m # ms" by (cases "c_reply_msgs c") auto
  have l: "\<forall>m' \<in> set (m # ms). 0 < length m' \<and> length m' < 2 ^ 31"
    using assms(3) m by (simp add: conn_wf_def)
  have "write_loop e a fd 0 x = write_loop e a fd 0
      (set_conn a (c\<lparr>c_reply_msgs := ms\<rparr>) (x\<lparr>x_w := snd (sys_write (e_os e) fd m (x_w x))\<rparr>))"
    using write_loop_whole [OF assms(1,2) m] l by simp
  also have "\<dots> = Some (Ret (True, set_conn a (c\<lparr>c_reply_msgs := []\<rparr>)
      (x\<lparr>x_w := sent (e_os e) fd ms (snd (sys_write (e_os e) fd m (x_w x)))\<rparr>)))"
    using write_loop_sends_stored [OF assms(1), of ms a c] l by simp
  finally show ?thesis by (simp add: m)
qed

lemma write_loop_nothing:
  "conn_at x a = Some c \<Longrightarrow> c_reply_msgs c = [] \<Longrightarrow> write_loop e a fd pos x = Some (Ret (True, x))"
  by (subst write_loop.simps) simp

lemma finish_write_ok:
  assumes "slots_ok x" and "conn_slot fd x = Some a" and "conn_at x a = Some c" and "c_reply_msgs c = []"
  shows "\<exists>iw l. finish_write e a x = Some (set_el l (set_conn a
      (c\<lparr>c_last_active_time := el_now (e_ev e) (sw_el (x_sw x)), c_io_watcher := Some iw\<rparr>) x)) \<and>
    slots_ok (set_el l (set_conn a (c\<lparr>c_last_active_time := el_now (e_ev e) (sw_el (x_sw x)), c_io_watcher := Some iw\<rparr>) x)) \<and>
    (libev_ok (e_ev e) \<longrightarrow> (\<forall>iw0. c_io_watcher c = Some iw0 \<longrightarrow> io_active (w_io iw0) \<longrightarrow> watched (e_ev e) iw AND WRITE = 0))"
proof -
  obtain w: "c_fd c = fd" "conn_wf c" "conn_rest c"
    using slots_butD [OF assms(1,2)] assms(3) by (metis empty_iff option.inject)
  then obtain iw0 where iw0: "c_io_watcher c = Some iw0" by (auto simp: conn_wf_def)
  obtain l iw where s: "stop_io_event (e_ev e) iw0 fd WRITE (sw_el (x_sw x)) = (l, iw)" by (metis surj_pair)
  let ?c = "c\<lparr>c_last_active_time := el_now (e_ev e) (sw_el (x_sw x)), c_io_watcher := Some iw\<rparr>"
  have "slots_ok (set_conn a ?c x)"
    using assms(1,2) w by (intro slots_but_set_conn [where A = "{}" and fd = fd]) (auto simp: conn_rest_fields conn_wf_def)
  moreover have "watched (e_ev e) iw AND WRITE = 0" if "libev_ok (e_ev e)" "io_active (w_io iw0)"
    using stop_io_event_watched [OF that, of fd WRITE "sw_el (x_sw x)"] s by (simp add: and.assoc)
  ultimately show ?thesis
    using assms(3,4) w(1) iw0 s by (intro exI [of _ iw] exI [of _ l]) (simp add: finish_write_def Let_def)
qed

lemma write_conn_ok:
  assumes "slots_ok x" and "0 < fd" and "conn_slot fd x = Some a" and "conn_at x a = Some c"
    and "whole_writes (e_os e) fd"
  shows "\<exists>x1 iw t. write_conn e fd x = Some (Ret x1) \<and> slots_ok x1 \<and> x_rs x1 = x_rs x \<and>
    x_w x1 = sent (e_os e) fd (c_reply_msgs c) (x_w x) \<and>
    conn_at x1 a = Some (c\<lparr>c_reply_msgs := [], c_last_active_time := t, c_io_watcher := Some iw\<rparr>) \<and>
    (libev_ok (e_ev e) \<longrightarrow> (\<forall>iw0. c_io_watcher c = Some iw0 \<longrightarrow> io_active (w_io iw0) \<longrightarrow> watched (e_ev e) iw AND WRITE = 0))"
proof -
  obtain w: "c_fd c = fd" "conn_wf c" "conn_rest c"
    using slots_butD [OF assms(1,3)] assms(4) by (metis empty_iff option.inject)
  let ?c = "c\<lparr>c_reply_msgs := []\<rparr>"
  obtain x1 where x1: "write_loop e a fd 0 x = Some (Ret (True, x1))" "slots_ok x1" "conn_slot fd x1 = Some a"
    "conn_at x1 a = Some ?c" "x_rs x1 = x_rs x" "x_w x1 = sent (e_os e) fd (c_reply_msgs c) (x_w x)"
  proof (cases "c_reply_msgs c = []")
    case True
    then have "?c = c" by simp
    with that [of x] True write_loop_nothing [OF assms(4) True, of e fd 0] assms(1,3,4) show ?thesis by simp
  next
    case False
    let ?x = "x\<lparr>x_w := sent (e_os e) fd (c_reply_msgs c) (x_w x)\<rparr>"
    have "slots_ok (set_conn a ?c ?x)"
      using assms(1,3) w by (intro slots_but_set_conn [where A = "{}" and fd = fd]) (auto simp: conn_rest_fields conn_wf_def)
    with that [of "set_conn a ?c ?x"] write_loop_sends [OF assms(5,4) w(2) False] assms(3) show ?thesis by simp
  qed
  from finish_write_ok [OF x1(2-4), of e] obtain iw l where
    f: "finish_write e a x1 = Some (set_el l (set_conn a (?c\<lparr>c_last_active_time := el_now (e_ev e) (sw_el (x_sw x1)), c_io_watcher := Some iw\<rparr>) x1))"
      "slots_ok (set_el l (set_conn a (?c\<lparr>c_last_active_time := el_now (e_ev e) (sw_el (x_sw x1)), c_io_watcher := Some iw\<rparr>) x1))"
      "libev_ok (e_ev e) \<longrightarrow> (\<forall>iw0. c_io_watcher c = Some iw0 \<longrightarrow> io_active (w_io iw0) \<longrightarrow> watched (e_ev e) iw AND WRITE = 0)"
    by auto
  with assms(2,3) x1 show ?thesis
    by (intro exI [of _ "set_el l (set_conn a (?c\<lparr>c_last_active_time := el_now (e_ev e) (sw_el (x_sw x1)), c_io_watcher := Some iw\<rparr>) x1)"]
        exI [of _ iw] exI [of _ "el_now (e_ev e) (sw_el (x_sw x1))"])
      (simp add: write_conn_def of_option_def)
qed

section \<open>New connections and timeouts\<close>

lemma conn_rest_new: "conn_rest (TcpConnection_new fd)"
  by (simp add: conn_rest_def TcpConnection_new_def conn_bytes_def sdsempty_ok sdsempty_bytes XHEAD_SIZE_def)

lemma conn_rest_cong:
  "c_querybuf c' = c_querybuf c \<Longrightarrow> c_currentState c' = c_currentState c \<Longrightarrow> c_bytes_expected c' = c_bytes_expected c \<Longrightarrow>
   c_bytes_processed c' = c_bytes_processed c \<Longrightarrow> conn_rest c' = conn_rest c"
  by (simp add: conn_rest_def conn_bytes_def handled_def split: conn_state.split)

definition grown :: "int \<Rightarrow> ptr list \<Rightarrow> ptr list" where
  "grown fd conns =
     (if int (length conns) \<le> fd
      then take (nat (c_int (fd * 2))) conns @ replicate (nat (c_int (fd * 2)) - length conns) None
      else conns)"

lemma grown_slots:
  assumes "0 < fd" and "fd < 2 ^ 30"
  shows "nat fd < length (grown fd conns)"
    and "i < length (grown fd conns) \<Longrightarrow> grown fd conns ! i = (if i < length conns then conns ! i else None)"
    and "length conns \<le> length (grown fd conns)"
proof -
  have c: "c_int (fd * 2) = fd * 2" using assms by (intro c_int_id) simp_all
  show "nat fd < length (grown fd conns)" "length conns \<le> length (grown fd conns)"
    using assms by (auto simp: grown_def c)
  show "i < length (grown fd conns) \<Longrightarrow> grown fd conns ! i = (if i < length conns then conns ! i else None)"
    using assms by (auto simp: grown_def c nth_append split: if_splits)
qed

text \<open>The outcome of accepting a descriptor, when the socket calls succeed.\<close>

lemma new_conn_registers:
  assumes "slots_ok x" and "0 < fd" and "fd < 2 ^ 30" and "a \<notin> live (sw_heap (x_sw x))"
    and "sock_set_non_block (e_os e) fd (x_w x) = (0, w1)" and "sock_set_tcp_nodelay (e_os e) fd w1 = (0, w2)"
    and "sock_peer_to_string (e_os e) fd (c_ip (TcpConnection_new fd)) w2 = ((0, ip, port), w3)"
  shows "\<exists>x1 c. new_conn e a fd x = Some x1 \<and> slots_ok x1 \<and> conn_slot fd x1 = Some a \<and> conn_at x1 a = Some c \<and>
    c_fd c = fd \<and> c_ip c = ip \<and> c_port c = port \<and> conn_bytes c = [] \<and> c_reply_msgs c = [] \<and> \<not> handled c \<and>
    (\<forall>fd'. fd' \<noteq> fd \<longrightarrow> conn_slot fd' x1 = conn_slot fd' x) \<and> x_rs x1 = x_rs x"
proof -
  let ?sw = "x_sw x" and ?ev = "e_ev e"
  obtain l1 iw where iw: "start_io_event ?ev (create_io_event ?ev Conn_io_cb (sw_addr ?sw)) fd READ (sw_el ?sw) = (l1, iw)"
    by (metis surj_pair)
  obtain l2 tw where tw: "start_timer ?ev (create_timer ?ev Conn_timer_cb a True) 100000 l1 = (l2, tw)"
    by (metis surj_pair)
  let ?c = "(TcpConnection_new fd)\<lparr>c_ip := ip, c_port := port, c_io_watcher := Some iw, c_timer_watcher := Some tw,
    c_last_active_time := el_now ?ev l2\<rparr>"
  let ?g = "grown fd (sw_conns ?sw)"
  let ?x1 = "set_conn a ?c (x\<lparr>x_sw := ?sw\<lparr>sw_el := l2, sw_conns := ?g[nat fd := Some a]\<rparr>, x_w := w3\<rparr>)"
  note g = grown_slots [OF assms(2,3), where conns = "sw_conns ?sw"]
  have new: "new_conn e a fd x = Some ?x1"
    using assms(2,5-7) g(1) by (simp add: new_conn_def iw tw Let_def grown_def)
  have slot: "conn_slot fd' ?x1 = (if fd' = fd then Some a else conn_slot fd' x)" for fd'
    using assms(2) g by (auto simp: conn_slot_def nth_list_update split: if_splits)
  have rest: "conn_rest ?c" using conn_rest_new [of fd] by (subst conn_rest_cong [of _ "TcpConnection_new fd"]) simp_all
  have wf: "conn_wf ?c" "conn_bytes ?c = []" "\<not> handled ?c"
    by (simp_all add: conn_wf_def TcpConnection_new_def conn_bytes_def sdsempty_bytes handled_def)
  have ne: "b \<noteq> a" if "conn_slot fd' x = Some b" for fd' b
    using slots_butD [OF assms(1) that] assms(4) by (metis deref_live)
  have "slots_ok ?x1"
    unfolding slots_but_def
  proof (intro allI impI)
    fix fd' b assume b: "conn_slot fd' ?x1 = Some b"
    show "\<exists>c. conn_at ?x1 b = Some c \<and> c_fd c = fd' \<and> conn_wf c \<and> (b \<notin> {} \<longrightarrow> conn_rest c)"
    proof (cases "fd' = fd")
      case True
      with b slot wf rest show ?thesis by (simp add: TcpConnection_new_def)
    next
      case False
      with b slot have s: "conn_slot fd' x = Some b" by simp
      with slots_butD [OF assms(1) s] obtain c where "conn_at x b = Some c" "c_fd c = fd'" "conn_wf c" "conn_rest c"
        by (metis empty_iff)
      with ne [OF s] show ?thesis by simp
    qed
  qed
  with new slot wf show ?thesis
    by (intro exI [of _ ?x1] exI [of _ ?c]) (simp add: TcpConnection_new_def)
qed

lemma sock_codes:
  "fst (sock_set_non_block os fd w) \<in> {0, - 1}" "fst (sock_set_tcp_nodelay os fd w) \<in> {0, - 1}"
  "fst (fst (sock_peer_to_string os fd ip w)) \<in> {0, - 1}"
  by (auto simp: sock_set_non_block_def sock_set_tcp_nodelay_def sock_peer_to_string_def Let_def
      split: prod.splits sum.splits option.splits)

lemma slots_ok_leak:
  assumes "slots_ok x" and "a \<notin> live (sw_heap (x_sw x))"
  shows "slots_ok (set_conn a c x)"
  unfolding slots_but_def
proof (intro allI impI)
  fix fd b assume "conn_slot fd (set_conn a c x) = Some b"
  then have s: "conn_slot fd x = Some b" by simp
  from slots_butD [OF assms(1) s] obtain c' where c': "conn_at x b = Some c'" "c_fd c' = fd" "conn_wf c'" "conn_rest c'"
    by (metis empty_iff)
  moreover have "b \<noteq> a" using c'(1) assms(2) by (metis deref_live)
  ultimately show "\<exists>c'. conn_at (set_conn a c x) b = Some c' \<and> c_fd c' = fd \<and> conn_wf c' \<and> (b \<notin> {} \<longrightarrow> conn_rest c')"
    by simp
qed

lemma new_conn_ok:
  assumes "slots_ok x" and "fd \<noteq> 0" and "fd < 2 ^ 30" and "a \<notin> live (sw_heap (x_sw x))"
  shows "\<exists>x1. new_conn e a fd x = Some x1 \<and> slots_ok x1"
proof (cases "fd < 0")
  case True
  with assms(1) show ?thesis by (simp add: new_conn_def)
next
  case False
  then have fd: "0 < fd" using assms(2) by simp
  obtain r1 w1 where r1: "sock_set_non_block (e_os e) fd (x_w x) = (r1, w1)" by (metis surj_pair)
  obtain r2 w2 where r2: "sock_set_tcp_nodelay (e_os e) fd w1 = (r2, w2)" by (metis surj_pair)
  obtain r3 ip port w3 where r3: "sock_peer_to_string (e_os e) fd (c_ip (TcpConnection_new fd)) w2 = ((r3, ip, port), w3)"
    by (metis surj_pair)
  have codes: "r1 = 0 \<or> r1 = - 1" "r2 = 0 \<or> r2 = - 1" "r3 = 0 \<or> r3 = - 1"
    using sock_codes(1) [of "e_os e" fd "x_w x"] sock_codes(2) [of "e_os e" fd w1]
      sock_codes(3) [of "e_os e" fd "c_ip (TcpConnection_new fd)" w2] r1 r2 r3 by auto
  show ?thesis
  proof (cases "r1 = 0 \<and> r2 = 0 \<and> r3 = 0")
    case True
    with new_conn_registers [OF assms(1) fd assms(3,4)] r1 r2 r3 show ?thesis by blast
  next
    case False
    with codes fd assms(1) r1 r2 r3 slots_ok_leak [of "x\<lparr>x_w := w\<rparr>" a for w] assms(4)
    show ?thesis by (auto simp: new_conn_def Let_def)
  qed
qed

lemma process_timeout_ok:
  assumes "slots_ok x" and "conn_slot fd x = Some a" and "conn_at x a = Some c"
  shows "\<exists>x1. process_timeout e a x = Some x1 \<and> slots_ok x1 \<and>
    (conn_slot fd x1 = None \<longleftrightarrow> c_size (el_now (e_ev e) (sw_el (x_sw x)) - c_last_active_time c)
       \<ge> c_uint (so_connection_timeout_ms (sw_options (x_sw x))))"
proof -
  from close_conn_ok [OF assms(1,2), of "{}" e] obtain x1 where
    "close_conn e a x = Some x1" "slots_ok x1" "conn_slot fd x1 = None" by auto
  with assms show ?thesis by (auto simp: process_timeout_def)
qed

section \<open>Notifications\<close>

text \<open>
  What an answer in the queue must satisfy to be handled safely: if it is delivered at all, the
  connection it goes to has received a header, and the body fits the buffer.
\<close>

definition answer_fits :: "('w, 'l, 'j) env \<Rightarrow> rtc_msg \<Rightarrow> ('w, 'l) ctx \<Rightarrow> bool" where
  "answer_fits e m x \<longleftrightarrow>
     (m_cmdno m = CMDNO_PUSH \<and> 0 < m_fd m \<and> m_conn m \<noteq> None \<and> conn_slot (m_fd m) x = m_conn m \<longrightarrow>
        (\<forall>a c. m_conn m = Some a \<longrightarrow> conn_at x a = Some c \<longrightarrow> XHEAD_SIZE \<le> length (conn_bytes c)) \<and>
        length (response_body (e_json e) m) \<le> MAX_RES_BUF)"

lemma response_ok:
  assumes "slots_ok x" and "answer_fits e m x" and "m_cmdno m = CMDNO_PUSH"
  shows "\<exists>x1. response_server_offer e m x = Some x1 \<and> slots_ok x1"
proof (cases "0 < m_fd m \<and> m_conn m \<noteq> None \<and> conn_slot (m_fd m) x = m_conn m")
  case True
  then obtain a where a: "m_conn m = Some a" "conn_slot (m_fd m) x = Some a" by auto
  from slots_butD [OF assms(1) a(2)] obtain c where c: "conn_at x a = Some c" by metis
  with True a assms(2,3) have "XHEAD_SIZE \<le> length (conn_bytes c)" "length (response_body (e_json e) m) \<le> MAX_RES_BUF"
    by (auto simp: answer_fits_def)
  with response_delivers [OF assms(1) a(2) _ a(1) c] True show ?thesis by blast
next
  case False
  then have "m_conn m = None \<or> m_fd m \<le> 0 \<or> conn_slot (m_fd m) x \<noteq> m_conn m" by auto
  from response_ignored [OF this] assms(1) show ?thesis by blast
qed

lemma process_rtc_msg_ok:
  assumes "slots_ok x" and "e_noret e \<noteq> None"
    and "\<forall>m ms. sw_q_rtc_msg (x_sw x) = m # ms \<longrightarrow> answer_fits e m (x\<lparr>x_sw := (x_sw x)\<lparr>sw_q_rtc_msg := ms\<rparr>\<rparr>)"
  shows "\<exists>r x1. sw_process_rtc_msg e x = Some (r, x1) \<and> slots_ok x1"
proof (cases "sw_q_rtc_msg (x_sw x)")
  case Nil
  then have "x\<lparr>x_sw := (x_sw x)\<lparr>sw_q_rtc_msg := []\<rparr>\<rparr> = x" by simp
  with Nil assms(1) show ?thesis by (simp add: sw_process_rtc_msg_def pop_rtc_msg_def mq_pop_def)
next
  case (Cons m ms)
  let ?x = "x\<lparr>x_sw := (x_sw x)\<lparr>sw_q_rtc_msg := ms\<rparr>\<rparr>"
  have s: "slots_ok ?x" using assms(1) by simp
  have f: "answer_fits e m ?x" using assms(3) Cons by simp
  from assms(2) obtain k where k: "e_noret e = Some k" by auto
  show ?thesis
  proof (cases "m_cmdno m = CMDNO_PUSH")
    case True
    from response_ok [OF s f True] Cons k True show ?thesis
      by (auto simp: sw_process_rtc_msg_def pop_rtc_msg_def mq_pop_def)
  next
    case False
    with Cons k s show ?thesis by (simp add: sw_process_rtc_msg_def pop_rtc_msg_def mq_pop_def)
  qed
qed

end
