(* ===== verification/SignalingProps.thy ===== *)
theory SignalingProps
  imports SignalingSafety
begin

text \<open>
  What a signaling worker guarantees. A connection is specified by what it has received: it
  collects the bytes of its one frame, or has been served, or is closed. Reading refines this
  specification whatever the sizes of the chunks in which the bytes arrive. Every handler keeps
  the invariant of the worker, so that all reachable states satisfy it; answers are complete
  frames and are sent in order; and the cases in which the code goes wrong are stated exactly.
\<close>

section \<open>Requests\<close>

text \<open>The request that a frame of a connection carries, if it is a push with all its members.\<close>

definition request_msg :: "'j jsoncpp \<Rightarrow> addr \<Rightarrow> addr \<Rightarrow> int \<Rightarrow> bytes \<Rightarrow> bytes \<Rightarrow> rtc_msg option" where
  "request_msg js this a fd header body =
     do { json \<leftarrow> json_parse js body;
          cmdno \<leftarrow> json_asInt js json ''cmdno'';
          if cmdno \<noteq> CMDNO_PUSH then None
          else do { uid \<leftarrow> json_asUInt64 js json ''uid'';
                    name \<leftarrow> json_asString js json ''stream_name'';
                    audio \<leftarrow> json_asInt js json ''audio'';
                    video \<leftarrow> json_asInt js json ''video'';
                    Some ((new_rtc_msg cmdno name audio video uid (c_int (uint (xh_log_id (xhead_of header)))))
                      \<lparr>m_worker := Some this, m_conn := Some a, m_fd := fd\<rparr>) } }"

definition requests :: "('w, 'l, 'j) env \<Rightarrow> addr \<Rightarrow> int \<Rightarrow> bytes \<Rightarrow> bytes \<Rightarrow> ('w, 'l) ctx \<Rightarrow> rtc_msg list" where
  "requests e a fd h b x = (case request_msg (e_json e) (sw_addr (x_sw x)) a fd h b of None \<Rightarrow> [] | Some m \<Rightarrow> [m])"

lemma process_request_queues:
  assumes "process_request e a h b x = Some (r, x1)" and "conn_at x a = Some c"
  shows "rs_q_msg (x_rs x1) = rs_q_msg (x_rs x) @ requests e a (c_fd c) h b x"
  using assms
  by (auto simp: process_request_def process_push_def requests_def request_msg_def rs_send_rtc_msg_def
      rs_push_msg_def mq_push_def Let_def split: option.splits if_splits prod.splits bind_splits)

text \<open>A request depends on the connection only through its descriptor.\<close>

lemma process_request_cong:
  assumes "conn_at x a = Some c" and "conn_at x' a = Some c'" and "c_fd c' = c_fd c"
    and "sw_addr (x_sw x') = sw_addr (x_sw x)" and "x_rs x' = x_rs x" and "x_w x' = x_w x"
  shows "map_option (\<lambda>(r, y). (r, x_rs y, x_w y)) (process_request e a h b x') =
    map_option (\<lambda>(r, y). (r, x_rs y, x_w y)) (process_request e a h b x)"
  using assms
  by (auto simp: process_request_def process_push_def Let_def option.map_comp comp_def
      split: option.splits prod.splits bind_splits)

section \<open>Reading refines the collection of a frame\<close>

datatype session = Closed | Collecting bytes | Served bytes

definition session_of :: "int \<Rightarrow> ('w, 'l) ctx \<Rightarrow> session" where
  "session_of fd x =
     (case conn_slot fd x of
        None \<Rightarrow> Closed
      | Some a \<Rightarrow> (case conn_at x a of
          None \<Rightarrow> Closed
        | Some c \<Rightarrow> if handled c then Served (conn_bytes c) else Collecting (conn_bytes c)))"

text \<open>What the arrival of bytes means; \<open>ok\<close> tells which requests are accepted.\<close>

definition feed :: "(bytes \<Rightarrow> bytes \<Rightarrow> bool) \<Rightarrow> session \<Rightarrow> bytes \<Rightarrow> session" where
  "feed ok s bs =
     (case s of
        Closed \<Rightarrow> Closed
      | Served b \<Rightarrow> Served (b @ bs)
      | Collecting b \<Rightarrow>
          (case frame_of (b @ bs) of
             Incomplete \<Rightarrow> Collecting (b @ bs)
           | Bad_magic \<Rightarrow> Closed
           | Complete h body \<Rightarrow> if ok h body then Served (b @ bs) else Closed))"

definition accepts :: "('w, 'l, 'j) env \<Rightarrow> addr \<Rightarrow> ('w, 'l) ctx \<Rightarrow> bytes \<Rightarrow> bytes \<Rightarrow> bool" where
  "accepts e a x h body \<longleftrightarrow> map_option fst (process_request e a h body x) = Some 0"

lemma accepts_cong:
  assumes "conn_at x a = Some c" and "conn_at x' a = Some c'" and "c_fd c' = c_fd c"
    and "sw_addr (x_sw x') = sw_addr (x_sw x)" and "x_rs x' = x_rs x" and "x_w x' = x_w x"
  shows "accepts e a x' h b = accepts e a x h b"
proof -
  have fst: "map_option fst p = map_option fst (map_option (\<lambda>(r, y). (r, x_rs y, x_w y)) p)"
    for p :: "(int \<times> ('w, 'l) ctx) option" by (simp add: option.map_comp comp_def split_beta)
  show ?thesis unfolding accepts_def fst by (simp only: process_request_cong [OF assms])
qed

text \<open>What a frame adds to the queue of the RTC server.\<close>

definition submitted :: "('w, 'l, 'j) env \<Rightarrow> addr \<Rightarrow> int \<Rightarrow> ('w, 'l) ctx \<Rightarrow> session \<Rightarrow> bytes \<Rightarrow> rtc_msg list" where
  "submitted e a fd x s bs =
     (case s of
        Collecting b \<Rightarrow> (case frame_of (b @ bs) of Complete h body \<Rightarrow> requests e a fd h body x | _ \<Rightarrow> [])
      | _ \<Rightarrow> [])"

lemma session_set_conn:
  "conn_slot fd x = Some a \<Longrightarrow>
   session_of fd (set_conn a c x) = (if handled c then Served (conn_bytes c) else Collecting (conn_bytes c))"
  by (simp add: session_of_def)

lemma session_other:
  assumes "slots_but A (set_conn a c1 x)" and "conn_slot fd x = Some a" and "fd' \<noteq> fd"
  shows "session_of fd' (set_conn a c x) = session_of fd' x"
  using slot_unique [OF assms(1), of fd a fd'] assms(2,3) by (auto simp: session_of_def split: option.split)

lemma session_same_sw: "x_sw x1 = x_sw x \<Longrightarrow> session_of fd x1 = session_of fd x"
  by (simp add: session_of_def conn_slot_def split: option.split)

lemma session_close:
  assumes "slots_but A x" and "conn_slot fd x = Some a" and "A \<subseteq> insert a B" and "close_conn e a x = Some x1"
  shows "session_of fd x1 = Closed" and "x_rs x1 = x_rs x"
    and "fd' \<noteq> fd \<Longrightarrow> session_of fd' x1 = session_of fd' x" and "slots_but B x1"
proof -
  from close_conn_ok [OF assms(1-3), of e] assms(4) have x1: "conn_slot fd x1 = None" "x_rs x1 = x_rs x" "slots_but B x1"
    "\<forall>fd'. fd' \<noteq> fd \<longrightarrow> conn_slot fd' x1 = conn_slot fd' x" "\<forall>b. b \<noteq> a \<longrightarrow> conn_at x1 b = conn_at x b" by auto
  then show "session_of fd x1 = Closed" "x_rs x1 = x_rs x" "slots_but B x1" by (simp_all add: session_of_def)
  show "session_of fd' x1 = session_of fd' x" if "fd' \<noteq> fd"
  proof (cases "conn_slot fd' x")
    case (Some b)
    then have "b \<noteq> a" using slot_unique [OF assms(1,2), of fd'] that by auto
    with Some x1(4,5) that show ?thesis by (simp add: session_of_def)
  qed (use x1(4) that in \<open>simp add: session_of_def\<close>)
qed

text \<open>The three outcomes of a frame, in terms of sessions.\<close>

lemma frame_result_session:
  assumes slots: "slots_but {a} (set_conn a c x)" and slot: "conn_slot fd x = Some a" and fd: "c_fd c = fd"
    and un: "\<not> handled c" and at: "conn_at x a = Some c0" "c_fd c0 = fd"
    and run: "finish_read e a (frame_result e a c (set_conn a c x)) = Some (Ret x1)"
  shows "session_of fd x1 = feed (accepts e a x) (Collecting []) (conn_bytes c) \<and>
    rs_q_msg (x_rs x1) = rs_q_msg (x_rs x) @ submitted e a fd x (Collecting []) (conn_bytes c) \<and>
    (\<forall>fd'. fd' \<noteq> fd \<longrightarrow> session_of fd' x1 = session_of fd' x)"
proof (cases "frame_of (conn_bytes c)")
  case Incomplete
  let ?c = "if length (conn_bytes c) < XHEAD_SIZE then c else in_body c"
  have "\<not> handled ?c" "conn_bytes ?c = conn_bytes c" using un by (simp_all add: handled_def XHEAD_SIZE_def)
  moreover have "x1 = set_conn a ?c x" using run Incomplete by (simp add: frame_result_def finish_read_def)
  ultimately show ?thesis
    using Incomplete session_set_conn [OF slot, of ?c] session_other [OF slots slot]
    by (simp add: feed_def submitted_def)
next
  case Bad_magic
  then have "close_conn e a (set_conn a c x) = Some x1"
    using run by (auto simp: frame_result_def finish_read_def of_option_def split: option.splits)
  from session_close [OF slots _ _ this, where fd = fd and B = "{}"] Bad_magic slot session_other [OF slots slot]
  show ?thesis by (simp add: feed_def submitted_def)
next
  case (Complete h b)
  let ?x = "set_conn a (in_body c) x"
  from run Complete obtain r y where p: "process_request e a h b ?x = Some (r, y)"
    by (auto simp: frame_result_def handle_frame_def finish_read_def split: option.splits)
  have sw: "x_sw y = x_sw ?x" using process_request_sw [OF p] .
  have q: "rs_q_msg (x_rs y) = rs_q_msg (x_rs x) @ requests e a fd h b x"
    using process_request_queues [OF p, of "in_body c"] fd by (simp add: requests_def)
  have ok: "accepts e a x h b \<longleftrightarrow> r = 0"
    using accepts_cong [of x a c0 ?x "in_body c" e h b] at fd p by (simp add: accepts_def)
  have other: "session_of fd' ?x = session_of fd' x" if "fd' \<noteq> fd" for fd'
    using session_other [OF slots slot that] .
  have sy: "slots_but {a} y" "conn_slot fd y = Some a"
    using slots slot fd slots_but_set_conn [OF slots, of fd a "in_body c" "{a}"] slots_butD [OF slots, of fd a]
    by (auto simp: slots_but_sw [OF sw] conn_slot_sw [OF sw])
  show ?thesis
  proof (cases "r = 0")
    case True
    with run Complete p have x1: "x1 = set_conn a ((in_body c)\<lparr>c_bytes_processed := 65535\<rparr>) y"
      by (simp add: frame_result_def handle_frame_def finish_read_def)
    have "conn_bytes ((in_body c)\<lparr>c_bytes_processed := 65535\<rparr>) = conn_bytes c" by (simp add: conn_bytes_def in_body_def)
    moreover have "session_of fd' x1 = session_of fd' y" if "fd' \<noteq> fd" for fd'
      unfolding x1 using sy slot_unique [OF sy, of fd'] that by (auto simp: session_of_def split: option.split)
    ultimately show ?thesis using x1 session_set_conn [OF sy(2)] q ok True Complete other session_same_sw [OF sw]
      by (simp add: feed_def submitted_def handled_def)
  next
    case False
    with run Complete p have "close_conn e a y = Some x1"
      by (auto simp: frame_result_def handle_frame_def finish_read_def of_option_def split: option.splits)
    with session_close [OF sy, where B = "{}" and e = e] q ok False Complete other session_same_sw [OF sw] show ?thesis
      by (auto simp: feed_def submitted_def)
  qed
qed

lemma feed_collecting: "feed ok (Collecting b) bs = feed ok (Collecting []) (b @ bs)"
  by (simp add: feed_def split: frame.split)

lemma submitted_collecting: "submitted e a fd x (Collecting b) bs = submitted e a fd x (Collecting []) (b @ bs)"
  by (simp add: submitted_def)

lemma submitted_cong: "sw_addr (x_sw x') = sw_addr (x_sw x) \<Longrightarrow> submitted e a fd x' s bs = submitted e a fd x s bs"
  by (simp add: submitted_def requests_def split: session.split frame.split)

text \<open>A read event on a connection that returned \<open>bs\<close>.\<close>

definition read_event :: "('w, 'l, 'j) env \<Rightarrow> int \<Rightarrow> addr \<Rightarrow> ('w, 'l) ctx \<Rightarrow> bytes \<Rightarrow> 'w \<Rightarrow> bool" where
  "read_event e fd a x bs w \<longleftrightarrow> conn_slot fd x = Some a \<and>
     (\<exists>c. conn_at x a = Some c \<and> readable c \<and> \<not> overrun (conn_bytes c @ bs) \<and>
        sock_read_data (e_os e) fd (c_bytes_expected c) (x_w x) = ((int (length bs), bs), w))"

lemma read_handled_session:
  assumes "slots_ok x" and "conn_slot fd x = Some a" and "conn_at x a = Some c" and "readable c" and "handled c"
    and "os_ok (e_os e)" and "sock_read_data (e_os e) fd (c_bytes_expected c) (x_w x) = ((int (length bs), bs), w)"
    and "\<not> overrun (conn_bytes c @ bs)" and "read_conn e fd x = Some (Ret x1)"
  shows "session_of fd x1 = Served (conn_bytes c @ bs) \<and> x_rs x1 = x_rs x \<and>
    (\<forall>fd'. fd' \<noteq> fd \<longrightarrow> session_of fd' x1 = session_of fd' x)"
proof -
  from read_conn_receives [OF assms(1-4,6,7)] obtain qb where
    r: "read_conn e fd x = finish_read e a (process_query_buffer e a (set_conn a (received e qb c x) (x\<lparr>x_w := w\<rparr>)))"
      "sds_ok qb" "sds_bytes qb = conn_bytes c @ bs" "slots_but {a} (set_conn a (received e qb c x) (x\<lparr>x_w := w\<rparr>))" by blast
  have rest: "conn_rest c" using slots_butD [OF assms(1,2)] assms(3) by (metis empty_iff option.inject)
  have "process_query_buffer e a (set_conn a (received e qb c x) (x\<lparr>x_w := w\<rparr>)) =
      Some (Ret (0, set_conn a (received e qb c x) (x\<lparr>x_w := w\<rparr>)))"
    using r(2,3) assms(8) by (intro query_handled [OF rest assms(5)]) simp_all
  with r(1) assms(9) have x1: "x1 = set_conn a (received e qb c x) (x\<lparr>x_w := w\<rparr>)" by (simp add: finish_read_def)
  have "session_of fd' (x\<lparr>x_w := w\<rparr>) = session_of fd' x" for fd' by (rule session_same_sw) simp
  with session_other [OF r(4), of fd] x1 r(3) assms(2,5) show ?thesis by (simp add: session_of_def)
qed

lemma read_conn_session:
  assumes slots: "slots_ok x" and ev: "read_event e fd a x bs w" and os: "os_ok (e_os e)" and nr: "e_noret e \<noteq> None"
  shows "\<exists>x1. read_conn e fd x = Some (Ret x1) \<and> slots_ok x1 \<and>
    session_of fd x1 = feed (accepts e a (x\<lparr>x_w := w\<rparr>)) (session_of fd x) bs \<and>
    rs_q_msg (x_rs x1) = rs_q_msg (x_rs x) @ submitted e a fd x (session_of fd x) bs \<and>
    (\<forall>fd'. fd' \<noteq> fd \<longrightarrow> session_of fd' x1 = session_of fd' x)"
proof -
  from ev obtain c where c: "conn_slot fd x = Some a" "conn_at x a = Some c" "readable c" "\<not> overrun (conn_bytes c @ bs)"
    "sock_read_data (e_os e) fd (c_bytes_expected c) (x_w x) = ((int (length bs), bs), w)"
    by (auto simp: read_event_def)
  have fd: "c_fd c = fd" using slots_butD [OF slots c(1)] c(2) by (metis option.inject)
  from read_conn_ok [OF slots c(1-3) os nr c(5,4)] obtain x1 where x1: "read_conn e fd x = Some (Ret x1)" "slots_ok x1" by blast
  have s: "session_of fd x = (if handled c then Served (conn_bytes c) else Collecting (conn_bytes c))"
    using c(1,2) by (simp add: session_of_def)
  show ?thesis
  proof (cases "handled c")
    case True
    with read_handled_session [OF slots c(1-3) True os c(5,4) x1(1)] s x1 show ?thesis
      by (simp add: feed_def submitted_def)
  next
    case False
    from read_conn_frame [OF slots c(1-3) False os c(5,4)] obtain qb where
      r: "read_conn e fd x = finish_read e a (frame_result e a (received e qb c x) (set_conn a (received e qb c x) (x\<lparr>x_w := w\<rparr>)))"
        "sds_bytes qb = conn_bytes c @ bs" "slots_but {a} (set_conn a (received e qb c x) (x\<lparr>x_w := w\<rparr>))"
      unfolding Let_def by blast
    have "session_of fd' (x\<lparr>x_w := w\<rparr>) = session_of fd' x" for fd' by (rule session_same_sw) simp
    moreover have "submitted e a fd (x\<lparr>x_w := w\<rparr>) t cs = submitted e a fd x t cs" for t cs by (rule submitted_cong) simp
    moreover have "finish_read e a (frame_result e a (received e qb c x) (set_conn a (received e qb c x) (x\<lparr>x_w := w\<rparr>))) = Some (Ret x1)"
      using r(1) x1(1) by simp
    ultimately show ?thesis
      using frame_result_session [OF r(3), of fd c e x1] r(2) x1 c(1,2) fd False s
      by (intro exI [of _ x1]) (simp add: feed_collecting [of _ "conn_bytes c"] submitted_collecting [of _ _ _ _ "conn_bytes c"])
  qed
qed

section \<open>The chunks of a request do not matter\<close>

lemma frame_of_more:
  "frame_of b = Complete h body \<Longrightarrow> frame_of (b @ bs) = Complete h body"
  "frame_of b = Bad_magic \<Longrightarrow> frame_of (b @ bs) = Bad_magic"
  by (auto simp: frame_of_def body_len_append xhead_of_prefix split: if_splits)

text \<open>
  Handlers of connections change only the event loop, the vector of connections and the
  connections themselves.
\<close>

definition owned :: "('w, 'l) ctx \<Rightarrow> ('w, 'l) ctx \<Rightarrow> bool" where
  "owned x x1 \<longleftrightarrow> x_sw x1 = (x_sw x)\<lparr>sw_el := sw_el (x_sw x1), sw_conns := sw_conns (x_sw x1), sw_heap := sw_heap (x_sw x1)\<rparr>"

lemma owned_sw: "x_sw x1 = x_sw x \<Longrightarrow> owned x x1"
  by (simp add: owned_def)

lemma owned_refl [simp]: "owned x x" "owned x (x\<lparr>x_w := w\<rparr>)"
  by (simp_all add: owned_def)

lemma owned_fields:
  assumes "owned x x1"
  shows "sw_addr (x_sw x1) = sw_addr (x_sw x)" "sw_q_conn (x_sw x1) = sw_q_conn (x_sw x)"
    "sw_q_rtc_msg (x_sw x1) = sw_q_rtc_msg (x_sw x)" "sw_pipe_watcher (x_sw x1) = sw_pipe_watcher (x_sw x)"
    "sw_notify_recv_fd (x_sw x1) = sw_notify_recv_fd (x_sw x)" "sw_options (x_sw x1) = sw_options (x_sw x)"
  by (subst assms [unfolded owned_def], simp)+

lemma owned_trans [trans]: "owned x y \<Longrightarrow> owned y z \<Longrightarrow> owned x z"
  unfolding owned_def by (cases "x_sw x"; cases "x_sw y"; cases "x_sw z") simp

lemma owned_set: "owned x (set_conn a c x)" "owned x (set_el l x)"
  by (simp_all add: owned_def set_conn_def set_el_def)

lemma close_conn_owned: "close_conn e a x = Some x1 \<Longrightarrow> owned x x1"
  by (auto simp: owned_def close_conn_def remove_conn_def Let_def split: bind_splits if_splits)

lemma query_step_owned: "query_step e a c x = Some (r, x1) \<Longrightarrow> owned x x1"
  by (auto simp: query_step_def Let_def dest!: process_request_sw intro!: owned_set
      intro: owned_sw owned_trans split: bind_splits if_splits)

lemmas query_buffer_induct = process_query_buffer.raw_induct [where xa = "((e, a), x)" for e a x, unfolded prod.case]

lemma process_query_buffer_owned:
  assumes "process_query_buffer e a x = Some (Ret (r, x1))"
  shows "owned x x1"
proof -
  have "case Ret (r, x1) of UB \<Rightarrow> True | Ret (r, x1) \<Rightarrow> owned x x1"
    by (rule query_buffer_induct [where P = "\<lambda>e a x y. case y of UB \<Rightarrow> True | Ret (r, x1) \<Rightarrow> owned x x1", OF _ assms])
      (fastforce split: option.splits if_splits res.splits prod.splits dest: query_step_owned intro: owned_trans)
  then show ?thesis by simp
qed

lemma owned_set_w: "owned (set_conn a c (x\<lparr>x_w := w\<rparr>)) y \<Longrightarrow> owned x y"
  using owned_trans [OF owned_refl(2) owned_trans [OF owned_set(1)]] .

lemma read_conn_owned: "read_conn e fd x = Some (Ret x1) \<Longrightarrow> owned x x1"
  by (auto simp: read_conn_def finish_read_def of_option_def Let_def
      dest!: close_conn_owned process_query_buffer_owned dest: owned_set_w owned_trans
      split: option.splits res.splits prod.splits if_splits)

lemmas read_conn_addr = owned_fields(1) [OF read_conn_owned]

text \<open>A run of read events on one connection, with the bytes that each delivered.\<close>

inductive reads :: "('w, 'l, 'j) env \<Rightarrow> int \<Rightarrow> addr \<Rightarrow> ('w, 'l) ctx \<Rightarrow> bytes list \<Rightarrow> ('w, 'l) ctx \<Rightarrow> bool"
  for e fd a where
  reads_nil: "reads e fd a x [] x"
| reads_cons: "read_event e fd a x bs w \<Longrightarrow> read_conn e fd x = Some (Ret x1) \<Longrightarrow> reads e fd a x1 bss x2 \<Longrightarrow>
    reads e fd a x (bs # bss) x2"

inductive_cases reads_consE: "reads e fd a x (bs # bss) x1"

lemma reads_closed:
  assumes "reads e fd a x bss x1" and "slots_ok x" and "session_of fd x = Closed"
  shows "x1 = x"
  using assms
proof (cases rule: reads.cases)
  case (reads_cons bs w y bss')
  then have s: "conn_slot fd x = Some a" by (simp add: read_event_def)
  from slots_butD [OF assms(2) s] obtain c where "conn_at x a = Some c" by blast
  with s have "session_of fd x \<noteq> Closed" by (simp add: session_of_def)
  with assms(3) show ?thesis by simp
qed simp

lemma reads_served:
  assumes "reads e fd a x bss x1" and "slots_ok x" and "session_of fd x = Served b" and "os_ok (e_os e)" and "e_noret e \<noteq> None"
  shows "slots_ok x1 \<and> session_of fd x1 = Served (b @ concat bss) \<and> rs_q_msg (x_rs x1) = rs_q_msg (x_rs x)"
  using assms
proof (induction arbitrary: b rule: reads.induct)
  case (reads_cons x bs w x1 bss x2)
  with read_conn_session [OF reads_cons.prems(1) reads_cons.hyps(1)] have "slots_ok x1" "session_of fd x1 = Served (b @ bs)"
    "rs_q_msg (x_rs x1) = rs_q_msg (x_rs x)" by (auto simp: feed_def submitted_def)
  with reads_cons.IH [of "b @ bs"] reads_cons.prems show ?case by simp
qed simp

definition outcome :: "('w, 'l, 'j) env \<Rightarrow> int \<Rightarrow> addr \<Rightarrow> ('w, 'l) ctx \<Rightarrow> bytes \<Rightarrow> ('w, 'l) ctx \<Rightarrow> bool" where
  "outcome e fd a x bs x1 \<longleftrightarrow>
     (case frame_of bs of
        Incomplete \<Rightarrow> session_of fd x1 = Collecting bs \<and> rs_q_msg (x_rs x1) = rs_q_msg (x_rs x)
      | Bad_magic \<Rightarrow> session_of fd x1 = Closed \<and> rs_q_msg (x_rs x1) = rs_q_msg (x_rs x)
      | Complete h body \<Rightarrow> session_of fd x1 \<in> {Served bs, Closed} \<and>
          rs_q_msg (x_rs x1) = rs_q_msg (x_rs x) @ requests e a fd h body x)"

lemma reads_collecting:
  assumes "reads e fd a x bss x1" and "slots_ok x" and "session_of fd x = Collecting b" and "frame_of b = Incomplete"
    and "os_ok (e_os e)" and "e_noret e \<noteq> None"
  shows "slots_ok x1 \<and> outcome e fd a x (b @ concat bss) x1"
  using assms
proof (induction arbitrary: b rule: reads.induct)
  case (reads_nil x)
  then show ?case by (simp add: outcome_def)
next
  case (reads_cons x bs w x1 bss x2)
  note os = reads_cons.prems(4,5)
  from read_conn_session [OF reads_cons.prems(1) reads_cons.hyps(1) os] reads_cons.hyps(2) reads_cons.prems(2)
  have x1: "slots_ok x1" "session_of fd x1 = feed (accepts e a (x\<lparr>x_w := w\<rparr>)) (Collecting b) bs"
    "rs_q_msg (x_rs x1) = rs_q_msg (x_rs x) @ submitted e a fd x (Collecting b) bs" by auto
  have addr: "requests e a fd h body x1 = requests e a fd h body x" for h body
    using read_conn_addr [OF reads_cons.hyps(2)] by (simp add: requests_def)
  show ?case
  proof (cases "frame_of (b @ bs)")
    case Incomplete
    with x1 reads_cons.IH [of "b @ bs"] os addr show ?thesis
      by (simp add: feed_def submitted_def outcome_def cong: frame.case_cong)
  next
    case Bad_magic
    with x1 reads_closed [OF reads_cons.hyps(3)] frame_of_more(2) [of "b @ bs" "concat bss"] show ?thesis
      by (simp add: feed_def submitted_def outcome_def)
  next
    case (Complete h body)
    then have f: "frame_of (b @ bs @ concat bss) = Complete h body" using frame_of_more(1) [of "b @ bs"] by simp
    show ?thesis
    proof (cases "accepts e a (x\<lparr>x_w := w\<rparr>) h body")
      case True
      with Complete x1 have "session_of fd x1 = Served (b @ bs)" by (simp add: feed_def)
      from reads_served [OF reads_cons.hyps(3) x1(1) this os] Complete x1(3) f show ?thesis
        by (simp add: submitted_def outcome_def)
    next
      case False
      with Complete x1 have "session_of fd x1 = Closed" by (simp add: feed_def)
      with reads_closed [OF reads_cons.hyps(3) x1(1) this] Complete x1 f show ?thesis
        by (simp add: submitted_def outcome_def)
    qed
  qed
qed

section \<open>A sample worker\<close>

text \<open>
  An environment for examples. The world is the list of chunks that the peer will send and the
  list of writes made. The body of a request is its own parsed value, every push is complete,
  and a response is a fixed text.
\<close>

type_synonym wire = "bytes list \<times> (int \<times> bytes) list"

definition wire_os :: "wire os" where
  "wire_os =
     \<lparr>sys_socket = (\<lambda>w. (Inr 3, w)), sys_reuseaddr = (\<lambda>fd w. (None, w)),
      inet_aton = (\<lambda>s. Some 1), inet_ntop = (\<lambda>a. ''127.0.0.1''),
      sys_bind = (\<lambda>fd sa w. (None, w)), sys_listen = (\<lambda>fd n w. (None, w)),
      sys_accept = (\<lambda>fd w. (Inr (9, \<lparr>sin_port = 80, sin_addr = 1\<rparr>), w)), sys_close = (\<lambda>fd w. w),
      sys_getfl = (\<lambda>fd w. (Inr 2, w)), sys_setfl = (\<lambda>fd fl w. (None, w)),
      sys_nodelay = (\<lambda>fd w. (None, w)), sys_getpeername = (\<lambda>fd w. (Inr \<lparr>sin_port = 80, sin_addr = 1\<rparr>, w)),
      sys_read = (\<lambda>fd n (cs, out).
         case cs of [] \<Rightarrow> (Inl EAGAIN, (cs, out)) | c # cs' \<Rightarrow>
           if n \<le> 0 then (Inl (EOther 22), (cs, out))
           else if int (length c) \<le> n then (Inr c, (cs', out)) else (Inr (take (nat n) c), (drop (nat n) c # cs', out))),
      sys_write = (\<lambda>fd bs (cs, out). (Inr (length bs), (cs, out @ [(fd, bs)]))),
      sys_pipe = (\<lambda>w. (Inr (4, 5), w))\<rparr>"

definition wire_env :: "(wire, unit, bytes) env" where
  "wire_env =
     \<lparr>e_os = wire_os, e_ev = plain_libev,
      e_json = \<lparr>json_parse = Some, json_asInt = (\<lambda>_ _. Some 1), json_asUInt64 = (\<lambda>_ _. Some 42),
        json_asString = (\<lambda>_ _. Some ''room''), json_write = (\<lambda>_. [123, 125])\<rparr>,
      e_rand = (\<lambda>n w. (Some (replicate n 7), w)), e_ssl_create = (\<lambda>_ _ _ w. (Some sample_certificate, w)),
      e_time = (\<lambda>w. 1700000000),
      e_yaml = (\<lambda>f. Some \<lparr>yaml_int = (\<lambda>_. Some 2), yaml_string = (\<lambda>_. Some ''x''), yaml_bool = (\<lambda>_. Some False)\<rparr>),
      e_noret = Some 0\<rparr>"

text \<open>The frame of a request with an empty body.\<close>

definition sample_header :: bytes where
  "sample_header = xhead_bytes \<lparr>xh_id = 1, xh_version = 1, xh_log_id = 7, xh_provider = replicate 16 0,
     xh_magic_num = XHEAD_MAGIC_NUM, xh_reserved = 0, xh_body_len = 0\<rparr>"

definition sample_conn :: "int \<Rightarrow> tcp_connection" where
  "sample_conn fd = (TcpConnection_new fd)
     \<lparr>c_io_watcher := Some (create_io_event (plain_libev :: unit libev) Conn_io_cb 60),
      c_timer_watcher := Some (create_timer (plain_libev :: unit libev) Conn_timer_cb 50 True)\<rparr>"

definition sample_ctx :: "bytes list \<Rightarrow> (wire, unit) ctx" where
  "sample_ctx cs =
     \<lparr>x_sw = (SignalingServerWorker_new 60 61 () 0
         \<lparr>so_host = ''0.0.0.0'', so_port = 9000, so_worker_thread_num = 1, so_connection_timeout_ms = 3000\<rparr>)
         \<lparr>sw_conns := replicate 3 None @ [Some 50], sw_heap := [(50, sample_conn 3)]\<rparr>,
      x_rs = RtcServer_new 2 () \<lparr>ro_worker_num = 1\<rparr>, x_w = (cs, [])\<rparr>"

lemma wire_os_ok: "os_ok wire_os"
  by (auto simp: os_ok_def wire_os_def split: list.splits if_splits)

lemma sample_header_length: "length sample_header = XHEAD_SIZE"
  by (simp add: sample_header_def length_xhead_bytes)

lemma sample_header_head: "xhead_of sample_header = \<lparr>xh_id = 1, xh_version = 1, xh_log_id = 7, xh_provider = replicate 16 0,
     xh_magic_num = XHEAD_MAGIC_NUM, xh_reserved = 0, xh_body_len = 0\<rparr>"
  by (simp add: sample_header_def xhead_of_bytes [where rest = "[]", simplified])

lemma sample_header_frame: "frame_of sample_header = Complete sample_header []"
  by (simp add: frame_of_def sample_header_length sample_header_head body_len_def)

lemma sample_conn_ok: "conn_rest (sample_conn fd)" "conn_wf (sample_conn fd)" "conn_bytes (sample_conn fd) = []"
  "c_fd (sample_conn fd) = fd" "\<not> handled (sample_conn fd)"
proof -
  show "conn_rest (sample_conn fd)"
    using conn_rest_new [of fd] by (subst conn_rest_cong [of _ "TcpConnection_new fd"]) (simp_all add: sample_conn_def)
qed (simp_all add: sample_conn_def conn_wf_def TcpConnection_new_def conn_bytes_def sdsempty_bytes handled_def)

lemma sample_ctx_slot:
  "conn_slot fd (sample_ctx cs) = (if fd = 3 then Some 50 else None)" "conn_at (sample_ctx cs) 50 = Some (sample_conn 3)"
  by (auto simp: conn_slot_def sample_ctx_def SignalingServerWorker_new_def deref_def nth_append nth_Cons split: nat.splits)

lemma sample_ctx_ok: "slots_ok (sample_ctx cs)"
  by (auto simp: slots_but_def sample_ctx_slot sample_conn_ok split: if_splits)

lemma sample_session: "session_of 3 (sample_ctx cs) = Collecting []"
  by (simp add: session_of_def sample_ctx_slot sample_conn_ok)

lemma sample_conn_expects: "c_bytes_expected (sample_conn fd) = int XHEAD_SIZE"
  by (simp add: sample_conn_def TcpConnection_new_def)

lemma sample_read_event: "read_event wire_env 3 50 (sample_ctx (bs # cs)) bs (cs, [])"
  if "bs \<noteq> []" and "length bs \<le> XHEAD_SIZE"
proof -
  note c = sample_conn_ok(3) [of 3] sample_conn_expects
  have "sock_read_data wire_os 3 (int XHEAD_SIZE) (bs # cs, []) = ((int (length bs), bs), (cs, []))"
    using that by (simp add: sock_read_data_def wire_os_def XHEAD_SIZE_def c_size_id c_int_id)
  moreover have "readable (sample_conn 3)" by (simp add: readable_def c XHEAD_SIZE_def SDS_MAX_PREALLOC_def)
  moreover have "\<not> overrun bs" using that by (simp add: overrun_def XHEAD_SIZE_def)
  ultimately show ?thesis
    by (simp add: read_event_def sample_ctx_slot c) (simp add: wire_env_def sample_ctx_def)
qed

lemmas sample_read = wire_os_ok sample_ctx_ok sample_session sample_read_event sample_header_length sample_header_frame

lemma wire_env_simps [simp]: "e_os wire_env = wire_os" "e_ev wire_env = plain_libev" "e_noret wire_env = Some 0"
  by (simp_all add: wire_env_def)

lemma sample_request: "requests wire_env 50 3 sample_header [] (sample_ctx cs) =
    [(new_rtc_msg 1 ''room'' 1 1 42 7)\<lparr>m_worker := Some 60, m_conn := Some 50, m_fd := 3\<rparr>]"
  by (simp add: requests_def request_msg_def wire_env_def cmdnos sample_header_head sample_ctx_def
      SignalingServerWorker_new_def c_int_id)

section \<open>Properties of reading\<close>

text \<open>
  C4. Reading refines the abstract session of a connection. When the socket delivers the bytes
  \<open>bs\<close> to a connection of a worker in a good state, \<^verbatim>\<open>_read_conn\<close> returns, the worker is in a good
  state again, and the session has been fed \<open>bs\<close>: an incomplete frame goes on collecting, a wrong
  magic number closes the connection, a complete frame is passed to \<^verbatim>\<open>_process_request\<close>, which
  either accepts it, so that the connection is served, or closes it; bytes after the frame are
  only stored. The queue of the RTC server receives exactly the request of a completed frame, and
  no other connection is affected.
\<close>

theorem read_refines_session:
  assumes "slots_ok x" and "read_event e fd a x bs w" and "os_ok (e_os e)" and "e_noret e \<noteq> None"
  shows "\<exists>x1. read_conn e fd x = Some (Ret x1) \<and> slots_ok x1 \<and>
    session_of fd x1 = feed (accepts e a (x\<lparr>x_w := w\<rparr>)) (session_of fd x) bs \<and>
    rs_q_msg (x_rs x1) = rs_q_msg (x_rs x) @ submitted e a fd x (session_of fd x) bs \<and>
    (\<forall>fd'. fd' \<noteq> fd \<longrightarrow> session_of fd' x1 = session_of fd' x)"
  using assms by (rule read_conn_session)

theorem read_refines_session_witness:
  "\<exists>x1. read_conn wire_env 3 (sample_ctx [sample_header]) = Some (Ret x1) \<and> slots_ok x1 \<and>
    session_of 3 x1 = Served sample_header \<and>
    rs_q_msg (x_rs x1) = [(new_rtc_msg 1 ''room'' 1 1 42 7)\<lparr>m_worker := Some 60, m_conn := Some 50, m_fd := 3\<rparr>]"
proof -
  let ?x = "sample_ctx [sample_header]"
  have ne: "sample_header \<noteq> []" using sample_header_length by (auto simp: XHEAD_SIZE_def)
  have "accepts wire_env 50 (?x\<lparr>x_w := ([], [])\<rparr>) sample_header []"
    by (simp add: accepts_def process_request_def process_push_def wire_env_def cmdnos sample_ctx_def
        SignalingServerWorker_new_def deref_def rs_send_rtc_msg_def rs_notify_def notify_write_def wire_os_def
        option.map_comp Let_def)
  moreover have "rs_q_msg (x_rs ?x) = []" by (simp add: sample_ctx_def RtcServer_new_def)
  ultimately show ?thesis
    using read_refines_session [OF sample_ctx_ok sample_read_event [OF ne], of "[]"] sample_header_length
    by (simp add: sample_read sample_request feed_def submitted_def) blast
qed

text \<open>
  C3. How the network cuts a request into chunks does not matter. If a new connection receives the
  chunks \<open>bss\<close> in any number of read events, then what has happened afterwards depends only on the
  concatenation: nothing was submitted while the frame is incomplete; a bad header has closed the
  connection; and once the frame is complete, its request, if it is a well-formed push, has been
  submitted to the RTC server exactly once, even when more bytes follow the frame.
\<close>

theorem chunks_do_not_matter:
  assumes "slots_ok x" and "session_of fd x = Collecting []" and "reads e fd a x bss x1"
    and "os_ok (e_os e)" and "e_noret e \<noteq> None"
  shows "case frame_of (concat bss) of
      Incomplete \<Rightarrow> session_of fd x1 = Collecting (concat bss) \<and> rs_q_msg (x_rs x1) = rs_q_msg (x_rs x)
    | Bad_magic \<Rightarrow> session_of fd x1 = Closed \<and> rs_q_msg (x_rs x1) = rs_q_msg (x_rs x)
    | Complete h body \<Rightarrow> session_of fd x1 \<in> {Served (concat bss), Closed} \<and>
        rs_q_msg (x_rs x1) = rs_q_msg (x_rs x) @
          (case request_msg (e_json e) (sw_addr (x_sw x)) a fd h body of None \<Rightarrow> [] | Some m \<Rightarrow> [m])"
  using reads_collecting [OF assms(3,1,2) _ assms(4,5)]
  by (simp add: outcome_def requests_def frame_of_def XHEAD_SIZE_def cong: frame.case_cong)

theorem chunks_do_not_matter_witness:
  "\<exists>x1. reads wire_env 3 50 (sample_ctx [sample_header]) [sample_header] x1 \<and>
    rs_q_msg (x_rs x1) = [(new_rtc_msg 1 ''room'' 1 1 42 7)\<lparr>m_worker := Some 60, m_conn := Some 50, m_fd := 3\<rparr>]"
proof -
  let ?x = "sample_ctx [sample_header]"
  have ne: "sample_header \<noteq> []" using sample_header_length by (auto simp: XHEAD_SIZE_def)
  have ev: "read_event wire_env 3 50 ?x sample_header ([], [])"
    using sample_read_event [OF ne] sample_header_length by simp
  with read_conn_session [OF sample_ctx_ok ev] obtain x1 where "read_conn wire_env 3 ?x = Some (Ret x1)"
    by (auto simp: sample_read)
  with ev have r: "reads wire_env 3 50 ?x [sample_header] x1" by (auto intro: reads.intros)
  have "rs_q_msg (x_rs ?x) = []" by (simp add: sample_ctx_def RtcServer_new_def)
  with chunks_do_not_matter [OF sample_ctx_ok sample_session r] r sample_request [of "[sample_header]"] show ?thesis
    by (intro exI [of _ x1]) (simp add: sample_read requests_def)
qed

end
