(* ===== verification/SignalingEvents.thy ===== *)
theory SignalingEvents
  imports SignalingProps
begin

text \<open>
  The events of a signaling worker and the states it can reach. The loop of the worker calls the
  callbacks for notifications, connections and timers; between two callbacks other threads add
  connections and answers to its queues, and the world and the RTC server change. The invariant of
  the worker holds in all reachable states, and there every event that the kernel and libev can
  deliver is handled: the callback returns and has no undefined behaviour. The conditions under
  which this is so are stated in \<open>admissible\<close>; what happens without them is stated at the end.
\<close>

section \<open>Handlers own their worker\<close>

lemmas write_loop_induct = write_loop.raw_induct [where xa = "((((e, a), fd), pos), x)" for e a fd pos x, unfolded prod.case]










section \<open>Events\<close>












lemma slots_el [simp]: "slots_but A (x\<lparr>x_sw := (x_sw x)\<lparr>sw_el := l\<rparr>\<rparr>) = slots_but A x"
  by (simp add: slots_but_def conn_slot_def)








section \<open>Reachable states\<close>









section \<open>Answers\<close>

text \<open>\<open>out\<close> reads off the bytes that the kernel has accepted for a descriptor.\<close>

definition stream_of :: "'w os \<Rightarrow> int \<Rightarrow> ('w \<Rightarrow> bytes) \<Rightarrow> bool" where
  "stream_of os fd out \<longleftrightarrow> (\<forall>bs w n w1. sys_write os fd bs w = (Inr n, w1) \<longrightarrow> out w1 = out w @ take n bs)"












section \<open>Where the worker fails\<close>

text \<open>
  A short write corrupts the stream of replies. When the kernel takes only \<open>k\<close> bytes of a
  reply, the loop offers the whole reply again instead of the rest, and as soon as the counts add
  up to its length the reply counts as sent: the client has received the first \<open>k\<close> bytes twice
  and is missing the end.
\<close>

lemma short_write_repeats_prefix:
  assumes "conn_at x a = Some c" and "c_reply_msgs c = m # ms" and "length m < 2 ^ 30"
    and "sys_write (e_os e) fd m (x_w x) = (Inr k, w1)" and "0 < k" and "k < length m"
    and "sys_write (e_os e) fd m w1 = (Inr j, w2)" and "j = length m - k" and "stream_of (e_os e) fd out"
  shows "write_loop e a fd 0 x = write_loop e a fd 0 (set_conn a (c\<lparr>c_reply_msgs := ms\<rparr>) (x\<lparr>x_w := w2\<rparr>)) \<and>
    out w2 = out (x_w x) @ take k m @ take (length m - k) m"
proof -
  have n: "c_int (int k) = int k" "c_int (int j) = int j" "c_size (int k) = int k" "c_size (int j + int k) = int j + int k"
    using assms(3,6,8) by (auto intro!: c_int_id c_size_nonneg_int)
  have w: "sock_write_data (e_os e) fd m (x_w x) = (int k, w1)" "sock_write_data (e_os e) fd m w1 = (int j, w2)"
    using assms(4,7) n by (simp_all add: sock_write_data_def)
  have "write_loop e a fd 0 x = write_loop e a fd (int k) (x\<lparr>x_w := w1\<rparr>)"
    using assms(1,2,5,6) w(1) n by (subst write_loop.simps) (simp add: Let_def)
  also have "\<dots> = write_loop e a fd 0 (set_conn a (c\<lparr>c_reply_msgs := ms\<rparr>) (x\<lparr>x_w := w2\<rparr>))"
    using assms(1,2,5,6,8) w(2) n by (subst write_loop.simps) (simp add: Let_def)
  moreover have "out w2 = out (x_w x) @ take k m @ take (length m - k) m"
    using assms(4,7-9) unfolding stream_of_def by (metis append.assoc)
  ultimately show ?thesis by simp
qed

definition short_env :: "(wire, unit, bytes) env" where
  "short_env = wire_env\<lparr>e_os := wire_os\<lparr>sys_write := (\<lambda>fd bs (cs, out).
     let n = (if out = [] then 3 else 2) in (Inr n, (cs, out @ [(fd, take n bs)])))\<rparr>\<rparr>"

definition replying_ctx :: "bytes list \<Rightarrow> (wire, unit) ctx" where
  "replying_ctx ms = set_conn 50 ((sample_conn 3)\<lparr>c_reply_msgs := ms\<rparr>) (sample_ctx [])"

lemma replying_ctx_simps:
  "conn_slot fd (replying_ctx ms) = (if fd = 3 then Some 50 else None)"
  "conn_at (replying_ctx ms) 50 = Some ((sample_conn 3)\<lparr>c_reply_msgs := ms\<rparr>)" "x_w (replying_ctx ms) = ([], [])"
  by (simp_all add: replying_ctx_def sample_ctx_slot) (simp add: sample_ctx_def)

text \<open>
  C36. A client that does not read stops the whole worker. While the kernel reports that the socket
  is not writable, the loop of \<^verbatim>\<open>_write_conn\<close> tries again without returning to the event loop: if
  the socket stays in that state, the callback never returns, and with it no other connection of
  this worker is served.
\<close>

theorem busy_socket_blocks_worker:
  assumes "0 < fd" and "conn_slot fd x = Some a" and "conn_at x a = Some c" and "c_reply_msgs c = m # ms"
    and "\<forall>w. fst (sys_write (e_os e) fd m w) = Inl EAGAIN"
  shows "write_conn e fd x = None"
proof -
  have "write_loop e a fd 0 x = None"
  proof (rule ccontr)
    assume "write_loop e a fd 0 x \<noteq> None"
    then obtain y where y: "write_loop e a fd 0 x = Some y" by blast
    have "\<not> (\<exists>c. conn_at x a = Some c \<and> c_reply_msgs c = m # ms \<and> (\<forall>w. fst (sys_write (e_os e) fd m w) = Inl EAGAIN))"
    proof (rule write_loop_induct [where P = "\<lambda>e a fd pos x y. \<not> (\<exists>c. conn_at x a = Some c \<and> c_reply_msgs c = m # ms \<and>
        (\<forall>w. fst (sys_write (e_os e) fd m w) = Inl EAGAIN))", OF _ y], goal_cases)
      case (1 loop e a fd pos x y)
      show ?case
      proof
        assume "\<exists>c. conn_at x a = Some c \<and> c_reply_msgs c = m # ms \<and> (\<forall>w. fst (sys_write (e_os e) fd m w) = Inl EAGAIN)"
        then obtain c where c: "conn_at x a = Some c" "c_reply_msgs c = m # ms"
          "\<forall>w. fst (sys_write (e_os e) fd m w) = Inl EAGAIN" by blast
        then obtain w1 where "sys_write (e_os e) fd m (x_w x) = (Inl EAGAIN, w1)" by (metis prod.collapse)
        then have "sock_write_data (e_os e) fd m (x_w x) = (0, w1)" by (simp add: sock_write_data_def)
        with 1(2) c(1,2) have "loop e a fd pos (x\<lparr>x_w := w1\<rparr>) = Some y" by (simp add: Let_def)
        from 1(1) [OF this] c show False by simp
      qed
    qed
    with assms(3-5) show False by blast
  qed
  with assms(1,2) show ?thesis by (simp add: write_conn_def)
qed

theorem busy_socket_blocks_worker_witness:
  "write_conn (wire_env\<lparr>e_os := wire_os\<lparr>sys_write := (\<lambda>fd bs w. (Inl EAGAIN, w))\<rparr>\<rparr>) 3 (replying_ctx [[1, 2]]) = None"
  by (rule busy_socket_blocks_worker [of 3 "replying_ctx [[1, 2]]" 50 "(sample_conn 3)\<lparr>c_reply_msgs := [[1, 2]]\<rparr>" "[1, 2]" "[]"])
    (simp_all add: replying_ctx_simps)













end
