(* ===== verification/SignalingServer.thy ===== *)
theory SignalingServer
  imports SignalingWorker
begin

text \<open>
  \<^verbatim>\<open>server/signaling_server.{h,cpp}\<close>: the thread that listens. It accepts connections and hands
  their descriptors to the signaling workers in turn. As in the other components, \<open>None\<close> is a call
  that does not return where a loop may not end, and undefined behaviour elsewhere.
\<close>

section \<open>State\<close>

definition SS_QUIT :: int where "SS_QUIT = 0"

record 'l signaling_server =
  ss_options :: signaling_server_options
  ss_addr :: addr
  ss_listen_fd :: int
  ss_io_watcher :: "io_watcher option"
  ss_pipe_watcher :: "io_watcher option"
  ss_notify_recv_fd :: int
  ss_notify_send_fd :: int
  ss_el :: 'l
  ss_thread :: bool
  ss_workers :: "addr list"
  ss_next_worker_id :: int

text \<open>The options are not initialized by the constructor.\<close>

definition SignalingServer_new :: "addr \<Rightarrow> 'l \<Rightarrow> signaling_server_options \<Rightarrow> 'l signaling_server" where
  "SignalingServer_new this el options =
     \<lparr>ss_options = options, ss_addr = this, ss_listen_fd = - 1, ss_io_watcher = None, ss_pipe_watcher = None,
      ss_notify_recv_fd = - 1, ss_notify_send_fd = - 1, ss_el = el, ss_thread = False, ss_workers = [],
      ss_next_worker_id = 0\<rparr>"

section \<open>Starting\<close>

text \<open>
  The options are read one after the other; an exception leaves those read before it in place.
\<close>

definition load_options :: "yaml \<Rightarrow> signaling_server_options \<Rightarrow> bool \<times> signaling_server_options" where
  "load_options y o0 =
     (case yaml_string y [''host''] of None \<Rightarrow> (False, o0) | Some host \<Rightarrow>
      (let o1 = o0\<lparr>so_host := host\<rparr> in
       case yaml_int y [''port''] of None \<Rightarrow> (False, o1) | Some port \<Rightarrow>
       (let o2 = o1\<lparr>so_port := port\<rparr> in
        case yaml_int y [''worker_num''] of None \<Rightarrow> (False, o2) | Some n \<Rightarrow>
        (let o3 = o2\<lparr>so_worker_thread_num := n\<rparr> in
         case yaml_int y [''connection_timeout''] of None \<Rightarrow> (False, o3) | Some t \<Rightarrow>
         (True, o3\<lparr>so_connection_timeout_ms := t\<rparr>)))))"

text \<open>
  \<open>fresh i\<close> gives what the allocator provides for the \<open>i\<close>th worker: its address, the address of
  the first node of its queue, and its event loop. \<^verbatim>\<open>worker->init()\<close> has no \<^verbatim>\<open>return\<close> on success: its
  result is what the environment makes of that.
\<close>

definition ss_create_worker ::
    "('w, 'l, 'j) env \<Rightarrow> (int \<Rightarrow> addr \<times> addr \<times> 'l) \<Rightarrow> int \<Rightarrow> 'l signaling_server \<Rightarrow> 'l sworker heap \<Rightarrow> 'w \<Rightarrow>
     (int \<times> 'l signaling_server \<times> 'l sworker heap \<times> 'w) option" where
  "ss_create_worker e fresh worker_id ss sws w =
     (case fresh worker_id of (this, a, el) \<Rightarrow>
      do { (r, sw, w1) \<leftarrow> sw_init e (SignalingServerWorker_new this a el worker_id (ss_options ss)) w;
           if r = - 1 then Some (- 1, ss, store this sw sws, w1)
           else case sw_start sw of
               (False, sw1) \<Rightarrow> Some (- 1, ss, store this sw1 sws, w1)
             | (True, sw1) \<Rightarrow> Some (0, ss\<lparr>ss_workers := ss_workers ss @ [this]\<rparr>, store this sw1 sws, w1) })"

fun ss_create_workers ::
    "('w, 'l, 'j) env \<Rightarrow> (int \<Rightarrow> addr \<times> addr \<times> 'l) \<Rightarrow> int list \<Rightarrow> 'l signaling_server \<Rightarrow> 'l sworker heap \<Rightarrow> 'w \<Rightarrow>
     (int \<times> 'l signaling_server \<times> 'l sworker heap \<times> 'w) option" where
  "ss_create_workers e fresh [] ss sws w = Some (0, ss, sws, w)"
| "ss_create_workers e fresh (i # is) ss sws w =
     do { (r, ss1, sws1, w1) \<leftarrow> ss_create_worker e fresh i ss sws w;
          if r = - 1 then Some (- 1, ss1, sws1, w1) else ss_create_workers e fresh is ss1 sws1 w1 }"

definition ss_init ::
    "('w, 'l, 'j) env \<Rightarrow> (int \<Rightarrow> addr \<times> addr \<times> 'l) \<Rightarrow> string option \<Rightarrow> 'l signaling_server \<Rightarrow> 'l sworker heap \<Rightarrow> 'w \<Rightarrow>
     (int \<times> 'l signaling_server \<times> 'l sworker heap \<times> 'w) option" where
  "ss_init e fresh config_file ss sws w =
     (case config_file of
        None \<Rightarrow> Some (- 1, ss, sws, w)
      | Some f \<Rightarrow>
        (case e_yaml e f of
           None \<Rightarrow> Some (- 1, ss, sws, w)
         | Some y \<Rightarrow>
           (case load_options y (ss_options ss) of (ok, options) \<Rightarrow>
            (let ss1 = ss\<lparr>ss_options := options\<rparr> in
             if \<not> ok then Some (- 1, ss1, sws, w)
             else case sys_pipe (e_os e) w of
               (Inl err, w1) \<Rightarrow> Some (- 1, ss1, sws, w1)
             | (Inr (rfd, sfd), w1) \<Rightarrow>
               (case start_io_event (e_ev e) (create_io_event (e_ev e) Signaling_server_recv_notify (ss_addr ss))
                       rfd READ (ss_el ss1) of
                  (l, pw) \<Rightarrow>
                  (let ss2 = ss1\<lparr>ss_notify_recv_fd := rfd, ss_notify_send_fd := sfd, ss_pipe_watcher := Some pw, ss_el := l\<rparr> in
                   case create_tcp_socket (e_os e) (Some (so_host options)) (so_port options) w1 of
                     (lfd, w2) \<Rightarrow>
                       if lfd = - 1 then Some (- 1, ss2\<lparr>ss_listen_fd := lfd\<rparr>, sws, w2)
                       else
                         (case start_io_event (e_ev e) (create_io_event (e_ev e) Accept_new_conn (ss_addr ss)) lfd READ (ss_el ss2) of
                            (l2, iw) \<Rightarrow>
                              ss_create_workers e fresh [0..so_worker_thread_num options - 1]
                                (ss2\<lparr>ss_listen_fd := lfd, ss_io_watcher := Some iw, ss_el := l2\<rparr>) sws w2)))))))"

definition ss_start :: "'l signaling_server \<Rightarrow> bool \<times> 'l signaling_server" where
  "ss_start ss = (if ss_thread ss then (False, ss) else (True, ss\<lparr>ss_thread := True\<rparr>))"

interpretation sst: startable ss_start ss_thread
  by unfold_locales (simp_all add: ss_start_def)

section \<open>Notifications\<close>

text \<open>
  \<^verbatim>\<open>return written == sizeof(msg) ? 0 : -1\<close> in a function that returns \<^verbatim>\<open>bool\<close>: the result is true
  exactly when the write has failed.
\<close>

definition ss_notify :: "'w os \<Rightarrow> int \<Rightarrow> 'l signaling_server \<Rightarrow> 'w \<Rightarrow> bool \<times> 'w" where
  "ss_notify os msg ss w =
     (case notify_write os (ss_notify_send_fd ss) msg w of (ok, w1) \<Rightarrow> ((if ok then 0 else - 1 :: int) \<noteq> 0, w1))"

definition ss_stop :: "'w os \<Rightarrow> 'l signaling_server \<Rightarrow> 'w \<Rightarrow> 'w" where
  "ss_stop os ss w = snd (ss_notify os SS_QUIT ss w)"

text \<open>Each worker is told to stop; \<^verbatim>\<open>join\<close> then waits for its thread.\<close>

fun ss_stop_workers :: "'w os \<Rightarrow> 'l sworker heap \<Rightarrow> addr list \<Rightarrow> 'w \<Rightarrow> 'w option" where
  "ss_stop_workers os sws [] w = Some w"
| "ss_stop_workers os sws (p # ps) w =
     do { sw \<leftarrow> deref sws (Some p); ss_stop_workers os sws ps (sw_stop os sw w) }"

definition ss_do_stop ::
    "('w, 'l, 'j) env \<Rightarrow> 'l signaling_server \<Rightarrow> 'l sworker heap \<Rightarrow> 'w \<Rightarrow> ('l signaling_server \<times> 'w) option" where
  "ss_do_stop e ss sws w =
     (if \<not> ss_thread ss then Some (ss, w)
      else do { pw \<leftarrow> ss_pipe_watcher ss;
                iw \<leftarrow> ss_io_watcher ss;
                let ss1 = ss\<lparr>ss_el := el_stop (e_ev e) (delete_io_event (e_ev e) iw (delete_io_event (e_ev e) pw (ss_el ss)))\<rparr>;
                w1 \<leftarrow> ss_stop_workers (e_os e) sws (ss_workers ss)
                        (sys_close (e_os e) (ss_listen_fd ss)
                          (sys_close (e_os e) (ss_notify_send_fd ss) (sys_close (e_os e) (ss_notify_recv_fd ss) w)));
                Some (ss1, w1) })"

definition ss_process_notify ::
    "('w, 'l, 'j) env \<Rightarrow> int \<Rightarrow> 'l signaling_server \<Rightarrow> 'l sworker heap \<Rightarrow> 'w \<Rightarrow> ('l signaling_server \<times> 'w) option" where
  "ss_process_notify e msg ss sws w = (if msg = SS_QUIT then ss_do_stop e ss sws w else Some (ss, w))"

definition signaling_server_recv_notify ::
    "('w, 'l, 'j) env \<Rightarrow> int \<Rightarrow> 'l signaling_server \<Rightarrow> 'l sworker heap \<Rightarrow> 'w \<Rightarrow> ('l signaling_server \<times> 'w) option" where
  "signaling_server_recv_notify e fd ss sws w =
     (case notify_read (e_os e) fd w of
        (None, w1) \<Rightarrow> Some (ss, w1)
      | (Some msg, w1) \<Rightarrow> ss_process_notify e msg ss sws w1)"

section \<open>Connections\<close>

text \<open>
  \<^verbatim>\<open>_next_worker_id++ % _workers.size()\<close>: the counter is an \<^verbatim>\<open>int\<close> whose increment may overflow, the
  remainder is taken on \<^verbatim>\<open>size_t\<close>, and an empty vector is a division by zero. \<open>a\<close> is the address of
  the new queue node.
\<close>

definition dispatch_new_conn ::
    "'w os \<Rightarrow> addr \<Rightarrow> int \<Rightarrow> 'l signaling_server \<Rightarrow> 'l sworker heap \<Rightarrow> 'w \<Rightarrow>
     ('l signaling_server \<times> 'l sworker heap \<times> 'w) option" where
  "dispatch_new_conn os a fd ss sws w =
     (if ss_workers ss = [] \<or> ss_next_worker_id ss = 2 ^ 31 - 1 then None
      else let worker_id = c_int (c_size (ss_next_worker_id ss) mod int (length (ss_workers ss)));
               p = ss_workers ss ! nat worker_id
        in do { sw \<leftarrow> deref sws (Some p);
                (r, sw1, w1) \<leftarrow> notify_new_conn os a fd sw w;
                Some (ss\<lparr>ss_next_worker_id := ss_next_worker_id ss + 1\<rparr>, store p sw1 sws, w1) })"

definition accept_new_conn ::
    "('w, 'l, 'j) env \<Rightarrow> addr \<Rightarrow> int \<Rightarrow> 'l signaling_server \<Rightarrow> 'l sworker heap \<Rightarrow> 'w \<Rightarrow>
     ('l signaling_server \<times> 'l sworker heap \<times> 'w) res option" where
  "accept_new_conn e a fd ss sws w =
     (case tcp_accept (e_os e) fd w of
        None \<Rightarrow> None
      | Some (None, w1) \<Rightarrow> Some (Ret (ss, sws, w1))
      | Some (Some (cfd, cip, cport), w1) \<Rightarrow>
          if cfd < 0 then Some (Ret (ss, sws, w1)) else of_option (dispatch_new_conn (e_os e) a cfd ss sws w1))"

section \<open>Destruction\<close>

text \<open>\<open>ts\<close> gives the states of the workers' threads, \<open>t\<close> that of the server's own.\<close>

fun ss_delete_workers ::
    "('w, 'l, 'j) env \<Rightarrow> (addr \<Rightarrow> thread_state) \<Rightarrow> addr list \<Rightarrow> 'l rtc_server \<Rightarrow> 'l sworker heap \<Rightarrow> 'w \<Rightarrow> ('l sworker heap \<times> 'w) option" where
  "ss_delete_workers e ts [] rs sws w = Some (sws, w)"
| "ss_delete_workers e ts (p # ps) rs sws w =
     do { sw \<leftarrow> deref sws (Some p);
          x \<leftarrow> sw_destroy e (ts p) \<lparr>x_sw = sw, x_rs = rs, x_w = w\<rparr>;
          ss_delete_workers e ts ps rs (release p sws) (x_w x) }"

definition SignalingServer_destroy ::
    "('w, 'l, 'j) env \<Rightarrow> (addr \<Rightarrow> thread_state) \<Rightarrow> thread_state \<Rightarrow> 'l signaling_server \<Rightarrow> 'l rtc_server \<Rightarrow> 'l sworker heap \<Rightarrow> 'w \<Rightarrow>
     ('l signaling_server \<times> 'l sworker heap \<times> 'w) option" where
  "SignalingServer_destroy e ts t ss rs sws w =
     (if ss_thread ss \<and> t \<noteq> Joined then None
      else do { (sws1, w1) \<leftarrow> ss_delete_workers e ts (ss_workers ss) rs sws w;
                Some (ss\<lparr>ss_thread := False, ss_workers := []\<rparr>, sws1, w1) })"

text \<open>
  The two destructors disagree: stopping the server joins the threads of its workers, and deleting
  a worker joins its thread again, so a server that was stopped in order cannot be destroyed.
\<close>

lemma close_all_thread: "close_all e ps x = Some x1 \<Longrightarrow> sw_thread (x_sw x1) = sw_thread (x_sw x)"
  by (induction e ps x rule: close_all.induct)
    (auto simp: close_conn_def remove_conn_def Let_def split: bind_splits if_splits)

lemma destroy_after_stop:
  assumes "ss_workers ss = p # ps" and "deref sws (Some p) = Some sw" and "sw_thread sw" and "ts p = Joined"
  shows "SignalingServer_destroy e ts t ss rs sws w = None"
  using assms close_all_thread [of e "sw_conns sw" "\<lparr>x_sw = sw, x_rs = rs, x_w = w\<rparr>"]
  by (auto simp: SignalingServer_destroy_def sw_destroy_def split: bind_splits)

section \<open>Dispatching in turn\<close>

definition ss_ready :: "'l signaling_server \<Rightarrow> 'l sworker heap \<Rightarrow> bool" where
  "ss_ready ss sws \<longleftrightarrow> ss_workers ss \<noteq> [] \<and> distinct (ss_workers ss) \<and> length (ss_workers ss) < 2 ^ 31 \<and> 0 \<le> ss_next_worker_id ss \<and>
     (\<forall>p \<in> set (ss_workers ss). \<exists>sw. deref sws (Some p) = Some sw \<and> lfq_inv (sw_q_conn sw))"

text \<open>The descriptors that wait in the queue of a worker.\<close>

definition waiting :: "'l sworker heap \<Rightarrow> addr \<Rightarrow> int list" where
  "waiting sws p = (case deref sws (Some p) of None \<Rightarrow> [] | Some sw \<Rightarrow> lfq_contents (sw_q_conn sw))"

definition fresh_node :: "addr \<Rightarrow> 'l sworker heap \<Rightarrow> bool" where
  "fresh_node a sws \<longleftrightarrow> (\<forall>p sw. deref sws (Some p) = Some sw \<longrightarrow> a \<notin> live (q_nodes (sw_q_conn sw)))"

lemma dispatch_index:
  assumes "ss_ready ss sws" and "ss_next_worker_id ss < 2 ^ 31"
  shows "nat (c_int (c_size (ss_next_worker_id ss) mod int (length (ss_workers ss)))) =
    nat (ss_next_worker_id ss) mod length (ss_workers ss)"
proof -
  let ?k = "ss_next_worker_id ss" and ?n = "length (ss_workers ss)"
  have k: "0 \<le> ?k" "0 < int ?n" "int ?n < 2 ^ 31" using assms(1) by (auto simp: ss_ready_def)
  then have "c_size ?k = ?k" using assms(2) by (intro c_size_nonneg_int)
  moreover have "0 \<le> ?k mod int ?n" "?k mod int ?n < 2 ^ 31"
    using pos_mod_sign [OF k(2), of ?k] less_trans [OF pos_mod_bound [OF k(2), of ?k] k(3)] by blast+
  then have "c_int (?k mod int ?n) = ?k mod int ?n" by (intro c_int_id) auto
  ultimately show ?thesis using k(1) by (simp add: nat_mod_distrib)
qed

lemma dispatch_step:
  assumes "ss_ready ss sws" and "ss_next_worker_id ss < 2 ^ 31 - 1" and "fresh_node a sws"
    and "p = ss_workers ss ! (nat (ss_next_worker_id ss) mod length (ss_workers ss))"
  shows "\<exists>sws1 w1. dispatch_new_conn os a fd ss sws w = Some (ss\<lparr>ss_next_worker_id := ss_next_worker_id ss + 1\<rparr>, sws1, w1) \<and>
    ss_ready (ss\<lparr>ss_next_worker_id := ss_next_worker_id ss + 1\<rparr>) sws1 \<and>
    (\<forall>p'. waiting sws1 p' = (if p' = p then waiting sws p' @ [fd] else waiting sws p'))"
proof -
  have n: "ss_workers ss \<noteq> []" using assms(1) by (simp add: ss_ready_def)
  then have "p \<in> set (ss_workers ss)" using assms(4) by simp
  with assms(1) obtain sw where sw: "deref sws (Some p) = Some sw" "lfq_inv (sw_q_conn sw)"
    unfolding ss_ready_def by blast
  have "a \<notin> live (q_nodes (sw_q_conn sw))" using assms(3) sw(1) by (auto simp: fresh_node_def)
  from notify_new_conn_queue [OF sw(2) this, of os fd w] obtain r q w1 where
    q: "notify_new_conn os a fd sw w = Some (r, sw\<lparr>sw_q_conn := q\<rparr>, w1)" "lfq_inv q"
      "lfq_contents q = lfq_contents (sw_q_conn sw) @ [fd]" by blast
  let ?ss = "ss\<lparr>ss_next_worker_id := ss_next_worker_id ss + 1\<rparr>" and ?sws = "store p (sw\<lparr>sw_q_conn := q\<rparr>) sws"
  have "dispatch_new_conn os a fd ss sws w = Some (?ss, ?sws, w1)"
    using n assms(2,4) sw(1) q(1) dispatch_index [OF assms(1)] by (simp add: dispatch_new_conn_def Let_def)
  moreover have "ss_ready ?ss ?sws" using assms(1) q(2) by (auto simp: ss_ready_def heap_simps)
  moreover have "waiting ?sws p' = (if p' = p then waiting sws p' @ [fd] else waiting sws p')" for p'
    using sw(1) q(3) by (simp add: waiting_def heap_simps)
  ultimately show ?thesis by blast
qed

text \<open>A sequence of accepted descriptors, each with the address of its queue node.\<close>

fun dispatch_all ::
    "'w os \<Rightarrow> (addr \<times> int) list \<Rightarrow> 'l signaling_server \<Rightarrow> 'l sworker heap \<Rightarrow> 'w \<Rightarrow>
     ('l signaling_server \<times> 'l sworker heap \<times> 'w) option" where
  "dispatch_all os [] ss sws w = Some (ss, sws, w)"
| "dispatch_all os ((a, fd) # ps) ss sws w =
     do { (ss1, sws1, w1) \<leftarrow> dispatch_new_conn os a fd ss sws w; dispatch_all os ps ss1 sws1 w1 }"

fun fresh_nodes :: "'w os \<Rightarrow> (addr \<times> int) list \<Rightarrow> 'l signaling_server \<Rightarrow> 'l sworker heap \<Rightarrow> 'w \<Rightarrow> bool" where
  "fresh_nodes os [] ss sws w = True"
| "fresh_nodes os ((a, fd) # ps) ss sws w \<longleftrightarrow> fresh_node a sws \<and>
     (case dispatch_new_conn os a fd ss sws w of None \<Rightarrow> True | Some (ss1, sws1, w1) \<Rightarrow> fresh_nodes os ps ss1 sws1 w1)"

text \<open>The values whose position, counted from \<open>k\<close>, is \<open>j\<close> modulo \<open>n\<close>.\<close>

definition every_nth :: "nat \<Rightarrow> nat \<Rightarrow> nat \<Rightarrow> 'a list \<Rightarrow> 'a list" where
  "every_nth n j k xs = map snd (filter (\<lambda>(i, x). i mod n = j) (enumerate k xs))"

lemma every_nth_simps:
  "every_nth n j k [] = []"
  "every_nth n j k (x # xs) = (if k mod n = j then x # every_nth n j (Suc k) xs else every_nth n j (Suc k) xs)"
  by (simp_all add: every_nth_def)

lemma dispatch_all_waiting:
  assumes "ss_ready ss sws" and "ss_next_worker_id ss + int (length ps) < 2 ^ 31" and "fresh_nodes os ps ss sws w"
  shows "\<exists>ss1 sws1 w1. dispatch_all os ps ss sws w = Some (ss1, sws1, w1) \<and> ss_ready ss1 sws1 \<and> ss_workers ss1 = ss_workers ss \<and>
    (\<forall>j < length (ss_workers ss). waiting sws1 (ss_workers ss ! j) = waiting sws (ss_workers ss ! j) @
      every_nth (length (ss_workers ss)) j (nat (ss_next_worker_id ss)) (map snd ps))"
  using assms
proof (induction ps arbitrary: ss sws w)
  case Nil
  then show ?case by (simp add: every_nth_simps)
next
  case (Cons af ps)
  obtain a fd where af: "af = (a, fd)" by (cases af)
  let ?k = "nat (ss_next_worker_id ss)" and ?n = "length (ss_workers ss)"
  let ?ss = "ss\<lparr>ss_next_worker_id := ss_next_worker_id ss + 1\<rparr>"
  have k: "0 \<le> ss_next_worker_id ss" and d: "distinct (ss_workers ss)" "?n > 0"
    using Cons.prems(1) by (auto simp: ss_ready_def)
  have fr: "fresh_node a sws" "ss_next_worker_id ss < 2 ^ 31 - 1" using Cons.prems(2,3) af by auto
  from dispatch_step [OF Cons.prems(1) fr(2,1) refl, of os fd w] obtain sws1 w1 where
    s: "dispatch_new_conn os a fd ss sws w = Some (?ss, sws1, w1)" "ss_ready ?ss sws1"
      "\<forall>p'. waiting sws1 p' = (if p' = ss_workers ss ! (?k mod ?n) then waiting sws p' @ [fd] else waiting sws p')"
    by blast
  have pre: "ss_next_worker_id ?ss + int (length ps) < 2 ^ 31" "fresh_nodes os ps ?ss sws1 w1"
    using Cons.prems(2,3) af s(1) by auto
  from Cons.IH [OF s(2) pre] obtain ss2 sws2 w2 where
    r: "dispatch_all os ps ?ss sws1 w1 = Some (ss2, sws2, w2)" "ss_ready ss2 sws2" "ss_workers ss2 = ss_workers ss"
      "\<forall>j < ?n. waiting sws2 (ss_workers ss ! j) = waiting sws1 (ss_workers ss ! j) @ every_nth ?n j (Suc ?k) (map snd ps)"
    using k by (auto simp: nat_add_distrib)
  have "ss_workers ss ! j = ss_workers ss ! (?k mod ?n) \<longleftrightarrow> ?k mod ?n = j" if "j < ?n" for j
    using nth_eq_iff_index_eq [OF d(1) that, of "?k mod ?n"] d(2) by auto
  with r s(1,3) af show ?case by (auto simp: every_nth_simps)
qed

text \<open>
  C25. Connections are dispatched in turn. From a started server, as long as the counter stays
  below its maximum, every sequence of accepted connections is handed over without undefined
  behaviour, and the queue of the \<open>j\<close>th worker grows by exactly those descriptors whose number is
  congruent to \<open>j\<close> modulo the number of workers, in the order they were accepted. Hence no
  connection is lost or given twice, and the workers' shares differ by at most one.
\<close>

theorem dispatch_round_robin:
  assumes "ss_ready ss sws" and "ss_next_worker_id ss + int (length ps) < 2 ^ 31" and "fresh_nodes os ps ss sws w"
  shows "\<exists>ss1 sws1 w1. dispatch_all os ps ss sws w = Some (ss1, sws1, w1) \<and> ss_ready ss1 sws1 \<and>
    (\<forall>j < length (ss_workers ss). waiting sws1 (ss_workers ss ! j) = waiting sws (ss_workers ss ! j) @
      every_nth (length (ss_workers ss)) j (nat (ss_next_worker_id ss)) (map snd ps))"
  using dispatch_all_waiting [OF assms] by blast

definition two_workers :: "unit sworker heap" where
  "two_workers = [(7, SignalingServerWorker_new 7 20 () 0 \<lparr>so_host = [], so_port = 0, so_worker_thread_num = 2, so_connection_timeout_ms = 0\<rparr>),
     (8, SignalingServerWorker_new 8 21 () 1 \<lparr>so_host = [], so_port = 0, so_worker_thread_num = 2, so_connection_timeout_ms = 0\<rparr>)]"

definition two_worker_server :: "unit signaling_server" where
  "two_worker_server = (SignalingServer_new 2 () \<lparr>so_host = [], so_port = 0, so_worker_thread_num = 2, so_connection_timeout_ms = 0\<rparr>)
     \<lparr>ss_workers := [7, 8]\<rparr>"

lemma two_workers_deref:
  "deref two_workers (Some p) = Some sw \<Longrightarrow> p \<in> {7, 8} \<and> q_nodes (sw_q_conn sw) = q_nodes (lfq_init (if p = 7 then 20 else 21) 0) \<and>
     lfq_inv (sw_q_conn sw) \<and> lfq_contents (sw_q_conn sw) = []"
  by (auto simp: two_workers_def deref_def SignalingServerWorker_new_def lfq_init_inv lfq_init_contents split: if_splits)

lemma two_worker_ready: "ss_ready two_worker_server two_workers"
  by (simp add: ss_ready_def two_worker_server_def SignalingServer_new_def)
    (simp add: two_workers_def deref_def SignalingServerWorker_new_def lfq_init_inv)

theorem dispatch_round_robin_witness:
  "\<exists>ss1 sws1 w1. dispatch_all (e_os calm_env) [(40, 11)] two_worker_server two_workers () = Some (ss1, sws1, w1) \<and>
    waiting sws1 7 = [11] \<and> waiting sws1 8 = []"
proof -
  have f: "fresh_nodes (e_os calm_env) [(40, 11)] two_worker_server two_workers ()"
    by (auto simp: fresh_node_def lfq_init_def live_def dest!: two_workers_deref split: option.splits)
  have w: "waiting two_workers 7 = []" "waiting two_workers 8 = []"
    by (auto simp: waiting_def dest: two_workers_deref split: option.splits)
  have n: "ss_workers two_worker_server = [7, 8]" "ss_next_worker_id two_worker_server = 0"
    by (simp_all add: two_worker_server_def SignalingServer_new_def)
  from dispatch_round_robin [OF two_worker_ready _ f] w show ?thesis
    by (simp add: n less_Suc_eq every_nth_simps numeral_2_eq_2) auto
qed

end
