(* ===== verification/Logging.thy ===== *)
theory Logging
  imports StringEncode
begin

text \<open>
  \<^verbatim>\<open>rtc_base/logging.cc\<close>: the log of the WebRTC base library that every component writes to. The
  state is the set of global variables of the file; the registered sinks, which the source
  links through the sinks themselves, are the list of their addresses with their minimal
  severities. A log line goes to the debug output and to every sink whose minimal severity it
  reaches. The build defines \<^verbatim>\<open>NDEBUG\<close>.
\<close>

section \<open>Severities\<close>

datatype LoggingSeverity = LS_VERBOSE | LS_INFO | LS_WARNING | LS_ERROR | LS_NONE

definition sev_num :: "LoggingSeverity \<Rightarrow> nat" where
  "sev_num s = (case s of LS_VERBOSE \<Rightarrow> 0 | LS_INFO \<Rightarrow> 1 | LS_WARNING \<Rightarrow> 2 | LS_ERROR \<Rightarrow> 3 | LS_NONE \<Rightarrow> 4)"

lemma sev_num_inj: "sev_num s = sev_num t \<longleftrightarrow> s = t"
  by (cases s; cases t) (simp_all add: sev_num_def)

instantiation LoggingSeverity :: linorder
begin

definition less_eq_LoggingSeverity :: "LoggingSeverity \<Rightarrow> LoggingSeverity \<Rightarrow> bool" where
  "less_eq_LoggingSeverity s t \<longleftrightarrow> sev_num s \<le> sev_num t"

definition less_LoggingSeverity :: "LoggingSeverity \<Rightarrow> LoggingSeverity \<Rightarrow> bool" where
  "less_LoggingSeverity s t \<longleftrightarrow> sev_num s < sev_num t"

instance
  by standard (auto simp: less_eq_LoggingSeverity_def less_LoggingSeverity_def sev_num_inj)

end

definition GetSeverityStr :: "LoggingSeverity \<Rightarrow> string" where
  "GetSeverityStr s = (case s of LS_VERBOSE \<Rightarrow> ''VERBOSE'' | LS_INFO \<Rightarrow> ''INFO'' | LS_WARNING \<Rightarrow> ''WARNING''
     | LS_ERROR \<Rightarrow> ''ERROR'' | LS_NONE \<Rightarrow> ''NONE'')"

section \<open>Global state\<close>

record log_state =
  g_min_sev :: LoggingSeverity
  g_dbg_sev :: LoggingSeverity
  log_stderr :: bool
  log_streams :: "(addr \<times> LoggingSeverity) list"
  streams_empty :: bool
  log_thread_ids :: bool
  log_timestamps :: bool
  log_path_prefix :: string

definition log_state_init :: log_state where
  "log_state_init = \<lparr>g_min_sev = LS_VERBOSE, g_dbg_sev = LS_VERBOSE, log_stderr = True, log_streams = [],
     streams_empty = True, log_thread_ids = False, log_timestamps = False, log_path_prefix = []\<rparr>"

definition UpdateMinLogSeverity :: "log_state \<Rightarrow> log_state" where
  "UpdateMinLogSeverity g = g\<lparr>g_min_sev := foldl (\<lambda>m s. min m (snd s)) (g_dbg_sev g) (log_streams g)\<rparr>"

definition LogThreads :: "bool \<Rightarrow> log_state \<Rightarrow> log_state" where
  "LogThreads on g = g\<lparr>log_thread_ids := on\<rparr>"

definition LogTimestamps :: "bool \<Rightarrow> log_state \<Rightarrow> log_state" where
  "LogTimestamps on g = g\<lparr>log_timestamps := on\<rparr>"

definition SetLogPathPrefix :: "string \<Rightarrow> log_state \<Rightarrow> log_state" where
  "SetLogPathPrefix prefix g = g\<lparr>log_path_prefix := prefix\<rparr>"

definition LogToDebug :: "LoggingSeverity \<Rightarrow> log_state \<Rightarrow> log_state" where
  "LogToDebug min_sev g = UpdateMinLogSeverity (g\<lparr>g_dbg_sev := min_sev\<rparr>)"

definition SetLogToStderr :: "bool \<Rightarrow> log_state \<Rightarrow> log_state" where
  "SetLogToStderr on g = g\<lparr>log_stderr := on\<rparr>"

text \<open>A null \<open>stream\<close> asks for all of them.\<close>

definition GetLogToStream :: "ptr \<Rightarrow> log_state \<Rightarrow> LoggingSeverity" where
  "GetLogToStream stream g =
     foldl (\<lambda>sev s. if stream = None \<or> stream = Some (fst s) then min sev (snd s) else sev) LS_NONE (log_streams g)"

text \<open>
  Adding a sink that is registered already links the list into a cycle, and the loop of
  \<^verbatim>\<open>UpdateMinLogSeverity\<close> does not end: \<open>None\<close>.
\<close>

definition AddLogToStream :: "addr \<Rightarrow> LoggingSeverity \<Rightarrow> log_state \<Rightarrow> log_state option" where
  "AddLogToStream stream min_sev g =
     (if stream \<in> fst ` set (log_streams g) then None
      else Some (UpdateMinLogSeverity (g\<lparr>log_streams := (stream, min_sev) # log_streams g, streams_empty := False\<rparr>)))"

fun unlink :: "addr \<Rightarrow> (addr \<times> LoggingSeverity) list \<Rightarrow> (addr \<times> LoggingSeverity) list" where
  "unlink stream [] = []"
| "unlink stream (s # ss) = (if fst s = stream then ss else s # unlink stream ss)"

definition RemoveLogToStream :: "addr \<Rightarrow> log_state \<Rightarrow> log_state" where
  "RemoveLogToStream stream g =
     (let ss = unlink stream (log_streams g)
      in UpdateMinLogSeverity (g\<lparr>log_streams := ss, streams_empty := (ss = [])\<rparr>))"

text \<open>One token of the parameter of \<^verbatim>\<open>ConfigureLogging\<close>; the levels are the current one and that of the debug output.\<close>

definition configure_token ::
    "LoggingSeverity \<times> LoggingSeverity \<times> log_state \<Rightarrow> string \<Rightarrow> LoggingSeverity \<times> LoggingSeverity \<times> log_state" where
  "configure_token st token =
     (case st of (current_level, debug_level, g) \<Rightarrow>
      if token = [] then (current_level, debug_level, g)
      else if token = ''tstamp'' then (current_level, debug_level, LogTimestamps True g)
      else if token = ''thread'' then (current_level, debug_level, LogThreads True g)
      else if token = ''verbose'' then (LS_VERBOSE, debug_level, g)
      else if token = ''info'' then (LS_INFO, debug_level, g)
      else if token = ''warning'' then (LS_WARNING, debug_level, g)
      else if token = ''error'' then (LS_ERROR, debug_level, g)
      else if token = ''none'' then (LS_NONE, debug_level, g)
      else if token = ''debug'' then (current_level, current_level, g)
      else (current_level, debug_level, g))"

definition ConfigureLogging :: "string \<Rightarrow> log_state \<Rightarrow> log_state" where
  "ConfigureLogging params g =
     (case foldl configure_token (LS_VERBOSE, g_dbg_sev g, g) (tokenize params (CHR '' '')) of
        (current_level, debug_level, g1) \<Rightarrow> LogToDebug debug_level g1)"

definition IsNoop :: "LoggingSeverity \<Rightarrow> log_state \<Rightarrow> bool" where
  "IsNoop severity g =
     (if severity \<ge> g_dbg_sev g \<or> severity \<ge> g_min_sev g then False else streams_empty g)"

section \<open>Log lines\<close>

text \<open>\<^verbatim>\<open>strrchr\<close> and \<^verbatim>\<open>strstr\<close> as the index that the returned pointer has.\<close>

fun strrchr_from :: "nat \<Rightarrow> char \<Rightarrow> string \<Rightarrow> nat option" where
  "strrchr_from i c [] = None"
| "strrchr_from i c (x # xs) =
     (case strrchr_from (Suc i) c xs of Some j \<Rightarrow> Some j | None \<Rightarrow> if x = c then Some i else None)"

fun strstr_from :: "nat \<Rightarrow> string \<Rightarrow> string \<Rightarrow> nat option" where
  "strstr_from i p [] = (if p = [] then Some i else None)"
| "strstr_from i p (x # xs) = (if take (length p) (x # xs) = p then Some i else strstr_from (Suc i) p xs)"

text \<open>The pointers are compared with a null pointer below all others.\<close>

definition FilenameFromPath :: "log_state \<Rightarrow> string \<Rightarrow> string" where
  "FilenameFromPath g file =
     (let end1 = (if log_path_prefix g \<noteq> [] then strstr_from 0 (log_path_prefix g) file else strrchr_from 0 (CHR ''/'') file);
          end2 = strrchr_from 0 (CHR 0x5C) file
      in case (end1, end2) of
           (None, None) \<Rightarrow> file
         | (Some i, None) \<Rightarrow> drop (i + 1) file
         | (None, Some j) \<Rightarrow> drop (j + 1) file
         | (Some i, Some j) \<Rightarrow> if i > j then drop (i + 1) file else drop (j + 1) file)"

text \<open>\<^verbatim>\<open>"%03" PRId64\<close> and the truncating division of C.\<close>

definition pad03 :: "int \<Rightarrow> string" where
  "pad03 n =
     (let ds = digits_of (nat \<bar>n\<bar>)
      in if n < 0 then CHR ''-'' # replicate (2 - length ds) (CHR ''0'') @ ds
         else replicate (3 - length ds) (CHR ''0'') @ ds)"

definition c_quot :: "int \<Rightarrow> int \<Rightarrow> int" where
  "c_quot a b = sgn a * sgn b * (\<bar>a\<bar> div \<bar>b\<bar>)"

definition c_rem :: "int \<Rightarrow> int \<Rightarrow> int" where
  "c_rem a b = a - c_quot a b * b"

text \<open>\<^verbatim>\<open>snprintf("%x")\<close> and \<^verbatim>\<open>"%08X"\<close> of an \<^verbatim>\<open>int\<close>.\<close>

fun hex_of :: "nat \<Rightarrow> string" where
  "hex_of n = (if n < 16 then [hex_encode_nibble n] else hex_of (n div 16) @ [hex_encode_nibble (n mod 16)])"

declare hex_of.simps [simp del]

definition ToHex :: "int \<Rightarrow> string" where
  "ToHex i = hex_of (nat (c_uint i))"

definition hex8 :: "int \<Rightarrow> string" where
  "hex8 i = (let ds = map to_upper (hex_of (nat (c_uint i))) in replicate (8 - length ds) (CHR ''0'') @ ds)"

datatype LogErrorContext = ERRCTX_NONE | ERRCTX_ERRNO | ERRCTX_HRESULT

text \<open>
  The beginning of a line and the text that follows it: \<open>time\<close> is \<^verbatim>\<open>TimeDiff(SystemTimeMillis(),
  LogStartTime())\<close>, \<open>tid\<close> the id of the thread and \<open>strerror\<close> the function of the C library.
\<close>

record log_message =
  lm_severity :: LoggingSeverity
  lm_text :: string
  lm_extra :: string

definition LogMessage_new ::
    "log_state \<Rightarrow> (int \<Rightarrow> string) \<Rightarrow> int \<Rightarrow> int \<Rightarrow> string option \<Rightarrow> int \<Rightarrow> LoggingSeverity \<Rightarrow> LogErrorContext \<Rightarrow> int \<Rightarrow> log_message" where
  "LogMessage_new g strerror time tid file line sev err_ctx err =
     \<lparr>lm_severity = sev,
      lm_text = GetSeverityStr sev @ '': '' @
        (if log_timestamps g then ''['' @ pad03 (c_quot time 1000) @ '':'' @ pad03 (c_rem time 1000) @ '']'' else []) @
        (if log_thread_ids g then ''['' @ to_string tid @ ''] '' else []) @
        (case file of None \<Rightarrow> [] | Some f \<Rightarrow> ''('' @ FilenameFromPath g f @ '':'' @ to_string line @ ''): ''),
      lm_extra = (if err_ctx = ERRCTX_NONE then []
        else ''[0x'' @ hex8 err @ '']'' @ (if err_ctx = ERRCTX_ERRNO then '' '' @ strerror err else []))\<rparr>"

text \<open>
  The arguments of \<^verbatim>\<open>Log\<close>: integers of all widths, floating point numbers with their printed form,
  C strings that may be null, strings, and pointers, which \<^verbatim>\<open>ToHex\<close> truncates to an \<^verbatim>\<open>int\<close>.
\<close>

datatype log_arg = kInteger int | kFloating string | kCharP "string option" | kStdString string | kVoidP nat

definition arg_text :: "log_arg \<Rightarrow> string" where
  "arg_text arg = (case arg of kInteger i \<Rightarrow> to_string i | kFloating s \<Rightarrow> s
     | kCharP s \<Rightarrow> (case s of None \<Rightarrow> ''(null)'' | Some s \<Rightarrow> s)
     | kStdString s \<Rightarrow> s | kVoidP p \<Rightarrow> ToHex (c_int (int p)))"

definition FinishPrintStream :: "log_message \<Rightarrow> string" where
  "FinishPrintStream m = lm_text m @ (if lm_extra m \<noteq> [] then '' : '' @ lm_extra m else []) @ [CHR 0x0A]"

text \<open>
  The destructor of a message: what goes to the standard error stream, and the sinks that are
  called, in order.
\<close>

definition OutputToDebug :: "log_state \<Rightarrow> string \<Rightarrow> string option" where
  "OutputToDebug g str = (if log_stderr g then Some str else None)"

definition LogMessage_finish :: "log_state \<Rightarrow> log_message \<Rightarrow> string option \<times> (addr \<times> string \<times> LoggingSeverity) list" where
  "LogMessage_finish g m =
     (let str = FinishPrintStream m
      in (if lm_severity m \<ge> g_dbg_sev g then OutputToDebug g str else None,
          map (\<lambda>s. (fst s, str, lm_severity m)) (filter (\<lambda>s. lm_severity m \<ge> snd s) (log_streams g))))"

definition Log ::
    "log_state \<Rightarrow> (int \<Rightarrow> string) \<Rightarrow> int \<Rightarrow> int \<Rightarrow> string option \<Rightarrow> int \<Rightarrow> LoggingSeverity \<Rightarrow> LogErrorContext \<Rightarrow> int \<Rightarrow> log_arg list \<Rightarrow>
     string option \<times> (addr \<times> string \<times> LoggingSeverity) list" where
  "Log g strerror time tid file line sev err_ctx err args =
     (let m = LogMessage_new g strerror time tid file line sev err_ctx err
      in LogMessage_finish g (m\<lparr>lm_text := lm_text m @ concat (map arg_text args)\<rparr>))"

section \<open>The configuration stays consistent\<close>

definition log_inv :: "log_state \<Rightarrow> bool" where
  "log_inv g \<longleftrightarrow> distinct (map fst (log_streams g)) \<and> (streams_empty g \<longleftrightarrow> log_streams g = [])"

definition min_sev_ok :: "log_state \<Rightarrow> bool" where
  "min_sev_ok g \<longleftrightarrow> g_min_sev g = Min (insert (g_dbg_sev g) (snd ` set (log_streams g)))"

inductive log_reachable :: "log_state \<Rightarrow> bool" where
  lr_init: "log_reachable log_state_init"
| lr_threads: "log_reachable g \<Longrightarrow> log_reachable (LogThreads on g)"
| lr_timestamps: "log_reachable g \<Longrightarrow> log_reachable (LogTimestamps on g)"
| lr_prefix: "log_reachable g \<Longrightarrow> log_reachable (SetLogPathPrefix p g)"
| lr_stderr: "log_reachable g \<Longrightarrow> log_reachable (SetLogToStderr on g)"
| lr_debug: "log_reachable g \<Longrightarrow> log_reachable (LogToDebug sev g)"
| lr_configure: "log_reachable g \<Longrightarrow> log_reachable (ConfigureLogging params g)"
| lr_add: "log_reachable g \<Longrightarrow> AddLogToStream s sev g = Some g1 \<Longrightarrow> log_reachable g1"
| lr_remove: "log_reachable g \<Longrightarrow> log_reachable (RemoveLogToStream s g)"

lemma foldl_min: "foldl (\<lambda>m s. min m (snd s)) (m :: 'a :: linorder) ss = Min (insert m (snd ` set ss))"
proof (induction ss arbitrary: m)
  case (Cons s ss)
  then show ?case by (cases "set ss = {}") (auto simp: insert_commute min.assoc)
qed simp

lemma update_min_ok: "min_sev_ok (UpdateMinLogSeverity g)" "log_inv (UpdateMinLogSeverity g) = log_inv g"
  by (simp_all add: min_sev_ok_def UpdateMinLogSeverity_def foldl_min log_inv_def)

lemma unlink_subset: "fst ` set (unlink s ss) \<subseteq> fst ` set ss"
  by (induction ss) auto

lemma unlink_distinct: "distinct (map fst ss) \<Longrightarrow> distinct (map fst (unlink s ss)) \<and> s \<notin> fst ` set (unlink s ss)"
proof (induction ss)
  case (Cons t ss)
  then show ?case using unlink_subset [of s ss] by auto
qed simp

text \<open>Tokens switch the two features on and choose levels, and nothing else.\<close>

lemma configure_tokens:
  assumes "foldl configure_token (c, d, g) ts = (c1, d1, g1)"
  shows "\<exists>t th. g1 = g\<lparr>log_timestamps := t, log_thread_ids := th\<rparr>"
  using assms
proof (induction ts arbitrary: c d g)
  case Nil
  then show ?case by (intro exI [of _ "log_timestamps g"] exI [of _ "log_thread_ids g"]) simp
next
  case (Cons t ts)
  obtain c' d' g' where t: "configure_token (c, d, g) t = (c', d', g')" by (metis prod_cases3)
  then have g': "g' = g\<lparr>log_timestamps := log_timestamps g', log_thread_ids := log_thread_ids g'\<rparr>"
    by (auto simp: configure_token_def LogTimestamps_def LogThreads_def split: if_splits)
  from Cons.IH [of c' d' g'] Cons.prems t obtain x y where "g1 = g'\<lparr>log_timestamps := x, log_thread_ids := y\<rparr>" by auto
  then show ?case by (subst (asm) g') auto
qed

lemma configure_keeps: "log_inv g \<Longrightarrow> log_inv (ConfigureLogging params g) \<and> min_sev_ok (ConfigureLogging params g)"
proof -
  assume inv: "log_inv g"
  obtain c d g1 where f: "foldl configure_token (LS_VERBOSE, g_dbg_sev g, g) (tokenize params (CHR '' '')) = (c, d, g1)"
    by (metis prod_cases3)
  from configure_tokens [OF f] inv have "log_inv g1" by (auto simp: log_inv_def)
  then show ?thesis by (simp add: ConfigureLogging_def f LogToDebug_def update_min_ok) (simp add: log_inv_def)
qed

lemma log_reachable_ok: "log_reachable g \<Longrightarrow> log_inv g \<and> min_sev_ok g"
proof (induction rule: log_reachable.induct)
  case lr_init
  show ?case by (simp add: log_inv_def min_sev_ok_def log_state_init_def)
next
  case (lr_add g s sev g1)
  then have new: "s \<notin> fst ` set (log_streams g)" "log_inv g"
    and g1: "g1 = UpdateMinLogSeverity (g\<lparr>log_streams := (s, sev) # log_streams g, streams_empty := False\<rparr>)"
    by (auto simp: AddLogToStream_def split: if_splits)
  from new show ?case unfolding g1 update_min_ok by (simp add: update_min_ok log_inv_def)
next
  case (lr_remove g s)
  then show ?case
    using unlink_distinct [of "log_streams g" s]
    by (simp add: RemoveLogToStream_def Let_def update_min_ok) (simp add: log_inv_def)
next
  case (lr_debug g sev)
  then show ?case by (simp add: LogToDebug_def update_min_ok) (simp add: log_inv_def)
next
  case (lr_configure g params)
  then show ?case by (simp add: configure_keeps)
qed (auto simp: log_inv_def min_sev_ok_def LogThreads_def LogTimestamps_def SetLogPathPrefix_def SetLogToStderr_def)

text \<open>
  Skipping a message loses nothing. Whatever sequence of configuration calls has been made, the
  minimal severity is the least of the debug severity and the severities of the registered sinks,
  each sink is registered once, and whenever \<^verbatim>\<open>IsNoop\<close> lets a caller skip a message, writing it
  would have reached neither the standard error stream nor any sink. Otherwise the message goes to
  exactly the sinks whose severity it reaches, once to each.
\<close>

lemma skipped_messages_reach_nobody:
  assumes "log_reachable g"
  shows "g_min_sev g = Min (insert (g_dbg_sev g) (snd ` set (log_streams g))) \<and>
    (IsNoop (lm_severity m) g \<longrightarrow> LogMessage_finish g m = (None, [])) \<and>
    distinct (map fst (snd (LogMessage_finish g m))) \<and>
    (\<forall>a. a \<in> fst ` set (snd (LogMessage_finish g m)) \<longleftrightarrow> (\<exists>sev \<le> lm_severity m. (a, sev) \<in> set (log_streams g)))"
proof -
  have ok: "log_inv g" "min_sev_ok g" using log_reachable_ok [OF assms] by auto
  have noop: "LogMessage_finish g m = (None, [])" if "IsNoop (lm_severity m) g"
    using that ok(1) by (simp add: IsNoop_def LogMessage_finish_def log_inv_def Let_def split: if_splits)
  have "map fst (snd (LogMessage_finish g m)) = map fst (filter (\<lambda>s. lm_severity m \<ge> snd s) (log_streams g))"
    by (simp add: LogMessage_finish_def Let_def)
  then have "distinct (map fst (snd (LogMessage_finish g m)))"
    using ok(1) by (simp add: log_inv_def distinct_map_filter)
  moreover have "a \<in> fst ` set (snd (LogMessage_finish g m)) \<longleftrightarrow> (\<exists>sev \<le> lm_severity m. (a, sev) \<in> set (log_streams g))" for a
    by (force simp: LogMessage_finish_def Let_def)
  ultimately show ?thesis using noop ok(2) by (simp add: min_sev_ok_def)
qed

end
