(* ===== verification/XrtcLog.thy ===== *)
theory XrtcLog
  imports Logging Sockets
begin

text \<open>
  \<^verbatim>\<open>base/log.{h,cpp}\<close>: the sink that writes the log of the server into two files. Any thread puts
  lines into one of two queues, and a thread of the log moves the queues into the files every 30
  milliseconds. The two locked sections of a round and the calls of other threads are the atomic
  steps of the model. The file system is a parameter.
\<close>

section \<open>State\<close>

record 'w fs =
  fs_mkdir :: "string \<Rightarrow> 'w \<Rightarrow> errno option \<times> 'w"
  fs_stat :: "string \<Rightarrow> 'w \<Rightarrow> bool \<times> 'w"
  fs_open :: "string \<Rightarrow> 'w \<Rightarrow> bool \<times> 'w"
  fs_close :: "string \<Rightarrow> 'w \<Rightarrow> 'w"
  fs_append :: "string \<Rightarrow> string \<Rightarrow> 'w \<Rightarrow> 'w"

record xrtc_log =
  lg_addr :: addr
  lg_dir :: string
  lg_name :: string
  lg_level :: string
  lg_file :: string
  lg_file_wf :: string
  lg_out_open :: bool
  lg_out_wf_open :: bool
  lg_queue :: "string list"
  lg_queue_wf :: "string list"
  lg_thread :: bool
  lg_running :: bool


section \<open>Operations\<close>

definition OnLogMessage :: "string \<Rightarrow> LoggingSeverity \<Rightarrow> xrtc_log \<Rightarrow> xrtc_log" where
  "OnLogMessage message severity lg =
     (if severity \<ge> LS_WARNING then lg\<lparr>lg_queue_wf := lg_queue_wf lg @ [message]\<rparr>
      else lg\<lparr>lg_queue := lg_queue lg @ [message]\<rparr>)"



definition log_start :: "xrtc_log \<Rightarrow> bool \<times> xrtc_log" where
  "log_start lg = (if lg_running lg then (False, lg) else (True, lg\<lparr>lg_running := True, lg_thread := True\<rparr>))"

interpretation logt: startable log_start lg_running
  by unfold_locales (simp_all add: log_start_def)

text \<open>
  The parts of a round of the thread: files that have been removed are opened again, then each
  queue is emptied into its file. A stream that is not open drops what is written to it.
\<close>

definition reopen :: "'w fs \<Rightarrow> string \<Rightarrow> bool \<Rightarrow> 'w \<Rightarrow> bool \<times> 'w" where
  "reopen fs file was_open w =
     (case fs_stat fs file w of (found, w1) \<Rightarrow>
      if found then (was_open, w1) else fs_open fs file (fs_close fs file w1))"

definition check_files :: "'w fs \<Rightarrow> xrtc_log \<Rightarrow> 'w \<Rightarrow> xrtc_log \<times> 'w" where
  "check_files fs lg w =
     (case reopen fs (lg_file lg) (lg_out_open lg) w of (o1, w1) \<Rightarrow>
      case reopen fs (lg_file_wf lg) (lg_out_wf_open lg) w1 of (o2, w2) \<Rightarrow>
        (lg\<lparr>lg_out_open := o1, lg_out_wf_open := o2\<rparr>, w2))"

definition stream_out :: "'w fs \<Rightarrow> string \<Rightarrow> bool \<Rightarrow> string list \<Rightarrow> 'w \<Rightarrow> 'w" where
  "stream_out fs file is_open ss w = (if ss \<noteq> [] \<and> is_open then fs_append fs file (concat ss) w else w)"

definition drain :: "'w fs \<Rightarrow> xrtc_log \<Rightarrow> 'w \<Rightarrow> xrtc_log \<times> 'w" where
  "drain fs lg w = (lg\<lparr>lg_queue := []\<rparr>, stream_out fs (lg_file lg) (lg_out_open lg) (lg_queue lg) w)"

definition drain_wf :: "'w fs \<Rightarrow> xrtc_log \<Rightarrow> 'w \<Rightarrow> xrtc_log \<times> 'w" where
  "drain_wf fs lg w = (lg\<lparr>lg_queue_wf := []\<rparr>, stream_out fs (lg_file_wf lg) (lg_out_wf_open lg) (lg_queue_wf lg) w)"

text \<open>
  \<^verbatim>\<open>stop\<close> clears the flag, waits for the thread to leave its loop and deletes it: the first and the
  last of these are steps of the caller, \<^verbatim>\<open>stop\<close> returns between them only when the thread is done.
\<close>

definition log_stop_request :: "xrtc_log \<Rightarrow> xrtc_log" where
  "log_stop_request lg = lg\<lparr>lg_running := False\<rparr>"

definition log_stop_joined :: "xrtc_log \<Rightarrow> xrtc_log" where
  "log_stop_joined lg = lg\<lparr>lg_thread := False\<rparr>"

definition XrtcLog_destroy :: "'w fs \<Rightarrow> xrtc_log \<Rightarrow> 'w \<Rightarrow> xrtc_log \<times> 'w" where
  "XrtcLog_destroy fs lg w =
     (lg\<lparr>lg_out_open := False, lg_out_wf_open := False\<rparr>, fs_close fs (lg_file_wf lg) (fs_close fs (lg_file lg) w))"

definition set_log_to_stderr :: "bool \<Rightarrow> log_state \<Rightarrow> log_state" where
  "set_log_to_stderr on g = SetLogToStderr on g"

section \<open>The thread and its users\<close>

text \<open>Where the thread of the log is: at the test of its loop, before either queue, or finished.\<close>

datatype log_pc = Test | Info_queue | Wf_queue | Finished

record 'w log_sys =
  y_log :: xrtc_log
  y_pc :: log_pc
  y_w :: 'w
  y_said :: "(string \<times> LoggingSeverity) list"

text \<open>\<open>y_said\<close> records, for the statements, every message that was handed to the sink.\<close>

inductive log_step :: "'w fs \<Rightarrow> 'w log_sys \<Rightarrow> 'w log_sys \<Rightarrow> bool" for fs where
  say: "log_step fs y (y\<lparr>y_log := OnLogMessage m s (y_log y), y_said := y_said y @ [(m, s)]\<rparr>)"
| test_go: "y_pc y = Test \<Longrightarrow> lg_running (y_log y) \<Longrightarrow> check_files fs (y_log y) (y_w y) = (lg, w) \<Longrightarrow>
    log_step fs y (y\<lparr>y_log := lg, y_pc := Info_queue, y_w := w\<rparr>)"
| test_end: "y_pc y = Test \<Longrightarrow> \<not> lg_running (y_log y) \<Longrightarrow> log_step fs y (y\<lparr>y_pc := Finished\<rparr>)"
| info: "y_pc y = Info_queue \<Longrightarrow> drain fs (y_log y) (y_w y) = (lg, w) \<Longrightarrow>
    log_step fs y (y\<lparr>y_log := lg, y_pc := Wf_queue, y_w := w\<rparr>)"
| wf: "y_pc y = Wf_queue \<Longrightarrow> drain_wf fs (y_log y) (y_w y) = (lg, w) \<Longrightarrow>
    log_step fs y (y\<lparr>y_log := lg, y_pc := Test, y_w := w\<rparr>)"
| request: "log_step fs y (y\<lparr>y_log := log_stop_request (y_log y)\<rparr>)"

inductive_cases log_stepE: "log_step fs y y1"

section \<open>Nothing is lost while the thread runs\<close>




















lemma log_files_kept: "log_step fs y y1 \<Longrightarrow> lg_file (y_log y1) = lg_file (y_log y) \<and> lg_file_wf (y_log y1) = lg_file_wf (y_log y)"
  by (erule log_stepE)
    (auto simp: OnLogMessage_def check_files_def drain_def drain_wf_def log_stop_request_def split: prod.splits if_splits)





lemma finished_stays:
  assumes "(log_step fs)\<^sup>*\<^sup>* y y1" and "y_pc y = Finished"
  shows "y_pc y1 = Finished \<and> y_w y1 = y_w y \<and> (\<exists>qs. lg_queue (y_log y1) = lg_queue (y_log y) @ qs)"
  using assms
proof (induction rule: rtranclp_induct)
  case (step z z1)
  from step(2) step(3) [OF step(4)] show ?case
    by (cases rule: log_step.cases) (auto simp: OnLogMessage_def log_stop_request_def)
qed simp

text \<open>
  Stopping the log loses lines. The thread leaves its loop at the test of the flag without
  emptying the queues, so lines logged since its last round, and all later ones, are never written:
  once the thread has finished, nothing that happens changes the files, and what is queued stays
  queued.
\<close>

lemma stopped_log_loses_lines:
  assumes "y_pc y = Test" and "\<not> lg_running (y_log y)" and "lg_queue (y_log y) = m # ms"
  shows "\<exists>y1. log_step fs y y1 \<and> y_pc y1 = Finished \<and>
    (\<forall>y2. (log_step fs)\<^sup>*\<^sup>* y1 y2 \<longrightarrow> y_w y2 = y_w y \<and> (\<exists>qs. lg_queue (y_log y2) = m # ms @ qs))"
proof (intro exI conjI)
  show "log_step fs y (y\<lparr>y_pc := Finished\<rparr>)" using assms(1,2) by (rule test_end)
qed (use finished_stays [where y = "y\<lparr>y_pc := Finished\<rparr>" and fs = fs] assms(3) in auto)

end
