(* ===== verification/ServerMain.thy ===== *)
theory ServerMain
  imports SignalingServer XrtcLog
begin

text \<open>
  \<^verbatim>\<open>base/conf.{h,cpp}\<close> and \<^verbatim>\<open>main.cpp\<close>: the configuration file and the start of the program. An
  exception that no handler catches ends the program; it is the outcome \<open>Throws\<close>. \<^verbatim>\<open>main\<close> ends
  by waiting for the thread of the signaling server, so the model of it ends with the state in
  which the threads run.
\<close>

section \<open>Configuration\<close>

record general_conf =
  gc_log_dir :: string
  gc_log_name :: string
  gc_log_level :: string
  gc_log_to_stderr :: bool
  gc_ice_min_port :: int
  gc_ice_max_port :: int







section \<open>The program\<close>

text \<open>The global variables of \<^verbatim>\<open>main.cpp\<close> with the objects they point to, and the state of the logging library.\<close>

record ('w, 'l) process =
  p_conf :: "general_conf option"
  p_log :: "xrtc_log option"
  p_ss :: "'l signaling_server option"
  p_rs :: "'l rtc_server option"
  p_rworkers :: "'l rworker heap"
  p_shared :: "('w, 'l) shared"
  p_logging :: log_state






definition SIGINT :: int where "SIGINT = 2"
definition SIGTERM :: int where "SIGTERM = 15"

definition process_siganl :: "('w, 'l, 'j) env \<Rightarrow> int \<Rightarrow> ('w, 'l) process \<Rightarrow> ('w, 'l) process option" where
  "process_siganl e sig p =
     (if sig = SIGINT \<or> sig = SIGTERM then
        do { ss \<leftarrow> p_ss p;
             Some (p\<lparr>p_shared := (p_shared p)\<lparr>sh_w := snd (ss_notify (e_os e) SS_QUIT ss (sh_w (p_shared p)))\<rparr>\<rparr>) }
      else Some p)"




section \<open>Lemmas\<close>

























end
