(* ===== verification/Pipeline.thy ===== *)
theory Pipeline
  imports RtcServer "HOL-Library.Sublist"
begin

text \<open>
  How requests travel: signaling workers submit messages to the RTC server (\<^verbatim>\<open>send_rtc_msg\<close>), the
  thread of the RTC server routes them (\<^verbatim>\<open>_process_rtc_msg\<close>) to the lock-free queue of a worker,
  and the worker takes them (\<^verbatim>\<open>_process_rtc_msg\<close>). The three operations are the steps of a system in
  which they occur in any order, with changes of the signaling workers and of the world by others
  in between; every request is served by the worker of its stream, in order, exactly once.
\<close>

section \<open>The system\<close>

text \<open>
  \<open>y_in\<close> and \<open>y_taken\<close> record, for the statements, the messages that were submitted and those that
  each worker has taken.
\<close>

record ('w, 'l) pipeline =
  y_rs :: "'l rtc_server"
  y_rws :: "'l rworker heap"
  y_sh :: "('w, 'l) shared"
  y_in :: "rtc_msg list"
  y_taken :: "addr \<Rightarrow> rtc_msg list"

text \<open>
  A new queue node lies outside the nodes in use. A step that the source leaves undefined has no
  successor here; a failed certificate generation, which drops the message, is \<open>lost\<close>.
\<close>

definition node_fresh :: "addr \<Rightarrow> 'l rworker heap \<Rightarrow> bool" where
  "node_fresh an rws \<longleftrightarrow> (\<forall>p rw. deref rws (Some p) = Some rw \<longrightarrow> an \<notin> live (q_nodes (rw_q_msg rw)))"

definition lost :: "('w, 'l, 'j) env \<Rightarrow> addr \<Rightarrow> ('w, 'l) pipeline \<Rightarrow> bool" where
  "lost e ac y \<longleftrightarrow> map_option fst (generate_and_check_certificate e ac (y_rs y) (y_sh y)) \<noteq> Some 0"

inductive pl_step :: "('w, 'l, 'j) env \<Rightarrow> ('w, 'l) pipeline \<Rightarrow> ('w, 'l) pipeline \<Rightarrow> bool" for e where
  submit: "rs_send_rtc_msg (e_os e) m (y_rs y) (sh_w (y_sh y)) = (r, rs1, w1) \<Longrightarrow>
    pl_step e y (y\<lparr>y_rs := rs1, y_sh := (y_sh y)\<lparr>sh_w := w1\<rparr>, y_in := y_in y @ [m]\<rparr>)"
| route: "rs_process_rtc_msg e ac an (y_rs y) (y_rws y) (y_sh y) = Some (rs1, rws1, sh1) \<Longrightarrow>
    node_fresh an (y_rws y) \<Longrightarrow> \<not> lost e ac y \<Longrightarrow>
    pl_step e y (y\<lparr>y_rs := rs1, y_rws := rws1, y_sh := sh1\<rparr>)"
| serve: "deref (y_rws y) (Some p) = Some rw \<Longrightarrow> p \<in> set (rs_workers (y_rs y)) \<Longrightarrow>
    rw_process_rtc_msg e a rw (y_sh y) = Some (rw1, sh1) \<Longrightarrow>
    pl_step e y (y\<lparr>y_rws := store p rw1 (y_rws y), y_sh := sh1,
      y_taken := (y_taken y)(p := y_taken y p @ take 1 (lfq_contents (rw_q_msg rw)))\<rparr>)"
| others: "pl_step e y (y\<lparr>y_sh := (y_sh y)\<lparr>sh_sworkers := sws, sh_w := w\<rparr>\<rparr>)"

section \<open>What each step does\<close>

definition worker_of :: "'l rtc_server \<Rightarrow> rtc_msg \<Rightarrow> addr" where
  "worker_of rs m = rs_workers rs ! stream_index (m_stream_name m) rs"

text \<open>A message without the certificate that the RTC server adds on its way.\<close>

definition as_sent :: "rtc_msg \<Rightarrow> rtc_msg" where
  "as_sent m = m\<lparr>m_certificate := None\<rparr>"

lemma as_sent_certificate [simp]: "as_sent (m\<lparr>m_certificate := c\<rparr>) = as_sent m"
  by (simp add: as_sent_def)

lemma worker_of_as_sent [simp]: "worker_of rs (as_sent m) = worker_of rs m"
  by (simp add: worker_of_def as_sent_def)

lemma worker_of_certificate [simp]: "worker_of rs (m\<lparr>m_certificate := c\<rparr>) = worker_of rs m"
  by (simp add: worker_of_def)

lemma worker_of_cong: "rs_workers rs1 = rs_workers rs \<Longrightarrow> worker_of rs1 = worker_of rs"
  by (simp add: worker_of_def stream_index_def fun_eq_iff)

lemma worker_of_ready: "rs_ready rs rws \<Longrightarrow> worker_of rs m \<in> set (rs_workers rs)"
  using rs_get_worker_ready(2) by (fastforce simp: worker_of_def)

lemma generate_and_check_shape:
  assumes "generate_and_check_certificate e ac rs sh = Some (r, rs1, sh1)"
  shows "\<exists>c. rs1 = rs\<lparr>rs_certificate := c\<rparr>"
proof -
  have "\<exists>c. rs = rs\<lparr>rs_certificate := c\<rparr>" by (rule exI [of _ "rs_certificate rs"]) simp
  with assms show ?thesis
    by (auto simp: generate_and_check_certificate_def split: bind_splits if_splits option.splits prod.splits)
qed

lemma rs_process_routes:
  assumes "rs_ready rs rws" and "rs_process_rtc_msg e ac an rs rws sh = Some (rs1, rws1, sh1)" and "node_fresh an rws"
    and "map_option fst (generate_and_check_certificate e ac rs sh) = Some 0"
  shows "\<exists>m ms c rw q. rs_q_msg rs = m # ms \<and> rs1 = rs\<lparr>rs_q_msg := ms, rs_certificate := c\<rparr> \<and>
    deref rws (Some (worker_of rs m)) = Some rw \<and> rws1 = store (worker_of rs m) (rw\<lparr>rw_q_msg := q\<rparr>) rws \<and>
    lfq_inv q \<and> lfq_contents q = lfq_contents (rw_q_msg rw) @ [m\<lparr>m_certificate := c\<rparr>]"
proof -
  obtain m ms where q: "rs_q_msg rs = m # ms"
    using assms(2) by (cases "rs_q_msg rs") (auto simp: rs_process_rtc_msg_def rs_pop_msg_def mq_pop_def)
  let ?rs = "rs\<lparr>rs_q_msg := ms\<rparr>"
  have "map_option (\<lambda>t. fst t) (generate_and_check_certificate e ac ?rs sh) =
      map_option fst (generate_and_check_certificate e ac rs sh)"
    by (auto simp: generate_and_check_certificate_def split: option.splits prod.splits bind_splits if_splits)
  then obtain rs2 sh2 where g: "generate_and_check_certificate e ac ?rs sh = Some (0, rs2, sh2)"
    using assms(4) by auto
  from generate_and_check_shape [OF g] obtain c where c: "rs2 = ?rs\<lparr>rs_certificate := c\<rparr>" by blast
  have ready: "rs_ready rs2 rws" using assms(1) c by (simp add: rs_ready_queue rs_ready_certificate)
  have w: "worker_of rs2 m = worker_of rs m" using c by (simp add: worker_of_def stream_index_def)
  have get: "rs_get_worker (m_stream_name m) rs2 = Some (Some (worker_of rs m))"
    using rs_get_worker_ready(1) [OF ready, of "m_stream_name m"] w by (simp add: worker_of_def)
  from worker_of_ready [OF assms(1), of m] assms(1) obtain rw where
    rw: "deref rws (Some (worker_of rs m)) = Some rw" "rw_inv rw" unfolding rs_ready_def by blast
  with assms(3) have "an \<notin> live (q_nodes (rw_q_msg rw))" by (simp add: node_fresh_def)
  from rw_send_queue [OF rw(2) this, of "e_os e" "m\<lparr>m_certificate := c\<rparr>" "sh_w sh2"] obtain r q1 w1 where
    s: "rw_send_rtc_msg (e_os e) an (m\<lparr>m_certificate := c\<rparr>) rw (sh_w sh2) = Some (r, rw\<lparr>rw_q_msg := q1\<rparr>, w1)"
      "lfq_inv q1" "lfq_contents q1 = lfq_contents (rw_q_msg rw) @ [m\<lparr>m_certificate := c\<rparr>]" by blast
  have "rs1 = rs2 \<and> rws1 = store (worker_of rs m) (rw\<lparr>rw_q_msg := q1\<rparr>) rws"
    using assms(2) g get rw(1) s(1) c by (simp add: rs_process_rtc_msg_def rs_pop_cons [OF q])
  with q c rw(1) s(2,3) show ?thesis by auto
qed

lemma create_push_stream_streams:
  assumes "create_push_stream noret rand certs a uid name audio video log_id cert mgr g w = Some (r, offer, mgr1, g1, w1)"
    and "sm_push_streams mgr = []"
  shows "sm_push_streams mgr1 = []"
  using assms by (auto simp: create_push_stream_def Let_def split: bind_splits option.splits)

lemma rw_process_takes:
  assumes "rw_inv rw" and "rw_process_rtc_msg e a rw sh = Some (rw1, sh1)"
  shows "rw_inv rw1 \<and> lfq_contents (rw_q_msg rw) = take 1 (lfq_contents (rw_q_msg rw)) @ lfq_contents (rw_q_msg rw1)"
proof (cases "lfq_contents (rw_q_msg rw)")
  case Nil
  then have "rw_pop_msg rw = Some (rw, None)"
    using lfq.deq_empty [of "rw_q_msg rw"] assms(1) by (simp add: rw_inv_def rw_pop_msg_def)
  with assms Nil show ?thesis by (simp add: rw_process_rtc_msg_def)
next
  case (Cons m ms)
  from rw_pop_first [OF assms(1) this] obtain q where
    q: "rw_pop_msg rw = Some (rw\<lparr>rw_q_msg := q\<rparr>, Some m)" "lfq_inv q" "lfq_contents q = ms" by blast
  have "rw_q_msg rw1 = q \<and> sm_push_streams (rw_stream_mgr rw1) = []"
    using assms q(1)
    by (auto simp: rw_process_rtc_msg_def rw_process_push_def rw_inv_def Let_def rw_process_pull_def rw_process_stop_push_def
        rw_process_stop_pull_def rw_process_answer_def dest!: create_push_stream_streams
        split: if_splits option.splits bind_splits prod.splits)
  with q(2,3) Cons show ?thesis by (simp add: rw_inv_def)
qed

section \<open>Every request is served once, in order, by the worker of its stream\<close>

text \<open>The part of a list of messages that is meant for worker \<open>p\<close>.\<close>

abbreviation share :: "'l rtc_server \<Rightarrow> addr \<Rightarrow> rtc_msg list \<Rightarrow> rtc_msg list" where
  "share rs p ms \<equiv> filter (\<lambda>m. worker_of rs m = p) (map as_sent ms)"

definition pl_inv :: "('w, 'l) pipeline \<Rightarrow> bool" where
  "pl_inv y \<longleftrightarrow> rs_ready (y_rs y) (y_rws y) \<and>
     (\<forall>p \<in> set (rs_workers (y_rs y)). \<forall>rw. deref (y_rws y) (Some p) = Some rw \<longrightarrow>
        share (y_rs y) p (y_in y) =
          map as_sent (y_taken y p) @ map as_sent (lfq_contents (rw_q_msg rw)) @ share (y_rs y) p (rs_q_msg (y_rs y)))"

lemma pl_step_submit:
  assumes "rs_send_rtc_msg os m rs w = (r, rs1, w1)"
  shows "rs1 = rs\<lparr>rs_q_msg := rs_q_msg rs @ [m]\<rparr>"
  using assms by (auto simp: rs_send_rtc_msg_def rs_push_msg_def mq_push_def Let_def split: prod.splits)

lemma pl_inv_step:
  assumes "pl_step e y y1" and "pl_inv y"
  shows "pl_inv y1 \<and> rs_workers (y_rs y1) = rs_workers (y_rs y)"
  using assms(1)
proof cases
  case (submit m r rs1 w1)
  have rs1: "rs1 = (y_rs y)\<lparr>rs_q_msg := rs_q_msg (y_rs y) @ [m]\<rparr>" by (rule pl_step_submit [OF submit(2)])
  then have "worker_of rs1 = worker_of (y_rs y)" by (intro worker_of_cong) simp
  with assms(2) rs1 submit(1) show ?thesis by (auto simp: pl_inv_def rs_ready_queue)
next
  case (route ac an rs1 rws1 sh1)
  have ready: "rs_ready (y_rs y) (y_rws y)" using assms(2) by (simp add: pl_inv_def)
  from rs_process_routes [OF ready route(2,3)] route(4) obtain m ms c rw q where
    r: "rs_q_msg (y_rs y) = m # ms" "rs1 = (y_rs y)\<lparr>rs_q_msg := ms, rs_certificate := c\<rparr>"
      "deref (y_rws y) (Some (worker_of (y_rs y) m)) = Some rw"
      "rws1 = store (worker_of (y_rs y) m) (rw\<lparr>rw_q_msg := q\<rparr>) (y_rws y)" "lfq_inv q"
      "lfq_contents q = lfq_contents (rw_q_msg rw) @ [m\<lparr>m_certificate := c\<rparr>]" by (auto simp: lost_def)
  have w: "worker_of rs1 = worker_of (y_rs y)" using r(2) by (intro worker_of_cong) simp
  have "rw_inv rw" using ready r(3) worker_of_ready [OF ready, of m] unfolding rs_ready_def by fastforce
  then have "rs_ready rs1 rws1"
    using ready r(2,4,5) by (auto simp: rs_ready_queue rs_ready_certificate rw_inv_def intro!: rs_ready_store)
  with assms(2) r w route(1) show ?thesis by (auto simp: pl_inv_def heap_simps)
next
  case (serve p rw a rw1 sh1)
  have ready: "rs_ready (y_rs y) (y_rws y)" using assms(2) by (simp add: pl_inv_def)
  with serve(2,3) have "rw_inv rw" unfolding rs_ready_def by fastforce
  note t = rw_process_takes [OF this serve(4)]
  have "rs_ready (y_rs y) (store p rw1 (y_rws y))" using ready t by (auto intro!: rs_ready_store)
  moreover have "map as_sent (lfq_contents (rw_q_msg rw)) =
      map as_sent (take 1 (lfq_contents (rw_q_msg rw))) @ map as_sent (lfq_contents (rw_q_msg rw1))"
    using t by (metis map_append)
  ultimately show ?thesis using assms(2) serve(1-3) by (auto simp: pl_inv_def heap_simps)
next
  case (others sws w)
  with assms(2) show ?thesis by (simp add: pl_inv_def)
qed

text \<open>A system in which nothing has been submitted.\<close>

definition pl_start :: "('w, 'l) pipeline \<Rightarrow> bool" where
  "pl_start y \<longleftrightarrow> rs_ready (y_rs y) (y_rws y) \<and> rs_q_msg (y_rs y) = [] \<and> y_in y = [] \<and> y_taken y = (\<lambda>_. []) \<and>
     (\<forall>p \<in> set (rs_workers (y_rs y)). map_option (\<lambda>rw. lfq_contents (rw_q_msg rw)) (deref (y_rws y) (Some p)) = Some [])"

interpretation pl: invariant_system pl_start "pl_step e" pl_inv for e
  by unfold_locales (auto simp: pl_start_def pl_inv_def dest: pl_inv_step)

definition of_stream :: "string \<Rightarrow> rtc_msg list \<Rightarrow> rtc_msg list" where
  "of_stream s ms = filter (\<lambda>m. m_stream_name m = s) (map as_sent ms)"

text \<open>
  C5. Requests are served in order by the worker of their stream. In every run of submissions, of
  routing by the RTC server's thread and of serving by its workers, in any order, the requests of
  a stream that its worker has taken are a prefix of those that were submitted for the stream: none
  is lost, repeated or overtaken, and no other worker takes one of them. Once the queues have
  drained, all of them have been taken.
\<close>

theorem requests_served_in_order:
  assumes "pl_start y0" and "(pl_step e)\<^sup>*\<^sup>* y0 y" and "p \<in> set (rs_workers (y_rs y))"
  shows "(if p = rs_workers (y_rs y) ! (unat (ComputeCrc32 s) mod length (rs_workers (y_rs y)))
      then prefix (of_stream s (y_taken y p)) (of_stream s (y_in y)) else of_stream s (y_taken y p) = []) \<and>
    (rs_q_msg (y_rs y) = [] \<and> map_option (\<lambda>rw. lfq_contents (rw_q_msg rw)) (deref (y_rws y) (Some p)) = Some [] \<longrightarrow>
      p = rs_workers (y_rs y) ! (unat (ComputeCrc32 s) mod length (rs_workers (y_rs y))) \<longrightarrow>
      of_stream s (y_taken y p) = of_stream s (y_in y))"
proof -
  let ?w = "rs_workers (y_rs y) ! (unat (ComputeCrc32 s) mod length (rs_workers (y_rs y)))"
  have inv: "pl_inv y" by (rule pl.always_holds [OF assms(1,2)])
  with assms(3) obtain rw where rw: "deref (y_rws y) (Some p) = Some rw" by (auto simp: pl_inv_def rs_ready_def)
  have eq: "share (y_rs y) p (y_in y) =
      map as_sent (y_taken y p) @ map as_sent (lfq_contents (rw_q_msg rw)) @ share (y_rs y) p (rs_q_msg (y_rs y))"
    using inv rw assms(3) by (simp add: pl_inv_def)
  have name: "worker_of (y_rs y) m = ?w" if "m_stream_name m = s" for m
    using that by (simp add: worker_of_def stream_index_def)
  have mine: "of_stream s (y_in y) = filter (\<lambda>m. m_stream_name m = s) (share (y_rs y) p (y_in y))" if "p = ?w"
    unfolding of_stream_def filter_filter using name that by (intro filter_cong) auto
  have "of_stream s (y_taken y p) = []" if "p \<noteq> ?w"
  proof -
    have "worker_of (y_rs y) m = p" if "m \<in> set (map as_sent (y_taken y p))" for m
      using arg_cong [OF eq, of set] that by auto
    with name that show ?thesis unfolding of_stream_def filter_empty_conv by blast
  qed
  moreover have "prefix (of_stream s (y_taken y p)) (of_stream s (y_in y))" if "p = ?w"
    unfolding mine [OF that] eq unfolding of_stream_def by (simp add: prefix_def)
  moreover have "of_stream s (y_taken y p) = of_stream s (y_in y)"
    if "rs_q_msg (y_rs y) = []" "lfq_contents (rw_q_msg rw) = []" "p = ?w"
    unfolding mine [OF that(3)] eq unfolding of_stream_def by (simp add: that)
  ultimately show ?thesis using rw by auto
qed

definition quiet :: "(unit, unit) pipeline" where
  "quiet = \<lparr>y_rs = sample_server\<lparr>rs_q_msg := []\<rparr>, y_rws = sample_rworkers, y_sh = sample_shared, y_in = [], y_taken = (\<lambda>_. [])\<rparr>"

definition pull :: rtc_msg where
  "pull = new_rtc_msg CMDNO_PULL ''room'' 1 1 42 9"

lemma quiet_start: "pl_start quiet"
  using sample_server_ready
  by (simp add: pl_start_def quiet_def rs_ready_queue sample_server_def sample_rworkers_def deref_def RtcWorker_new_def
      lfq_init_contents)

lemma quiet_run:
  "\<exists>y rw. (pl_step calm_env)\<^sup>*\<^sup>* quiet y \<and> y_in y = [pull] \<and> rs_q_msg (y_rs y) = [] \<and> rs_workers (y_rs y) = [7] \<and>
    deref (y_rws y) (Some 7) = Some rw \<and> lfq_contents (rw_q_msg rw) = []"
proof -
  let ?rs = "sample_server\<lparr>rs_q_msg := [pull]\<rparr>" let ?rw = "RtcWorker_new 7 20 () 0 \<lparr>ro_worker_num = 1\<rparr>"
  let ?y = "quiet\<lparr>y_rs := ?rs, y_sh := sample_shared, y_in := [pull]\<rparr>"
  have s: "rs_send_rtc_msg (e_os calm_env) pull (y_rs quiet) (sh_w (y_sh quiet)) = (0, ?rs, ())"
    by (simp add: rs_send_rtc_msg_def rs_push_msg_def mq_push_def quiet_def rs_notify_def notify_write_def calm_env_def
        length_le32)
  have 1: "pl_step calm_env quiet ?y"
    using pl_step.submit [OF s] by (simp add: quiet_def sample_shared_def)
  have h: "rs_certificate ?rs = Some 3" "deref (sh_certs sample_shared) (Some 3) = Some sample_certificate"
    "deref sample_rworkers (Some 7) = Some ?rw" "31 \<notin> live (q_nodes (rw_q_msg ?rw))" "lfq_contents (rw_q_msg ?rw) = []"
    "7 = rs_workers ?rs ! stream_index (m_stream_name pull) ?rs" "rs_q_msg ?rs = [pull]"
    by (simp_all add: sample_server_def sample_shared_def sample_rworkers_def deref_def RtcWorker_new_def
        lfq_init_def live_def lfq_init_contents [unfolded lfq_init_def] stream_index_def)
  have ready: "rs_ready ?rs sample_rworkers" using sample_server_ready by (simp add: rs_ready_queue)
  from rs_process_forwards [OF ready h(7,1,2) sample_certificate_valid h(6,3,4), of 30] obtain q where
    q: "rs_process_rtc_msg calm_env 30 31 ?rs sample_rworkers sample_shared =
      Some (sample_server\<lparr>rs_q_msg := []\<rparr>, store 7 (?rw\<lparr>rw_q_msg := q\<rparr>) sample_rworkers, sample_shared)"
    "lfq_inv q" "lfq_contents q = [pull\<lparr>m_certificate := Some 3\<rparr>]" using h(5) by (auto simp: sample_shared_def)
  let ?z = "?y\<lparr>y_rs := sample_server\<lparr>rs_q_msg := []\<rparr>, y_rws := store 7 (?rw\<lparr>rw_q_msg := q\<rparr>) sample_rworkers, y_sh := sample_shared\<rparr>"
  have 2: "pl_step calm_env ?y ?z"
  proof (rule pl_step.route)
    show "node_fresh 31 (y_rws ?y)"
      by (simp add: node_fresh_def quiet_def sample_rworkers_def deref_def RtcWorker_new_def lfq_init_def live_def)
    show "\<not> lost calm_env 30 ?y"
      using generate_and_check_keeps [OF h(1,2) sample_certificate_valid, of 30] by (simp add: lost_def)
  qed (use q(1) in \<open>simp add: quiet_def\<close>)
  have inv: "rw_inv (?rw\<lparr>rw_q_msg := q\<rparr>)" using q(2) RtcWorker_new_inv [of 7 20 "()" 0 "\<lparr>ro_worker_num = 1\<rparr>"] by (simp add: rw_inv_def)
  from rw_pop_first [OF inv, of "pull\<lparr>m_certificate := Some 3\<rparr>" "[]"] q(3) obtain q1 where
    q1: "rw_pop_msg (?rw\<lparr>rw_q_msg := q\<rparr>) = Some (?rw\<lparr>rw_q_msg := q1\<rparr>, Some (pull\<lparr>m_certificate := Some 3\<rparr>))"
      "lfq_contents q1 = []" by auto
  then have "rw_process_rtc_msg calm_env 40 (?rw\<lparr>rw_q_msg := q\<rparr>) sample_shared = Some (?rw\<lparr>rw_q_msg := q1\<rparr>, sample_shared)"
    by (simp add: rw_process_rtc_msg_def pull_def new_rtc_msg_def cmdnos rw_process_pull_def)
  note served = this
  obtain z where z: "z = ?z" by blast
  have f: "deref (y_rws z) (Some 7) = Some (?rw\<lparr>rw_q_msg := q\<rparr>)" "7 \<in> set (rs_workers (y_rs z))"
    "rw_process_rtc_msg calm_env 40 (?rw\<lparr>rw_q_msg := q\<rparr>) (y_sh z) = Some (?rw\<lparr>rw_q_msg := q1\<rparr>, sample_shared)"
    using served by (simp_all add: z heap_simps sample_server_def)
  note 3 = pl_step.serve [of z, OF f]
  have "(pl_step calm_env)\<^sup>*\<^sup>* quiet z" unfolding z using 1 2 by (meson converse_rtranclp_into_rtranclp rtranclp.rtrancl_refl)
  note run = rtranclp.rtrancl_into_rtrancl [OF this 3]
  show ?thesis
    by (rule exI, rule exI [of _ "?rw\<lparr>rw_q_msg := q1\<rparr>"], rule conjI, rule run) (simp add: heap_simps q1(2) z sample_server_def)
qed

theorem requests_served_in_order_witness:
  "\<exists>y. (pl_step calm_env)\<^sup>*\<^sup>* quiet y \<and> of_stream ''room'' (y_taken y 7) = [pull]"
proof -
  obtain y rw where y: "(pl_step calm_env)\<^sup>*\<^sup>* quiet y" "y_in y = [pull]" "rs_q_msg (y_rs y) = []" "rs_workers (y_rs y) = [7]"
    "deref (y_rws y) (Some 7) = Some rw" "lfq_contents (rw_q_msg rw) = []" using quiet_run by blast
  have "of_stream ''room'' (y_taken y 7) = [pull]"
    using requests_served_in_order [OF quiet_start y(1), of 7 "''room''"] y(2-6)
    by (simp add: of_stream_def pull_def new_rtc_msg_def as_sent_def)
  with y(1) show ?thesis by blast
qed

end
