(* ===== verification/PushRequest.thy ===== *)
theory PushRequest
  imports SignalingEvents Pipeline
begin








section \<open>A concrete run\<close>






end
