(* ===== verification/Notify.thy ===== *)
theory Notify
  imports Pipeline
begin

text \<open>
  The pipes through which threads wake each other. \<^verbatim>\<open>SignalingServerWorker\<close>, \<^verbatim>\<open>RtcWorker\<close> and
  \<^verbatim>\<open>RtcServer\<close> share one contract for \<^verbatim>\<open>notify\<close>, stated as a locale. The RTC server relies on it: its
  handler dereferences the message it pops before testing it for null, which is safe only because
  every notification in the pipe has a message in the queue.
\<close>

section \<open>Pipes\<close>

text \<open>
  The documented behaviour of a pipe with write end \<open>sfd\<close> and read end \<open>rfd\<close>, where \<open>pipe w\<close> are the
  bytes in it: a write of at most \<^verbatim>\<open>PIPE_BUF\<close> bytes is atomic, writes to other descriptors do not
  touch it, and a read takes the oldest bytes, as many as there are up to the number asked for.
\<close>

definition pipe_law :: "'w os \<Rightarrow> int \<Rightarrow> int \<Rightarrow> ('w \<Rightarrow> bytes) \<Rightarrow> bool" where
  "pipe_law os sfd rfd pipe \<longleftrightarrow>
     (\<forall>bs w n w1. length bs \<le> 4096 \<longrightarrow> sys_write os sfd bs w = (Inr n, w1) \<longrightarrow> n = length bs \<and> pipe w1 = pipe w @ bs) \<and>
     (\<forall>bs w x w1. sys_write os sfd bs w = (Inl x, w1) \<longrightarrow> pipe w1 = pipe w) \<and>
     (\<forall>fd bs w r w1. fd \<noteq> sfd \<longrightarrow> sys_write os fd bs w = (r, w1) \<longrightarrow> pipe w1 = pipe w) \<and>
     (\<forall>n w bs w1. sys_read os rfd n w = (Inr bs, w1) \<longrightarrow> bs = take (nat n) (pipe w) \<and> pipe w1 = drop (nat n) (pipe w)) \<and>
     (\<forall>n w x w1. sys_read os rfd n w = (Inl x, w1) \<longrightarrow> pipe w1 = pipe w)"

lemma pipe_lawD:
  assumes "pipe_law os sfd rfd pipe"
  shows "length bs \<le> 4096 \<Longrightarrow> sys_write os sfd bs w = (Inr n, w1) \<Longrightarrow> n = length bs \<and> pipe w1 = pipe w @ bs"
    and "sys_write os sfd bs w = (Inl x, w1) \<Longrightarrow> pipe w1 = pipe w"
    and "fd \<noteq> sfd \<Longrightarrow> sys_write os fd bs w = (r, w1) \<Longrightarrow> pipe w1 = pipe w"
    and "sys_read os rfd k w = (Inr bs, w1) \<Longrightarrow> bs = take (nat k) (pipe w) \<and> pipe w1 = drop (nat k) (pipe w)"
    and "sys_read os rfd k w = (Inl x, w1) \<Longrightarrow> pipe w1 = pipe w"
  using assms unfolding pipe_law_def by simp_all

definition note_bytes :: "int \<Rightarrow> bytes" where
  "note_bytes msg = le32 (word_of_int msg)"

lemma length_note_bytes [simp]: "length (note_bytes msg) = 4"
  by (simp add: note_bytes_def)

text \<open>The interface of an object that can be notified.\<close>

locale notifier =
  fixes notify :: "'w os \<Rightarrow> int \<Rightarrow> 'o \<Rightarrow> 'w \<Rightarrow> int \<times> 'w"
    and send_fd :: "'o \<Rightarrow> int"
  assumes notify_spec: "notify os msg ob w = (case notify_write os (send_fd ob) msg w of (ok, w1) \<Rightarrow> (if ok then 0 else - 1, w1))"
begin

lemma notify_own_pipe:
  assumes "pipe_law os (send_fd ob) rfd pipe" and "notify os msg ob w = (r, w1)"
  shows "r = 0 \<and> pipe w1 = pipe w @ note_bytes msg \<or> r = - 1 \<and> pipe w1 = pipe w"
proof (cases "sys_write os (send_fd ob) (note_bytes msg) w")
  case (Pair res w2)
  with assms(2) have w2: "w2 = w1" "r = (case res of Inl _ \<Rightarrow> - 1 | Inr n \<Rightarrow> if n = 4 then 0 else - 1)"
    by (auto simp: notify_spec notify_write_def note_bytes_def split: sum.splits if_splits)
  show ?thesis
  proof (cases res)
    case (Inl x)
    with pipe_lawD(2) [OF assms(1)] Pair w2 show ?thesis by auto
  next
    case (Inr n)
    have l: "length (note_bytes msg) \<le> 4096" by simp
    note pipe_lawD(1) [OF assms(1) l Pair [unfolded Inr]]
    with w2 Inr show ?thesis by simp
  qed
qed

lemma notify_other_pipe:
  assumes "pipe_law os sfd rfd pipe" and "send_fd ob \<noteq> sfd" and "notify os msg ob w = (r, w1)"
  shows "pipe w1 = pipe w"
proof (cases "sys_write os (send_fd ob) (note_bytes msg) w")
  case (Pair res w2)
  with assms(3) have "w2 = w1" by (auto simp: notify_spec notify_write_def note_bytes_def split: sum.splits)
  with pipe_lawD(3) [OF assms(1,2)] Pair show ?thesis by blast
qed

end

interpretation swn: notifier sw_notify sw_notify_send_fd
  by unfold_locales (simp add: sw_notify_def)




section \<open>The RTC server never pops from an empty queue\<close>

















end
