(* ===== verification/SdsText.thy ===== *)
theory SdsText
  imports Sds
begin

text \<open>
  The rest of \<^verbatim>\<open>rtc_base/sds.cc\<close>: cutting, comparing, formatting, splitting and quoting. A C string
  is the list of its bytes; the functions stop at the first zero byte, and reading at the end of
  the list gives the terminating zero. The strings that \<^verbatim>\<open>sdssplitlen\<close> and \<^verbatim>\<open>sdssplitargs\<close> build
  are given by their contents. The character classes are those of the C locale.
\<close>

section \<open>Strings from C strings\<close>

definition c_str :: "bytes \<Rightarrow> bytes" where
  "c_str bs = takeWhile (\<lambda>b. b \<noteq> 0) bs"

definition sdsnew :: "bytes option \<Rightarrow> sds" where
  "sdsnew init = sdsnewlen init (case init of None \<Rightarrow> 0 | Some bs \<Rightarrow> length (c_str bs))"

definition sdsdup :: "sds \<Rightarrow> sds" where
  "sdsdup s = sdsnewlen (Some (sds_bytes s)) (nat (sdslen s))"

text \<open>\<^verbatim>\<open>strlen\<close> reads up to the first zero cell of the buffer; without one it runs out of it.\<close>

definition sdsupdatelen :: "sds \<Rightarrow> sds option" where
  "sdsupdatelen s =
     (if Some 0 \<in> set (sds_buf s)
      then let reallen = c_int (int (length (takeWhile (\<lambda>b. b \<noteq> Some 0) (sds_buf s))))
        in Some (s\<lparr>sds_free := c_int (sds_free s + (sds_len s - reallen)), sds_len := reallen\<rparr>)
      else None)"

definition sdscat :: "sds \<Rightarrow> bytes \<Rightarrow> sds option" where
  "sdscat s t = sdscatlen s (c_str t)"

definition sdscatsds :: "sds \<Rightarrow> sds \<Rightarrow> sds option" where
  "sdscatsds s t = sdscatlen s (sds_bytes t)"

definition sdscpy :: "sds \<Rightarrow> bytes \<Rightarrow> sds option" where
  "sdscpy s t = sdscpylen s (c_str t)"

text \<open>
  \<^verbatim>\<open>sdscatvprintf\<close> doubles its buffer until the output fits: \<open>text\<close> is the complete output of the
  format, of which \<^verbatim>\<open>vsnprintf\<close> stores at most \<open>buflen - 1\<close> bytes and a zero, and the cell before the
  last one was zero before the call.
\<close>

function printf_buffer :: "nat \<Rightarrow> bytes \<Rightarrow> bytes" where
  "printf_buffer buflen text =
     (if buflen < 2 then []
      else if length text > buflen - 2 \<and> text ! (buflen - 2) \<noteq> 0 then printf_buffer (2 * buflen) text
      else take (buflen - 1) text @ [0])"
  by pat_completeness auto
termination
  by (relation "measure (\<lambda>(buflen, text). length text + 2 - buflen)") auto

declare printf_buffer.simps [simp del]

definition sdscatprintf :: "sds \<Rightarrow> bytes \<Rightarrow> sds option" where
  "sdscatprintf s text = sdscat s (printf_buffer 16 text)"

section \<open>Cutting\<close>

text \<open>
  The common end of \<^verbatim>\<open>sdstrim\<close> and \<^verbatim>\<open>sdsrange\<close>: \<open>n\<close> bytes from offset \<open>off\<close> move to the front, a zero
  follows them, and the rest of the space is free.
\<close>

definition sds_cut :: "nat \<Rightarrow> nat \<Rightarrow> sds \<Rightarrow> sds" where
  "sds_cut off n s = s\<lparr>sds_buf := (take n (drop off (sds_buf s)) @ drop n (sds_buf s))[n := Some 0],
     sds_free := c_int (sds_free s + (sds_len s - int n)), sds_len := c_int (int n)\<rparr>"

text \<open>\<^verbatim>\<open>strchr\<close> also finds the terminating zero.\<close>

definition in_cset :: "bytes \<Rightarrow> byte \<Rightarrow> bool" where
  "in_cset cset b \<longleftrightarrow> b \<in> set (c_str cset) \<or> b = 0"

fun trim_end :: "(byte \<Rightarrow> bool) \<Rightarrow> bytes \<Rightarrow> nat \<Rightarrow> nat" where
  "trim_end P b 0 = 0"
| "trim_end P b (Suc i) = (if P (b ! Suc i) then trim_end P b i else Suc i)"

definition sdstrim :: "sds \<Rightarrow> bytes \<Rightarrow> sds" where
  "sdstrim s cset =
     (let b = sds_bytes s; P = in_cset cset; sp = length (takeWhile P b)
      in if b = [] then sds_cut 0 0 s
         else let ep = trim_end P b (length b - 1)
           in sds_cut sp (if sp > ep then 0 else ep - sp + 1) s)"

text \<open>\<open>None\<close>: the difference of the indices overflows an \<^verbatim>\<open>int\<close>.\<close>

definition sdsrange :: "sds \<Rightarrow> int \<Rightarrow> int \<Rightarrow> sds option" where
  "sdsrange s start end0 =
     (let len = sdslen s;
          index = (\<lambda>i. if i < 0 then (let j = c_int (c_size (len + i)) in if j < 0 then 0 else j) else i);
          st = index start; en = index end0
      in if len = 0 then Some s
         else if st \<le> en \<and> en - st + 1 \<ge> 2 ^ 31 then None
         else let newlen = (if st > en then 0 else en - st + 1)
           in if newlen = 0 then Some (sds_cut 0 0 s)
              else if st \<ge> c_int len then Some (sds_cut (nat st) 0 s)
              else if en \<ge> c_int len then Some (sds_cut (nat st) (if st > len - 1 then 0 else nat (len - 1 - st + 1)) s)
              else Some (sds_cut (nat st) (nat newlen) s))"

section \<open>Characters\<close>

definition byte_tolower :: "byte \<Rightarrow> byte" where
  "byte_tolower b = (if 65 \<le> b \<and> b \<le> 90 then b + 32 else b)"

definition byte_toupper :: "byte \<Rightarrow> byte" where
  "byte_toupper b = (if 97 \<le> b \<and> b \<le> 122 then b - 32 else b)"

text \<open>The loops over the bytes in place.\<close>

definition map_bytes :: "(byte \<Rightarrow> byte) \<Rightarrow> sds \<Rightarrow> sds" where
  "map_bytes f s = (let l = nat (sdslen s)
     in s\<lparr>sds_buf := map (map_option f) (take l (sds_buf s)) @ drop l (sds_buf s)\<rparr>)"

definition sdstolower :: "sds \<Rightarrow> sds" where
  "sdstolower s = map_bytes byte_tolower s"

definition sdstoupper :: "sds \<Rightarrow> sds" where
  "sdstoupper s = map_bytes byte_toupper s"

fun subst_char :: "bytes \<Rightarrow> bytes \<Rightarrow> byte \<Rightarrow> byte" where
  "subst_char (f # fs) (t # ts) b = (if b = f then t else subst_char fs ts b)"
| "subst_char fs ts b = b"

definition sdsmapchars :: "sds \<Rightarrow> bytes \<Rightarrow> bytes \<Rightarrow> sds" where
  "sdsmapchars s from to = map_bytes (subst_char from to) s"

text \<open>Only the sign of what \<^verbatim>\<open>memcmp\<close> returns is specified.\<close>

fun memcmp :: "bytes \<Rightarrow> bytes \<Rightarrow> int" where
  "memcmp (a # as) (b # bs) = (if a < b then - 1 else if b < a then 1 else memcmp as bs)"
| "memcmp _ _ = 0"

definition sdscmp :: "sds \<Rightarrow> sds \<Rightarrow> int" where
  "sdscmp s1 s2 =
     (let l1 = sdslen s1; l2 = sdslen s2; minlen = nat (if l1 < l2 then l1 else l2);
          cmp = memcmp (take minlen (sds_bytes s1)) (take minlen (sds_bytes s2))
      in if cmp = 0 then c_int (c_size (l1 - l2)) else cmp)"

section \<open>Numbers\<close>

text \<open>The digits go into the buffer from its end; \<open>None\<close>: \<^verbatim>\<open>-value\<close> overflows.\<close>

function put_digits :: "nat \<Rightarrow> bytes \<Rightarrow> bytes" where
  "put_digits v acc = (let acc1 = of_nat (48 + v mod 10) # acc in if v div 10 = 0 then acc1 else put_digits (v div 10) acc1)"
  by pat_completeness auto
termination
  by (relation "measure fst") auto

declare put_digits.simps [simp del]

definition sdsfromlonglong :: "int \<Rightarrow> sds option" where
  "sdsfromlonglong value =
     (if value = - (2 ^ 63) then None
      else let ds = put_digits (nat \<bar>value\<bar>) []; p = (if value < 0 then 45 # ds else ds)
        in Some (sdsnewlen (Some p) (length p)))"

section \<open>Splitting\<close>

text \<open>
  The loop of \<^verbatim>\<open>sdssplitlen\<close>: \<open>tokens\<close> are the elements stored so far, \<open>acc\<close> the bytes from \<^verbatim>\<open>start\<close> to
  \<^verbatim>\<open>j\<close>, \<open>rest\<close> those from \<^verbatim>\<open>j\<close> on. Storing an element outside the \<open>slots\<close> of the array is \<open>None\<close>.
\<close>

definition grow_slots :: "nat \<Rightarrow> nat \<Rightarrow> nat" where
  "grow_slots slots elements = (if slots < elements + 2 then slots * 2 else slots)"

definition put_token :: "nat \<Rightarrow> bytes list \<Rightarrow> bytes \<Rightarrow> bytes list option" where
  "put_token slots tokens t = (if length tokens < slots then Some (tokens @ [t]) else None)"

function split_tokens :: "bytes \<Rightarrow> nat \<Rightarrow> bytes list \<Rightarrow> bytes \<Rightarrow> bytes \<Rightarrow> bytes list option" where
  "split_tokens sep slots tokens acc rest =
     (if sep = [] \<or> length rest < length sep then put_token slots tokens (acc @ rest)
      else let slots1 = grow_slots slots (length tokens)
        in if take (length sep) rest = sep
           then (case put_token slots1 tokens acc of
                   None \<Rightarrow> None
                 | Some ts \<Rightarrow> split_tokens sep slots1 ts [] (drop (length sep) rest))
           else split_tokens sep slots1 tokens (acc @ [hd rest]) (tl rest))"
  by pat_completeness auto
termination
  by (relation "measure (\<lambda>(sep, slots, tokens, acc, rest). length rest)")
    (auto simp: not_less length_greater_0_conv [symmetric] simp del: length_greater_0_conv)

declare split_tokens.simps [simp del]

definition sdssplitlen :: "bytes \<Rightarrow> bytes \<Rightarrow> bytes list option" where
  "sdssplitlen s sep =
     (if length sep < 1 then None else if s = [] then Some [] else split_tokens sep 5 [] [] s)"

section \<open>Quoting\<close>

definition is_print :: "byte \<Rightarrow> bool" where
  "is_print b \<longleftrightarrow> 32 \<le> b \<and> b \<le> 126"

definition is_space :: "byte \<Rightarrow> bool" where
  "is_space b \<longleftrightarrow> 9 \<le> b \<and> b \<le> 13 \<or> b = 32"

text \<open>The lower-case digits of \<^verbatim>\<open>"\\x%02x"\<close>.\<close>

definition hex_digit :: "nat \<Rightarrow> byte" where
  "hex_digit n = (if n < 10 then of_nat (48 + n) else of_nat (87 + n))"

text \<open>What one byte adds: a backslash and a letter, the byte itself, or its hexadecimal code.\<close>

definition repr_char :: "byte \<Rightarrow> bytes" where
  "repr_char b =
     (if b = 92 \<or> b = 34 then [92, b]
      else if b = 10 then [92, 110]
      else if b = 13 then [92, 114]
      else if b = 9 then [92, 116]
      else if b = 7 then [92, 97]
      else if b = 8 then [92, 98]
      else if is_print b then [b]
      else [92, 120, hex_digit (unat b div 16), hex_digit (unat b mod 16)])"

fun cat_all :: "sds \<Rightarrow> bytes list \<Rightarrow> sds option" where
  "cat_all s [] = Some s"
| "cat_all s (p # ps) = do { s1 \<leftarrow> sdscatlen s p; cat_all s1 ps }"

definition sdscatrepr :: "sds \<Rightarrow> bytes \<Rightarrow> sds option" where
  "sdscatrepr s p =
     do { s1 \<leftarrow> sdscatlen s [34];
          s2 \<leftarrow> cat_all s1 (map repr_char p);
          sdscatlen s2 [34] }"

section \<open>Arguments\<close>

definition is_hex_digit :: "byte \<Rightarrow> bool" where
  "is_hex_digit c \<longleftrightarrow> 48 \<le> c \<and> c \<le> 57 \<or> 97 \<le> c \<and> c \<le> 102 \<or> 65 \<le> c \<and> c \<le> 70"

definition hex_digit_to_int :: "byte \<Rightarrow> nat" where
  "hex_digit_to_int c =
     (if 48 \<le> c \<and> c \<le> 57 then unat c - 48
      else if 97 \<le> c \<and> c \<le> 102 then unat c - 87
      else if 65 \<le> c \<and> c \<le> 70 then unat c - 55 else 0)"

definition unescape :: "byte \<Rightarrow> byte" where
  "unescape c = (if c = 110 then 10 else if c = 114 then 13 else if c = 116 then 9 else if c = 98 then 8 else if c = 97 then 7 else c)"

text \<open>The byte of an escape \<^verbatim>\<open>\\x\<close> with two digits, where \<open>p\<close> follows the backslash.\<close>

definition hex_escape :: "bytes \<Rightarrow> byte option" where
  "hex_escape p =
     (case p of
        x # h # l # p3 \<Rightarrow>
          if x = 120 \<and> is_hex_digit h \<and> is_hex_digit l
          then Some (of_nat (hex_digit_to_int h * 16 + hex_digit_to_int l)) else None
      | _ \<Rightarrow> None)"

text \<open>A closing quote must be followed by a space or nothing at all.\<close>

definition closes :: "bytes \<Rightarrow> bool" where
  "closes rest \<longleftrightarrow> rest = [] \<or> is_space (hd rest)"

datatype quoting = Bare | Inq | Insq

text \<open>
  The inner loop: the token collected so far, then the bytes that \<^verbatim>\<open>p\<close> points to. The result is the
  token and where \<^verbatim>\<open>p\<close> points when it is done; \<open>None\<close> is the jump to \<^verbatim>\<open>err\<close>.
\<close>

fun token :: "quoting \<Rightarrow> bytes \<Rightarrow> bytes \<Rightarrow> (bytes \<times> bytes) option" where
  "token Bare cur [] = Some (cur, [])"
| "token Inq cur [] = None"
| "token Insq cur [] = None"
| "token Inq cur (c # p) =
     (if c = 92 \<and> hex_escape p \<noteq> None then token Inq (cur @ [the (hex_escape p)]) (drop 3 p)
      else if c = 92 \<and> p \<noteq> [] then token Inq (cur @ [unescape (hd p)]) (tl p)
      else if c = 34 then (if closes p then Some (cur, p) else None)
      else token Inq (cur @ [c]) p)"
| "token Insq cur (c # p) =
     (if c = 92 \<and> p \<noteq> [] \<and> hd p = 39 then token Insq (cur @ [39]) (tl p)
      else if c = 39 then (if closes p then Some (cur, p) else None)
      else token Insq (cur @ [c]) p)"
| "token Bare cur (c # p) =
     (if c \<in> {32, 10, 13, 9} then Some (cur, p)
      else if c = 34 then token Inq cur p
      else if c = 39 then token Insq cur p
      else token Bare (cur @ [c]) p)"

lemma token_shorter: "token q cur p = Some (t, r) \<Longrightarrow> length r \<le> length p \<and> (p \<noteq> [] \<longrightarrow> length r < length p)"
proof (induction q cur p rule: token.induct)
  case (4 cur c p)
  from 4(4) show ?case
    by (simp split: if_split_asm) (use 4(1-3) in fastforce)+
next
  case (5 cur c p)
  from 5(3) show ?case
    by (simp split: if_split_asm) (use 5(1-2) in fastforce)+
next
  case (6 cur c p)
  consider "c \<in> {32, 10, 13, 9}" | "c \<notin> {32, 10, 13, 9}" "c = 34" | "c \<notin> {32, 10, 13, 9}" "c \<noteq> 34" "c = 39"
    | "c \<notin> {32, 10, 13, 9}" "c \<noteq> 34" "c \<noteq> 39" by blast
  then show ?case
  proof cases
    case 1
    with 6(4) show ?thesis by auto
  next
    case 2
    with 6(1) [OF 2] 6(4) show ?thesis by simp
  next
    case 3
    with 6(2) [OF 3] 6(4) show ?thesis by simp
  next
    case 4
    with 6(3) [OF 4] 6(4) show ?thesis by simp
  qed
qed simp_all

function split_args :: "bytes \<Rightarrow> bytes list option" where
  "split_args p =
     (case dropWhile is_space p of
        [] \<Rightarrow> Some []
      | c # p1 \<Rightarrow>
          (case token Bare [] (c # p1) of
             None \<Rightarrow> None
           | Some (t, r) \<Rightarrow> map_option ((#) t) (split_args r)))"
  by pat_completeness auto
termination
proof (relation "measure length")
  fix p c p1 and tr :: "bytes \<times> bytes" and t r
  assume "dropWhile is_space p = c # p1" and "token Bare [] (c # p1) = Some tr" and "(t, r) = tr"
  then have "length r < length (dropWhile is_space p)" using token_shorter [of Bare "[]" "c # p1" t r] by simp
  also have "\<dots> \<le> length p" by (rule length_dropWhile_le)
  finally show "(r, p) \<in> measure length" by simp
qed simp

declare split_args.simps [simp del]

text \<open>
  A line without arguments gives the null pointer with \<^verbatim>\<open>*argc\<close> 0, an error the null pointer with
  \<^verbatim>\<open>*argc\<close> -1.
\<close>

definition sdssplitargs :: "bytes \<Rightarrow> bytes list option" where
  "sdssplitargs line = split_args (c_str line)"

section \<open>Lemmas on cutting\<close>

lemma sds_cut_ok:
  assumes ok: "sds_ok s" and fits: "off + n \<le> nat (sds_len s)"
  shows "sds_ok (sds_cut off n s)" and "sds_bytes (sds_cut off n s) = take n (drop off (sds_bytes s))"
proof -
  define b where "b = sds_buf s"
  define b1 where "b1 = take n (drop off b) @ drop n b"
  have l: "0 \<le> sds_len s" "0 \<le> sds_free s" "sds_len s + sds_free s < 2 ^ 31" "length b = nat (sds_len s + sds_free s) + 1"
    "None \<notin> set (take (nat (sds_len s)) b)" using ok by (auto simp: sds_ok_def b_def)
  then have bl: "nat (sds_len s) < length b" by (simp add: nat_add_distrib)
  with fits have len: "length (take n (drop off b)) = n" "length b1 = length b" by (simp_all add: b1_def)
  have c: "sds_cut off n s = s\<lparr>sds_buf := b1[n := Some 0], sds_free := sds_free s + (sds_len s - int n), sds_len := int n\<rparr>"
    using fits l by (simp add: sds_cut_def b_def b1_def c_int_id)
  have t: "take n (b1[n := Some 0]) = take n (drop off b)" using len by (simp add: b1_def)
  have sub: "set (take n (drop off b)) \<subseteq> set (take (nat (sds_len s)) b)"
  proof -
    have "take n (drop off b) = take n (drop off (take (nat (sds_len s)) b))" using fits by (simp add: drop_take min_absorb1)
    then show ?thesis by (metis set_drop_subset set_take_subset subset_trans)
  qed
  show "sds_ok (sds_cut off n s)"
    unfolding c sds_ok_def using l fits len t sub bl by (auto simp: nat_add_distrib)
  have "sds_bytes s = map the (take (nat (sds_len s)) b)" by (simp add: sds_bytes_def b_def)
  then have "take n (drop off (sds_bytes s)) = map the (take n (drop off b))"
    using fits by (simp add: take_map drop_map drop_take min_absorb1)
  with t show "sds_bytes (sds_cut off n s) = take n (drop off (sds_bytes s))" by (simp add: c sds_bytes_def)
qed

lemma trim_end_bounds: "trim_end P b i \<le> i"
  by (induction i) (auto simp: le_SucI)

lemma trim_end_rev:
  assumes "i < length b" and "\<exists>j \<le> i. \<not> P (b ! j)"
  shows "\<not> P (b ! trim_end P b i) \<and> rev (dropWhile P (rev (take (Suc i) b))) = take (Suc (trim_end P b i)) b"
  using assms
proof (induction i)
  case 0
  then show ?case by (cases b) auto
next
  case (Suc i)
  have r: "rev (take (Suc (Suc i)) b) = b ! Suc i # rev (take (Suc i) b)" using Suc.prems(1) by (simp add: take_Suc_conv_app_nth)
  show ?case
  proof (cases "P (b ! Suc i)")
    case True
    with Suc.prems have "\<exists>j \<le> i. \<not> P (b ! j)" by (metis le_SucE)
    with Suc True r show ?thesis by simp
  next
    case False
    with r Suc.prems(1) show ?thesis by (simp add: take_Suc_conv_app_nth)
  qed
qed

text \<open>\<^verbatim>\<open>sdstrim\<close> removes the characters of the set, and zero bytes, at both ends and nothing else.\<close>

lemma sdstrim_strips:
  assumes "sds_ok s"
  shows "sds_ok (sdstrim s cset) \<and>
    sds_bytes (sdstrim s cset) = rev (dropWhile (in_cset cset) (rev (dropWhile (in_cset cset) (sds_bytes s))))"
proof (cases "sds_bytes s = []")
  case True
  with sds_cut_ok [OF assms, of 0 0] show ?thesis by (simp add: sdstrim_def Let_def)
next
  case False
  let ?b = "sds_bytes s" let ?P = "in_cset cset" let ?sp = "length (takeWhile ?P ?b)" let ?ep = "trim_end ?P ?b (length ?b - 1)"
  have l: "length ?b = nat (sds_len s)" by (rule sds_ok_length [OF assms])
  have ep: "?ep < length ?b" using trim_end_bounds [of ?P ?b "length ?b - 1"] False by (simp add: Suc_le_eq le_diff_conv)
     (metis One_nat_def Suc_pred length_greater_0_conv less_Suc_eq_le)
  show ?thesis
  proof (cases "\<exists>j < length ?b. \<not> ?P (?b ! j)")
    case True
    then have nt: "takeWhile ?P ?b \<noteq> ?b" by (metis nth_mem takeWhile_eq_all_conv)
    then have "?sp \<noteq> length ?b" by (metis takeWhile_eq_take take_all order_refl)
    then have sp1: "?sp < length ?b" using length_takeWhile_le [of ?P ?b] by linarith
    then have sp: "?sp < length ?b" "\<not> ?P (?b ! ?sp)" using nth_length_takeWhile [OF sp1] by simp_all
    from True obtain j where j: "j < length ?b" "\<not> ?P (?b ! j)" by blast
    then have "\<exists>j \<le> length ?b - 1. \<not> ?P (?b ! j)" by (intro exI [of _ j]) simp
    from trim_end_rev [OF _ this] False have r: "\<not> ?P (?b ! ?ep)" "rev (dropWhile ?P (rev ?b)) = take (Suc ?ep) ?b" by simp_all
    have le: "?sp \<le> ?ep"
    proof (rule ccontr)
      assume "\<not> ?sp \<le> ?ep"
      then have "?b ! ?ep \<in> set (takeWhile ?P ?b)" by (metis in_set_conv_nth not_le takeWhile_nth)
      with r(1) show False by (auto dest: set_takeWhileD)
    qed
    have fits: "?sp + (?ep - ?sp + 1) \<le> nat (sds_len s)" using le ep l by simp
    have "dropWhile ?P ?b = drop ?sp ?b" by (rule dropWhile_eq_drop)
    moreover have "rev (dropWhile ?P (rev (drop ?sp ?b))) = drop ?sp (take (Suc ?ep) ?b)"
    proof -
      have b: "rev ?b = rev (drop ?sp ?b) @ rev (take ?sp ?b)" by (metis append_take_drop_id rev_append)
      have "?b ! ?sp \<in> set (rev (drop ?sp ?b))"
        using sp(1) by (metis Cons_nth_drop_Suc list.set_intros(1) set_rev)
      from dropWhile_append1 [OF this, of ?P] sp(2) have
        "rev (dropWhile ?P (rev ?b)) = take ?sp ?b @ rev (dropWhile ?P (rev (drop ?sp ?b)))" by (subst b) simp
      with r(2) sp(1) show ?thesis by (metis append_eq_conv_conj drop_take length_take less_imp_le_nat min_absorb2)
    qed
    moreover have "drop ?sp (take (Suc ?ep) ?b) = take (?ep - ?sp + 1) (drop ?sp ?b)" using le by (simp add: drop_take Suc_diff_le)
    ultimately show ?thesis using sds_cut_ok [OF assms fits] le False by (simp add: sdstrim_def Let_def)
  next
    case no: False
    then have all: "\<forall>x \<in> set ?b. ?P x" by (metis in_set_conv_nth)
    then have sp: "?sp = length ?b" and "dropWhile ?P ?b = []" by (simp_all add: takeWhile_eq_all_conv [THEN iffD2])
    then have "rev (dropWhile ?P (rev (dropWhile ?P ?b))) = []" by (simp only: dropWhile.simps rev.simps)
    with ep sp sds_cut_ok [OF assms, of "length ?b" 0] l False show ?thesis by (simp add: sdstrim_def Let_def)
  qed
qed

text \<open>\<^verbatim>\<open>sdsrange\<close> keeps the bytes between two indices, of which negative ones count from the end.\<close>

lemma c_int_c_size: "c_int (c_size x) = c_int x"
  by (simp add: c_int_def c_size_def signed_take_bit_take_bit)

definition range_index :: "int \<Rightarrow> int \<Rightarrow> int" where
  "range_index len i = (if i < 0 then max 0 (len + i) else i)"

lemma sdsrange_slice:
  assumes ok: "sds_ok s" and i: "- (2 ^ 31) \<le> i" "i < 2 ^ 31 - 1" and j: "- (2 ^ 31) \<le> j" "j < 2 ^ 31 - 1"
  defines "st \<equiv> range_index (sds_len s) i" and "en \<equiv> range_index (sds_len s) j"
  shows "\<exists>s1. sdsrange s i j = Some s1 \<and> sds_ok s1 \<and> sds_bytes s1 = take (nat (en - st + 1)) (drop (nat st) (sds_bytes s))"
proof -
  have l: "0 \<le> sds_len s" "sds_len s < 2 ^ 31" "sdslen s = sds_len s" "c_int (sds_len s) = sds_len s"
    "length (sds_bytes s) = nat (sds_len s)"
    using ok by (auto simp: sds_ok_def sds_ok_lens sds_ok_length intro!: c_int_id)
  have idx: "(if k < 0 then if c_int (c_size (sds_len s + k)) < 0 then 0 else c_int (c_size (sds_len s + k)) else k) =
      range_index (sds_len s) k"
    if "- (2 ^ 31) \<le> k" for k
  proof -
    have "c_int (c_size (sds_len s + k)) = sds_len s + k" if "k < 0"
      using that l \<open>- (2 ^ 31) \<le> k\<close> c_int_c_size [of "sds_len s + k"] by (simp add: c_int_id)
    then show ?thesis by (auto simp: range_index_def)
  qed
  have b: "0 \<le> st" "0 \<le> en" "st < 2 ^ 31 - 1" "en < 2 ^ 31 - 1"
    using i j l by (auto simp: st_def en_def range_index_def)
  have r: "sdsrange s i j = (if sds_len s = 0 then Some s
     else if st > en then Some (sds_cut 0 0 s)
     else if st \<ge> sds_len s then Some (sds_cut (nat st) 0 s)
     else if en \<ge> sds_len s then Some (sds_cut (nat st) (nat (sds_len s - st)) s)
     else Some (sds_cut (nat st) (nat (en - st + 1)) s))"
  proof -
    have n: "\<not> (st \<le> en \<and> en - st + 1 \<ge> 2 ^ 31)" "(if st > en then 0 else en - st + 1) = 0 \<longleftrightarrow> st > en" using b by auto
    have m: "st < sds_len s \<Longrightarrow> (if st > sds_len s - 1 then 0 else nat (sds_len s - 1 - st + 1)) = nat (sds_len s - st)" by simp
    show ?thesis
      unfolding sdsrange_def Let_def l(3) idx [OF i(1)] idx [OF j(1)] st_def [symmetric] en_def [symmetric] l(4) if_not_P [OF n(1)] n(2)
      using m by (simp add: not_le)
  qed
  show ?thesis
  proof (cases "sds_len s = 0 \<or> st > en \<or> st \<ge> sds_len s")
    case True
    have "sds_ok (sds_cut (nat st) 0 s) \<and> sds_bytes (sds_cut (nat st) 0 s) = []" if "st \<ge> sds_len s" "sds_len s \<noteq> 0" "st \<le> en"
      using ok b by (auto simp: sds_ok_def sds_cut_def sds_bytes_def c_int_id)
    with True r sds_cut_ok [OF ok, of 0 0] ok l b show ?thesis by (auto simp: nat_le_iff)
  next
    case False
    then have f: "nat st + nat (sds_len s - st) \<le> nat (sds_len s)" "en < sds_len s \<Longrightarrow> nat st + nat (en - st + 1) \<le> nat (sds_len s)"
      using b by auto
    from False r f(2) sds_cut_ok [OF ok f(1)] sds_cut_ok [OF ok f(2)] l b show ?thesis
      by (cases "en < sds_len s") (auto simp: take_all)
  qed
qed

section \<open>Lemmas on quoting\<close>

lemma sds_len_bytes: "sds_ok s \<Longrightarrow> sds_len s = int (length (sds_bytes s))"
  by (simp add: sds_ok_length) (simp add: sds_ok_def)

lemma cat_all_ok:
  assumes "sds_ok s" and "sds_len s + int (length (concat ps)) < 2 ^ 31 - SDS_MAX_PREALLOC"
  shows "\<exists>s1. cat_all s ps = Some s1 \<and> sds_ok s1 \<and> sds_bytes s1 = sds_bytes s @ concat ps"
  using assms
proof (induction ps arbitrary: s)
  case (Cons p ps)
  from sdscatlen_concatenates [OF Cons.prems(1), of p] Cons.prems(2) obtain s1 where
    s1: "sdscatlen s p = Some s1" "sds_ok s1" "sds_bytes s1 = sds_bytes s @ p" by auto
  have "sds_len s1 = sds_len s + int (length p)"
    using s1(3) by (simp add: sds_len_bytes [OF s1(2)] sds_len_bytes [OF Cons.prems(1)])
  with Cons.IH [OF s1(2)] Cons.prems(2) s1 show ?case by auto
qed simp

lemma hex_digit_back:
  assumes "n < 16"
  shows "is_hex_digit (hex_digit n)" "hex_digit_to_int (hex_digit n) = n" "hex_digit n \<noteq> 0"
proof -
  have all: "\<forall>n \<in> set [0..<16]. is_hex_digit (hex_digit n) \<and> hex_digit_to_int (hex_digit n) = n \<and> hex_digit n \<noteq> 0"
    by (simp add: upt_rec hex_digit_def is_hex_digit_def hex_digit_to_int_def)
  from assms have "n \<in> set [0..<16]" by simp
  with all show "is_hex_digit (hex_digit n)" "hex_digit_to_int (hex_digit n) = n" "hex_digit n \<noteq> 0" by blast+
qed

lemma hex_escape_back:
  "hex_escape (120 # hex_digit (unat b div 16) # hex_digit (unat b mod 16) # p) = Some b"
proof -
  have "unat b < 256" using unsigned_less [of b, where ?'a = nat] by simp
  then have d: "unat b div 16 < 16" "unat b mod 16 < 16" by simp_all
  have "of_nat (unat b div 16 * 16 + unat b mod 16) = b" by (simp add: div_mult_mod_eq)
  with hex_digit_back [OF d(1)] hex_digit_back [OF d(2)] show ?thesis by (simp add: hex_escape_def)
qed

text \<open>Inside quotes, the code of a byte is read back as the byte.\<close>

lemma token_repr_char: "token Inq cur (repr_char b @ p) = token Inq (cur @ [b]) p"
proof -
  have no_hex: "x \<noteq> 120 \<Longrightarrow> hex_escape (x # q) = None" for x q by (simp add: hex_escape_def split: list.split)
  consider "b = 92 \<or> b = 34" | "b \<in> {10, 13, 9, 7, 8}" | "b \<noteq> 92" "b \<noteq> 34" "b \<notin> {10, 13, 9, 7, 8}" "is_print b"
    | "b \<noteq> 92" "b \<noteq> 34" "b \<notin> {10, 13, 9, 7, 8}" "\<not> is_print b" by blast
  then show ?thesis
  proof cases
    case 1
    then show ?thesis by (elim disjE) (simp_all add: repr_char_def no_hex unescape_def)
  next
    case 2
    then have "b = 10 \<or> b = 13 \<or> b = 9 \<or> b = 7 \<or> b = 8" by simp
    then show ?thesis by (elim disjE) (simp_all add: repr_char_def no_hex unescape_def)
  next
    case 3
    then show ?thesis by (simp add: repr_char_def)
  next
    case 4
    then have r: "repr_char b = [92, 120, hex_digit (unat b div 16), hex_digit (unat b mod 16)]" by (simp add: repr_char_def)
    show ?thesis unfolding r by (simp add: hex_escape_back)
  qed
qed

lemma token_repr: "token Inq cur (concat (map repr_char bs) @ 34 # p) = (if closes p then Some (cur @ bs, p) else None)"
  by (induction bs arbitrary: cur) (simp_all add: token_repr_char)

lemma repr_char_nonzero: "0 \<notin> set (repr_char b)"
proof -
  have "unat b < 256" using unsigned_less [of b, where ?'a = nat] by simp
  then have "hex_digit (unat b div 16) \<noteq> 0" "hex_digit (unat b mod 16) \<noteq> 0" by (auto intro!: hex_digit_back(3))
  then show ?thesis by (auto simp: repr_char_def is_print_def)
qed

text \<open>A line of quoted strings, separated by single spaces.\<close>

definition quoted :: "bytes \<Rightarrow> bytes" where
  "quoted bs = 34 # concat (map repr_char bs) @ [34]"

fun quoted_line :: "bytes list \<Rightarrow> bytes" where
  "quoted_line [] = []"
| "quoted_line [b] = quoted b"
| "quoted_line (b # bs) = quoted b @ 32 # quoted_line bs"

lemma split_args_skip: "split_args (32 # p) = split_args p"
  by (subst (1 2) split_args.simps) (simp add: is_space_def)

lemma split_args_quoted: "closes p \<Longrightarrow> split_args (quoted b @ p) = map_option ((#) b) (split_args p)"
  by (subst split_args.simps) (simp add: quoted_def is_space_def token_repr)

lemma split_args_line: "split_args (quoted_line bs) = Some bs"
proof (induction bs rule: quoted_line.induct)
  case 1
  show ?case by (subst split_args.simps) simp
next
  case (2 b)
  show ?case using split_args_quoted [of "[]" b] by (simp add: closes_def split_args.simps [of "[]"])
next
  case (3 b c bs)
  have "closes (32 # quoted_line (c # bs))" by (simp add: closes_def is_space_def)
  from split_args_quoted [OF this, of b] 3 show ?case by (simp add: split_args_skip)
qed

lemma quoted_nonzero: "0 \<notin> set (quoted b)"
  using repr_char_nonzero by (auto simp: quoted_def)

lemma quoted_line_nonzero: "0 \<notin> set (quoted_line bs)"
  by (induction bs rule: quoted_line.induct) (simp_all add: quoted_nonzero)

lemma c_str_nonzero: "0 \<notin> set p \<Longrightarrow> c_str p = p"
  by (auto simp: c_str_def takeWhile_eq_all_conv)

lemma sdscatrepr_quoted:
  assumes "sds_ok s" and "sds_len s + int (length (quoted p)) < 2 ^ 31 - SDS_MAX_PREALLOC"
  shows "\<exists>s1. sdscatrepr s p = Some s1 \<and> sds_ok s1 \<and> sds_bytes s1 = sds_bytes s @ quoted p"
proof -
  have "cat_all s ([34] # map repr_char p @ [[34]]) = sdscatrepr s p"
  proof -
    have "cat_all t (qs @ [q]) = Option.bind (cat_all t qs) (\<lambda>u. sdscatlen u q)" for t qs q
      by (induction qs arbitrary: t) (auto split: bind_splits)
    then show ?thesis by (auto simp: sdscatrepr_def split: bind_splits)
  qed
  with cat_all_ok [OF assms(1), of "[34] # map repr_char p @ [[34]]"] assms(2) show ?thesis by (simp add: quoted_def)
qed

text \<open>
  C33. What \<^verbatim>\<open>sdscatrepr\<close> writes, \<^verbatim>\<open>sdssplitargs\<close> reads back, as its comment says: appending the quoted
  form of any bytes, zeros and quotes included, to a string succeeds, and a line of such forms is
  split into exactly the original byte strings.
\<close>

theorem repr_splitargs_roundtrip:
  assumes "sds_ok s" and "sds_bytes s = quoted_line bs" and "sds_len s + 4 * int (length b) + 3 < 2 ^ 31 - SDS_MAX_PREALLOC"
  shows "\<exists>s1 s2. sdscatlen s (if bs = [] then [] else [32]) = Some s1 \<and> sdscatrepr s1 b = Some s2 \<and> sds_ok s2 \<and>
    sds_bytes s2 = quoted_line (bs @ [b]) \<and> sdssplitargs (sds_bytes s2) = Some (bs @ [b])"
proof -
  let ?sp = "if bs = [] then [] else [32] :: bytes"
  have "length (repr_char c) \<le> 4" for c by (simp add: repr_char_def)
  then have "length (concat (map repr_char b)) \<le> 4 * length b" by (induction b) (auto intro: add_mono)
  then have q: "int (length (quoted b)) \<le> 4 * int (length b) + 2" by (simp add: quoted_def)
  have "sds_len s + int (length ?sp) < 2 ^ 31 - SDS_MAX_PREALLOC" using assms(3) by (simp split: if_split)
  from sdscatlen_concatenates [OF assms(1) this] obtain s1 where
    s1: "sdscatlen s ?sp = Some s1" "sds_ok s1" "sds_bytes s1 = sds_bytes s @ ?sp" by blast
  have "sds_len s1 \<le> sds_len s + 1"
    using s1(3) by (simp add: sds_len_bytes [OF s1(2)] sds_len_bytes [OF assms(1)])
  with q assms(3) have "sds_len s1 + int (length (quoted b)) < 2 ^ 31 - SDS_MAX_PREALLOC" by simp
  from sdscatrepr_quoted [OF s1(2) this] obtain s2 where
    s2: "sdscatrepr s1 b = Some s2" "sds_ok s2" "sds_bytes s2 = sds_bytes s1 @ quoted b" by blast
  have "quoted_line (cs @ [b]) = quoted_line cs @ (if cs = [] then [] else [32]) @ quoted b" for cs
    by (induction cs rule: quoted_line.induct) simp_all
  with s1(3) s2(3) assms(2) have line: "sds_bytes s2 = quoted_line (bs @ [b])" by simp
  then have "sdssplitargs (sds_bytes s2) = Some (bs @ [b])"
    by (simp add: sdssplitargs_def c_str_nonzero [OF quoted_line_nonzero] split_args_line)
  with s1(1) s2(1,2) line show ?thesis by blast
qed

theorem repr_splitargs_roundtrip_witness:
  "\<exists>s. sdscatrepr sdsempty [0, 34, 255] = Some s \<and> sdssplitargs (sds_bytes s) = Some [[0, 34, 255]]"
proof -
  have "sdscatlen sdsempty [] = Some sdsempty"
    by (simp add: sdscatlen_def sdsempty_def sdsnewlen_def sdslen_def sdsMakeRoomFor_def sdsavail_def write_at_def c_size_def c_int_def)
  moreover have "sds_len sdsempty = 0" by (simp add: sdsempty_def sdsnewlen_def c_int_def)
  ultimately show ?thesis
    using repr_splitargs_roundtrip [OF sdsempty_ok, of "[]" "[0, 34, 255]"] by (auto simp: sdsempty_bytes SDS_MAX_PREALLOC_def)
qed

section \<open>Lemmas on splitting\<close>

fun join_by :: "bytes \<Rightarrow> bytes list \<Rightarrow> bytes" where
  "join_by sep [] = []"
| "join_by sep [t] = t"
| "join_by sep (t # ts) = t @ sep @ join_by sep ts"

definition occurs_at :: "bytes \<Rightarrow> nat \<Rightarrow> bytes \<Rightarrow> bool" where
  "occurs_at sep i t \<longleftrightarrow> take (length sep) (drop i t) = sep"

lemma join_by_snoc: "join_by sep (ts @ [t]) = (if ts = [] then t else join_by sep ts @ sep @ t)"
  by (induction ts rule: join_by.induct[of _ sep]) auto

lemma occurs_at_prefix:
  assumes "occurs_at sep i t" and "sep \<noteq> []"
  shows "occurs_at sep i (t @ u)"
proof -
  have "length sep \<le> length (drop i t)" using assms unfolding occurs_at_def by (metis length_take min.cobounded1 min.commute)
  with assms show ?thesis by (simp add: occurs_at_def)
qed

lemma occurs_at_bound: "occurs_at sep i t \<Longrightarrow> sep \<noteq> [] \<Longrightarrow> i + length sep \<le> length t"
  unfolding occurs_at_def
  by (metis add.commute drop_eq_Nil length_drop length_take linorder_le_cases min.absorb_iff2 min.cobounded1 take_Nil le_diff_conv2)

text \<open>
  The loop stores every element inside the array, the elements joined by the separator are the
  input, and no element contains the separator.
\<close>

lemma split_tokens_spec:
  assumes "sep \<noteq> []" and "length tokens < slots" and "\<forall>i < length acc. \<not> occurs_at sep i (acc @ rest)"
    and "\<forall>t \<in> set tokens. \<forall>i. \<not> occurs_at sep i t"
  shows "\<exists>ts. split_tokens sep slots tokens acc rest = Some ts \<and> ts \<noteq> [] \<and> (\<forall>t \<in> set ts. \<forall>i. \<not> occurs_at sep i t) \<and>
    join_by sep ts = join_by sep (tokens @ [acc @ rest])"
  using assms
proof (induction sep slots tokens acc rest rule: split_tokens.induct)
  case (1 sep slots tokens acc rest)
  let ?slots = "grow_slots slots (length tokens)"
  have slots: "Suc (length tokens) < ?slots" using "1.prems"(2) by (auto simp: grow_slots_def)
  show ?case
  proof (cases "length rest < length sep")
    case True
    have "\<not> occurs_at sep i (acc @ rest)" for i
      using "1.prems"(1,3) occurs_at_bound [of sep i "acc @ rest"] True by (cases "i < length acc") auto
    with True "1.prems" show ?thesis by (subst split_tokens.simps) (auto simp: put_token_def)
  next
    case False
    show ?thesis
    proof (cases "take (length sep) rest = sep")
      case True
      have "\<not> occurs_at sep i acc" for i
        using "1.prems"(1,3) occurs_at_prefix [of sep i acc rest] occurs_at_bound [of sep i acc] length_greater_0_conv [of sep]
        by (cases "i < length acc") (auto simp del: length_greater_0_conv)
      then have "\<exists>ts. split_tokens sep ?slots (tokens @ [acc]) [] (drop (length sep) rest) = Some ts \<and> ts \<noteq> [] \<and>
          (\<forall>t \<in> set ts. \<forall>i. \<not> occurs_at sep i t) \<and> join_by sep ts = join_by sep ((tokens @ [acc]) @ [[] @ drop (length sep) rest])"
        using False True "1.prems" slots by (intro "1.IH"(1)) (auto simp: put_token_def)
      moreover have "join_by sep ((tokens @ [acc]) @ [drop (length sep) rest]) = join_by sep (tokens @ [acc @ rest])"
        using append_take_drop_id [of "length sep" rest] True by (simp only: join_by_snoc) auto
      moreover have "split_tokens sep slots tokens acc rest = split_tokens sep ?slots (tokens @ [acc]) [] (drop (length sep) rest)"
        using False True "1.prems"(1) slots by (subst split_tokens.simps) (simp add: Let_def put_token_def)
      ultimately show ?thesis by auto
    next
      case no: False
      from False "1.prems"(1) obtain b p where rest: "rest = b # p" by (cases rest) auto
      have "\<not> occurs_at sep i ((acc @ [b]) @ p)" if "i < length (acc @ [b])" for i
        using "1.prems"(3) no that rest by (cases "i < length acc") (auto simp: occurs_at_def less_Suc_eq)
      then have "\<exists>ts. split_tokens sep ?slots tokens (acc @ [hd rest]) (tl rest) = Some ts \<and> ts \<noteq> [] \<and>
          (\<forall>t \<in> set ts. \<forall>i. \<not> occurs_at sep i t) \<and> join_by sep ts = join_by sep (tokens @ [(acc @ [hd rest]) @ tl rest])"
        using False no "1.prems" slots rest by (intro "1.IH"(2)) auto
      moreover have "split_tokens sep slots tokens acc rest = split_tokens sep ?slots tokens (acc @ [hd rest]) (tl rest)"
        using False no "1.prems"(1) by (subst split_tokens.simps) (simp add: Let_def)
      ultimately show ?thesis using rest by simp
    qed
  qed
qed

text \<open>
  \<^verbatim>\<open>sdssplitlen\<close> splits at every separator and loses nothing: for a separator of any length the
  elements are stored inside the growing array, joining them with the separator gives the input
  back, and none of them contains the separator.
\<close>

lemma sdssplitlen_splits:
  assumes "sep \<noteq> []"
  shows "\<exists>ts. sdssplitlen s sep = Some ts \<and> join_by sep ts = s \<and> (s = [] \<longleftrightarrow> ts = []) \<and>
    (\<forall>t \<in> set ts. \<forall>i. take (length sep) (drop i t) \<noteq> sep)"
  using split_tokens_spec [OF assms, of "[]" 5 "[]" s] assms
  by (cases s) (auto simp: sdssplitlen_def occurs_at_def Suc_le_eq)

section \<open>Lemmas on numbers and comparison\<close>

lemma put_digits_acc: "put_digits v acc = map of_char (digits_of v) @ acc"
proof (induction v acc rule: put_digits.induct)
  case (1 v acc)
  have c: "of_char (char_of (48 + d :: nat)) = (of_nat (48 + d) :: byte)" if "d < 10" for d
  proof -
    have "of_char (char_of (48 + d) :: char) = (48 + d :: nat)" using that by (simp add: take_bit_nat_eq_self)
    then show ?thesis by (metis of_nat_of_char)
  qed
  show ?case
    by (cases "v div 10 = 0")
      (simp_all add: put_digits.simps [of v] digits_of.simps [of v] 1 c Let_def div_eq_0_iff)
qed

lemma length_digits_of: "n < 10 ^ Suc k \<Longrightarrow> length (digits_of n) \<le> Suc k"
proof (induction k arbitrary: n)
  case 0
  then show ?case by (simp add: digits_of.simps [of n])
next
  case (Suc k)
  then have "length (digits_of (n div 10)) \<le> Suc k" by (intro Suc.IH) (simp add: less_mult_imp_div_less mult.commute)
  then show ?case by (simp add: digits_of.simps [of n])
qed

text \<open>\<^verbatim>\<open>sdsfromlonglong\<close> prints the decimal text of every number but the smallest one.\<close>

lemma sdsfromlonglong_text:
  assumes "- (2 ^ 63) < v" and "v < 2 ^ 63"
  shows "\<exists>s. sdsfromlonglong v = Some s \<and> sds_ok s \<and> sds_bytes s = bytes_of (to_string v)"
proof -
  let ?p = "bytes_of (to_string v)"
  have "length (digits_of (nat \<bar>v\<bar>)) \<le> Suc 18" using assms by (intro length_digits_of) simp
  then have l: "length ?p < 2 ^ 31" by (auto simp: to_string_def)
  have "sdsfromlonglong v = Some (sdsnewlen (Some ?p) (length ?p))"
    using assms by (auto simp: sdsfromlonglong_def Let_def to_string_def bytes_of_def put_digits_acc)
  with sdsnewlen_ok [OF l, of ?p] show ?thesis by simp
qed

text \<open>\<^verbatim>\<open>sdscmp\<close> finds equal strings, and only those, equal.\<close>

lemma memcmp_zero: "length as = length bs \<Longrightarrow> memcmp as bs = 0 \<longleftrightarrow> as = bs"
  by (induction as bs rule: memcmp.induct) auto

lemma sdscmp_zero:
  assumes "sds_ok s" and "sds_ok t"
  shows "sdscmp s t = 0 \<longleftrightarrow> sds_bytes s = sds_bytes t"
proof -
  let ?n = "min (length (sds_bytes s)) (length (sds_bytes t))"
  have l: "sdslen s = int (length (sds_bytes s))" "sdslen t = int (length (sds_bytes t))"
    "int (length (sds_bytes s)) < 2 ^ 31" "int (length (sds_bytes t)) < 2 ^ 31"
    using assms sds_len_bytes [OF assms(1)] sds_len_bytes [OF assms(2)] by (auto simp: sds_ok_lens) (auto simp: sds_ok_def)
  have n: "nat (if sdslen s < sdslen t then sdslen s else sdslen t) = ?n" using l by auto
  have c: "c_int (c_size (sdslen s - sdslen t)) = sdslen s - sdslen t" using l by (simp add: c_int_c_size c_int_id)
  have z: "memcmp (take ?n (sds_bytes s)) (take ?n (sds_bytes t)) = 0 \<longleftrightarrow> take ?n (sds_bytes s) = take ?n (sds_bytes t)"
    by (rule memcmp_zero) simp
  show ?thesis unfolding sdscmp_def Let_def n c using z l by auto
qed

text \<open>The doubling of the buffer does not truncate: \<^verbatim>\<open>sdscatprintf\<close> appends the whole text.\<close>

lemma printf_buffer_text: "2 \<le> buflen \<Longrightarrow> c_str (printf_buffer buflen out) = c_str out"
proof (induction buflen out rule: printf_buffer.induct)
  case (1 buflen out)
  let ?more = "length out > buflen - 2 \<and> out ! (buflen - 2) \<noteq> 0"
  show ?case
  proof (cases ?more)
    case True
    with 1 show ?thesis by (simp add: printf_buffer.simps [of buflen])
  next
    case False
    have b: "printf_buffer buflen out = take (buflen - 1) out @ [0]"
      unfolding printf_buffer.simps [of buflen] if_not_P [OF False] using "1.prems" by simp
    show ?thesis
    proof (cases "length out \<le> buflen - 2")
      case True
      then have "take (buflen - 1) out = out" using "1.prems" by simp
      then show ?thesis by (auto simp: b c_str_def takeWhile_append takeWhile_eq_all_conv [THEN iffD2])
    next
      case beyond: False
      with False beyond "1.prems" have "out ! (buflen - 2) = 0" "buflen - 2 < length out" "buflen - 2 < buflen - 1" by auto
      then have z: "0 \<in> set (take (buflen - 1) out)" by (metis in_set_conv_nth length_take min_less_iff_conj nth_take)
      have "c_str (take (buflen - 1) out @ ys) = c_str (take (buflen - 1) out)" for ys
        using takeWhile_append1 [OF z, of "\<lambda>b. b \<noteq> 0"] by (simp add: c_str_def)
      from this [of "[0]"] this [of "drop (buflen - 1) out"] show ?thesis by (simp add: b)
    qed
  qed
qed

lemma sdscatprintf_appends: "sdscatprintf s out = sdscat s out"
  by (simp add: sdscatprintf_def sdscat_def printf_buffer_text)

end
