(* ===== verification/Base64.thy ===== *)
theory Base64
  imports XrtcPrelude
begin

text \<open>
  \<^verbatim>\<open>rtc_base/third_party/base64/base64.cc\<close>: the base64 codec behind the PEM form of certificates and
  keys. The encoder is the loop over the input index; the decoder reads one quantum of up to four
  digits at a time, under flags that say which other characters it skips, whether padding is
  required and where the text may end. Text is a string, data is a list of bytes, positions are
  natural numbers (\<^verbatim>\<open>size_t\<close>; they never exceed the length of the text).
\<close>

section \<open>Tables and flags\<close>

definition kPad :: char where "kPad = CHR ''=''"
definition b64_pd :: byte where "b64_pd = 0xFD"
definition b64_sp :: byte where "b64_sp = 0xFE"
definition b64_il :: byte where "b64_il = 0xFF"

definition Base64Table :: string where
  "Base64Table = ''ABCDEFGHIJKLMNOPQRSTUVWXYZabcdefghijklmnopqrstuvwxyz0123456789+/''"

definition DecodeTable :: bytes where
  "DecodeTable =
     replicate 9 b64_il @ replicate 5 b64_sp @ replicate 18 b64_il @ [b64_sp] @
     replicate 10 b64_il @ [62] @ replicate 3 b64_il @ [63] @ map word_of_nat [52..<62] @
     replicate 3 b64_il @ [b64_pd] @ replicate 3 b64_il @ map word_of_nat [0..<26] @
     replicate 6 b64_il @ map word_of_nat [26..<52] @ replicate 133 b64_il"

type_synonym decode_flags = nat

definition DO_PARSE_STRICT :: decode_flags where "DO_PARSE_STRICT = 1"
definition DO_PARSE_WHITE :: decode_flags where "DO_PARSE_WHITE = 2"
definition DO_PARSE_ANY :: decode_flags where "DO_PARSE_ANY = 3"
definition DO_PARSE_MASK :: decode_flags where "DO_PARSE_MASK = 3"
definition DO_PAD_YES :: decode_flags where "DO_PAD_YES = 4"
definition DO_PAD_ANY :: decode_flags where "DO_PAD_ANY = 8"
definition DO_PAD_NO :: decode_flags where "DO_PAD_NO = 12"
definition DO_PAD_MASK :: decode_flags where "DO_PAD_MASK = 12"
definition DO_TERM_BUFFER :: decode_flags where "DO_TERM_BUFFER = 16"
definition DO_TERM_CHAR :: decode_flags where "DO_TERM_CHAR = 32"
definition DO_TERM_ANY :: decode_flags where "DO_TERM_ANY = 48"
definition DO_TERM_MASK :: decode_flags where "DO_TERM_MASK = 48"
definition DO_STRICT :: decode_flags where
  "DO_STRICT = DO_PARSE_STRICT OR DO_PAD_YES OR DO_TERM_BUFFER"
definition DO_LAX :: decode_flags where
  "DO_LAX = DO_PARSE_ANY OR DO_PAD_ANY OR DO_TERM_CHAR"

lemmas b64_flag_defs =
  DO_PARSE_STRICT_def DO_PARSE_WHITE_def DO_PARSE_ANY_def DO_PARSE_MASK_def
  DO_PAD_YES_def DO_PAD_ANY_def DO_PAD_NO_def DO_PAD_MASK_def
  DO_TERM_BUFFER_def DO_TERM_CHAR_def DO_TERM_ANY_def DO_TERM_MASK_def DO_STRICT_def DO_LAX_def

section \<open>Operations\<close>

definition IsBase64Char :: "char \<Rightarrow> bool" where
  "IsBase64Char ch \<longleftrightarrow>
     (let c = of_char ch :: nat in
      65 \<le> c \<and> c \<le> 90 \<or> 97 \<le> c \<and> c \<le> 122 \<or> 48 \<le> c \<and> c \<le> 57 \<or> ch = CHR ''+'' \<or> ch = CHR ''/'')"

text \<open>
  \<^verbatim>\<open>strchr\<close> also finds the terminator of the table, so for \<^verbatim>\<open>ch == 0\<close> the code reads the character
  after it: that read is out of bounds and the outcome is \<open>None\<close>; \<open>Some None\<close> is the result false.
\<close>

definition GetNextBase64Char :: "char \<Rightarrow> char option option" where
  "GetNextBase64Char ch =
     (if ch = CHR 0x00 then None
      else Some (let n = length (takeWhile (\<lambda>x. x \<noteq> ch) Base64Table) in
        if n = length Base64Table then None
        else if n + 1 < length Base64Table then Some (Base64Table ! (n + 1))
        else Some (Base64Table ! 0)))"

definition IsBase64Encoded :: "string \<Rightarrow> bool" where
  "IsBase64Encoded str = list_all IsBase64Char str"

function encode_loop :: "bytes \<Rightarrow> nat \<Rightarrow> string" where
  "encode_loop d i =
     (if i < length d then
        let len = length d;
            q1 = Base64Table ! unat (drop_bit 2 (d ! i) AND 0x3F);
            c = push_bit 4 (d ! i) AND 0x3F;
            i1 = i + 1;
            c = (if i1 < len then c OR (drop_bit 4 (d ! i1) AND 0x0F) else c);
            q2 = Base64Table ! unat c;
            (q3, i2) =
              (if i1 < len then
                 let c = push_bit 2 (d ! i1) AND 0x3F;
                     i2 = i1 + 1;
                     c = (if i2 < len then c OR (drop_bit 6 (d ! i2) AND 0x03) else c)
                 in (Base64Table ! unat c, i2)
               else (kPad, i1));
            (q4, i3) =
              (if i2 < len then (Base64Table ! unat (d ! i2 AND 0x3F), i2 + 1) else (kPad, i2))
        in [q1, q2, q3, q4] @ encode_loop d i3
      else [])"
  by pat_completeness auto
termination
  by (relation "measure (\<lambda>(d, i). length d - i)") (auto simp: Let_def split: if_splits)

declare encode_loop.simps [simp del]

definition EncodeFromArray :: "bytes \<Rightarrow> string" where
  "EncodeFromArray d = encode_loop d 0"

text \<open>
  The body of the loop of \<^verbatim>\<open>GetNextQuantum\<close> on the table value of the character at \<^verbatim>\<open>*dpos\<close>: the new
  \<^verbatim>\<open>byte_len\<close>, \<^verbatim>\<open>pad_len\<close> and \<^verbatim>\<open>pad_start\<close>, or \<open>None\<close> for a \<^verbatim>\<open>break\<close>.
\<close>

definition quantum_step ::
  "decode_flags \<Rightarrow> bool \<Rightarrow> byte \<Rightarrow> nat \<Rightarrow> nat \<Rightarrow> nat \<Rightarrow> nat \<Rightarrow> (nat \<times> nat \<times> nat) option" where
  "quantum_step pf ip v dpos bl pl ps =
     (if v = b64_il \<or> ip \<and> v = b64_pd then
        if pf \<noteq> DO_PARSE_ANY then None else Some (bl, pl, ps)
      else if v = b64_sp then
        if pf = DO_PARSE_STRICT then None else Some (bl, pl, ps)
      else if v = b64_pd then
        if bl < 2 then
          if pf \<noteq> DO_PARSE_ANY then None else Some (bl, pl, ps)
        else if bl + pl \<ge> 4 then
          if pf \<noteq> DO_PARSE_ANY then None else Some (bl, pl, ps)
        else Some (bl, pl + 1, if pl + 1 = 1 then dpos else ps)
      else if pl > 0 \<and> pf \<noteq> DO_PARSE_ANY then None
      else Some (bl + 1, 0, ps))"

text \<open>
  The loop, on the characters from \<^verbatim>\<open>*dpos\<close> on. It returns \<^verbatim>\<open>*dpos\<close>, \<^verbatim>\<open>byte_len\<close>, \<^verbatim>\<open>pad_len\<close>,
  \<^verbatim>\<open>pad_start\<close> and \<^verbatim>\<open>qbuf\<close> as they are when it ends. \<open>q\<close> is \<^verbatim>\<open>qbuf\<close> up to \<^verbatim>\<open>byte_len\<close>: what the code
  stores at \<^verbatim>\<open>byte_len\<close> itself for a character that is not a digit is overwritten, by the next
  character or by the zeros after the loop.
\<close>

fun quantum_loop ::
  "decode_flags \<Rightarrow> bool \<Rightarrow> string \<Rightarrow> nat \<Rightarrow> nat \<Rightarrow> nat \<Rightarrow> nat \<Rightarrow> bytes \<Rightarrow> nat \<times> nat \<times> nat \<times> nat \<times> bytes" where
  "quantum_loop pf ip [] dpos bl pl ps q = (dpos, bl, pl, ps, q)"
| "quantum_loop pf ip (ch # rest) dpos bl pl ps q =
     (if bl < 4 then
        let v = DecodeTable ! of_char ch in
        case quantum_step pf ip v dpos bl pl ps of
          None \<Rightarrow> (dpos, bl, pl, ps, q)
        | Some (bl', pl', ps') \<Rightarrow>
            quantum_loop pf ip rest (dpos + 1) bl' pl' ps' (if bl' = bl then q else q @ [v])
      else (dpos, bl, pl, ps, q))"

text \<open>The result: the number of digits, the new position, the digits and \<^verbatim>\<open>*padded\<close>.\<close>

definition GetNextQuantum ::
  "decode_flags \<Rightarrow> bool \<Rightarrow> string \<Rightarrow> nat \<Rightarrow> nat \<times> nat \<times> bytes \<times> bool" where
  "GetNextQuantum pf ip data dpos =
     (let (dpos, bl, pl, ps, q) = quantum_loop pf ip (drop dpos data) dpos 0 0 0 [];
          q = q @ replicate (4 - bl) 0
      in if bl + pl = 4 then (bl, dpos, q, True)
         else (bl, if pl \<noteq> 0 then ps else dpos, q, False))"

lemma quantum_step_cases:
  assumes "quantum_step pf ip v dpos bl pl ps = Some (bl', pl', ps')" "bl < 4"
  shows "bl' = bl + 1 \<and> pl' = 0 \<or> bl' = bl"
  using assms by (auto simp: quantum_step_def split: if_splits)

lemma quantum_loop_advances:
  assumes "quantum_loop pf ip rest dpos bl pl ps q = (dpos', bl', pl', ps', q')"
    "bl = 4 \<longrightarrow> pl = 0" "bl \<le> 4"
  shows "dpos + bl' \<le> dpos' + bl \<and> dpos' \<le> dpos + length rest \<and> bl' \<le> 4 \<and> (bl' = 4 \<longrightarrow> pl' = 0)"
  using assms
proof (induction rest arbitrary: dpos bl pl ps q)
  case (Cons ch rest)
  show ?case
  proof (cases "bl < 4 \<and> quantum_step pf ip (DecodeTable ! of_char ch) dpos bl pl ps \<noteq> None")
    case True
    then obtain bl1 pl1 ps1 where
      step: "quantum_step pf ip (DecodeTable ! of_char ch) dpos bl pl ps = Some (bl1, pl1, ps1)"
      by auto
    with True have c: "bl1 = bl + 1 \<and> pl1 = 0 \<or> bl1 = bl"
      using quantum_step_cases by blast
    with True Cons.prems step show ?thesis
      by (simp add: Let_def) (drule Cons.IH; auto)
  next
    case False
    with Cons.prems show ?thesis by (auto simp: Let_def split: if_splits option.splits)
  qed
qed auto

lemma GetNextQuantum_full:
  assumes "GetNextQuantum pf ip data dpos = (qlen, dpos', q, padded)" "qlen \<ge> 4" "dpos \<le> length data"
  shows "dpos + 4 \<le> dpos' \<and> dpos' \<le> length data"
  using assms
  by (auto simp: GetNextQuantum_def Let_def split: prod.splits if_splits dest!: quantum_loop_advances)

text \<open>
  \<^verbatim>\<open>DecodeFromArrayTemplate\<close>. The loop returns the bytes pushed, \<^verbatim>\<open>dpos\<close> and \<^verbatim>\<open>success\<close>; \<open>c\<close> follows
  the bytes that the branches on \<^verbatim>\<open>qlen\<close> leave in it.
\<close>

function decode_loop ::
  "decode_flags \<Rightarrow> decode_flags \<Rightarrow> decode_flags \<Rightarrow> string \<Rightarrow> nat \<Rightarrow> bytes \<Rightarrow> bool \<times> bytes \<times> nat" where
  "decode_loop parse_flags pad_flags term_flags data dpos result =
     (if dpos < length data then
        let (qlen, dpos', qbuf, padded) =
              GetNextQuantum parse_flags (DO_PAD_NO = pad_flags) data dpos;
            c0 = push_bit 2 (qbuf ! 0) OR (drop_bit 4 (qbuf ! 1) AND 0x3);
            c1 = (push_bit 4 (qbuf ! 1) AND 0xF0) OR (drop_bit 2 (qbuf ! 2) AND 0xF);
            c2 = (push_bit 6 (qbuf ! 2) AND 0xC0) OR qbuf ! 3;
            (c, result) =
              (if qlen \<ge> 2 then
                 if qlen \<ge> 3 then
                   if qlen \<ge> 4 then (0, result @ [c0, c1, c2]) else (c2, result @ [c0, c1])
                 else (c1, result @ [c0])
               else (c0, result))
        in if qlen < 4 then
             (\<not> (DO_TERM_ANY \<noteq> term_flags \<and> c \<noteq> 0) \<and> \<not> (DO_PAD_YES = pad_flags \<and> \<not> padded), result, dpos')
           else decode_loop parse_flags pad_flags term_flags data dpos' result
      else (True, result, dpos))"
  by pat_completeness auto
termination
proof (relation "measure (\<lambda>(pf, pad, tf, data, dpos, result). length data - dpos)", goal_cases)
  case (2 pf pad tf data dpos result x qlen r1 dpos' r2 qbuf padded c0 c1 c2 y c result')
  then show ?case
    using GetNextQuantum_full [of pf "DO_PAD_NO = pad" data dpos qlen dpos' qbuf padded] by auto
qed auto

declare decode_loop.simps [simp del]

text \<open>\<^verbatim>\<open>DecodeFromArray\<close>: the result, the bytes and \<^verbatim>\<open>*data_used\<close>.\<close>

definition DecodeFromArray :: "string \<Rightarrow> decode_flags \<Rightarrow> bool \<times> bytes \<times> nat" where
  "DecodeFromArray data flags =
     (let parse_flags = flags AND DO_PARSE_MASK;
          pad_flags = flags AND DO_PAD_MASK;
          term_flags = flags AND DO_TERM_MASK;
          (success, result, dpos) = decode_loop parse_flags pad_flags term_flags data 0 []
      in (success \<and> \<not> (DO_TERM_BUFFER = term_flags \<and> dpos \<noteq> length data), result, dpos))"

definition Encode :: "bytes \<Rightarrow> string" where
  "Encode data = EncodeFromArray data"

definition Decode :: "string \<Rightarrow> decode_flags \<Rightarrow> bytes" where
  "Decode data flags = fst (snd (DecodeFromArray data flags))"

section \<open>The tables\<close>

abbreviation tab :: "char \<Rightarrow> byte" where
  "tab c \<equiv> DecodeTable ! of_char c"

lemma DecodeTable_length: "length DecodeTable = 256" and Base64Table_length: "length Base64Table = 64"
  by (simp_all add: DecodeTable_def Base64Table_def)

lemma Base64Table_decodes: "map tab Base64Table = map word_of_nat [0..<64]"
  by code_simp

lemma DecodeTable_encodes:
  "list_all2 (\<lambda>n v. v < 64 \<and> Base64Table ! unat v = char_of n \<or> v = b64_pd \<and> n = 61 \<or>
     v = b64_sp \<or> v = b64_il) [0..<256] DecodeTable"
  by code_simp

definition b64_digit :: "byte \<Rightarrow> char" where
  "b64_digit v = Base64Table ! unat v"

lemma tab_digit:
  assumes "v < 64"
  shows "tab (b64_digit v) = v"
proof -
  have n: "unat v < 64" using assms by (simp add: word_less_nat_alt)
  then have "map tab Base64Table ! unat v = v"
    by (simp only: Base64Table_decodes) simp
  then show ?thesis using n by (simp add: b64_digit_def Base64Table_length)
qed

lemma tab_cases:
  "tab c < 64 \<and> c = b64_digit (tab c) \<or> tab c = b64_pd \<and> c = kPad \<or> tab c = b64_sp \<or> tab c = b64_il"
proof -
  have c: "of_char c < (256 :: nat)" by (rule nat_of_char_less_256)
  have "char_of (61 :: nat) = kPad" by code_simp
  then have "of_char c = (61 :: nat) \<Longrightarrow> c = kPad" by (metis char_of_char)
  then show ?thesis
    using list_all2_nthD [OF DecodeTable_encodes, of "of_char c"] c
    by (auto simp: b64_digit_def)
qed

lemma tab_kPad: "tab kPad = b64_pd"
  by code_simp

lemma b64_marks: "\<not> b64_pd < 64" "\<not> b64_sp < 64" "\<not> b64_il < 64"
  "b64_pd \<noteq> b64_sp" "b64_pd \<noteq> b64_il" "b64_sp \<noteq> b64_il"
  by (simp_all add: b64_pd_def b64_sp_def b64_il_def)

lemma digit_not_mark: "v < 64 \<Longrightarrow> v \<noteq> b64_pd \<and> v \<noteq> b64_sp \<and> v \<noteq> b64_il"
  using b64_marks by auto

section \<open>The encoder\<close>

text \<open>The four digits of three bytes, and the two or three digits of an incomplete group.\<close>

definition b64_c1 :: "byte \<Rightarrow> byte" where
  "b64_c1 a = drop_bit 2 a AND 0x3F"
definition b64_c2 :: "byte \<Rightarrow> byte \<Rightarrow> byte" where
  "b64_c2 a b = (push_bit 4 a AND 0x3F) OR (drop_bit 4 b AND 0x0F)"
definition b64_c3 :: "byte \<Rightarrow> byte \<Rightarrow> byte" where
  "b64_c3 b c = (push_bit 2 b AND 0x3F) OR (drop_bit 6 c AND 0x03)"
definition b64_c4 :: "byte \<Rightarrow> byte" where
  "b64_c4 c = c AND 0x3F"

lemmas b64_c_defs = b64_c1_def b64_c2_def b64_c3_def b64_c4_def

lemma low_masks: "(0x3F :: byte) = mask 6" "(0x0F :: byte) = mask 4" "(0x03 :: byte) = mask 2"
  "(0xF0 :: byte) = push_bit 4 (mask 4)" "(0xC0 :: byte) = push_bit 6 (mask 2)"
  by (simp_all add: mask_eq_exp_minus_1)

lemma six_bits: "take_bit 6 v = v \<Longrightarrow> v < 64" for v :: byte
proof -
  assume "take_bit 6 v = v"
  then have "unat v = take_bit 6 (unat v)"
    by (metis unsigned_take_bit_eq)
  then have "unat v < 2 ^ 6"
    by (metis take_bit_nat_less_exp)
  then show "v < 64" by (simp add: word_less_nat_alt)
qed

lemma byte_bits_eqI:
  assumes "\<And>n. n \<in> set [0..<8] \<Longrightarrow> bit a n = bit b n"
  shows "a = (b :: byte)"
  by (rule bit_word_eqI) (use assms in simp)

lemma b64_c_less: "b64_c1 a < 64" "b64_c2 a b < 64" "b64_c3 b c < 64" "b64_c4 c < 64"
  unfolding b64_c_defs low_masks
  by (rule six_bits, rule bit_word_eqI, auto simp: bit_simps)+

lemma b64_group1: "push_bit 2 (b64_c1 a) OR (drop_bit 4 (b64_c2 a b) AND 0x3) = a"
  unfolding b64_c_defs low_masks
  by (rule byte_bits_eqI; auto simp: upt_rec bit_simps; simp add: numeral_eq_Suc)

lemma b64_group2: "(push_bit 4 (b64_c2 a b) AND 0xF0) OR (drop_bit 2 (b64_c3 b c) AND 0xF) = b"
  unfolding b64_c_defs low_masks
  by (rule byte_bits_eqI; auto simp: upt_rec bit_simps; simp add: numeral_eq_Suc)

lemma b64_group3: "(push_bit 6 (b64_c3 b c) AND 0xC0) OR b64_c4 c = c"
  unfolding b64_c_defs low_masks
  by (rule byte_bits_eqI; auto simp: upt_rec bit_simps; simp add: numeral_eq_Suc)

lemma b64_rest2: "(push_bit 4 (b64_c2 a 0) AND 0xF0) OR (drop_bit 2 0 AND 0xF) = 0"
  and b64_rest3: "(push_bit 6 (b64_c3 b 0) AND 0xC0) OR 0 = 0"
  unfolding b64_c_defs low_masks
  by (rule byte_bits_eqI; auto simp: upt_rec bit_simps; simp add: numeral_eq_Suc)+

text \<open>Conversely four digits are the digits of the bytes they decode to.\<close>

definition b64_b1 :: "byte \<Rightarrow> byte \<Rightarrow> byte" where
  "b64_b1 v1 v2 = push_bit 2 v1 OR (drop_bit 4 v2 AND 0x3)"
definition b64_b2 :: "byte \<Rightarrow> byte \<Rightarrow> byte" where
  "b64_b2 v2 v3 = (push_bit 4 v2 AND 0xF0) OR (drop_bit 2 v3 AND 0xF)"
definition b64_b3 :: "byte \<Rightarrow> byte \<Rightarrow> byte" where
  "b64_b3 v3 v4 = (push_bit 6 v3 AND 0xC0) OR v4"

lemmas b64_b_defs = b64_b1_def b64_b2_def b64_b3_def

lemma digit_bits:
  assumes "v < 64" "6 \<le> n"
  shows "\<not> bit (v :: byte) n"
proof -
  have "unat v < 2 ^ 6" using assms(1) by (simp add: word_less_nat_alt)
  then have "unat (take_bit 6 v) = unat v"
    by (simp only: unsigned_take_bit_eq take_bit_nat_eq_self)
  then have "take_bit 6 v = v" by (simp only: word_unat_eq_iff)
  then have "bit v n = (n < 6 \<and> bit v n)" by (metis bit_take_bit_iff)
  then show ?thesis using assms(2) by simp
qed

lemma digit_67: "v < 64 \<Longrightarrow> \<not> bit (v :: byte) 6 \<and> \<not> bit v 7"
  using digit_bits by simp

lemma byte_bits8:
  assumes "bit a 0 = bit b 0" "bit a (Suc 0) = bit b (Suc 0)" "bit a 2 = bit b 2" "bit a 3 = bit b 3"
    "bit a 4 = bit b 4" "bit a 5 = bit b 5" "bit a 6 = bit b 6" "bit a 7 = bit b 7"
  shows "a = (b :: byte)"
  using assms by (intro byte_bits_eqI) (simp add: upt_rec numeral_eq_Suc, elim disjE; simp)

lemma b64_regroup1: "v1 < 64 \<Longrightarrow> b64_c1 (b64_b1 v1 v2) = v1"
  unfolding b64_c_defs b64_b_defs low_masks
  by (drule digit_67)+ (rule byte_bits8; simp add: bit_simps; simp add: numeral_eq_Suc)

lemma b64_regroup2: "v2 < 64 \<Longrightarrow> b64_c2 (b64_b1 v1 v2) (b64_b2 v2 v3) = v2"
  unfolding b64_c_defs b64_b_defs low_masks
  by (drule digit_67)+ (rule byte_bits8; simp add: bit_simps; simp add: numeral_eq_Suc)

lemma b64_regroup3: "v3 < 64 \<Longrightarrow> v4 < 64 \<Longrightarrow> b64_c3 (b64_b2 v2 v3) (b64_b3 v3 v4) = v3"
  unfolding b64_c_defs b64_b_defs low_masks
  by (drule digit_67)+ (rule byte_bits8; simp add: bit_simps; simp add: numeral_eq_Suc)

lemma b64_regroup4: "v4 < 64 \<Longrightarrow> b64_c4 (b64_b3 v3 v4) = v4"
  unfolding b64_c_defs b64_b_defs low_masks
  by (drule digit_67)+ (rule byte_bits8; simp add: bit_simps; simp add: numeral_eq_Suc)

lemma encode_loop_append: "encode_loop (xs @ d) (length xs + i) = encode_loop d i"
proof (induction d i rule: encode_loop.induct)
  case (1 d i)
  then show ?case
    by (subst (1 2) encode_loop.simps) (auto simp: Let_def nth_append split: if_splits)
qed

lemma Encode_Nil: "EncodeFromArray [] = []"
  by (simp add: EncodeFromArray_def encode_loop.simps)

lemma Encode_1:
  "EncodeFromArray [a] = [b64_digit (b64_c1 a), b64_digit (b64_c2 a 0), kPad, kPad]"
  by (simp add: EncodeFromArray_def encode_loop.simps b64_digit_def b64_c_defs)

lemma Encode_2:
  "EncodeFromArray [a, b] =
     [b64_digit (b64_c1 a), b64_digit (b64_c2 a b), b64_digit (b64_c3 b 0), kPad]"
  by (simp add: EncodeFromArray_def encode_loop.simps b64_digit_def b64_c_defs)

lemma Encode_3:
  "EncodeFromArray (a # b # c # d) =
     [b64_digit (b64_c1 a), b64_digit (b64_c2 a b), b64_digit (b64_c3 b c), b64_digit (b64_c4 c)]
     @ EncodeFromArray d"
  using encode_loop_append [of "[a, b, c]" d 0]
  by (subst EncodeFromArray_def, subst encode_loop.simps)
    (simp add: EncodeFromArray_def b64_digit_def b64_c_defs numeral_3_eq_3)

lemmas Encode_simps = Encode_Nil Encode_1 Encode_2 Encode_3

lemma bytes_by_three [case_names none one two three]:
  assumes "P []" "\<And>a. P [a]" "\<And>a b. P [a, b]" "\<And>a b c d. P d \<Longrightarrow> P (a # b # c # d)"
  shows "P (xs :: 'a list)"
proof (induction xs rule: length_induct)
  case (1 xs)
  show ?case
  proof (cases "length xs < 3")
    case True
    then show ?thesis using assms(1-3) by (auto simp: numeral_3_eq_3 less_Suc_eq length_Suc_conv)
  next
    case False
    then obtain a b c d where "xs = a # b # c # d"
      by (metis (no_types, opaque_lifting) One_nat_def Suc_1 length_Cons list.exhaust list.size(3) not_less_eq numeral_3_eq_3 zero_less_Suc)
    then show ?thesis using assms(4) 1 by simp
  qed
qed

text \<open>The length the encoder reserves is the length it writes.\<close>

lemma Encode_length: "length (EncodeFromArray d) = (length d + 2) div 3 * 4"
proof (induction d rule: bytes_by_three)
  case (three a b c d)
  have "(length (a # b # c # d) + 2) div 3 = (length d + 2) div 3 + 1" by simp
  with three show ?case by (simp only: Encode_3) simp
qed (simp_all add: Encode_simps)

section \<open>Decoding what was encoded\<close>

text \<open>
  \<open>b64_text pf e s t\<close>: without the blanks that the parse mode lets the decoder skip, \<open>s\<close> is \<open>t\<close>;
  \<open>e\<close> asks for a text without blanks in every mode.
\<close>

definition b64_text :: "decode_flags \<Rightarrow> bool \<Rightarrow> string \<Rightarrow> string \<Rightarrow> bool" where
  "b64_text pf e s t \<longleftrightarrow> filter (\<lambda>c. tab c \<noteq> b64_sp) s = t \<and> (pf = DO_PARSE_STRICT \<or> e \<longrightarrow> s = t)"

lemma b64_text_Cons:
  assumes "b64_text pf e s (c # t)"
  obtains w s' where "s = w @ c # s'" "b64_text pf e w []" "b64_text pf e s' t"
proof -
  from assms obtain w s' where *: "s = w @ c # s'" "\<forall>u\<in>set w. tab u = b64_sp"
    "filter (\<lambda>c. tab c \<noteq> b64_sp) s' = t" "tab c \<noteq> b64_sp"
    by (auto simp: b64_text_def filter_eq_Cons_iff)
  moreover have "w = [] \<and> s' = t" if "pf = DO_PARSE_STRICT \<or> e"
  proof -
    from that assms have "filter (\<lambda>c. tab c \<noteq> b64_sp) s = s" "s = c # t"
      by (auto simp: b64_text_def)
    then have "\<forall>u\<in>set s. tab u \<noteq> b64_sp" by (simp only: filter_id_conv)
    with * \<open>s = c # t\<close> show ?thesis by (cases w) auto
  qed
  ultimately show thesis
    by (intro that [of w s']) (auto simp: b64_text_def)
qed

lemma quantum_step_blank:
  "pf \<noteq> DO_PARSE_STRICT \<Longrightarrow> quantum_step pf ip b64_sp dpos bl pl ps = Some (bl, pl, ps)"
  using b64_marks by (auto simp: quantum_step_def)

lemma quantum_step_digit:
  "v < 64 \<Longrightarrow> quantum_step pf ip v dpos bl 0 ps = Some (bl + 1, 0, ps)"
  using digit_not_mark by (auto simp: quantum_step_def)

lemma quantum_step_pad:
  "2 \<le> bl \<Longrightarrow> bl + pl < 4 \<Longrightarrow>
   quantum_step pf False b64_pd dpos bl pl ps = Some (bl, pl + 1, if pl = 0 then dpos else ps)"
  using b64_marks by (auto simp: quantum_step_def)

lemma quantum_loop_blanks:
  assumes "b64_text pf e w []" "bl < 4"
  shows "quantum_loop pf ip (w @ r) dpos bl pl ps q = quantum_loop pf ip r (dpos + length w) bl pl ps q"
  using assms
proof (induction w arbitrary: dpos)
  case (Cons c w)
  then have "tab c = b64_sp" "pf \<noteq> DO_PARSE_STRICT" "b64_text pf e w []"
    by (auto simp: b64_text_def split: if_splits)
  with Cons show ?case by (simp add: Let_def quantum_step_blank)
qed simp

lemma quantum_loop_digits:
  assumes "b64_text pf e s (map b64_digit vs @ t)" "\<forall>v\<in>set vs. v < 64" "bl + length vs \<le> 4"
  shows "\<exists>w s'. s = w @ s' \<and> b64_text pf e s' t \<and>
     quantum_loop pf ip s dpos bl 0 ps q =
     quantum_loop pf ip s' (dpos + length w) (bl + length vs) 0 ps (q @ vs)"
  using assms
proof (induction vs arbitrary: s dpos bl q)
  case Nil
  then show ?case by - (rule exI [of _ "[]"], rule exI [of _ s], simp)
next
  case (Cons v vs)
  then have "b64_text pf e s (b64_digit v # map b64_digit vs @ t)" by simp
  then obtain w s1 where s: "s = w @ b64_digit v # s1" "b64_text pf e w []"
    "b64_text pf e s1 (map b64_digit vs @ t)"
    by (rule b64_text_Cons)
  have v: "v < 64" and bl: "bl < 4" using Cons.prems by auto
  have "quantum_loop pf ip s dpos bl 0 ps q =
      quantum_loop pf ip s1 (dpos + length w + 1) (bl + 1) 0 ps (q @ [v])"
    using s v bl by (simp add: quantum_loop_blanks Let_def tab_digit quantum_step_digit)
  moreover obtain w' s' where "s1 = w' @ s'" "b64_text pf e s' t"
    "quantum_loop pf ip s1 (dpos + length w + 1) (bl + 1) 0 ps (q @ [v]) =
     quantum_loop pf ip s' (dpos + length w + 1 + length w') (bl + 1 + length vs) 0 ps ((q @ [v]) @ vs)"
    using Cons.IH [OF s(3), of "bl + 1" "dpos + length w + 1" "q @ [v]"] Cons.prems by auto
  ultimately show ?case
    using s(1) by - (rule exI [of _ "w @ b64_digit v # w'"], rule exI [of _ s'], simp add: add.assoc)
qed

lemma quantum_loop_pads:
  assumes "b64_text pf e s (replicate k kPad)" "2 \<le> bl" "bl < 4" "bl + pl + k = 4"
  shows "\<exists>ps'. quantum_loop pf False s dpos bl pl ps q = (dpos + length s, bl, pl + k, ps', q)"
  using assms
proof (induction k arbitrary: s dpos pl ps)
  case 0
  then show ?case using quantum_loop_blanks [of pf e s bl False "[]"] by auto
next
  case (Suc k)
  from Suc.prems(1) obtain w s1 where s: "s = w @ kPad # s1" "b64_text pf e w []"
    "b64_text pf e s1 (replicate k kPad)"
    by (auto elim: b64_text_Cons)
  have "quantum_loop pf False s dpos bl pl ps q =
      quantum_loop pf False s1 (dpos + length w + 1) bl (pl + 1) (if pl = 0 then dpos + length w else ps) q"
    using s Suc.prems by (simp add: quantum_loop_blanks Let_def tab_kPad quantum_step_pad)
  then show ?case
    using Suc.IH [OF s(3), of "pl + 1" "dpos + length w + 1" "if pl = 0 then dpos + length w else ps"]
      Suc.prems s(1) by auto
qed

lemma quantum_loop_full: "quantum_loop pf ip s dpos 4 0 ps q = (dpos, 4, 0, ps, q)"
  by (cases s) simp_all

lemma GetNextQuantum_digits:
  assumes "b64_text pf e (drop dpos data) (map b64_digit [v1, v2, v3, v4] @ t)"
    "v1 < 64" "v2 < 64" "v3 < 64" "v4 < 64" "dpos \<le> length data"
  shows "\<exists>dpos'. GetNextQuantum pf ip data dpos = (4, dpos', [v1, v2, v3, v4], True) \<and>
     dpos' \<le> length data \<and> b64_text pf e (drop dpos' data) t"
proof -
  obtain w s' where s: "drop dpos data = w @ s'" "b64_text pf e s' t"
    "quantum_loop pf ip (drop dpos data) dpos 0 0 0 [] =
     quantum_loop pf ip s' (dpos + length w) 4 0 0 [v1, v2, v3, v4]"
    using quantum_loop_digits [OF assms(1), of 0 ip dpos 0 "[]"] assms by (auto simp: numeral_eq_Suc)
  have "length (drop dpos data) = length w + length s'" using s(1) by (metis length_append)
  then have "dpos + length w \<le> length data" using assms(6) by simp
  moreover have "drop (dpos + length w) data = s'"
    using arg_cong [OF s(1), of "drop (length w)"] by (simp add: add.commute)
  ultimately show ?thesis
    using s by (auto simp: GetNextQuantum_def quantum_loop_full)
qed

lemma GetNextQuantum_padded:
  assumes "b64_text pf e (drop dpos data) (map b64_digit vs @ replicate k kPad)"
    "\<forall>v\<in>set vs. v < 64" "2 \<le> length vs" "length vs < 4" "length vs + k = 4" "dpos \<le> length data"
  shows "GetNextQuantum pf False data dpos = (length vs, length data, vs @ replicate k 0, True)"
proof -
  obtain w s' where s: "drop dpos data = w @ s'" "b64_text pf e s' (replicate k kPad)"
    "quantum_loop pf False (drop dpos data) dpos 0 0 0 [] =
     quantum_loop pf False s' (dpos + length w) (length vs) 0 0 vs"
    using quantum_loop_digits [OF assms(1,2), of 0 False dpos 0 "[]"] assms by auto
  obtain ps' where "quantum_loop pf False s' (dpos + length w) (length vs) 0 0 vs =
      (dpos + length w + length s', length vs, 0 + k, ps', vs)"
    using quantum_loop_pads [OF s(2) assms(3,4), of 0 "dpos + length w" 0 vs] assms(5) by auto
  moreover have "length (drop dpos data) = length w + length s'" using s(1) by simp
  moreover have "4 - length vs = k" using assms(5) by simp
  ultimately show ?thesis
    using s(3) assms(5,6) by (simp add: GetNextQuantum_def)
qed

lemma GetNextQuantum_blanks:
  assumes "b64_text pf e (drop dpos data) []" "dpos \<le> length data"
  shows "GetNextQuantum pf ip data dpos = (0, length data, replicate 4 0, False)"
  using quantum_loop_blanks [OF assms(1), of 0 ip "[]" dpos 0 0 "[]"] assms(2)
  by (simp add: GetNextQuantum_def)

lemma decode_loop_quantum:
  assumes "dpos < length data"
    "GetNextQuantum pf (DO_PAD_NO = pad) data dpos = (4, dpos', [v1, v2, v3, v4], padded)"
  shows "decode_loop pf pad tf data dpos result =
     decode_loop pf pad tf data dpos' (result @ [b64_b1 v1 v2, b64_b2 v2 v3, b64_b3 v3 v4])"
  using assms by (subst decode_loop.simps) (simp add: b64_b_defs)

lemma b64_text_length: "b64_text pf e s t \<Longrightarrow> length t \<le> length s"
  by (auto simp: b64_text_def)

text \<open>
  Decoding an encoded text, with blanks where the mode allows them: every byte comes back and the
  text is used up, in every mode that does not forbid padding. Blanks after a last complete group
  are read as a quantum without digits, which is not an error unless padding is required.
\<close>

lemma decode_loop_encoded:
  assumes "b64_text pf e (drop dpos data) (EncodeFromArray bs)" "dpos \<le> length data"
    "pad \<noteq> DO_PAD_NO" "pad = DO_PAD_YES \<longrightarrow> e"
  shows "decode_loop pf pad tf data dpos result = (True, result @ bs, length data)"
  using assms
proof (induction bs arbitrary: dpos result rule: bytes_by_three)
  case none
  show ?case
  proof (cases "dpos < length data")
    case True
    with none have "\<not> e" by (auto simp: Encode_Nil b64_text_def)
    with none True show ?thesis
      by (subst decode_loop.simps) (simp add: Encode_Nil GetNextQuantum_blanks)
  next
    case False
    with none show ?thesis by (subst decode_loop.simps) simp
  qed
next
  case (one a)
  then have "GetNextQuantum pf False data dpos = (2, length data, [b64_c1 a, b64_c2 a 0, 0, 0], True)"
    using GetNextQuantum_padded [of pf e dpos data "[b64_c1 a, b64_c2 a 0]" 2]
    by (simp add: Encode_1 b64_c_less numeral_2_eq_2)
  moreover have "dpos < length data"
    using b64_text_length [OF one.prems(1)] by (simp add: Encode_1)
  ultimately show ?case
    using one.prems(3) b64_rest2 [of a] b64_group1 [of a 0]
    by (subst decode_loop.simps) (auto simp: b64_b_defs)
next
  case (two a b)
  then have "GetNextQuantum pf False data dpos =
      (3, length data, [b64_c1 a, b64_c2 a b, b64_c3 b 0, 0], True)"
    using GetNextQuantum_padded [of pf e dpos data "[b64_c1 a, b64_c2 a b, b64_c3 b 0]" 1]
    by (simp add: Encode_2 b64_c_less)
  moreover have "dpos < length data"
    using b64_text_length [OF two.prems(1)] by (simp add: Encode_2)
  ultimately show ?case
    using two.prems(3) b64_rest3 [of b] b64_group1 [of a b] b64_group2 [of a b 0]
    by (subst decode_loop.simps) (auto simp: b64_b_defs)
next
  case (three a b c d)
  then obtain dpos' where q: "GetNextQuantum pf (DO_PAD_NO = pad) data dpos =
      (4, dpos', [b64_c1 a, b64_c2 a b, b64_c3 b c, b64_c4 c], True)"
    "dpos' \<le> length data" "b64_text pf e (drop dpos' data) (EncodeFromArray d)"
    using GetNextQuantum_digits [of pf e dpos data "b64_c1 a" "b64_c2 a b" "b64_c3 b c" "b64_c4 c"
        "EncodeFromArray d" "DO_PAD_NO = pad"]
    by (auto simp: Encode_3 b64_c_less)
  have "dpos < length data"
    using b64_text_length [OF three.prems(1)] by (simp add: Encode_3)
  then show ?case
    using three.IH [OF q(3,2) three.prems(3,4)] b64_group1 [of a b] b64_group2 [of a b c] b64_group3 [of b c]
    by (simp add: decode_loop_quantum [OF _ q(1)] b64_b_defs)
qed

section \<open>Strict decoding\<close>

lemma quantum_step_strict:
  assumes "quantum_step DO_PARSE_STRICT False (tab c) dpos bl pl ps = Some (bl', pl', ps')"
  shows "tab c < 64 \<and> c = b64_digit (tab c) \<and> pl = 0 \<and> bl' = bl + 1 \<and> pl' = 0 \<or>
    c = kPad \<and> 2 \<le> bl \<and> bl' = bl \<and> pl' = pl + 1"
  using assms tab_cases [of c] b64_marks
  by (auto simp: quantum_step_def DO_PARSE_STRICT_def DO_PARSE_ANY_def split: if_splits)

text \<open>What a strict quantum has read: digits, then padding.\<close>

lemma quantum_loop_strict:
  assumes "quantum_loop DO_PARSE_STRICT False s dpos bl pl ps q = (dpos', bl', pl', ps', q')"
  shows "\<exists>vs k r. s = map b64_digit vs @ replicate k kPad @ r \<and> q' = q @ vs \<and> bl' = bl + length vs \<and>
    pl' = pl + k \<and> dpos' = dpos + length vs + k \<and> (\<forall>v\<in>set vs. v < 64) \<and> (pl > 0 \<longrightarrow> vs = []) \<and>
    (k > 0 \<longrightarrow> 2 \<le> bl')"
    (is "\<exists>vs k r. ?R s dpos bl pl q vs k r")
  using assms
proof (induction s arbitrary: dpos bl pl ps q)
  case (Cons c s)
  show ?case
  proof (cases "bl < 4 \<and> quantum_step DO_PARSE_STRICT False (tab c) dpos bl pl ps \<noteq> None")
    case True
    then obtain bl1 pl1 ps1 where
      step: "quantum_step DO_PARSE_STRICT False (tab c) dpos bl pl ps = Some (bl1, pl1, ps1)" by auto
    with True Cons.prems have rest:
      "quantum_loop DO_PARSE_STRICT False s (dpos + 1) bl1 pl1 ps1 (if bl1 = bl then q else q @ [tab c]) =
       (dpos', bl', pl', ps', q')" by (simp add: Let_def)
    obtain vs k r where IH: "?R s (dpos + 1) bl1 pl1 (if bl1 = bl then q else q @ [tab c]) vs k r"
      using Cons.IH [OF rest] by blast
    from quantum_step_strict [OF step] show ?thesis
    proof
      assume "tab c < 64 \<and> c = b64_digit (tab c) \<and> pl = 0 \<and> bl1 = bl + 1 \<and> pl1 = 0"
      with IH have "?R (c # s) dpos bl pl q (tab c # vs) k r" by auto
      then show ?thesis by blast
    next
      assume "c = kPad \<and> 2 \<le> bl \<and> bl1 = bl \<and> pl1 = pl + 1"
      with IH have "?R (c # s) dpos bl pl q [] (k + 1) r" by auto
      then show ?thesis by - (rule exI [of _ "[]"], rule exI [of _ "k + 1"], rule exI [of _ r])
    qed
  next
    case False
    with Cons.prems have "?R (c # s) dpos bl pl q [] 0 (c # s)"
      by (auto simp: Let_def split: if_splits option.splits)
    then show ?thesis by blast
  qed
qed auto

lemma GetNextQuantum_strict:
  assumes "GetNextQuantum DO_PARSE_STRICT False data dpos = (qlen, dpos', q, padded)"
    "padded \<or> qlen = 4"
  obtains vs k r where "drop dpos data = map b64_digit vs @ replicate k kPad @ r"
    "q = vs @ replicate k 0" "length vs = qlen" "\<forall>v\<in>set vs. v < 64" "length vs + k = 4"
    "k > 0 \<longrightarrow> 2 \<le> length vs" "dpos' = dpos + 4"
proof -
  obtain d1 bl pl ps q1 where
    loop: "quantum_loop DO_PARSE_STRICT False (drop dpos data) dpos 0 0 0 [] = (d1, bl, pl, ps, q1)"
    by (metis prod_cases5)
  obtain vs k r where R: "drop dpos data = map b64_digit vs @ replicate k kPad @ r" "q1 = vs"
    "bl = length vs" "pl = k" "d1 = dpos + length vs + k" "\<forall>v\<in>set vs. v < 64" "k > 0 \<longrightarrow> 2 \<le> bl"
    using quantum_loop_strict [OF loop] by auto
  have "bl + pl = 4"
    using assms loop quantum_loop_advances [OF loop] by (auto simp: GetNextQuantum_def Let_def split: if_splits)
  with R assms(1) loop show thesis
    by (intro that [of vs k r]) (auto simp: GetNextQuantum_def Let_def)
qed

lemma two_or_three:
  assumes "length vs + k = (4 :: nat)" "k > 0" "2 \<le> length vs"
  obtains v1 v2 where "vs = [v1, v2]" "k = 2" | v1 v2 v3 where "vs = [v1, v2, v3]" "k = 1"
proof (cases "k = 1")
  case True
  with assms have "length vs = 3" by simp
  then obtain v1 v2 v3 where "vs = [v1, v2, v3]" by (auto simp: numeral_3_eq_3 length_Suc_conv)
  with True that(2) show thesis by blast
next
  case False
  with assms have "k = 2" "length vs = 2" by auto
  then obtain v1 v2 where "vs = [v1, v2]" by (auto simp: numeral_2_eq_2 length_Suc_conv)
  with \<open>k = 2\<close> that(1) show thesis by blast
qed

lemma GetNextQuantum_qlen:
  "GetNextQuantum pf ip data dpos = (qlen, dpos', q, padded) \<Longrightarrow> qlen \<le> 4"
  by (auto simp: GetNextQuantum_def Let_def split: prod.splits if_splits dest!: quantum_loop_advances)

text \<open>The last, padded quantum of a text that decodes strictly.\<close>

lemma decode_loop_last:
  assumes "decode_loop pf DO_PAD_YES DO_TERM_BUFFER data dpos result = (True, res, dpos')"
    "dpos < length data" "GetNextQuantum pf False data dpos = (qlen, d1, q, padded)" "qlen < 4"
  shows "padded" "dpos' = d1"
    "q = [v1, v2, 0, 0] \<Longrightarrow> qlen = 2 \<Longrightarrow> res = result @ [b64_b1 v1 v2] \<and> b64_b2 v2 0 = 0"
    "q = [v1, v2, v3, 0] \<Longrightarrow> qlen = 3 \<Longrightarrow> res = result @ [b64_b1 v1 v2, b64_b2 v2 v3] \<and> b64_b3 v3 0 = 0"
proof -
  have no: "(DO_PAD_NO = DO_PAD_YES) = False" "(DO_TERM_ANY = DO_TERM_BUFFER) = False"
    by (simp_all add: b64_flag_defs)
  note eq = trans [OF decode_loop.simps [symmetric] assms(1), simplified, simplified no, simplified assms(2-4)]
  show "padded" "dpos' = d1"
    "q = [v1, v2, 0, 0] \<Longrightarrow> qlen = 2 \<Longrightarrow> res = result @ [b64_b1 v1 v2] \<and> b64_b2 v2 0 = 0"
    "q = [v1, v2, v3, 0] \<Longrightarrow> qlen = 3 \<Longrightarrow> res = result @ [b64_b1 v1 v2, b64_b2 v2 v3] \<and> b64_b3 v3 0 = 0"
    using eq assms(2-4) by (auto simp: b64_b_defs Let_def split: if_splits)
qed

lemma decode_loop_strict:
  assumes "decode_loop DO_PARSE_STRICT DO_PAD_YES DO_TERM_BUFFER data dpos result = (True, res, length data)"
    "dpos \<le> length data"
  shows "\<exists>bs. res = result @ bs \<and> drop dpos data = EncodeFromArray bs"
  using assms
proof (induction "length data - dpos" arbitrary: dpos result rule: less_induct)
  case less
  show ?case
  proof (cases "dpos < length data")
    case True
    have no: "(DO_PAD_NO = DO_PAD_YES) = False" by (simp add: b64_flag_defs)
    obtain qlen d1 q padded where g: "GetNextQuantum DO_PARSE_STRICT False data dpos = (qlen, d1, q, padded)"
      by (metis prod_cases4)
    have "qlen = 4 \<or> qlen < 4 \<and> padded"
      using decode_loop_last(1) [OF less.prems(1) True g] GetNextQuantum_qlen [OF g] by linarith
    then obtain vs k r where R: "drop dpos data = map b64_digit vs @ replicate k kPad @ r"
      "q = vs @ replicate k 0" "length vs = qlen" "\<forall>v\<in>set vs. v < 64" "length vs + k = 4"
      "k > 0 \<longrightarrow> 2 \<le> length vs" "d1 = dpos + 4"
      using GetNextQuantum_strict [OF g] by blast
    show ?thesis
    proof (cases "qlen = 4")
      case four: True
      with R obtain v1 v2 v3 v4 where vs: "vs = [v1, v2, v3, v4]" "k = 0"
        by (auto simp: numeral_eq_Suc length_Suc_conv)
      have "length data - dpos = 4 + length r" using arg_cong [OF R(1), of length] vs by simp
      then have "d1 \<le> length data" using R(7) True by linarith
      moreover have "drop d1 data = r"
        using R(7) vs arg_cong [OF R(1), of "drop 4"] by (simp add: add.commute [of dpos])
      moreover have "decode_loop DO_PARSE_STRICT DO_PAD_YES DO_TERM_BUFFER data d1
          (result @ [b64_b1 v1 v2, b64_b2 v2 v3, b64_b3 v3 v4]) = (True, res, length data)"
        using less.prems(1) g decode_loop_quantum [of dpos data DO_PARSE_STRICT DO_PAD_YES d1 v1 v2 v3 v4] True four R(2) vs no
        by simp
      ultimately obtain bs where "res = result @ [b64_b1 v1 v2, b64_b2 v2 v3, b64_b3 v3 v4] @ bs"
        "r = EncodeFromArray bs"
        using less.hyps [of d1] R(7) True by fastforce
      with R vs show ?thesis
        by (intro exI [of _ "b64_b1 v1 v2 # b64_b2 v2 v3 # b64_b3 v3 v4 # bs"])
          (simp add: Encode_3 b64_regroup1 b64_regroup2 b64_regroup3 b64_regroup4)
    next
      case False
      then have lt: "qlen < 4" using GetNextQuantum_qlen [OF g] by simp
      note last = decode_loop_last [OF less.prems(1) True g lt]
      have "r = []"
        using R(3,5,7) arg_cong [OF R(1), of length] last(2) by (cases r) auto
      have "k > 0" using R lt by simp
      with R show ?thesis
      proof (cases rule: two_or_three [OF R(5)])
        case (3 v1 v2)
        then show ?thesis
          using last(3) [of v1 v2] R \<open>r = []\<close> b64_regroup2 [of v2 v1 0]
          by (intro exI [of _ "[b64_b1 v1 v2]"]) (auto simp: Encode_1 b64_regroup1 numeral_2_eq_2)
      next
        case (4 v1 v2 v3)
        then show ?thesis
          using last(4) [of v1 v2 v3] R \<open>r = []\<close> b64_regroup3 [of v3 0 v2]
          by (intro exI [of _ "[b64_b1 v1 v2, b64_b2 v2 v3]"])
            (auto simp: Encode_2 b64_regroup1 b64_regroup2)
      qed auto
    qed
  next
    case False
    with less.prems show ?thesis by (subst (asm) decode_loop.simps) (simp add: Encode_Nil)
  qed
qed

section \<open>The codec\<close>

lemma Encode_no_blank: "\<forall>c\<in>set (EncodeFromArray d). tab c \<noteq> b64_sp"
  using b64_marks digit_not_mark
  by (induction d rule: bytes_by_three) (simp_all add: Encode_simps tab_digit tab_kPad b64_c_less)

lemma Encode_is_text: "b64_text pf e (EncodeFromArray d) (EncodeFromArray d)"
  using Encode_no_blank by (simp add: b64_text_def)

lemma strict_flags:
  "DO_STRICT AND DO_PARSE_MASK = DO_PARSE_STRICT" "DO_STRICT AND DO_PAD_MASK = DO_PAD_YES"
  "DO_STRICT AND DO_TERM_MASK = DO_TERM_BUFFER"
  by (simp_all add: b64_flag_defs)

lemma decode_text:
  assumes "b64_text (flags AND DO_PARSE_MASK) (flags AND DO_PAD_MASK = DO_PAD_YES) s (EncodeFromArray bs)"
    "flags AND DO_PAD_MASK \<noteq> DO_PAD_NO"
  shows "DecodeFromArray s flags = (True, bs, length s)"
  using decode_loop_encoded [of _ _ 0 s bs "flags AND DO_PAD_MASK"] assms
  by (simp add: DecodeFromArray_def)

text \<open>
  C24. Strict decoding accepts exactly the encoded texts and gives back the bytes that were
  encoded: \<open>Decode\<close> with \<^verbatim>\<open>DO_STRICT\<close> succeeds with result \<open>bs\<close> if and only if the text is the
  encoding of \<open>bs\<close>, and it has then used the whole text.
\<close>

theorem strict_decode_iff:
  "DecodeFromArray s DO_STRICT = (True, bs, n) \<longleftrightarrow> s = EncodeFromArray bs \<and> n = length s"
proof
  assume "DecodeFromArray s DO_STRICT = (True, bs, n)"
  then have d: "decode_loop DO_PARSE_STRICT DO_PAD_YES DO_TERM_BUFFER s 0 [] = (True, bs, length s)"
    and n: "n = length s"
    by (auto simp: DecodeFromArray_def strict_flags split: prod.splits)
  then show "s = EncodeFromArray bs \<and> n = length s"
    using decode_loop_strict [OF d] by auto
next
  assume a: "s = EncodeFromArray bs \<and> n = length s"
  then show "DecodeFromArray s DO_STRICT = (True, bs, n)"
    by (simp add: decode_text strict_flags Encode_is_text DO_PAD_YES_def DO_PAD_NO_def)
qed

text \<open>
  With padding required, a blank after a last complete group is an error although the mode skips
  blanks: the decoder reads it as a quantum without digits and without padding.
\<close>

lemma trailing_blank_refused:
  "DecodeFromArray ''QUJD'' (DO_PARSE_WHITE OR DO_PAD_YES OR DO_TERM_BUFFER) = (True, [0x41, 0x42, 0x43], 4)"
  "DecodeFromArray ''QUJD '' (DO_PARSE_WHITE OR DO_PAD_YES OR DO_TERM_BUFFER) = (False, [0x41, 0x42, 0x43], 5)"
  "DecodeFromArray ''QUI= '' (DO_PARSE_WHITE OR DO_PAD_YES OR DO_TERM_BUFFER) = (True, [0x41, 0x42], 5)"
  by code_simp+

end
