(* ===== verification/TimeUtils.thy ===== *)
theory TimeUtils
  imports XrtcPrelude
begin

text \<open>
  \<^verbatim>\<open>rtc_base/time_utils.cc\<close>: reading the clock in the units the code uses, differences of wrapping
  32-bit times, \<^verbatim>\<open>TimestampWrapAroundHandler\<close>, which extends 32-bit timestamps to 64 bits, and
  \<^verbatim>\<open>TmToSeconds\<close>, which turns a broken-down UTC time into seconds since 1970. The system clock and
  the clock installed for tests are parameters (nanoseconds); 64-bit results are integers, as no
  operation here leaves their range (a year fits in four digits, a wrap count in 31 bits).
\<close>

section \<open>Reading the clock\<close>

definition kNumNanosecsPerMillisec :: int where "kNumNanosecsPerMillisec = 1000000"
definition kNumNanosecsPerMicrosec :: int where "kNumNanosecsPerMicrosec = 1000"
definition kNumMicrosecsPerSec :: int where "kNumMicrosecsPerSec = 1000000"
definition kNumMicrosecsPerMillisec :: int where "kNumMicrosecsPerMillisec = 1000"

text \<open>C++ integer division truncates towards zero.\<close>

definition c_div :: "int \<Rightarrow> int \<Rightarrow> int" where
  "c_div a b = (if 0 \<le> a then a div b else - (- a div b))"

definition SystemTimeMillis :: "int \<Rightarrow> int" where
  "SystemTimeMillis sys = c_div sys kNumNanosecsPerMillisec"

definition TimeNanos :: "int option \<Rightarrow> int \<Rightarrow> int" where
  "TimeNanos g_clock sys = (case g_clock of Some t \<Rightarrow> t | None \<Rightarrow> sys)"

definition Time32 :: "int option \<Rightarrow> int \<Rightarrow> 32 word" where
  "Time32 g_clock sys = word_of_int (c_div (TimeNanos g_clock sys) kNumNanosecsPerMillisec)"

definition TimeMillis :: "int option \<Rightarrow> int \<Rightarrow> int" where
  "TimeMillis g_clock sys = c_div (TimeNanos g_clock sys) kNumNanosecsPerMillisec"

definition TimeMicros :: "int option \<Rightarrow> int \<Rightarrow> int" where
  "TimeMicros g_clock sys = c_div (TimeNanos g_clock sys) kNumNanosecsPerMicrosec"

definition TimeAfter :: "int option \<Rightarrow> int \<Rightarrow> int \<Rightarrow> int" where
  "TimeAfter g_clock sys elapsed = TimeMillis g_clock sys + elapsed"

definition TimeDiff32 :: "32 word \<Rightarrow> 32 word \<Rightarrow> int" where
  "TimeDiff32 later earlier = sint (later - earlier)"

definition TimeDiff :: "int \<Rightarrow> int \<Rightarrow> int" where
  "TimeDiff later earlier = later - earlier"

definition TimeSince :: "int option \<Rightarrow> int \<Rightarrow> int \<Rightarrow> int" where
  "TimeSince g_clock sys earlier = TimeMillis g_clock sys - earlier"

definition TimeUntil :: "int option \<Rightarrow> int \<Rightarrow> int \<Rightarrow> int" where
  "TimeUntil g_clock sys later = later - TimeMillis g_clock sys"

text \<open>\<open>tv\<close> is what \<^verbatim>\<open>gettimeofday\<close> returns, seconds and microseconds.\<close>

definition TimeUTCMicros :: "int option \<Rightarrow> int \<times> int \<Rightarrow> int" where
  "TimeUTCMicros g_clock tv =
     (case g_clock of
        Some t \<Rightarrow> c_div t kNumNanosecsPerMicrosec
      | None \<Rightarrow> fst tv * kNumMicrosecsPerSec + snd tv)"

definition TimeUTCMillis :: "int option \<Rightarrow> int \<times> int \<Rightarrow> int" where
  "TimeUTCMillis g_clock tv = c_div (TimeUTCMicros g_clock tv) kNumMicrosecsPerMillisec"

text \<open>\<^verbatim>\<open>TimeAfter\<close> gives a time that lies as far ahead as was asked.\<close>

lemma TimeUntil_TimeAfter: "TimeUntil g_clock sys (TimeAfter g_clock sys elapsed) = elapsed"
  by (simp add: TimeUntil_def TimeAfter_def)

lemma TimeUTCMillis_seconds: "0 \<le> usec \<Longrightarrow> usec < 1000000 \<Longrightarrow> 0 \<le> sec \<Longrightarrow>
  TimeUTCMillis None (sec, usec) = sec * 1000 + usec div 1000"
  by (simp add: TimeUTCMillis_def TimeUTCMicros_def c_div_def kNumMicrosecsPerSec_def kNumMicrosecsPerMillisec_def)

text \<open>The wrapping difference is the difference of the times while that fits in 32 bits, signed.\<close>

lemma TimeDiff32_exact:
  assumes "- (2 ^ 31) \<le> a - b" "a - b < 2 ^ 31"
  shows "TimeDiff32 (word_of_int a) (word_of_int b) = a - b"
proof -
  have "word_of_int a - word_of_int b = (word_of_int (a - b) :: 32 word)" by simp
  then show ?thesis
    using assms by (simp only: TimeDiff32_def signed_of_int) (simp add: signed_take_bit_int_eq_self)
qed

section \<open>Timestamps that wrap\<close>

record wrap_handler =
  last_ts :: "32 word"
  num_wrap :: int

definition TimestampWrapAroundHandler :: wrap_handler where
  "TimestampWrapAroundHandler = \<lparr>last_ts = 0, num_wrap = - 1\<rparr>"

definition Unwrap :: "32 word \<Rightarrow> wrap_handler \<Rightarrow> int \<times> wrap_handler" where
  "Unwrap ts h =
     (if num_wrap h = - 1 then (uint ts, h\<lparr>last_ts := ts, num_wrap := 0\<rparr>)
      else if ts < last_ts h then
        let n = (if last_ts h \<ge> 0xF0000000 \<and> ts < 0x0FFFFFFF then num_wrap h + 1 else num_wrap h)
        in (uint ts + n * 2 ^ 32, h\<lparr>last_ts := ts, num_wrap := n\<rparr>)
      else if ts - last_ts h > 0xF0000000 then (uint ts + (num_wrap h - 1) * 2 ^ 32, h)
      else (uint ts + num_wrap h * 2 ^ 32, h\<lparr>last_ts := ts\<rparr>))"

fun unwrap_all :: "32 word list \<Rightarrow> wrap_handler \<Rightarrow> int list" where
  "unwrap_all [] h = []"
| "unwrap_all (ts # tss) h = (case Unwrap ts h of (t, h') \<Rightarrow> t # unwrap_all tss h')"

text \<open>\<open>tracks h r\<close>: the handler has seen time \<open>r\<close> last (leaving out steps back over a wrap).\<close>

definition tracks :: "wrap_handler \<Rightarrow> int \<Rightarrow> bool" where
  "tracks h r \<longleftrightarrow> 0 \<le> r \<and> last_ts h = word_of_int r \<and> num_wrap h = r div 2 ^ 32"

text \<open>A timestamp of a time near the tracked one is extended to that time.\<close>

lemma Unwrap_near:
  assumes "tracks h r" "0 \<le> t" "\<bar>t - r\<bar> < 2 ^ 28"
  shows "fst (Unwrap (word_of_int t) h) = t \<and>
    (tracks (snd (Unwrap (word_of_int t) h)) t \<or> t < r \<and> tracks (snd (Unwrap (word_of_int t) h)) r)"
proof -
  define k u l v where "k = r div 2 ^ 32" and "u = r mod 2 ^ 32" and "l = t div 2 ^ 32" and "v = t mod 2 ^ 32"
  have r: "r = k * 2 ^ 32 + u" "0 \<le> u" "u < 2 ^ 32" and t: "t = l * 2 ^ 32 + v" "0 \<le> v" "v < 2 ^ 32"
    by (simp_all add: k_def u_def l_def v_def)
  have k: "0 \<le> k" using assms(1) by (simp add: k_def tracks_def pos_imp_zdiv_nonneg_iff)
  have near: "l = k \<or> l = k + 1 \<and> u - v > 2 ^ 32 - 2 ^ 28 \<or> l = k - 1 \<and> v - u > 2 ^ 32 - 2 ^ 28"
  proof -
    have d: "t - r < 2 ^ 28" "r - t < 2 ^ 28" using assms(3) by auto
    then have "l < k + 2" "k < l + 2" using r t by auto
    then consider "l = k" | "l = k + 1" | "l = k - 1" by linarith
    then show ?thesis using d r t by cases auto
  qed
  have uv: "uint (word_of_int t :: 32 word) = v" "uint (word_of_int r :: 32 word) = u"
    by (simp_all only: uint_word_of_int v_def u_def) simp_all
  have lt: "(word_of_int t :: 32 word) < word_of_int r \<longleftrightarrow> v < u"
    by (simp only: word_less_def uv)
  have sub: "uint (word_of_int t - word_of_int r :: 32 word) = v - u" if "u \<le> v"
    using that uv r t by (simp add: uint_sub_if')
  have bk: "word_of_int t - word_of_int r > (0xF0000000 :: 32 word) \<longleftrightarrow> v - u > 0xF0000000" if "u \<le> v"
    using sub [OF that] by (simp add: word_less_def)
  have wrap: "(word_of_int r :: 32 word) \<ge> 0xF0000000 \<and> (word_of_int t :: 32 word) < 0x0FFFFFFF \<longleftrightarrow>
      u \<ge> 0xF0000000 \<and> v < 0x0FFFFFFF"
    by (simp add: word_less_def word_le_def uv)
  have h: "last_ts h = word_of_int r" "num_wrap h = k" "num_wrap h \<noteq> - 1"
    using assms(1) k by (simp_all add: tracks_def k_def)
  have track: "tracks (h\<lparr>last_ts := word_of_int t, num_wrap := l\<rparr>) t"
    using assms(2) by (simp add: tracks_def l_def)
  from near consider (same) "l = k" | (up) "l = k + 1" "u - v > 2 ^ 32 - 2 ^ 28" | (down) "l = k - 1" "v - u > 2 ^ 32 - 2 ^ 28"
    by blast
  then show ?thesis
  proof cases
    case same
    then have "\<not> (v < u \<and> u \<ge> 0xF0000000 \<and> v < 0x0FFFFFFF)" "\<not> v - u > 0xF0000000"
      using r t assms(3) by (auto simp: abs_if split: if_splits)
    then show ?thesis
      using same h t(1) uv(1) track lt wrap bk by (auto simp: Unwrap_def Let_def)
  next
    case up
    then have "v < u \<and> u \<ge> 0xF0000000 \<and> v < 0x0FFFFFFF" using r t by auto
    then show ?thesis
      using up h t(1) uv(1) track lt wrap by (auto simp: Unwrap_def Let_def)
  next
    case down
    then have "\<not> v < u" "v - u > 0xF0000000" by auto
    moreover have "t < r" using down(1) r t by (simp add: algebra_simps)
    ultimately show ?thesis
      using down h t(1) uv(1) assms(1) lt bk by (auto simp: Unwrap_def Let_def)
  qed
qed

text \<open>
  \<open>within w m ts\<close>: every time lies less than \<open>w\<close> from the latest time before it, \<open>m\<close> at first.
\<close>

fun within :: "int \<Rightarrow> int \<Rightarrow> int list \<Rightarrow> bool" where
  "within w m [] = True"
| "within w m (t # ts) = (\<bar>t - m\<bar> < w \<and> within w (max m t) ts)"

lemma unwrap_all_near:
  assumes "tracks h r" "r \<le> m" "m - r < 2 ^ 27" "within (2 ^ 27) m ts" "\<forall>t\<in>set ts. 0 \<le> t"
  shows "unwrap_all (map word_of_int ts) h = ts"
  using assms
proof (induction ts arbitrary: h r m)
  case (Cons t ts)
  have near: "\<bar>t - r\<bar> < 2 ^ 28" and m: "\<bar>t - m\<bar> < 2 ^ 27"
    using Cons.prems(2-4) by auto
  obtain t' h' where u: "Unwrap (word_of_int t) h = (t', h')" by force
  have U: "t' = t" "tracks h' t \<or> t < r \<and> tracks h' r"
    using Unwrap_near [OF Cons.prems(1) _ near] Cons.prems(5) u by auto
  have "\<exists>r'. tracks h' r' \<and> r' \<le> max m t \<and> max m t - r' < 2 ^ 27"
    using U(2) m Cons.prems(2,3) by (auto simp: max_def)
  then have "unwrap_all (map word_of_int ts) h' = ts"
    using Cons.IH [of h'] Cons.prems(4,5) by auto
  with u U(1) show ?case by simp
qed simp

text \<open>
  C29. \<^verbatim>\<open>TimestampWrapAroundHandler\<close> extends 32-bit timestamps to the times they were taken from: if
  the first time is less than \<open>2 ^ 32\<close> and every later time lies less than \<open>2 ^ 27\<close> from the
  latest one before it (late or reordered packets included), \<^verbatim>\<open>Unwrap\<close> returns exactly the times,
  through any number of wraps.
\<close>

theorem Unwrap_recovers_times:
  assumes "t < 2 ^ 32" "\<forall>u\<in>set (t # ts). 0 \<le> u" "within (2 ^ 27) t ts"
  shows "unwrap_all (map word_of_int (t # ts)) TimestampWrapAroundHandler = t # ts"
proof -
  let ?h = "\<lparr>last_ts = word_of_int t, num_wrap = 0\<rparr>"
  have "tracks ?h t" using assms(1,2) by (simp add: tracks_def)
  then have "unwrap_all (map word_of_int ts) ?h = ts"
    using assms(2,3) by (intro unwrap_all_near [of ?h t t]) auto
  moreover have "uint (word_of_int t :: 32 word) = t"
    using assms(1,2) by (simp add: uint_word_of_int)
  ultimately show ?thesis
    by (simp add: Unwrap_def TimestampWrapAroundHandler_def)
qed

theorem Unwrap_recovers_times_witness:
  "unwrap_all (map word_of_int [4294967290, 4294967297, 4294967295, 4294967300]) TimestampWrapAroundHandler =
     [4294967290, 4294967297, 4294967295, 4294967300]"
  by (rule Unwrap_recovers_times) simp_all

section \<open>Calendar time\<close>

text \<open>\<^verbatim>\<open>struct tm\<close>: years since 1900, months from 0, days from 1.\<close>

record tm =
  tm_year :: int
  tm_mon :: int
  tm_mday :: int
  tm_hour :: int
  tm_min :: int
  tm_sec :: int

definition mdays :: "int list" where
  "mdays = [31, 28, 31, 30, 31, 30, 31, 31, 30, 31, 30, 31]"

definition cumul_mdays :: "int list" where
  "cumul_mdays = [0, 31, 59, 90, 120, 151, 181, 212, 243, 273, 304, 334]"

text \<open>
  The remainders and quotients of the year are used only after the test for 1970, where they are
  those of C++.
\<close>

definition expiry_in_leap_year :: "int \<Rightarrow> bool" where
  "expiry_in_leap_year year \<longleftrightarrow> year mod 4 = 0 \<and> (year mod 100 \<noteq> 0 \<or> year mod 400 = 0)"

definition TmToSeconds :: "tm \<Rightarrow> int" where
  "TmToSeconds tm =
     (let year = tm_year tm + 1900; month = tm_mon tm; day = tm_mday tm - 1;
          hour = tm_hour tm; min = tm_min tm; sec = tm_sec tm
      in if year < 1970 then - 1
      else if month < 0 \<or> month > 11 then - 1
      else if day < 0 \<or>
          day \<ge> mdays ! nat month + (if expiry_in_leap_year year \<and> month = 2 - 1 then 1 else 0) then - 1
      else if hour < 0 \<or> hour > 23 then - 1
      else if min < 0 \<or> min > 59 then - 1
      else if sec < 0 \<or> sec > 59 then - 1
      else
        let day = day + cumul_mdays ! nat month;
            day = day + ((year div 4 - 1970 div 4) - (year div 100 - 1970 div 100) + (year div 400 - 1970 div 400));
            day = (if expiry_in_leap_year year \<and> month \<le> 2 - 1 then day - 1 else day)
        in ((((year - 1970) * 365 + day) * 24 + hour) * 60 + min) * 60 + sec)"

text \<open>
  The Gregorian calendar: the days of a month and of a year, and the days from the start of 1970
  to a date, counted year by year and month by month.
\<close>

definition days_in_month :: "int \<Rightarrow> nat \<Rightarrow> int" where
  "days_in_month year m = (if expiry_in_leap_year year \<and> m = 1 then 29 else mdays ! m)"

definition days_in_year :: "int \<Rightarrow> int" where
  "days_in_year year = (\<Sum>m\<leftarrow>[0..<12]. days_in_month year m)"

definition epoch_days :: "tm \<Rightarrow> int" where
  "epoch_days tm =
     (\<Sum>n\<leftarrow>[0..<nat (tm_year tm - 70)]. days_in_year (1970 + int n)) +
     (\<Sum>m\<leftarrow>[0..<nat (tm_mon tm)]. days_in_month (tm_year tm + 1900) m) + (tm_mday tm - 1)"

definition valid_tm :: "tm \<Rightarrow> bool" where
  "valid_tm tm \<longleftrightarrow> 70 \<le> tm_year tm \<and> 0 \<le> tm_mon tm \<and> tm_mon tm \<le> 11 \<and>
     1 \<le> tm_mday tm \<and> tm_mday tm \<le> days_in_month (tm_year tm + 1900) (nat (tm_mon tm)) \<and>
     0 \<le> tm_hour tm \<and> tm_hour tm \<le> 23 \<and> 0 \<le> tm_min tm \<and> tm_min tm \<le> 59 \<and>
     0 \<le> tm_sec tm \<and> tm_sec tm \<le> 59"

lemma mdays_February: "mdays ! Suc 0 = 28"
  by (simp add: mdays_def)

lemma days_in_year_eq: "days_in_year year = (if expiry_in_leap_year year then 366 else 365)"
  by (simp add: days_in_year_def days_in_month_def mdays_def upt_rec)

lemma div_step:
  assumes "0 < (k :: int)"
  shows "(y + 1) div k = y div k + (if (y + 1) mod k = 0 then 1 else 0)"
proof (cases "y mod k = k - 1")
  case True
  have "y + 1 = k * (y div k) + (y mod k + 1)" by simp
  then have "y + 1 = k * (y div k + 1)" using True by (simp add: algebra_simps)
  then show ?thesis using assms by simp
next
  case False
  have *: "y + 1 = k * (y div k) + (y mod k + 1)" by simp
  have "0 < y mod k + 1" "y mod k + 1 < k"
    using assms False pos_mod_bound [of k y] pos_mod_sign [of k y] by linarith+
  then have "(y + 1) div k = y div k" "(y + 1) mod k = y mod k + 1"
    using int_div_pos_eq [OF *] int_mod_pos_eq [OF *] by simp_all
  then show ?thesis using \<open>0 < y mod k + 1\<close> by simp
qed

lemma leap_rule:
  "(q \<longrightarrow> p) \<Longrightarrow> (r \<longrightarrow> q) \<Longrightarrow>
   (if p then 1 else 0) - (if q then 1 else 0) + (if r then 1 else 0) = (if p \<and> (\<not> q \<or> r) then 1 else 0 :: int)"
  by (cases p; cases q; cases r) simp_all

lemma leap_iff:
  "(if y mod 4 = 0 then 1 else 0) - (if y mod 100 = 0 then 1 else 0) + (if y mod 400 = 0 then 1 else 0) =
     (if expiry_in_leap_year y then 1 else 0 :: int)"
  unfolding expiry_in_leap_year_def mod_eq_0_iff_dvd
  by (rule leap_rule; (rule impI, erule dvd_trans [rotated], simp))

lemma year_sum:
  "S = 365 * n + ((a - a0) - (b - b0) + (c - c0)) \<Longrightarrow>
   S + 365 + (x - y + z) = 365 * (n + 1) + ((a + x - a0) - (b + y - b0) + (c + z - c0))" for S :: int
  by simp

lemma leap_days:
  "(\<Sum>n\<leftarrow>[0..<n]. days_in_year (1970 + int n)) =
     365 * int n + (((1969 + int n) div 4 - 1970 div 4) - ((1969 + int n) div 100 - 1970 div 100) +
       ((1969 + int n) div 400 - 1970 div 400))"
proof (induction n)
  case (Suc n)
  have d: "(1969 + int (Suc n)) div k = (1969 + int n) div k + (if (1970 + int n) mod k = 0 then 1 else 0)"
    if "0 < k" for k
    using div_step [OF that, of "1969 + int n"] by (simp add: ac_simps)
  define x y z :: int where "x = (if (1970 + int n) mod 4 = 0 then 1 else 0)"
    and "y = (if (1970 + int n) mod 100 = 0 then 1 else 0)" and "z = (if (1970 + int n) mod 400 = 0 then 1 else 0)"
  have "(\<Sum>n\<leftarrow>[0..<Suc n]. days_in_year (1970 + int n)) =
      (\<Sum>n\<leftarrow>[0..<n]. days_in_year (1970 + int n)) + 365 +
      (if expiry_in_leap_year (1970 + int n) then 1 else 0)"
    by (simp add: days_in_year_eq)
  also have "\<dots> = (\<Sum>n\<leftarrow>[0..<n]. days_in_year (1970 + int n)) + 365 + (x - y + z)"
    unfolding leap_iff [of "1970 + int n", symmetric] x_def y_def z_def by (rule refl)
  also have "\<dots> = 365 * (int n + 1) + (((1969 + int n) div 4 + x - 1970 div 4) - ((1969 + int n) div 100 + y - 1970 div 100) +
      ((1969 + int n) div 400 + z - 1970 div 400))"
    by (rule year_sum [OF Suc.IH])
  also have "\<dots> = 365 * int (Suc n) + (((1969 + int (Suc n)) div 4 - 1970 div 4) - ((1969 + int (Suc n)) div 100 - 1970 div 100) +
      ((1969 + int (Suc n)) div 400 - 1970 div 400))"
    unfolding d [OF zero_less_numeral] x_def y_def z_def by (simp only: of_nat_Suc add.commute [of 1])
  finally show ?case .
qed simp

lemma cumul_mdays_table:
  "list_all (\<lambda>m. (\<Sum>i\<leftarrow>[0..<m]. if l \<and> i = 1 then 29 else mdays ! i) =
     cumul_mdays ! m + (if l \<and> 2 \<le> m then 1 else 0)) [0..<12]"
proof -
  have "list_all (\<lambda>m. (\<Sum>i\<leftarrow>[0..<m]. if True \<and> i = 1 then 29 else mdays ! i) =
      cumul_mdays ! m + (if True \<and> 2 \<le> m then 1 else 0)) [0..<12]"
    "list_all (\<lambda>m. (\<Sum>i\<leftarrow>[0..<m]. if False \<and> i = 1 then 29 else mdays ! i) =
      cumul_mdays ! m + (if False \<and> 2 \<le> m then 1 else 0)) [0..<12]"
    by code_simp+
  then show ?thesis by (cases l) simp_all
qed

lemma cumul_mdays_sum:
  assumes "m < 12"
  shows "(\<Sum>i\<leftarrow>[0..<m]. days_in_month year i) =
    cumul_mdays ! m + (if expiry_in_leap_year year \<and> 2 \<le> m then 1 else 0)"
  using cumul_mdays_table [of "expiry_in_leap_year year"] assms
  by (simp add: list_all_iff days_in_month_def)

lemma TmToSeconds_valid:
  assumes "valid_tm tm"
  shows "TmToSeconds tm = 86400 * epoch_days tm + 3600 * tm_hour tm + 60 * tm_min tm + tm_sec tm"
proof -
  define year m where "year = tm_year tm + 1900" and "m = nat (tm_mon tm)"
  then have y: "1970 \<le> year" and m: "m < 12" and mon: "tm_mon tm = int m"
    using assms by (auto simp: valid_tm_def)
  have leap: "(\<Sum>n\<leftarrow>[0..<nat (year - 1970)]. days_in_year (1970 + int n)) =
      365 * (year - 1970) + ((((year - 1) div 4 - 1970 div 4) - ((year - 1) div 100 - 1970 div 100)) +
       ((year - 1) div 400 - 1970 div 400))"
    using leap_days [of "nat (year - 1970)"] y by (simp add: add.commute)
  have step: "year div k = (year - 1) div k + (if year mod k = 0 then 1 else 0)" if "0 < k" for k
    using div_step [OF that, of "year - 1"] by simp
  let ?leap = "if expiry_in_leap_year year then 1 else 0 :: int"
  have count: "(year div 4 - 1970 div 4) - (year div 100 - 1970 div 100) + (year div 400 - 1970 div 400) =
      ((year - 1) div 4 - 1970 div 4) - ((year - 1) div 100 - 1970 div 100) +
        ((year - 1) div 400 - 1970 div 400) + ?leap"
    unfolding leap_iff [symmetric] by (simp only: step zero_less_numeral)
  have ep: "epoch_days tm = 365 * (year - 1970) +
      ((year div 4 - 1970 div 4) - (year div 100 - 1970 div 100) + (year div 400 - 1970 div 400)) - ?leap +
      (cumul_mdays ! m + (if expiry_in_leap_year year \<and> 2 \<le> m then 1 else 0)) + (tm_mday tm - 1)"
    unfolding epoch_days_def count using leap cumul_mdays_sum [OF m, of year] by (simp add: year_def m_def)
  have ts: "TmToSeconds tm =
      (((365 * (year - 1970) + ((tm_mday tm - 1) + cumul_mdays ! m +
          ((year div 4 - 1970 div 4) - (year div 100 - 1970 div 100) + (year div 400 - 1970 div 400)) -
          (if expiry_in_leap_year year \<and> m \<le> 1 then 1 else 0))) * 24 + tm_hour tm) * 60 + tm_min tm) * 60 + tm_sec tm"
    using assms by (auto simp: TmToSeconds_def Let_def valid_tm_def days_in_month_def year_def m_def mdays_February)
  show ?thesis
    using assms m unfolding ts ep by (cases "expiry_in_leap_year year") (auto simp: algebra_simps)
qed

text \<open>
  C28. \<^verbatim>\<open>TmToSeconds\<close> agrees with the calendar: for a valid date and time from 1970 on it returns the
  seconds since the start of 1970, counting the days of every year and month before it, and for
  any other value it returns -1.
\<close>

theorem TmToSeconds_calendar:
  "TmToSeconds tm =
     (if valid_tm tm then 86400 * epoch_days tm + 3600 * tm_hour tm + 60 * tm_min tm + tm_sec tm else - 1)"
proof (cases "valid_tm tm")
  case True
  then show ?thesis using TmToSeconds_valid by simp
next
  case False
  then show ?thesis
    by (auto simp: TmToSeconds_def valid_tm_def days_in_month_def Let_def mdays_February)
qed

end
