(* ===== verification/SslIdentity.thy ===== *)
theory SslIdentity
  imports Base64 TimeUtils "HOL-Library.Monad_Syntax"
begin

text \<open>
  \<^verbatim>\<open>rtc_base/ssl_identity.cc\<close>: the PEM form of binary data and back, and the reader of ASN.1 times
  from which the expiry time of a certificate comes. \<^verbatim>\<open>std::string::find\<close> and \<^verbatim>\<open>substr\<close> are modelled
  with their results (\<open>None\<close> for \<^verbatim>\<open>npos\<close>) and with the wrap-around of \<^verbatim>\<open>size_t\<close> in the length given to
  \<^verbatim>\<open>substr\<close>. Reading an array past its end has no value: the ASN.1 reader then returns \<open>None\<close>.
\<close>

section \<open>Strings of the standard library\<close>

function find_from :: "string \<Rightarrow> string \<Rightarrow> nat \<Rightarrow> nat option" where
  "find_from pat s pos =
     (if length s < pos + length pat then None
      else if take (length pat) (drop pos s) = pat then Some pos
      else find_from pat s (pos + 1))"
  by pat_completeness auto
termination
  by (relation "measure (\<lambda>(pat, s, pos). length s + 1 - (pos + length pat))") auto

declare find_from.simps [simp del]

definition substr :: "string \<Rightarrow> nat \<Rightarrow> nat \<Rightarrow> string" where
  "substr s pos count = take count (drop pos s)"

text \<open>The difference of two positions in a string as a \<^verbatim>\<open>size_t\<close> (positions are below \<open>2 ^ 64\<close>).\<close>

definition size_sub :: "nat \<Rightarrow> nat \<Rightarrow> nat" where
  "size_sub a b = (if b \<le> a then a - b else 2 ^ 64 + a - b)"

lemma find_from_eq:
  assumes "from \<le> p" "take (length pat) (drop p s) = pat" "p + length pat \<le> length s"
    "\<And>q. from \<le> q \<Longrightarrow> q < p \<Longrightarrow> take (length pat) (drop q s) \<noteq> pat"
  shows "find_from pat s from = Some p"
  using assms
proof (induction "p - from" arbitrary: "from")
  case 0
  then show ?case by (subst find_from.simps) simp
next
  case (Suc n)
  then have "take (length pat) (drop from s) \<noteq> pat" by simp
  with Suc show ?case by (subst find_from.simps) simp
qed

section \<open>PEM\<close>

definition kPemTypeCertificate :: string where "kPemTypeCertificate = ''CERTIFICATE''"
definition kPemTypeRsaPrivateKey :: string where "kPemTypeRsaPrivateKey = ''RSA PRIVATE KEY''"
definition kPemTypeEcPrivateKey :: string where "kPemTypeEcPrivateKey = ''EC PRIVATE KEY''"

definition newline :: char where "newline = CHR 0x0A"

text \<open>\<open>None\<close> is the result false; \<^verbatim>\<open>Base64::Decode\<close> drops the success flag of the decoder.\<close>

definition PemToDer :: "string \<Rightarrow> string \<Rightarrow> bytes option" where
  "PemToDer pem_type pem_string =
     (case find_from (''-----BEGIN '' @ pem_type @ ''-----'') pem_string 0 of
        None \<Rightarrow> None
      | Some header \<Rightarrow>
          (case find_from [newline] pem_string header of
             None \<Rightarrow> None
           | Some body \<Rightarrow>
               (case find_from (''-----END '' @ pem_type @ ''-----'') pem_string 0 of
                  None \<Rightarrow> None
                | Some trailer \<Rightarrow>
                    (let inner = substr pem_string (body + 1) (size_sub trailer (body + 1))
                     in Some (Decode inner (DO_PARSE_WHITE OR DO_PAD_ANY OR DO_TERM_BUFFER))))))"

definition kChunkSize :: nat where "kChunkSize = 64"

fun pem_chunks :: "nat \<Rightarrow> nat \<Rightarrow> string \<Rightarrow> string" where
  "pem_chunks 0 chunk_offset b64_encoded = []"
| "pem_chunks (Suc n) chunk_offset b64_encoded =
     substr b64_encoded chunk_offset kChunkSize @ [newline] @
     pem_chunks n (chunk_offset + kChunkSize) b64_encoded"

definition DerToPem :: "string \<Rightarrow> bytes \<Rightarrow> string" where
  "DerToPem pem_type data =
     (let b64_encoded = EncodeFromArray data;
          chunks = (length b64_encoded + (kChunkSize - 1)) div kChunkSize
      in ''-----BEGIN '' @ pem_type @ ''-----'' @ [newline] @ pem_chunks chunks 0 b64_encoded @
         ''-----END '' @ pem_type @ ''-----'' @ [newline])"

text \<open>The chunks are the encoded text with blanks in it.\<close>

lemma tab_newline: "tab newline = b64_sp"
  by code_simp

lemma pem_chunks_text:
  assumes "length t \<le> off + n * kChunkSize" "\<forall>c\<in>set t. tab c \<noteq> b64_sp"
  shows "filter (\<lambda>c. tab c \<noteq> b64_sp) (pem_chunks n off t) = drop off t"
  using assms
proof (induction n arbitrary: off)
  case (Suc n)
  have "filter (\<lambda>c. tab c \<noteq> b64_sp) (take kChunkSize (drop off t)) = take kChunkSize (drop off t)"
    using Suc.prems(2) by (intro filter_True) (auto dest!: in_set_takeD in_set_dropD)
  with Suc show ?case
    by (simp add: substr_def tab_newline add.commute flip: drop_drop)
qed simp

lemma pem_chunks_set: "set (pem_chunks n off t) \<subseteq> insert newline (set t)"
  by (induction n arbitrary: off) (auto simp: substr_def dest!: in_set_takeD in_set_dropD)

lemma Encode_no_dash: "CHR ''-'' \<notin> set (EncodeFromArray d)"
proof -
  have "\<forall>c\<in>set (EncodeFromArray d). tab c \<noteq> b64_il"
    using b64_marks digit_not_mark
    by (induction d rule: bytes_by_three) (simp_all add: Encode_simps tab_digit tab_kPad b64_c_less)
  moreover have "tab CHR ''-'' = b64_il" by code_simp
  ultimately show ?thesis by metis
qed

lemma match_nth:
  assumes "take (length pat) (drop q s) = pat" "i < length pat"
  shows "q + length pat \<le> length s" "s ! (q + i) = pat ! i"
proof -
  have "length (take (length pat) (drop q s)) = length pat" using assms(1) by simp
  then show "q + length pat \<le> length s" using assms(2) by (auto simp: min_def split: if_splits)
  then have "take (length pat) (drop q s) ! i = s ! (q + i)" using assms(2) by simp
  with assms(1) show "s ! (q + i) = pat ! i" by simp
qed

text \<open>
  In a text made of a header line, lines without dashes and the trailer, the trailer is found only
  where it stands: inside the header line the fourth to sixth characters differ, across the end of
  a line there is a newline, and no other line has a dash.
\<close>

lemma trailer_found:
  fixes B t :: string
  assumes "newline \<notin> set t" "CHR ''-'' \<notin> set B"
  defines "H \<equiv> ''-----BEGIN '' @ t @ ''-----''" and "P \<equiv> ''-----END '' @ t @ ''-----''"
  defines "s \<equiv> H @ [newline] @ B @ P @ [newline]"
  shows "find_from P s 0 = Some (length H + 1 + length B)"
proof (rule find_from_eq)
  show "take (length P) (drop (length H + 1 + length B) s) = P"
    by (simp add: s_def)
  show "length H + 1 + length B + length P \<le> length s"
    by (simp add: s_def)
  fix q assume q: "q < length H + 1 + length B"
  show "take (length P) (drop q s) \<noteq> P"
  proof
    assume m: "take (length P) (drop q s) = P"
    have nl: "newline \<notin> set P" using assms(1) by (simp add: P_def newline_def)
    have P0: "P ! 0 = CHR ''-''" "P ! 3 = CHR ''-''" "P ! 4 = CHR ''-''" "P ! 5 = CHR ''E''" "5 < length P"
      by (simp_all add: P_def)
    have lens: "length H = length t + 16" "length P = length t + 14"
      by (simp_all add: H_def P_def)
    consider "length H < q" | "q \<le> length H" "length H < q + length P" | "q + length P \<le> length H"
      by linarith
    then show False
    proof cases
      case 1
      then obtain j where j: "q = length H + 1 + j" by (metis add.assoc add.commute less_iff_Suc_add plus_1_eq_Suc)
      then have "s ! q = B ! (q - length H - 1)"
        using q by (simp add: s_def nth_append)
      moreover have "B ! (q - length H - 1) \<in> set B" using q 1 by simp
      moreover have "0 < length P" using P0(5) by linarith
      ultimately show False using match_nth(2) [OF m, of 0] P0(1) assms(2) by auto
    next
      case 2
      then have "s ! length H = newline" by (simp add: s_def nth_append)
      with 2 match_nth(2) [OF m, of "length H - q"] have "P ! (length H - q) = newline" by simp
      moreover have "length H - q < length P" using 2 by linarith
      ultimately show False using nl nth_mem [of "length H - q" P] by auto
    next
      case 3
      then have "q \<in> {0, 1, 2}" using lens by auto
      moreover have "s ! 5 = CHR ''B''" by (simp add: s_def H_def)
      ultimately show False
        using match_nth(2) [OF m, of 5] match_nth(2) [OF m, of 4] match_nth(2) [OF m, of 3] P0 by auto
    qed
  qed
qed simp

text \<open>
  C11. The PEM form of binary data reads back as that data: for every pem type without a newline in
  it, \<^verbatim>\<open>PemToDer\<close> of what \<^verbatim>\<open>DerToPem\<close> writes succeeds and returns the bytes, for data of any length.
\<close>

theorem pem_roundtrip:
  assumes "newline \<notin> set t"
  shows "PemToDer t (DerToPem t data) = Some data"
proof -
  define b64 where "b64 = EncodeFromArray data"
  define B where "B = pem_chunks ((length b64 + (kChunkSize - 1)) div kChunkSize) 0 b64"
  define H P where "H = ''-----BEGIN '' @ t @ ''-----''" and "P = ''-----END '' @ t @ ''-----''"
  have s: "DerToPem t data = H @ [newline] @ B @ P @ [newline]"
    by (simp add: DerToPem_def H_def P_def B_def b64_def Let_def)
  have "CHR ''-'' \<notin> set B"
    using pem_chunks_set Encode_no_dash unfolding B_def b64_def by (fastforce simp: newline_def)
  then have trailer: "find_from P (DerToPem t data) 0 = Some (length H + 1 + length B)"
    using trailer_found [OF assms, of B] by (simp add: s H_def P_def)
  have header: "find_from H (DerToPem t data) 0 = Some 0"
    by (rule find_from_eq) (simp_all add: s)
  have body: "find_from [newline] (DerToPem t data) 0 = Some (length H)"
  proof (rule find_from_eq)
    fix q assume q: "q < length H"
    have "H ! q \<in> set H" using q by simp
    then have "H ! q \<noteq> newline" using assms by (auto simp: H_def newline_def)
    then show "take (length [newline]) (drop q (DerToPem t data)) \<noteq> [newline]"
      using q match_nth(2) [of "[newline]" q "DerToPem t data" 0] by (auto simp: s nth_append)
  qed (simp_all add: s)
  have "length b64 \<le> 0 + (length b64 + (kChunkSize - 1)) div kChunkSize * kChunkSize"
    by (simp add: kChunkSize_def)
  then have "filter (\<lambda>c. tab c \<noteq> b64_sp) B = b64"
    using pem_chunks_text [of b64 0] Encode_no_blank [of data] by (simp add: B_def b64_def)
  then have "Decode B (DO_PARSE_WHITE OR DO_PAD_ANY OR DO_TERM_BUFFER) = data"
    using decode_text [of "DO_PARSE_WHITE OR DO_PAD_ANY OR DO_TERM_BUFFER" B data]
    by (simp add: Decode_def b64_text_def b64_def b64_flag_defs)
  moreover have "substr (DerToPem t data) (length H + 1) (size_sub (length H + 1 + length B) (length H + 1)) = B"
    by (simp add: substr_def size_sub_def s)
  ultimately show ?thesis
    using header trailer body by (simp add: PemToDer_def H_def P_def)
qed

theorem pem_roundtrip_witness:
  "PemToDer ''CERTIFICATE'' (DerToPem ''CERTIFICATE'' [0x30, 0x82, 0x01]) = Some [0x30, 0x82, 0x01]"
  by (rule pem_roundtrip) (simp add: newline_def)

text \<open>
  A body that is not base64 is not an error: the digits before the first illegal character are
  decoded and the result is true.
\<close>

lemma pem_garbage_accepted:
  "PemToDer ''X'' (''-----BEGIN X-----'' @ [newline] @ ''QUJD*'' @ [newline] @ ''-----END X-----'') =
     Some [0x41, 0x42, 0x43]"
  by code_simp

section \<open>ASN.1 times\<close>

text \<open>
  \<^verbatim>\<open>ASN1ReadInt\<close>: the number, the rest of the bytes and the new \<^verbatim>\<open>*np\<close>, or \<open>None\<close> when it reads past the
  end of the array.
\<close>

fun asn1_number :: "int \<Rightarrow> bytes \<Rightarrow> int" where
  "asn1_number x [] = x"
| "asn1_number x (b # bs) = asn1_number (10 * x + uint b - 48) bs"

definition ASN1ReadInt :: "bytes \<Rightarrow> nat \<Rightarrow> nat \<Rightarrow> (int \<times> bytes \<times> nat) option" where
  "ASN1ReadInt p np n =
     (if length p < n then None else Some (asn1_number 0 (take n p), drop n p, size_sub np n))"

definition is_digit :: "byte \<Rightarrow> bool" where
  "is_digit b \<longleftrightarrow> 48 \<le> b \<and> b \<le> 57"

text \<open>\<^verbatim>\<open>strspn(s, "0123456789")\<close> of an array that holds a byte that is no digit.\<close>

definition digit_span :: "bytes \<Rightarrow> nat" where
  "digit_span s = length (takeWhile is_digit s)"

definition ASN1TimeToSec :: "bytes \<Rightarrow> bool \<Rightarrow> int option" where
  "ASN1TimeToSec s long_format =
     (if length s = 0 \<or> s ! (length s - 1) \<noteq> 0x5A then Some (- 1)
      else if digit_span s + 1 \<noteq> length s then Some (- 1)
      else if long_format \<and> length s < 11 then Some (- 1)
      else if \<not> long_format \<and> length s < 9 then Some (- 1)
      else do {
        (year, s1, bytes_left) \<leftarrow>
          (if long_format then
             do { (y, s1, left) \<leftarrow> ASN1ReadInt s (length s) 4; Some (y - 1900, s1, left) }
           else
             do { (y, s1, left) \<leftarrow> ASN1ReadInt s (length s) 2;
                  Some (if y < 50 then y + 100 else y, s1, left) });
        (mon, s2, bytes_left) \<leftarrow> ASN1ReadInt s1 bytes_left 2;
        (mday, s3, bytes_left) \<leftarrow> ASN1ReadInt s2 bytes_left 2;
        (hour, s4, bytes_left) \<leftarrow> ASN1ReadInt s3 bytes_left 2;
        (mi, s5, bytes_left) \<leftarrow> ASN1ReadInt s4 bytes_left 2;
        (sec, s6, bytes_left) \<leftarrow> ASN1ReadInt s5 bytes_left 2;
        (if bytes_left \<noteq> 1 then Some (- 1)
         else Some (TmToSeconds \<lparr>tm_year = year, tm_mon = mon - 1, tm_mday = mday,
                                 tm_hour = hour, tm_min = mi, tm_sec = sec\<rparr>))
      })"

text \<open>The two digits of a number below 100, and the text of a time in the two formats.\<close>

definition two :: "int \<Rightarrow> bytes" where
  "two n = [word_of_int (48 + n div 10), word_of_int (48 + n mod 10)]"

definition asn1_text :: "bool \<Rightarrow> tm \<Rightarrow> bytes" where
  "asn1_text long_format tm =
     (if long_format then two ((tm_year tm + 1900) div 100) else []) @ two ((tm_year tm + 1900) mod 100) @
     two (tm_mon tm + 1) @ two (tm_mday tm) @ two (tm_hour tm) @ two (tm_min tm) @ two (tm_sec tm) @ [0x5A]"

lemma digit_word:
  assumes "0 \<le> k" "k < 10"
  shows "uint (word_of_int (48 + k) :: byte) = 48 + k"
  using assms by (simp only: uint_word_of_int) simp

lemma asn1_number_two:
  assumes "0 \<le> n" "n < 100"
  shows "asn1_number x (two n @ bs) = asn1_number (100 * x + n) bs"
proof -
  have "uint (word_of_int (48 + n div 10) :: byte) = 48 + n div 10"
    "uint (word_of_int (48 + n mod 10) :: byte) = 48 + n mod 10"
    using assms by (intro digit_word; simp)+
  then show ?thesis by (simp add: two_def algebra_simps del: of_int_add)
qed

lemma two_length: "length (two n) = 2"
  by (simp add: two_def)

lemma two_digits:
  assumes "0 \<le> n" "n < 100"
  shows "list_all is_digit (two n)"
proof -
  have "is_digit (word_of_int (48 + k))" if "0 \<le> k" "k < 10" for k
    using that by (simp add: is_digit_def word_le_def digit_word del: of_int_add)
  moreover have "0 \<le> n div 10" "n div 10 < 10" "0 \<le> n mod 10" "n mod 10 < 10" using assms by auto
  ultimately show ?thesis unfolding two_def by simp
qed

lemma ASN1ReadInt_two:
  assumes "0 \<le> n" "n < 100" "2 \<le> np"
  shows "ASN1ReadInt (two n @ bs) np 2 = Some (n, bs, np - 2)"
  using asn1_number_two [OF assms(1,2), of 0 "[]"] assms(3)
  by (simp add: ASN1ReadInt_def two_length size_sub_def)

lemma ASN1ReadInt_four:
  assumes "0 \<le> n" "n < 10000" "4 \<le> np"
  shows "ASN1ReadInt (two (n div 100) @ two (n mod 100) @ bs) np 4 = Some (n, bs, np - 4)"
  using asn1_number_two [of "n div 100" 0 "two (n mod 100)"] asn1_number_two [of "n mod 100" "n div 100" "[]"] assms
  by (simp add: ASN1ReadInt_def two_length size_sub_def)

lemma digit_span_text: "list_all is_digit ds \<Longrightarrow> digit_span (ds @ [0x5A]) = length ds"
  by (simp add: digit_span_def takeWhile_append is_digit_def list_all_iff)

lemma days_in_month_le: "m < 12 \<Longrightarrow> days_in_month y m \<le> 31"
proof -
  have "list_all (\<lambda>d. d \<le> 31) mdays" by (simp add: mdays_def)
  moreover have "length mdays = 12" by (simp add: mdays_def)
  ultimately show "m < 12 \<Longrightarrow> days_in_month y m \<le> 31"
    by (simp add: days_in_month_def list_all_length)
qed

text \<open>
  Reading a time of a certificate gives the time that was written: for a valid calendar time,
  \<^verbatim>\<open>ASN1TimeToSec\<close> of its text, \<open>yyyymmddhhmmssZ\<close> up to the year 9999 or \<open>yymmddhhmmssZ\<close> up to the
  year 2049, returns the seconds of that time since the start of 1970.
\<close>

lemma asn1_time_roundtrip:
  assumes "valid_tm tm" "tm_year tm + 1900 < (if long_format then 10000 else 2050)"
  shows "ASN1TimeToSec (asn1_text long_format tm) long_format =
    Some (86400 * epoch_days tm + 3600 * tm_hour tm + 60 * tm_min tm + tm_sec tm)"
proof -
  let ?y = "tm_year tm + 1900"
  define ds where "ds = (if long_format then two (?y div 100) else []) @ two (?y mod 100) @
    two (tm_mon tm + 1) @ two (tm_mday tm) @ two (tm_hour tm) @ two (tm_min tm) @ two (tm_sec tm)"
  have t: "asn1_text long_format tm = ds @ [0x5A]"
    by (simp add: ds_def asn1_text_def)
  have y: "?y < 10000" "0 \<le> ?y" "\<not> long_format \<Longrightarrow> 1970 \<le> ?y \<and> ?y < 2050"
    using assms by (auto simp: valid_tm_def split: if_splits)
  have "nat (tm_mon tm) < 12" using assms(1) by (auto simp: valid_tm_def)
  then have f: "0 \<le> tm_mon tm + 1" "tm_mon tm + 1 < 100" "0 \<le> tm_mday tm" "tm_mday tm < 100"
    "0 \<le> tm_hour tm" "tm_hour tm < 100" "0 \<le> tm_min tm" "tm_min tm < 100" "0 \<le> tm_sec tm" "tm_sec tm < 100"
    using assms(1) days_in_month_le [of "nat (tm_mon tm)" ?y] by (auto simp: valid_tm_def)
  have yy: "0 \<le> ?y div 100" "?y div 100 < 100" "0 \<le> ?y mod 100" "?y mod 100 < 100" using y by auto
  have "list_all is_digit ds" "length ds = (if long_format then 14 else 12)"
    using f yy by (auto simp: ds_def two_digits two_length)
  then have sp: "digit_span (ds @ [0x5A]) + 1 = length (ds @ [0x5A])" and
    len: "length (ds @ [0x5A]) = (if long_format then 15 else 13)"
    by (simp_all add: digit_span_text)
  have eta: "\<lparr>tm_year = tm_year tm, tm_mon = tm_mon tm, tm_mday = tm_mday tm, tm_hour = tm_hour tm,
      tm_min = tm_min tm, tm_sec = tm_sec tm\<rparr> = tm" by simp
  have z: "(ds @ [0x5A]) ! (length (ds @ [0x5A]) - 1) = 0x5A" by simp
  have "\<not> long_format \<Longrightarrow> ?y mod 100 = (if ?y < 2000 then ?y - 1900 else ?y - 2000)"
    using y(3) int_mod_pos_eq [of ?y 100 19 "?y - 1900"] int_mod_pos_eq [of ?y 100 20 "?y - 2000"] by simp
  then have "\<not> long_format \<Longrightarrow> (if ?y mod 100 < 50 then ?y mod 100 + 100 else ?y mod 100) = tm_year tm"
    using y(3) by simp
  then show ?thesis
    using assms(1) y(1,2) f yy
    unfolding t ASN1TimeToSec_def unfolding z unfolding sp len
    by (cases long_format) (simp_all add: ds_def ASN1ReadInt_two ASN1ReadInt_four TmToSeconds_valid eta)
qed

text \<open>
  C39. The reader runs past the end of a time that is too short: it tests for 11 bytes (9 in the
  short format) and then reads 14 (12). Exactly the times made of digits and a final \<^verbatim>\<open>Z\<close> whose
  length lies between these bounds are read past their end.
\<close>

theorem asn1_short_time_overread:
  "ASN1TimeToSec s long_format = None \<longleftrightarrow>
     s \<noteq> [] \<and> last s = 0x5A \<and> digit_span s + 1 = length s \<and>
     (if long_format then 11 \<le> length s \<and> length s < 14 else 9 \<le> length s \<and> length s < 12)"
  by (cases "s = []"; cases long_format)
    (auto simp: ASN1TimeToSec_def ASN1ReadInt_def last_conv_nth)

end
