(* ===== verification/ByteBuffer.thy ===== *)
theory ByteBuffer
  imports XrtcPrelude
begin

text \<open>
  \<^verbatim>\<open>rtc_base/byte_order.h\<close> and \<^verbatim>\<open>rtc_base/byte_buffer.h\<close>, \<^verbatim>\<open>byte_buffer.cc\<close>: integers in network
  byte order, their writer and their reader. The host is little-endian: a word in memory is the
  list of its bytes, low byte first, and \<^verbatim>\<open>htobe\<close> reverses it. A read returns the value (\<open>None\<close> for
  the result false) and the reader afterwards; the tests for a null destination are not modelled.
  The interface between an encoder and its decoder is the locale \<open>codec\<close>, interpreted for every
  width and for the variable-length form; the round trip of a whole message rests on it.
\<close>

section \<open>Byte order\<close>

definition le64 :: "64 word \<Rightarrow> bytes" where
  "le64 w = le32 (ucast w) @ le32 (ucast (drop_bit 32 w))"

definition get_le64 :: "nat \<Rightarrow> bytes \<Rightarrow> 64 word" where
  "get_le64 i bs = ucast (get_le32 i bs) OR push_bit 32 (ucast (get_le32 (i + 4) bs))"

definition htobe16 :: "16 word \<Rightarrow> 16 word" where
  "htobe16 v = get_le16 0 (rev (le16 v))"

definition htobe32 :: "32 word \<Rightarrow> 32 word" where
  "htobe32 v = get_le32 0 (rev (le32 v))"

definition htobe64 :: "64 word \<Rightarrow> 64 word" where
  "htobe64 v = get_le64 0 (rev (le64 v))"

definition HostToNetwork16 :: "16 word \<Rightarrow> 16 word" where "HostToNetwork16 n = htobe16 n"
definition HostToNetwork32 :: "32 word \<Rightarrow> 32 word" where "HostToNetwork32 n = htobe32 n"
definition HostToNetwork64 :: "64 word \<Rightarrow> 64 word" where "HostToNetwork64 n = htobe64 n"
definition NetworkToHost16 :: "16 word \<Rightarrow> 16 word" where "NetworkToHost16 n = htobe16 n"
definition NetworkToHost32 :: "32 word \<Rightarrow> 32 word" where "NetworkToHost32 n = htobe32 n"
definition NetworkToHost64 :: "64 word \<Rightarrow> 64 word" where "NetworkToHost64 n = htobe64 n"

lemmas net_defs = HostToNetwork16_def HostToNetwork32_def HostToNetwork64_def
  NetworkToHost16_def NetworkToHost32_def NetworkToHost64_def

text \<open>Access to memory, a list of bytes, at an offset inside it.\<close>

definition Set8 :: "bytes \<Rightarrow> nat \<Rightarrow> byte \<Rightarrow> bytes" where "Set8 memory offset v = memory[offset := v]"
definition Get8 :: "bytes \<Rightarrow> nat \<Rightarrow> byte" where "Get8 memory offset = memory ! offset"
definition SetBE16 :: "bytes \<Rightarrow> 16 word \<Rightarrow> bytes" where "SetBE16 memory v = le16 (htobe16 v) @ drop 2 memory"
definition SetBE32 :: "bytes \<Rightarrow> 32 word \<Rightarrow> bytes" where "SetBE32 memory v = le32 (htobe32 v) @ drop 4 memory"
definition SetBE64 :: "bytes \<Rightarrow> 64 word \<Rightarrow> bytes" where "SetBE64 memory v = le64 (htobe64 v) @ drop 8 memory"
definition GetBE16 :: "bytes \<Rightarrow> 16 word" where "GetBE16 memory = htobe16 (get_le16 0 memory)"
definition GetBE32 :: "bytes \<Rightarrow> 32 word" where "GetBE32 memory = htobe32 (get_le32 0 memory)"
definition GetBE64 :: "bytes \<Rightarrow> 64 word" where "GetBE64 memory = htobe64 (get_le64 0 memory)"
definition SetLE16 :: "bytes \<Rightarrow> 16 word \<Rightarrow> bytes" where "SetLE16 memory v = le16 v @ drop 2 memory"
definition SetLE32 :: "bytes \<Rightarrow> 32 word \<Rightarrow> bytes" where "SetLE32 memory v = le32 v @ drop 4 memory"
definition SetLE64 :: "bytes \<Rightarrow> 64 word \<Rightarrow> bytes" where "SetLE64 memory v = le64 v @ drop 8 memory"
definition GetLE16 :: "bytes \<Rightarrow> 16 word" where "GetLE16 memory = get_le16 0 memory"
definition GetLE32 :: "bytes \<Rightarrow> 32 word" where "GetLE32 memory = get_le32 0 memory"
definition GetLE64 :: "bytes \<Rightarrow> 64 word" where "GetLE64 memory = get_le64 0 memory"

lemma length_le64 [simp]: "length (le64 w) = 8"
  by (simp add: le64_def)

lemma join64: "ucast (ucast w :: 32 word) OR push_bit 32 (ucast (ucast (drop_bit 32 w) :: 32 word)) = (w :: 64 word)"
  by (rule bit_word_eqI) (auto simp: bit_simps)

lemma high_bits32: "32 \<le> n \<Longrightarrow> \<not> bit (w :: 32 word) n"
  by (auto dest: bit_imp_le_length)

lemma split64_low: "ucast (ucast a OR push_bit 32 (ucast b) :: 64 word) = (a :: 32 word)"
  by (rule bit_word_eqI) (auto simp: bit_simps)

lemma split64_high: "ucast (drop_bit 32 (ucast a OR push_bit 32 (ucast b) :: 64 word)) = (b :: 32 word)"
  for a :: "32 word"
  by (rule bit_word_eqI) (auto simp: bit_simps high_bits32)

lemma get_le64_le64: "get_le64 0 (le64 w @ ys) = w"
  using get_le32_at [of "[]" 0 "ucast w" "le32 (ucast (drop_bit 32 w)) @ ys"]
    get_le32_at [of "le32 (ucast w)" 4 "ucast (drop_bit 32 w)" ys]
  by (simp add: get_le64_def le64_def join64)

lemma le64_get: "7 < length b \<Longrightarrow> le64 (get_le64 0 b) = take 8 b"
  unfolding get_le64_def le64_def split64_low split64_high
  using le32_get [of 0 b] le32_get [of 4 b] take_add [of 4 4 b] by simp

text \<open>In memory a converted word is the word with the high byte first; converting twice changes nothing.\<close>

lemma le_htobe: "le16 (htobe16 v) = rev (le16 v)" "le32 (htobe32 w) = rev (le32 w)" "le64 (htobe64 x) = rev (le64 x)"
  by (simp_all add: htobe16_def htobe32_def htobe64_def le16_get le32_get le64_get)

lemma htobe_htobe: "htobe16 (htobe16 v) = v" "htobe32 (htobe32 w) = w" "htobe64 (htobe64 x) = x"
  using get_le16_at [of "[]" 0 v "[]"] get_le32_at [of "[]" 0 w "[]"] get_le64_le64 [of x "[]"]
  by (simp_all add: htobe16_def [of "htobe16 v"] htobe32_def [of "htobe32 w"] htobe64_def [of "htobe64 x"] le_htobe)

lemma BE_roundtrip: "GetBE16 (SetBE16 m v) = v" "GetBE32 (SetBE32 m w) = w" "GetBE64 (SetBE64 m x) = x"
  using get_le16_at [of "[]" 0 "htobe16 v" "drop 2 m"] get_le32_at [of "[]" 0 "htobe32 w" "drop 4 m"]
    get_le64_le64 [of "htobe64 x" "drop 8 m"]
  by (simp_all add: GetBE16_def SetBE16_def GetBE32_def SetBE32_def GetBE64_def SetBE64_def htobe_htobe)

lemma LE_roundtrip: "GetLE16 (SetLE16 m v) = v" "GetLE32 (SetLE32 m w) = w" "GetLE64 (SetLE64 m x) = x"
  using get_le16_at [of "[]" 0 v "drop 2 m"] get_le32_at [of "[]" 0 w "drop 4 m"] get_le64_le64 [of x "drop 8 m"]
  by (simp_all add: GetLE16_def SetLE16_def GetLE32_def SetLE32_def GetLE64_def SetLE64_def)

section \<open>The writer\<close>

text \<open>
  A \<^verbatim>\<open>ByteBufferWriter\<close> is the contents of its buffer; \<^verbatim>\<open>junk\<close> stands for the uninitialized bytes of
  a buffer that is made larger.
\<close>

type_synonym writer = bytes

definition bbw_Construct :: "bytes option \<Rightarrow> writer" where
  "bbw_Construct data = (case data of None \<Rightarrow> [] | Some d \<Rightarrow> d)"

definition WriteBytes :: "bytes \<Rightarrow> writer \<Rightarrow> writer" where
  "WriteBytes val w = w @ val"

definition WriteUInt8 :: "byte \<Rightarrow> writer \<Rightarrow> writer" where
  "WriteUInt8 val w = WriteBytes [val] w"

definition WriteUInt16 :: "16 word \<Rightarrow> writer \<Rightarrow> writer" where
  "WriteUInt16 val w = WriteBytes (le16 (HostToNetwork16 val)) w"

definition WriteUInt24 :: "32 word \<Rightarrow> writer \<Rightarrow> writer" where
  "WriteUInt24 val w = WriteBytes (tl (le32 (HostToNetwork32 val))) w"

definition WriteUInt32 :: "32 word \<Rightarrow> writer \<Rightarrow> writer" where
  "WriteUInt32 val w = WriteBytes (le32 (HostToNetwork32 val)) w"

definition WriteUInt64 :: "64 word \<Rightarrow> writer \<Rightarrow> writer" where
  "WriteUInt64 val w = WriteBytes (le64 (HostToNetwork64 val)) w"

function WriteUVarint :: "64 word \<Rightarrow> writer \<Rightarrow> writer" where
  "WriteUVarint val w =
     (if val \<ge> 0x80 then WriteUVarint (drop_bit 7 val) (WriteBytes [ucast val OR 0x80] w)
      else WriteBytes [ucast val] w)"
  by pat_completeness auto
termination
proof (relation "measure (\<lambda>(val, w). unat val)", goal_cases)
  case (2 val w)
  then have "0x80 \<le> unat val" by (simp add: word_le_nat_alt)
  moreover have "unat (drop_bit 7 val) = unat val div 128"
    by (subst unat_drop_bit_eq, subst drop_bit_eq_div) simp
  ultimately show ?case by simp
qed simp

declare WriteUVarint.simps [simp del]

definition WriteString :: "string \<Rightarrow> writer \<Rightarrow> writer" where
  "WriteString val w = WriteBytes (bytes_of val) w"

definition bbw_Resize :: "bytes \<Rightarrow> nat \<Rightarrow> writer \<Rightarrow> writer" where
  "bbw_Resize junk sz w = take sz w @ take (sz - length w) junk"

definition ReserveWriteBuffer :: "bytes \<Rightarrow> nat \<Rightarrow> writer \<Rightarrow> writer" where
  "ReserveWriteBuffer junk len w = bbw_Resize junk (length w + len) w"

definition bbw_Clear :: "writer \<Rightarrow> writer" where
  "bbw_Clear w = []"

section \<open>The reader\<close>

record reader =
  rd_bytes :: bytes
  rd_size :: nat
  rd_start :: nat
  rd_end :: nat

definition rd_Construct :: "bytes \<Rightarrow> reader" where
  "rd_Construct bytes = \<lparr>rd_bytes = bytes, rd_size = length bytes, rd_start = 0, rd_end = length bytes\<rparr>"

definition rd_Length :: "reader \<Rightarrow> nat" where
  "rd_Length r = rd_end r - rd_start r"

definition ReadBytes :: "nat \<Rightarrow> reader \<Rightarrow> bytes option \<times> reader" where
  "ReadBytes len r =
     (if len > rd_Length r then (None, r)
      else (Some (take len (drop (rd_start r) (rd_bytes r))), r\<lparr>rd_start := rd_start r + len\<rparr>))"

definition ReadUInt8 :: "reader \<Rightarrow> byte option \<times> reader" where
  "ReadUInt8 r = (case ReadBytes 1 r of (v, r') \<Rightarrow> (map_option hd v, r'))"

definition ReadUInt16 :: "reader \<Rightarrow> 16 word option \<times> reader" where
  "ReadUInt16 r = (case ReadBytes 2 r of (v, r') \<Rightarrow> (map_option (\<lambda>b. NetworkToHost16 (get_le16 0 b)) v, r'))"

definition ReadUInt24 :: "reader \<Rightarrow> 32 word option \<times> reader" where
  "ReadUInt24 r = (case ReadBytes 3 r of (v, r') \<Rightarrow> (map_option (\<lambda>b. NetworkToHost32 (get_le32 0 (0 # b))) v, r'))"

definition ReadUInt32 :: "reader \<Rightarrow> 32 word option \<times> reader" where
  "ReadUInt32 r = (case ReadBytes 4 r of (v, r') \<Rightarrow> (map_option (\<lambda>b. NetworkToHost32 (get_le32 0 b)) v, r'))"

definition ReadUInt64 :: "reader \<Rightarrow> 64 word option \<times> reader" where
  "ReadUInt64 r = (case ReadBytes 8 r of (v, r') \<Rightarrow> (map_option (\<lambda>b. NetworkToHost64 (get_le64 0 b)) v, r'))"

text \<open>
  \<^verbatim>\<open>ReadUVarint\<close>: the loop at shift \<open>i\<close>, \<open>0, 7, \<dots>, 63\<close>. The \<^verbatim>\<open>char\<close> read is signed, so that as a
  64-bit number it is below \<open>0x80\<close> exactly when its top bit is clear. A failed read leaves the
  reader after the bytes that were consumed.
\<close>

function ReadUVarint_loop :: "nat \<Rightarrow> 64 word \<Rightarrow> reader \<Rightarrow> 64 word option \<times> reader" where
  "ReadUVarint_loop i v r =
     (if i < 64 then
        (case ReadBytes 1 r of
           (None, r') \<Rightarrow> (None, r')
         | (Some b, r') \<Rightarrow>
             (let byte = scast (hd b) :: 64 word; v' = v OR push_bit i (byte AND 0x7F) in
              if byte < 0x80 then (Some v', r') else ReadUVarint_loop (i + 7) v' r'))
      else (None, r))"
  by pat_completeness auto
termination
  by (relation "measure (\<lambda>(i, v, r). 64 - i)") auto

declare ReadUVarint_loop.simps [simp del]

definition ReadUVarint :: "reader \<Rightarrow> 64 word option \<times> reader" where
  "ReadUVarint r = ReadUVarint_loop 0 0 r"

definition ReadString :: "nat \<Rightarrow> string \<Rightarrow> reader \<Rightarrow> string option \<times> reader" where
  "ReadString len val r =
     (if len > rd_Length r then (None, r)
      else (Some (val @ string_of_bytes (take len (drop (rd_start r) (rd_bytes r)))),
            r\<lparr>rd_start := rd_start r + len\<rparr>))"

definition Consume :: "nat \<Rightarrow> reader \<Rightarrow> bool \<times> reader" where
  "Consume sz r =
     (if sz > rd_Length r then (False, r) else (True, r\<lparr>rd_start := rd_start r + sz\<rparr>))"

section \<open>The reader's invariant\<close>

definition rd_ok :: "reader \<Rightarrow> bool" where
  "rd_ok r \<longleftrightarrow> rd_start r \<le> rd_end r \<and> rd_end r = length (rd_bytes r) \<and> rd_size r = length (rd_bytes r)"

definition unread :: "reader \<Rightarrow> bytes" where
  "unread r = drop (rd_start r) (rd_bytes r)"

definition skip :: "nat \<Rightarrow> reader \<Rightarrow> reader" where
  "skip n r = r\<lparr>rd_start := rd_start r + n\<rparr>"

lemma rd_Construct_ok: "rd_ok (rd_Construct bs)" "unread (rd_Construct bs) = bs"
  by (simp_all add: rd_ok_def rd_Construct_def unread_def)

lemma rd_Length_unread: "rd_ok r \<Longrightarrow> rd_Length r = length (unread r)"
  by (simp add: rd_ok_def rd_Length_def unread_def)

lemma skip_ok: "rd_ok r \<Longrightarrow> n \<le> length (unread r) \<Longrightarrow> rd_ok (skip n r)"
  by (auto simp: rd_ok_def skip_def unread_def)

lemma unread_skip: "unread (skip n r) = drop n (unread r)"
  by (simp add: unread_def skip_def add.commute)

lemma skip_skip: "skip m (skip n r) = skip (n + m) r"
  by (simp add: skip_def)

lemma ReadBytes_eq:
  "rd_ok r \<Longrightarrow> ReadBytes n r = (if n \<le> length (unread r) then (Some (take n (unread r)), skip n r) else (None, r))"
  by (simp add: ReadBytes_def rd_Length_unread unread_def skip_def)

section \<open>Encoders and decoders\<close>

text \<open>
  A \<open>codec\<close> writes a value by appending bytes, and its reader gets the value back from a buffer
  that goes on with those bytes, and stands after them.
\<close>

locale codec =
  fixes dom :: "'a \<Rightarrow> bool" and put :: "'a \<Rightarrow> writer \<Rightarrow> writer" and enc :: "'a \<Rightarrow> bytes"
    and get :: "reader \<Rightarrow> 'a option \<times> reader"
  assumes put_enc: "put v w = w @ enc v"
    and get_enc: "dom v \<Longrightarrow> rd_ok r \<Longrightarrow> unread r = enc v @ rest \<Longrightarrow>
      get r = (Some v, skip (length (enc v)) r)"
begin

fun read_all :: "nat \<Rightarrow> reader \<Rightarrow> 'a list option \<times> reader" where
  "read_all 0 r = (Some [], r)"
| "read_all (Suc n) r =
     (case get r of
        (None, r') \<Rightarrow> (None, r')
      | (Some v, r') \<Rightarrow> (case read_all n r' of (vs, r'') \<Rightarrow> (map_option (Cons v) vs, r'')))"

lemma write_all: "fold put vs w = w @ concat (map enc vs)"
  by (induction vs arbitrary: w) (simp_all add: put_enc)

lemma read_written:
  assumes "dom v" "rd_ok r" "unread r = enc v @ rest" "get r = (x, r')"
  shows "x = Some v \<and> rd_ok r' \<and> unread r' = rest"
  using get_enc [OF assms(1-3)] assms(2-4) by (auto simp: unread_skip intro!: skip_ok)

lemma read_all_written:
  assumes "\<forall>v\<in>set vs. dom v" "rd_ok r" "unread r = concat (map enc vs) @ rest"
  shows "\<exists>r'. read_all (length vs) r = (Some vs, r') \<and> rd_ok r' \<and> unread r' = rest"
  using assms
proof (induction vs arbitrary: r)
  case (Cons v vs)
  obtain x r1 where r1: "get r = (x, r1)" by force
  have "x = Some v" "rd_ok r1" "unread r1 = concat (map enc vs) @ rest"
    using read_written [of v r _ x r1] Cons.prems r1 by auto
  with Cons.IH [of r1] Cons.prems(1) r1 show ?case by auto
qed simp

end

definition everything :: "'a \<Rightarrow> bool" where "everything v \<longleftrightarrow> True"

lemma ReadBytes_code:
  "rd_ok r \<Longrightarrow> unread r = c @ rest \<Longrightarrow> ReadBytes (length c) r = (Some c, skip (length c) r)"
  by (simp add: ReadBytes_eq)

interpretation u8: codec everything WriteUInt8 "\<lambda>v. [v]" ReadUInt8
  using ReadBytes_code [of _ "[_]"]
  by unfold_locales (simp_all add: WriteUInt8_def WriteBytes_def ReadUInt8_def)

interpretation u16: codec everything WriteUInt16 "\<lambda>v. rev (le16 v)" ReadUInt16
proof
  show "WriteUInt16 v w = w @ rev (le16 v)" for v w
    by (simp add: WriteUInt16_def WriteBytes_def net_defs le_htobe)
  show "ReadUInt16 r = (Some v, skip (length (rev (le16 v))) r)"
    if "rd_ok r" "unread r = rev (le16 v) @ rest" for v r rest
    using ReadBytes_code [OF that] get_le16_at [of "[]" 0 "htobe16 v" "[]"]
    by (simp add: ReadUInt16_def net_defs le_htobe htobe_htobe)
qed

interpretation u32: codec everything WriteUInt32 "\<lambda>v. rev (le32 v)" ReadUInt32
proof
  show "WriteUInt32 v w = w @ rev (le32 v)" for v w
    by (simp add: WriteUInt32_def WriteBytes_def net_defs le_htobe)
  show "ReadUInt32 r = (Some v, skip (length (rev (le32 v))) r)"
    if "rd_ok r" "unread r = rev (le32 v) @ rest" for v r rest
    using ReadBytes_code [OF that] get_le32_at [of "[]" 0 "htobe32 v" "[]"]
    by (simp add: ReadUInt32_def net_defs le_htobe htobe_htobe)
qed

interpretation u64: codec everything WriteUInt64 "\<lambda>v. rev (le64 v)" ReadUInt64
proof
  show "WriteUInt64 v w = w @ rev (le64 v)" for v w
    by (simp add: WriteUInt64_def WriteBytes_def net_defs le_htobe)
  show "ReadUInt64 r = (Some v, skip (length (rev (le64 v))) r)"
    if "rd_ok r" "unread r = rev (le64 v) @ rest" for v r rest
    using ReadBytes_code [OF that] get_le64_le64 [of "htobe64 v" "[]"]
    by (simp add: ReadUInt64_def net_defs le_htobe htobe_htobe)
qed

text \<open>A 24-bit field holds the values below \<open>2 ^ 24\<close>.\<close>

lemma top_byte_zero:
  assumes "v < 2 ^ 24"
  shows "ucast (drop_bit 24 (v :: 32 word)) = (0 :: byte)"
proof -
  have "unat v < 2 ^ 24" using assms by (simp add: word_less_nat_alt)
  then have "unat (drop_bit 24 v) = 0" by (subst unat_drop_bit_eq, subst drop_bit_eq_div) simp
  then have "drop_bit 24 v = 0" by (simp only: unat_eq_zero)
  then show ?thesis by simp
qed

interpretation u24: codec "\<lambda>v. v < 2 ^ 24" WriteUInt24 "\<lambda>v. tl (rev (le32 v))" ReadUInt24
proof
  show "WriteUInt24 v w = w @ tl (rev (le32 v))" for v w
    by (simp add: WriteUInt24_def WriteBytes_def net_defs le_htobe)
  show "ReadUInt24 r = (Some v, skip (length (tl (rev (le32 v)))) r)"
    if "v < 2 ^ 24" "rd_ok r" "unread r = tl (rev (le32 v)) @ rest" for v r rest
  proof -
    have "0 # tl (rev (le32 v)) = rev (le32 v)" using top_byte_zero [OF that(1)] by (simp add: le32_def)
    then show ?thesis
      using ReadBytes_code [OF that(2,3)] get_le32_at [of "[]" 0 "htobe32 v" "[]"]
      by (simp add: ReadUInt24_def net_defs le_htobe htobe_htobe)
  qed
qed

section \<open>Variable-length integers\<close>

lemma WriteUVarint_append: "WriteUVarint v (u @ w) = u @ WriteUVarint v w"
proof (induction v w arbitrary: u rule: WriteUVarint.induct)
  case (1 val w)
  then show ?case by (subst (1 2) WriteUVarint.simps) (simp add: WriteBytes_def)
qed

definition uvarint :: "64 word \<Rightarrow> bytes" where
  "uvarint v = WriteUVarint v []"

lemma uvarint_simps:
  "uvarint v = (if v \<ge> 0x80 then (ucast v OR 0x80) # uvarint (drop_bit 7 v) else [ucast v])"
  using WriteUVarint_append [of "drop_bit 7 v" "[ucast v OR 0x80]" "[]"]
  by (simp add: uvarint_def WriteUVarint.simps [of v] WriteBytes_def)

lemma below_80_bits:
  assumes "v < 0x80" "7 \<le> n"
  shows "\<not> bit (v :: 64 word) n"
proof -
  have "unat v < 2 ^ 7" using assms(1) by (simp add: word_less_nat_alt)
  then have "unat (take_bit 7 v) = unat v" by (simp only: unsigned_take_bit_eq take_bit_nat_eq_self)
  then have "take_bit 7 v = v" by (simp only: word_unat_eq_iff)
  then have "bit v n = (n < 7 \<and> bit v n)" by (metis bit_take_bit_iff)
  then show ?thesis using assms(2) by simp
qed

lemma mask_7F: "(0x7F :: 64 word) = mask 7"
  by (simp add: mask_eq_exp_minus_1)

lemma bit_80: "bit (0x80 :: byte) n \<longleftrightarrow> n = 7"
proof -
  have "(0x80 :: byte) = 2 ^ 7" by simp
  then show ?thesis using bit_exp_iff [of 7 n, where ?'a = byte] by auto
qed

lemma last_scast: "v < 0x80 \<Longrightarrow> scast (ucast v :: byte) = (v :: 64 word)"
  by (rule bit_word_eqI) (auto simp: bit_simps below_80_bits min_def)

lemma cont_scast: "scast (ucast (v :: 64 word) OR 0x80 :: byte) AND 0x7F = v AND (0x7F :: 64 word)"
proof -
  define c where "c = ucast v OR (0x80 :: byte)"
  have "bit c n \<longleftrightarrow> n < 8 \<and> bit v n \<or> n = 7" for n
    using bit_80 [of n] by (auto simp: c_def bit_simps)
  then have "scast c AND 0x7F = v AND (0x7F :: 64 word)"
    unfolding mask_7F by (intro bit_word_eqI) (auto simp: bit_simps min_def)
  then show ?thesis by (simp only: c_def)
qed

lemma cont_big: "\<not> scast (ucast (v :: 64 word) OR 0x80 :: byte) < (0x80 :: 64 word)"
proof
  assume "scast (ucast (v :: 64 word) OR 0x80 :: byte) < (0x80 :: 64 word)"
  then have "\<not> bit (scast (ucast (v :: 64 word) OR 0x80 :: byte) :: 64 word) 7"
    by (rule below_80_bits) simp
  then show False by (simp add: bit_simps)
qed

lemma seven_more: "push_bit i (v AND 0x7F) OR push_bit (i + 7) (drop_bit 7 v) = push_bit i (v :: 64 word)"
proof (rule bit_word_eqI)
  fix n
  have "i + 7 \<le> n \<Longrightarrow> 7 + (n - (i + 7)) = n - i" by simp
  then show "bit (push_bit i (v AND 0x7F) OR push_bit (i + 7) (drop_bit 7 v)) n = bit (push_bit i v) n"
    unfolding mask_7F by (cases "i + 7 \<le> n") (auto simp: bit_simps)
qed

lemma ReadUVarint_loop_more:
  assumes "ReadBytes 1 r = (Some [b], r')" "\<not> scast b < (0x80 :: 64 word)" "i < 64"
  shows "ReadUVarint_loop i v r = ReadUVarint_loop (i + 7) (v OR push_bit i (scast b AND 0x7F)) r'"
  using assms by (subst ReadUVarint_loop.simps) simp

lemma ReadUVarint_loop_last:
  assumes "ReadBytes 1 r = (Some [b], r')" "scast b < (0x80 :: 64 word)" "i < 64"
  shows "ReadUVarint_loop i v r = (Some (v OR push_bit i (scast b AND 0x7F)), r')"
  using assms by (subst ReadUVarint_loop.simps) simp

lemma ReadUVarint_loop_code:
  assumes "unat v < 2 ^ (64 - i)" "i < 64" "rd_ok r" "unread r = uvarint v @ rest"
  shows "ReadUVarint_loop i acc r = (Some (acc OR push_bit i v), skip (length (uvarint v)) r)"
  using assms
proof (induction "unat v" arbitrary: v i acc r rule: less_induct)
  case less
  show ?case
  proof (cases "v \<ge> 0x80")
    case True
    let ?b = "ucast v OR 0x80 :: byte"
    have u: "uvarint v = ?b # uvarint (drop_bit 7 v)" using True by (subst uvarint_simps) simp
    have rd: "ReadBytes 1 r = (Some [?b], skip 1 r)"
      using ReadBytes_code [of r "[?b]"] less.prems(3,4) u by simp
    have big: "2 ^ 7 \<le> unat v" using True by (simp add: word_le_nat_alt)
    then have i: "i + 7 < 64" using less.prems(1)
      by (metis (no_types, lifting) add.commute less_diff_conv linorder_not_less order_le_less_trans power_increasing_iff rel_simps(49) Suc_1 lessI less_imp_not_less)
    have shift: "unat (drop_bit 7 v) = unat v div 2 ^ 7" by (subst unat_drop_bit_eq, subst drop_bit_eq_div) simp
    have "(2 :: nat) ^ (64 - i) = 2 ^ (64 - (i + 7)) * 2 ^ 7"
    proof -
      have "64 - i = (64 - (i + 7)) + 7" using i by simp
      then show ?thesis by (simp only: power_add)
    qed
    then have small: "unat (drop_bit 7 v) < 2 ^ (64 - (i + 7))"
      using less.prems(1) shift by (simp add: less_mult_imp_div_less)
    have "ReadUVarint_loop (i + 7) (acc OR push_bit i (v AND 0x7F)) (skip 1 r) =
        (Some ((acc OR push_bit i (v AND 0x7F)) OR push_bit (i + 7) (drop_bit 7 v)),
         skip (length (uvarint (drop_bit 7 v))) (skip 1 r))"
      using less.prems(2-4) u i small big
      by (intro less.hyps) (auto simp: unread_skip shift intro!: skip_ok)
    then show ?thesis
      unfolding ReadUVarint_loop_more [OF rd cont_big less.prems(2)] cont_scast or.assoc seven_more u skip_skip
      by simp
  next
    case False
    then have u: "uvarint v = [ucast v]" by (subst uvarint_simps) simp
    have sc: "scast (ucast v :: byte) = v" "v < 0x80" using False by (simp_all add: last_scast not_le)
    have rd: "ReadBytes 1 r = (Some [ucast v], skip 1 r)"
      using ReadBytes_code [of r "[ucast v]"] less.prems(3,4) u by simp
    have "bit v n \<Longrightarrow> n < 7" for n using sc(2) below_80_bits [of v n] by fastforce
    then have "v AND 0x7F = v" unfolding mask_7F by (intro bit_word_eqI) (auto simp: bit_simps)
    then show ?thesis
      using ReadUVarint_loop_last [OF rd _ less.prems(2), of acc, unfolded sc(1)] sc(2) u
      by (simp del: push_bit_and)
  qed
qed

interpretation uvar: codec everything WriteUVarint uvarint ReadUVarint
proof
  show "WriteUVarint v w = w @ uvarint v" for v w
    using WriteUVarint_append [of v w "[]"] by (simp add: uvarint_def)
  show "ReadUVarint r = (Some v, skip (length (uvarint v)) r)"
    if "rd_ok r" "unread r = uvarint v @ rest" for v r rest
    using ReadUVarint_loop_code [of v 0 r rest 0] that unsigned_less [of v, where ?'a = nat]
    by (simp add: ReadUVarint_def)
qed

section \<open>Messages\<close>

text \<open>A message is a sequence of fields; its layout is the sequence of the kinds of its fields.\<close>

datatype field = F8 byte | F16 "16 word" | F24 "32 word" | F32 "32 word" | F64 "64 word"
  | FVar "64 word" | FString string

datatype kind = K8 | K16 | K24 | K32 | K64 | KVar | KString nat

primrec kind_of :: "field \<Rightarrow> kind" where
  "kind_of (F8 v) = K8" | "kind_of (F16 v) = K16" | "kind_of (F24 v) = K24" | "kind_of (F32 v) = K32"
| "kind_of (F64 v) = K64" | "kind_of (FVar v) = KVar" | "kind_of (FString s) = KString (length s)"

primrec field_ok :: "field \<Rightarrow> bool" where
  "field_ok (F8 v) = True" | "field_ok (F16 v) = True" | "field_ok (F24 v) = (v < 2 ^ 24)"
| "field_ok (F32 v) = True" | "field_ok (F64 v) = True" | "field_ok (FVar v) = True" | "field_ok (FString s) = True"

primrec write_field :: "field \<Rightarrow> writer \<Rightarrow> writer" where
  "write_field (F8 v) = WriteUInt8 v" | "write_field (F16 v) = WriteUInt16 v"
| "write_field (F24 v) = WriteUInt24 v" | "write_field (F32 v) = WriteUInt32 v"
| "write_field (F64 v) = WriteUInt64 v" | "write_field (FVar v) = WriteUVarint v"
| "write_field (FString s) = WriteString s"

definition tag :: "('a \<Rightarrow> field) \<Rightarrow> 'a option \<times> reader \<Rightarrow> field option \<times> reader" where
  "tag c p = (map_option c (fst p), snd p)"

primrec read_field :: "kind \<Rightarrow> reader \<Rightarrow> field option \<times> reader" where
  "read_field K8 r = tag F8 (ReadUInt8 r)" | "read_field K16 r = tag F16 (ReadUInt16 r)"
| "read_field K24 r = tag F24 (ReadUInt24 r)" | "read_field K32 r = tag F32 (ReadUInt32 r)"
| "read_field K64 r = tag F64 (ReadUInt64 r)" | "read_field KVar r = tag FVar (ReadUVarint r)"
| "read_field (KString n) r = tag FString (ReadString n [] r)"

fun read_fields :: "kind list \<Rightarrow> reader \<Rightarrow> field list option \<times> reader" where
  "read_fields [] r = (Some [], r)"
| "read_fields (k # ks) r =
     (case read_field k r of
        (None, r') \<Rightarrow> (None, r')
      | (Some f, r') \<Rightarrow> (case read_fields ks r' of (fs, r'') \<Rightarrow> (map_option (Cons f) fs, r'')))"

primrec field_code :: "field \<Rightarrow> bytes" where
  "field_code (F8 v) = [v]" | "field_code (F16 v) = rev (le16 v)" | "field_code (F24 v) = tl (rev (le32 v))"
| "field_code (F32 v) = rev (le32 v)" | "field_code (F64 v) = rev (le64 v)" | "field_code (FVar v) = uvarint v"
| "field_code (FString s) = bytes_of s"

lemma write_field_code: "write_field f w = w @ field_code f"
  by (cases f) (simp_all add: u8.put_enc u16.put_enc u24.put_enc u32.put_enc u64.put_enc uvar.put_enc
      WriteString_def WriteBytes_def)

lemma string_of_bytes_of: "string_of_bytes (bytes_of s) = s"
  by (simp add: string_of_bytes_def bytes_of_def of_char_unat comp_def)

lemma read_field_code:
  assumes "field_ok f" "rd_ok r" "unread r = field_code f @ rest"
  shows "read_field (kind_of f) r = (Some f, skip (length (field_code f)) r)"
  using assms u8.get_enc u16.get_enc u24.get_enc u32.get_enc u64.get_enc uvar.get_enc
  by (cases f)
    (simp_all add: tag_def everything_def ReadString_def rd_Length_unread unread_def skip_def string_of_bytes_of)

lemma write_fields_code: "fold write_field fs w = w @ concat (map field_code fs)"
  by (induction fs arbitrary: w) (simp_all add: write_field_code)

lemma read_fields_code:
  assumes "\<forall>f\<in>set fs. field_ok f" "rd_ok r" "unread r = concat (map field_code fs) @ rest"
  shows "\<exists>r'. read_fields (map kind_of fs) r = (Some fs, r') \<and> rd_ok r' \<and> unread r' = rest"
  using assms
proof (induction fs arbitrary: r)
  case (Cons f fs)
  let ?r = "skip (length (field_code f)) r"
  have "read_field (kind_of f) r = (Some f, ?r)"
    using read_field_code [of f r] Cons.prems by simp
  moreover have "rd_ok ?r" "unread ?r = concat (map field_code fs) @ rest"
    using Cons.prems by (simp_all add: unread_skip skip_ok)
  ultimately show ?case using Cons.IH [of ?r] Cons.prems(1) by auto
qed simp

text \<open>
  C23. Whatever a \<^verbatim>\<open>ByteBufferWriter\<close> writes, a \<^verbatim>\<open>ByteBufferReader\<close> reads back: for every sequence of
  fields (integers of 8, 16, 24, 32 and 64 bits in network order, variable-length integers,
  strings of known length), reading with the same layout yields the fields, leaves exactly the
  bytes that follow them, and the reader stays well formed. A 24-bit field must be below
  \<open>2 ^ 24\<close>.
\<close>

theorem byte_buffer_roundtrip:
  assumes "\<forall>f\<in>set fs. field_ok f"
  shows "\<exists>r. read_fields (map kind_of fs) (rd_Construct (fold write_field fs [] @ rest)) = (Some fs, r) \<and>
    rd_ok r \<and> unread r = rest"
  using assms read_fields_code [of fs "rd_Construct (fold write_field fs [] @ rest)" rest]
  by (simp add: rd_Construct_ok write_fields_code)

theorem byte_buffer_roundtrip_witness:
  "\<exists>r. read_fields (map kind_of [F16 0x1234, F24 0xABCDEF, FVar 300, FString ''hi''])
     (rd_Construct (fold write_field [F16 0x1234, F24 0xABCDEF, FVar 300, FString ''hi''] [] @ [7])) =
     (Some [F16 0x1234, F24 0xABCDEF, FVar 300, FString ''hi''], r) \<and> rd_ok r \<and> unread r = [7]"
  by (rule byte_buffer_roundtrip) simp

end
