(* ===== verification/Buffers.thy ===== *)
theory Buffers
  imports XrtcPrelude
begin

text \<open>
  \<^verbatim>\<open>rtc_base/buffer.h\<close>, the growing byte buffer, and \<^verbatim>\<open>rtc_base/buffer_queue.cc\<close>, the bounded queue of
  packets that reuses buffers. A buffer is its size and its allocated bytes (\<^verbatim>\<open>capacity_\<close> is how many
  there are; \<^verbatim>\<open>data_\<close> is null when there are none). The bytes that \<^verbatim>\<open>new T[n]\<close> returns are not
  initialized: they are given by the parameter \<open>fresh\<close>, of which only the length is assumed. \<open>zf\<close> is
  the template argument \<^verbatim>\<open>ZeroOnFree\<close>.
\<close>

section \<open>Buffers\<close>

record buffer =
  bf_size :: nat
  bf_mem :: bytes

type_synonym fresh_mem = "nat \<Rightarrow> bytes"

definition capacity :: "buffer \<Rightarrow> nat" where
  "capacity b = length (bf_mem b)"

definition buffer_ok :: "buffer \<Rightarrow> bool" where
  "buffer_ok b \<longleftrightarrow> bf_size b \<le> capacity b"

definition contents :: "buffer \<Rightarrow> bytes" where
  "contents b = take (bf_size b) (bf_mem b)"

definition Buffer_empty :: buffer where
  "Buffer_empty = \<lparr>bf_size = 0, bf_mem = []\<rparr>"

definition Buffer_sized :: "fresh_mem \<Rightarrow> nat \<Rightarrow> nat \<Rightarrow> buffer" where
  "Buffer_sized fresh sz cap = \<lparr>bf_size = sz, bf_mem = fresh (max sz cap)\<rparr>"

definition Buffer_copy :: "fresh_mem \<Rightarrow> bytes \<Rightarrow> nat \<Rightarrow> buffer" where
  "Buffer_copy fresh data cap =
     (let b = Buffer_sized fresh (length data) cap
      in b\<lparr>bf_mem := data @ drop (length data) (bf_mem b)\<rparr>)"

definition MaybeZeroCompleteBuffer :: "bool \<Rightarrow> buffer \<Rightarrow> buffer" where
  "MaybeZeroCompleteBuffer zf b =
     (if zf \<and> capacity b > 0 then b\<lparr>bf_mem := replicate (capacity b) 0\<rparr> else b)"

definition ZeroTrailingData :: "nat \<Rightarrow> buffer \<Rightarrow> buffer" where
  "ZeroTrailingData count b =
     b\<lparr>bf_mem := take (bf_size b) (bf_mem b) @ replicate count 0 @ drop (bf_size b + count) (bf_mem b)\<rparr>"

definition EnsureCapacityWithHeadroom :: "fresh_mem \<Rightarrow> nat \<Rightarrow> bool \<Rightarrow> buffer \<Rightarrow> buffer" where
  "EnsureCapacityWithHeadroom fresh cap extra_headroom b =
     (if cap \<le> capacity b then b
      else let new_capacity = (if extra_headroom then max cap (capacity b + capacity b div 2) else cap);
               new_data = fresh new_capacity
           in b\<lparr>bf_mem := take (bf_size b) (bf_mem b) @ drop (bf_size b) new_data\<rparr>)"

definition EnsureCapacity :: "fresh_mem \<Rightarrow> nat \<Rightarrow> buffer \<Rightarrow> buffer" where
  "EnsureCapacity fresh cap b = EnsureCapacityWithHeadroom fresh cap False b"

definition AppendData :: "fresh_mem \<Rightarrow> bytes \<Rightarrow> buffer \<Rightarrow> buffer" where
  "AppendData fresh data b =
     (let new_size = bf_size b + length data;
          b1 = EnsureCapacityWithHeadroom fresh new_size True b
      in \<lparr>bf_size = new_size, bf_mem = take (bf_size b) (bf_mem b1) @ data @ drop new_size (bf_mem b1)\<rparr>)"

definition SetData :: "bool \<Rightarrow> fresh_mem \<Rightarrow> bytes \<Rightarrow> buffer \<Rightarrow> buffer" where
  "SetData zf fresh data b =
     (let old_size = bf_size b; b1 = AppendData fresh data (b\<lparr>bf_size := 0\<rparr>)
      in if zf \<and> bf_size b1 < old_size then ZeroTrailingData (old_size - bf_size b1) b1 else b1)"

definition SetSize :: "bool \<Rightarrow> fresh_mem \<Rightarrow> nat \<Rightarrow> buffer \<Rightarrow> buffer" where
  "SetSize zf fresh sz b =
     (let old_size = bf_size b; b1 = (EnsureCapacityWithHeadroom fresh sz True b)\<lparr>bf_size := sz\<rparr>
      in if zf \<and> sz < old_size then ZeroTrailingData (old_size - sz) b1 else b1)"

text \<open>
  \<^verbatim>\<open>AppendData(max_elements, setter)\<close>: the setter is given a view of \<open>max_elements\<close> bytes and returns
  what it leaves in them and how many it has written; more than \<open>max_elements\<close> is a failed
  \<^verbatim>\<open>RTC_CHECK\<close>, \<open>None\<close>.
\<close>

definition AppendSetter :: "bool \<Rightarrow> fresh_mem \<Rightarrow> nat \<Rightarrow> (bytes \<Rightarrow> bytes \<times> nat) \<Rightarrow> buffer \<Rightarrow> (nat \<times> buffer) option" where
  "AppendSetter zf fresh max_elements setter b =
     (let old_size = bf_size b;
          b1 = SetSize zf fresh (old_size + max_elements) b;
          (view, written) = setter (take max_elements (drop old_size (bf_mem b1)))
      in if written > max_elements then None
         else Some (written, \<lparr>bf_size = old_size + written,
           bf_mem = take old_size (bf_mem b1) @ take max_elements view @ drop (old_size + max_elements) (bf_mem b1)\<rparr>))"

text \<open>\<^verbatim>\<open>SetData(max_elements, setter)\<close>.\<close>

definition SetSetter :: "bool \<Rightarrow> fresh_mem \<Rightarrow> nat \<Rightarrow> (bytes \<Rightarrow> bytes \<times> nat) \<Rightarrow> buffer \<Rightarrow> (nat \<times> buffer) option" where
  "SetSetter zf fresh max_elements setter b =
     (let old_size = bf_size b
      in case AppendSetter zf fresh max_elements setter (b\<lparr>bf_size := 0\<rparr>) of
          None \<Rightarrow> None
        | Some (written, b1) \<Rightarrow>
            Some (written, if zf \<and> bf_size b1 < old_size then ZeroTrailingData (old_size - bf_size b1) b1 else b1))"

definition Buffer_Clear :: "bool \<Rightarrow> buffer \<Rightarrow> buffer" where
  "Buffer_Clear zf b = (MaybeZeroCompleteBuffer zf b)\<lparr>bf_size := 0\<rparr>"

text \<open>Move construction and move assignment: the new object and the one moved from, without \<^verbatim>\<open>DCHECK\<close>s.\<close>

definition OnMovedFrom :: buffer where
  "OnMovedFrom = \<lparr>bf_size = 0, bf_mem = []\<rparr>"

definition Buffer_move :: "buffer \<Rightarrow> buffer \<times> buffer" where
  "Buffer_move b = (b, OnMovedFrom)"

definition Buffer_equal :: "buffer \<Rightarrow> buffer \<Rightarrow> bool" where
  "Buffer_equal a b \<longleftrightarrow>
     bf_size a = bf_size b \<and> take (bf_size a) (bf_mem a) = take (bf_size a) (bf_mem b)"

section \<open>Contents and consistency\<close>

lemma length_contents: "buffer_ok b \<Longrightarrow> length (contents b) = bf_size b"
  by (simp add: buffer_ok_def contents_def capacity_def)

lemma Buffer_equal_contents: "buffer_ok a \<Longrightarrow> buffer_ok b \<Longrightarrow> Buffer_equal a b \<longleftrightarrow> contents a = contents b"
proof (cases "bf_size a = bf_size b")
  case True
  then show ?thesis by (simp add: Buffer_equal_def contents_def)
next
  case False
  moreover assume "buffer_ok a" "buffer_ok b"
  ultimately show ?thesis using length_contents [of a] length_contents [of b] by (auto simp: Buffer_equal_def)
qed

lemma EnsureCapacityWithHeadroom_props:
  assumes "\<And>n. length (fresh n) = n" "buffer_ok b"
  shows "bf_size (EnsureCapacityWithHeadroom fresh cap extra b) = bf_size b"
    "buffer_ok (EnsureCapacityWithHeadroom fresh cap extra b)"
    "contents (EnsureCapacityWithHeadroom fresh cap extra b) = contents b"
    "cap \<le> capacity (EnsureCapacityWithHeadroom fresh cap extra b)"
    "capacity b \<le> capacity (EnsureCapacityWithHeadroom fresh cap extra b)"
    "take (bf_size b) (bf_mem (EnsureCapacityWithHeadroom fresh cap extra b)) = contents b"
  using assms
  by (auto simp: EnsureCapacityWithHeadroom_def buffer_ok_def capacity_def contents_def Let_def)

lemma AppendData_props:
  assumes "\<And>n. length (fresh n) = n" "buffer_ok b"
  shows "buffer_ok (AppendData fresh data b)" "contents (AppendData fresh data b) = contents b @ data"
    "bf_size (AppendData fresh data b) = bf_size b + length data"
    "capacity b \<le> capacity (AppendData fresh data b)"
  using EnsureCapacityWithHeadroom_props [OF assms, of "bf_size b + length data" True]
    length_contents [OF assms(2)]
  by (simp_all add: AppendData_def Let_def buffer_ok_def capacity_def contents_def)

lemma ZeroTrailingData_props:
  assumes "buffer_ok b" "bf_size b + n \<le> capacity b"
  shows "buffer_ok (ZeroTrailingData n b)" "contents (ZeroTrailingData n b) = contents b"
    "capacity (ZeroTrailingData n b) = capacity b" "bf_size (ZeroTrailingData n b) = bf_size b"
  using assms by (simp_all add: ZeroTrailingData_def buffer_ok_def capacity_def contents_def)

lemma SetData_props:
  assumes "\<And>n. length (fresh n) = n" "buffer_ok b"
  shows "buffer_ok (SetData zf fresh data b)" "contents (SetData zf fresh data b) = data"
    "capacity b \<le> capacity (SetData zf fresh data b)"
proof -
  have ok: "buffer_ok (b\<lparr>bf_size := 0\<rparr>)" by (simp add: buffer_ok_def)
  note A = AppendData_props [OF assms(1) ok, of data]
  have cap: "capacity (b\<lparr>bf_size := 0\<rparr>) = capacity b" "bf_size b \<le> capacity b"
    using assms(2) by (simp_all add: capacity_def buffer_ok_def)
  have "contents (b\<lparr>bf_size := 0\<rparr>) = []" by (simp add: contents_def)
  then show "buffer_ok (SetData zf fresh data b)" "contents (SetData zf fresh data b) = data"
    "capacity b \<le> capacity (SetData zf fresh data b)"
    using A cap ZeroTrailingData_props [OF A(1), of "bf_size b - length data"]
    by (auto simp: SetData_def Let_def)
qed

lemma SetSize_props:
  assumes "\<And>n. length (fresh n) = n" "buffer_ok b"
  shows "buffer_ok (SetSize zf fresh sz b)" "bf_size (SetSize zf fresh sz b) = sz"
    "take (bf_size b) (contents (SetSize zf fresh sz b)) = take sz (contents b)"
    "capacity b \<le> capacity (SetSize zf fresh sz b)"
proof -
  let ?b1 = "(EnsureCapacityWithHeadroom fresh sz True b)\<lparr>bf_size := sz\<rparr>"
  note E = EnsureCapacityWithHeadroom_props [OF assms, of sz True]
  have ok: "buffer_ok ?b1" and cap: "capacity ?b1 = capacity (EnsureCapacityWithHeadroom fresh sz True b)"
    using E(4) by (simp_all add: buffer_ok_def capacity_def)
  have c: "take (bf_size b) (contents ?b1) = take sz (contents b)"
  proof -
    have "take (bf_size b) (contents ?b1) =
        take sz (take (bf_size b) (bf_mem (EnsureCapacityWithHeadroom fresh sz True b)))"
      by (simp add: contents_def min.commute)
    then show ?thesis by (simp only: E(6))
  qed
  have room: "bf_size ?b1 + (bf_size b - sz) \<le> capacity ?b1" if "sz < bf_size b"
    using that E(5) assms(2) by (simp add: cap buffer_ok_def)
  show "buffer_ok (SetSize zf fresh sz b)" "bf_size (SetSize zf fresh sz b) = sz"
    "take (bf_size b) (contents (SetSize zf fresh sz b)) = take sz (contents b)"
    "capacity b \<le> capacity (SetSize zf fresh sz b)"
    using ok c E(5) cap ZeroTrailingData_props [OF ok room] by (auto simp: SetSize_def Let_def)
qed

text \<open>Growing is geometric: a buffer that has to grow for an append gets at least half as much again.\<close>

lemma AppendData_headroom:
  assumes "\<And>n. length (fresh n) = n" "buffer_ok b" "capacity b < bf_size b + length data"
  shows "2 * capacity (AppendData fresh data b) + 1 \<ge> 3 * capacity b"
  using assms
  by (simp add: AppendData_def EnsureCapacityWithHeadroom_def capacity_def buffer_ok_def Let_def max_def) arith

section \<open>Unused memory of a buffer that is zeroed\<close>

text \<open>With an allocator that returns zeros, the bytes after the contents are zeros.\<close>

definition zeros :: fresh_mem where
  "zeros n = replicate n 0"

definition clean :: "buffer \<Rightarrow> bool" where
  "clean b \<longleftrightarrow> set (drop (bf_size b) (bf_mem b)) \<subseteq> {0}"

lemma zeros_length: "length (zeros n) = n"
  by (simp add: zeros_def)

lemma zeros_drop: "set (drop k (zeros n)) \<subseteq> {0}"
  by (simp add: zeros_def set_replicate_conv_if)

lemma clean_headroom:
  assumes "clean b" "buffer_ok b"
  shows "clean (EnsureCapacityWithHeadroom zeros cap extra b)"
proof (cases "cap \<le> capacity b")
  case False
  have "drop (bf_size b) (take (bf_size b) (bf_mem b) @ xs) = xs" for xs
    using assms(2) by (simp add: buffer_ok_def capacity_def)
  with False show ?thesis
    by (simp add: EnsureCapacityWithHeadroom_def clean_def Let_def zeros_drop)
qed (use assms in \<open>simp add: EnsureCapacityWithHeadroom_def\<close>)

lemma clean_drop: "clean b \<Longrightarrow> bf_size b \<le> n \<Longrightarrow> set (drop n (bf_mem b)) \<subseteq> {0}"
  unfolding clean_def by (rule subset_trans [OF set_drop_subset_set_drop])

lemma clean_AppendData:
  assumes "clean b" "buffer_ok b"
  shows "clean (AppendData zeros data b)"
proof -
  let ?b1 = "EnsureCapacityWithHeadroom zeros (bf_size b + length data) True b"
  note E = EnsureCapacityWithHeadroom_props [OF zeros_length assms(2), of "bf_size b + length data" True]
  have "set (drop (bf_size b + length data) (bf_mem ?b1)) \<subseteq> {0}"
    using clean_drop [OF clean_headroom [OF assms, of "bf_size b + length data" True],
        of "bf_size b + length data"] E(1) by simp
  moreover have "length (take (bf_size b) (bf_mem ?b1)) = bf_size b" using E(6) length_contents [OF assms(2)] by simp
  ultimately show ?thesis by (simp add: clean_def AppendData_def Let_def)
qed

lemma clean_ZeroTrailing:
  assumes "buffer_ok b" "set (drop (bf_size b + n) (bf_mem b)) \<subseteq> {0}"
  shows "clean (ZeroTrailingData n b)"
  using assms by (auto simp: ZeroTrailingData_def clean_def buffer_ok_def capacity_def)

lemma clean_SetSize:
  assumes "clean b" "buffer_ok b"
  shows "clean (SetSize True zeros sz b)"
proof -
  let ?b1 = "EnsureCapacityWithHeadroom zeros sz True b"
  note E = EnsureCapacityWithHeadroom_props [OF zeros_length assms(2), of sz True]
  have c: "set (drop n (bf_mem ?b1)) \<subseteq> {0}" if "bf_size b \<le> n" for n
    using clean_drop [OF clean_headroom [OF assms, of sz True]] E(1) that by simp
  show ?thesis
  proof (cases "sz < bf_size b")
    case True
    then show ?thesis using c [of "bf_size b"] E(4)
      by (simp add: SetSize_def Let_def) (rule clean_ZeroTrailing; simp add: buffer_ok_def capacity_def)
  next
    case False
    then show ?thesis using c [of sz] by (simp add: SetSize_def Let_def clean_def)
  qed
qed

lemma clean_SetData:
  assumes "clean b" "buffer_ok b"
  shows "clean (SetData True zeros data b)"
proof -
  let ?b1 = "AppendData zeros data (b\<lparr>bf_size := 0\<rparr>)"
  have ok: "buffer_ok (b\<lparr>bf_size := 0\<rparr>)" by (simp add: buffer_ok_def)
  note A = AppendData_props [OF zeros_length ok, of data]
  have c: "set (drop n (bf_mem ?b1)) \<subseteq> {0}" if "bf_size b \<le> n" "length data \<le> n" for n
    using that clean_drop [OF assms(1), of n] zeros_drop [of n "length data"] zeros_drop [of n "max (length data) (length (bf_mem b) + length (bf_mem b) div 2)"]
    by (auto simp: AppendData_def EnsureCapacityWithHeadroom_def Let_def capacity_def)
  show ?thesis
  proof (cases "length data < bf_size b")
    case True
    then show ?thesis using c [of "bf_size b"] A(1,3)
      by (simp add: SetData_def Let_def clean_ZeroTrailing)
  next
    case False
    then show ?thesis using c [of "length data"] A(3) by (simp add: SetData_def Let_def clean_def)
  qed
qed

lemma clean_Clear: "clean (Buffer_Clear True b)"
  by (auto simp: Buffer_Clear_def MaybeZeroCompleteBuffer_def clean_def capacity_def)

text \<open>
  Every operation of a \<^verbatim>\<open>ZeroOnFreeBuffer\<close> keeps the invariant its comment claims: the unused
  part of the memory holds no byte of earlier contents. Replacing, truncating, growing, appending
  and clearing leave zeros after the contents.
\<close>

lemma zero_on_free_clean:
  assumes "clean b" "buffer_ok b"
  shows "clean (AppendData zeros data b) \<and> clean (SetData True zeros data b) \<and>
    clean (SetSize True zeros sz b) \<and> clean (EnsureCapacity zeros cap b) \<and> clean (Buffer_Clear True b)"
  using assms clean_AppendData clean_SetData clean_SetSize clean_headroom clean_Clear
  by (simp add: EnsureCapacity_def)

section \<open>The queue of buffers\<close>

record buffer_queue =
  bq_capacity :: nat
  bq_default_size :: nat
  bq_queue :: "buffer list"
  bq_free_list :: "buffer list"

definition BufferQueue :: "nat \<Rightarrow> nat \<Rightarrow> buffer_queue" where
  "BufferQueue cap default_size =
     \<lparr>bq_capacity = cap, bq_default_size = default_size, bq_queue = [], bq_free_list = []\<rparr>"

definition bq_size :: "buffer_queue \<Rightarrow> nat" where
  "bq_size q = length (bq_queue q)"

definition is_writable :: "buffer_queue \<Rightarrow> bool" where
  "is_writable q \<longleftrightarrow> length (bq_queue q) < bq_capacity q"

definition is_readable :: "buffer_queue \<Rightarrow> bool" where
  "is_readable q \<longleftrightarrow> bq_queue q \<noteq> []"

definition bq_Clear :: "buffer_queue \<Rightarrow> buffer_queue" where
  "bq_Clear q = q\<lparr>bq_queue := [], bq_free_list := bq_free_list q @ bq_queue q\<rparr>"

definition ReadFront :: "nat \<Rightarrow> buffer_queue \<Rightarrow> bytes option \<times> buffer_queue" where
  "ReadFront bytes q =
     (case bq_queue q of
        [] \<Rightarrow> (None, q)
      | packet # rest \<Rightarrow>
          (let n = min bytes (bf_size packet)
           in (Some (take n (bf_mem packet)), q\<lparr>bq_queue := rest, bq_free_list := bq_free_list q @ [packet]\<rparr>)))"

definition WriteBack :: "fresh_mem \<Rightarrow> bytes \<Rightarrow> buffer_queue \<Rightarrow> bool \<times> buffer_queue" where
  "WriteBack fresh data q =
     (if length (bq_queue q) = bq_capacity q then (False, q)
      else
        let (packet, free) =
              (if bq_free_list q \<noteq> [] then (last (bq_free_list q), butlast (bq_free_list q))
               else (Buffer_sized fresh (length data) (bq_default_size q), []));
            packet = SetData False fresh data packet
        in (True, q\<lparr>bq_queue := bq_queue q @ [packet], bq_free_list := free\<rparr>))"

text \<open>
  The packets in the queue, the specification of its operations on a list of packets, and the
  invariant: no more packets than the capacity, and no more buffers ever allocated than that.
\<close>

definition packets :: "buffer_queue \<Rightarrow> bytes list" where
  "packets q = map contents (bq_queue q)"

definition bq_ok :: "buffer_queue \<Rightarrow> bool" where
  "bq_ok q \<longleftrightarrow> list_all buffer_ok (bq_queue q) \<and> list_all buffer_ok (bq_free_list q) \<and>
     length (bq_queue q) + length (bq_free_list q) \<le> bq_capacity q"

datatype bq_op = Write bytes | Read nat | Clear_all

fun bq_step :: "fresh_mem \<Rightarrow> bq_op \<Rightarrow> buffer_queue \<Rightarrow> bytes option \<times> buffer_queue" where
  "bq_step fresh (Write d) q = (case WriteBack fresh d q of (ok, q') \<Rightarrow> (if ok then Some [] else None, q'))"
| "bq_step fresh (Read n) q = ReadFront n q"
| "bq_step fresh Clear_all q = (Some [], bq_Clear q)"

text \<open>The same operations on a bounded first-in first-out list of packets.\<close>

fun spec_step :: "nat \<Rightarrow> bq_op \<Rightarrow> bytes list \<Rightarrow> bytes option \<times> bytes list" where
  "spec_step cap (Write d) ps = (if length ps < cap then (Some [], ps @ [d]) else (None, ps))"
| "spec_step cap (Read n) [] = (None, [])"
| "spec_step cap (Read n) (p # ps) = (Some (take n p), ps)"
| "spec_step cap Clear_all ps = (Some [], [])"

fun bq_run :: "fresh_mem \<Rightarrow> bq_op list \<Rightarrow> buffer_queue \<Rightarrow> bytes option list" where
  "bq_run fresh [] q = []"
| "bq_run fresh (a # as) q = (case bq_step fresh a q of (r, q') \<Rightarrow> r # bq_run fresh as q')"

fun spec_run :: "nat \<Rightarrow> bq_op list \<Rightarrow> bytes list \<Rightarrow> bytes option list" where
  "spec_run cap [] ps = []"
| "spec_run cap (a # as) ps = (case spec_step cap a ps of (r, ps') \<Rightarrow> r # spec_run cap as ps')"

lemma Buffer_sized_ok: "(\<And>n. length (fresh n) = n) \<Longrightarrow> buffer_ok (Buffer_sized fresh sz cap)"
  by (simp add: Buffer_sized_def buffer_ok_def capacity_def)

lemma WriteBack_refines:
  assumes "\<And>n. length (fresh n) = n" "bq_ok q" "WriteBack fresh d q = (ok, q')"
  shows "bq_ok q' \<and> bq_capacity q' = bq_capacity q \<and>
    ((if ok then Some [] else None), packets q') = spec_step (bq_capacity q) (Write d) (packets q)"
proof (cases "length (bq_queue q) = bq_capacity q")
  case True
  with assms(2,3) show ?thesis by (simp add: WriteBack_def packets_def)
next
  case False
  define packet where "packet = (if bq_free_list q \<noteq> [] then last (bq_free_list q)
    else Buffer_sized fresh (length d) (bq_default_size q))"
  define free where "free = (if bq_free_list q \<noteq> [] then butlast (bq_free_list q) else [])"
  have ok: "buffer_ok packet"
    using assms(2) Buffer_sized_ok [OF assms(1)] by (auto simp: packet_def bq_ok_def list_all_iff)
  have q': "ok" "q' = q\<lparr>bq_queue := bq_queue q @ [SetData False fresh d packet], bq_free_list := free\<rparr>"
    using assms(3) False by (auto simp: WriteBack_def packet_def free_def Let_def split: if_splits)
  have "list_all buffer_ok free" "length free \<le> length (bq_free_list q) - 1"
    using assms(2) by (auto simp: free_def bq_ok_def list_all_iff dest: in_set_butlastD)
  then show ?thesis
    using q' False assms(2) SetData_props(1,2) [OF assms(1) ok]
    by (auto simp: bq_ok_def packets_def)
qed

lemma bq_step_refines:
  assumes "\<And>n. length (fresh n) = n" "bq_ok q" "bq_step fresh a q = (r, q')"
  shows "bq_ok q' \<and> bq_capacity q' = bq_capacity q \<and> (r, packets q') = spec_step (bq_capacity q) a (packets q)"
proof (cases a)
  case (Write d)
  then show ?thesis using assms WriteBack_refines [OF assms(1,2), of d] by (auto split: prod.splits)
next
  case (Read n)
  then show ?thesis
    using assms by (auto simp: ReadFront_def bq_ok_def packets_def contents_def Let_def min_def split: list.splits)
next
  case Clear_all
  then show ?thesis using assms by (auto simp: bq_Clear_def bq_ok_def packets_def)
qed

text \<open>
  C27. \<^verbatim>\<open>BufferQueue\<close> is a bounded first-in first-out queue of packets: any sequence of writes, reads
  and clears has exactly the results of the same sequence on a list of packets. A write fails
  exactly when the queue is full, a read returns the oldest packet cut to the size asked for and
  drops the rest of it, and no bytes of a reused buffer show up in a later packet.
\<close>

theorem buffer_queue_refines:
  assumes "\<And>n. length (fresh n) = n"
  shows "bq_run fresh as (BufferQueue cap default_size) = spec_run cap as []"
proof -
  have "bq_run fresh as q = spec_run (bq_capacity q) as (packets q)" if "bq_ok q" for q
    using that
  proof (induction as arbitrary: q)
    case (Cons a as)
    obtain r q' where s: "bq_step fresh a q = (r, q')" by force
    note R = bq_step_refines [OF assms Cons.prems s]
    then have "bq_run fresh as q' = spec_run (bq_capacity q) as (packets q')" using Cons.IH [of q'] by simp
    with s R show ?case by (auto split: prod.splits)
  qed simp
  from this [of "BufferQueue cap default_size"] show ?thesis
    by (simp add: BufferQueue_def bq_ok_def packets_def)
qed

theorem buffer_queue_refines_witness:
  "bq_run zeros [Write [1, 2, 3], Write [4], Write [5], Read 2, Write [6], Read 9, Read 9, Read 9] (BufferQueue 2 16) =
     spec_run 2 [Write [1, 2, 3], Write [4], Write [5], Read 2, Write [6], Read 9, Read 9, Read 9] []"
  by (rule buffer_queue_refines) (rule zeros_length)

end
