(* ===== verification/CowBuffer.thy ===== *)
theory CowBuffer
  imports Buffers "HOL-Library.Monad_Syntax"
begin

text \<open>
  \<^verbatim>\<open>rtc_base/copy_on_write_buffer.cc\<close> and \<^verbatim>\<open>copy_on_write_buffer.h\<close>: buffers that share their storage
  until one of them is written to. The storage is a heap of buffers with their reference counts
  (\<^verbatim>\<open>RefCountedObject<Buffer>\<close>); an object is a number and holds a pointer into the heap or null
  (\<^verbatim>\<open>scoped_refptr\<close>). Using a buffer that is not there, after it was deleted say, has no value: the
  operation returns \<open>None\<close>. The theorem at the end states what sharing must not change: the objects
  behave as independent byte strings.
\<close>

section \<open>Reference-counted storage\<close>

record cow_state =
  cw_heap :: "addr \<rightharpoonup> buffer \<times> int"
  cw_next :: addr
  cw_vars :: "(nat \<times> ptr) list"

definition cw_init :: cow_state where
  "cw_init = \<lparr>cw_heap = Map.empty, cw_next = 0, cw_vars = []\<rparr>"

definition AddRef :: "ptr \<Rightarrow> cow_state \<Rightarrow> cow_state option" where
  "AddRef p st =
     (case p of
        None \<Rightarrow> Some st
      | Some a \<Rightarrow>
          (case cw_heap st a of
             None \<Rightarrow> None
           | Some (b, n) \<Rightarrow> Some (st\<lparr>cw_heap := (cw_heap st)(a \<mapsto> (b, n + 1))\<rparr>)))"

definition Release :: "ptr \<Rightarrow> cow_state \<Rightarrow> cow_state option" where
  "Release p st =
     (case p of
        None \<Rightarrow> Some st
      | Some a \<Rightarrow>
          (case cw_heap st a of
             None \<Rightarrow> None
           | Some (b, n) \<Rightarrow>
               Some (st\<lparr>cw_heap := (if n - 1 = 0 then (cw_heap st)(a := None)
                                     else (cw_heap st)(a \<mapsto> (b, n - 1)))\<rparr>)))"

definition set_var :: "nat \<Rightarrow> ptr \<Rightarrow> (nat \<times> ptr) list \<Rightarrow> (nat \<times> ptr) list" where
  "set_var x p vs = map (\<lambda>(y, q). if y = x then (y, p) else (y, q)) vs"

definition get_var :: "nat \<Rightarrow> cow_state \<Rightarrow> ptr option" where
  "get_var x st = map_of (cw_vars st) x"

text \<open>\<^verbatim>\<open>scoped_refptr::operator=\<close> on \<open>buffer_\<close> of the object \<open>x\<close>: count the new one up first, then the old one down.\<close>

definition cw_assign :: "nat \<Rightarrow> ptr \<Rightarrow> cow_state \<Rightarrow> cow_state option" where
  "cw_assign x p st = do {
     old \<leftarrow> get_var x st;
     st1 \<leftarrow> AddRef p st;
     st2 \<leftarrow> Release old st1;
     Some (st2\<lparr>cw_vars := set_var x p (cw_vars st2)\<rparr>)
   }"

text \<open>\<^verbatim>\<open>buffer_ = new RefCountedObject<Buffer>(...)\<close>.\<close>

definition cw_renew :: "nat \<Rightarrow> buffer \<Rightarrow> cow_state \<Rightarrow> cow_state option" where
  "cw_renew x b st =
     cw_assign x (Some (cw_next st))
       (st\<lparr>cw_heap := (cw_heap st)(cw_next st \<mapsto> (b, 0)), cw_next := cw_next st + 1\<rparr>)"

definition cw_modify :: "nat \<Rightarrow> (buffer \<Rightarrow> buffer) \<Rightarrow> cow_state \<Rightarrow> cow_state option" where
  "cw_modify x f st = do {
     p \<leftarrow> get_var x st;
     a \<leftarrow> p;
     (b, n) \<leftarrow> cw_heap st a;
     Some (st\<lparr>cw_heap := (cw_heap st)(a \<mapsto> (f b, n))\<rparr>)
   }"

section \<open>Operations\<close>

definition cow_declare :: "nat \<Rightarrow> ptr \<Rightarrow> cow_state \<Rightarrow> cow_state" where
  "cow_declare x p st = st\<lparr>cw_vars := (x, p) # cw_vars st\<rparr>"

definition cow_sized :: "fresh_mem \<Rightarrow> nat \<Rightarrow> nat \<Rightarrow> nat \<Rightarrow> cow_state \<Rightarrow> cow_state option" where
  "cow_sized fresh x sz cap st =
     (if sz > 0 \<or> cap > 0 then cw_renew x (Buffer_sized fresh sz cap) (cow_declare x None st)
      else Some (cow_declare x None st))"

definition cow_from_data :: "fresh_mem \<Rightarrow> nat \<Rightarrow> bytes \<Rightarrow> nat \<Rightarrow> cow_state \<Rightarrow> cow_state option" where
  "cow_from_data fresh x data cap st = do {
     st1 \<leftarrow> cow_sized fresh x (length data) cap st;
     (if length data > 0 \<or> cap > 0
      then cw_modify x (\<lambda>b. b\<lparr>bf_mem := data @ drop (length data) (bf_mem b)\<rparr>) st1
      else Some st1)
   }"

definition cow_copy :: "nat \<Rightarrow> nat \<Rightarrow> cow_state \<Rightarrow> cow_state option" where
  "cow_copy x y st = do {
     p \<leftarrow> get_var y st;
     st1 \<leftarrow> AddRef p st;
     Some (cow_declare x p st1)
   }"

definition cow_assign :: "nat \<Rightarrow> nat \<Rightarrow> cow_state \<Rightarrow> cow_state option" where
  "cow_assign x y st = do {
     p \<leftarrow> get_var y st;
     (if y \<noteq> x then cw_assign x p st else Some st)
   }"

definition cow_destroy :: "nat \<Rightarrow> cow_state \<Rightarrow> cow_state option" where
  "cow_destroy x st = do {
     p \<leftarrow> get_var x st;
     st1 \<leftarrow> Release p st;
     Some (st1\<lparr>cw_vars := filter (\<lambda>(y, q). y \<noteq> x) (cw_vars st1)\<rparr>)
   }"

text \<open>\<^verbatim>\<open>buffer_ = std::move(buf.buffer_)\<close>: a temporary takes the pointer, swaps it with \<^verbatim>\<open>buffer_\<close> and releases what it got.\<close>

definition cow_move :: "nat \<Rightarrow> nat \<Rightarrow> cow_state \<Rightarrow> cow_state option" where
  "cow_move x y st = do {
     p \<leftarrow> get_var y st;
     let st1 = st\<lparr>cw_vars := set_var y None (cw_vars st)\<rparr>;
     old \<leftarrow> get_var x st1;
     Release old (st1\<lparr>cw_vars := set_var x p (cw_vars st1)\<rparr>)
   }"

text \<open>\<open>with_buffer x f g st\<close>: \<open>f\<close> when \<open>buffer_\<close> is null, else \<open>g\<close> of the buffer and of \<^verbatim>\<open>HasOneRef()\<close>.\<close>

definition with_buffer ::
  "nat \<Rightarrow> (cow_state \<Rightarrow> cow_state option) \<Rightarrow> (buffer \<Rightarrow> bool \<Rightarrow> cow_state \<Rightarrow> cow_state option) \<Rightarrow>
   cow_state \<Rightarrow> cow_state option" where
  "with_buffer x f g st = do {
     p \<leftarrow> get_var x st;
     (case p of
        None \<Rightarrow> f st
      | Some a \<Rightarrow> do { (b, n) \<leftarrow> cw_heap st a; g b (n = 1) st })
   }"

definition CloneDataIfReferenced :: "fresh_mem \<Rightarrow> nat \<Rightarrow> nat \<Rightarrow> cow_state \<Rightarrow> cow_state option" where
  "CloneDataIfReferenced fresh x new_capacity =
     with_buffer x (\<lambda>_. None)
       (\<lambda>b one st. if one then Some st else cw_renew x (Buffer_copy fresh (contents b) new_capacity) st)"

definition cow_SetSize :: "fresh_mem \<Rightarrow> nat \<Rightarrow> nat \<Rightarrow> cow_state \<Rightarrow> cow_state option" where
  "cow_SetSize fresh x sz =
     with_buffer x (\<lambda>st. if sz > 0 then cw_renew x (Buffer_sized fresh sz sz) st else Some st)
       (\<lambda>b one st. do {
          st1 \<leftarrow> (if one then Some st
                  else cw_renew x (Buffer_copy fresh (take (min (bf_size b) sz) (bf_mem b)) (max (capacity b) sz)) st);
          cw_modify x (SetSize False fresh sz) st1
        })"

definition cow_EnsureCapacity :: "fresh_mem \<Rightarrow> nat \<Rightarrow> nat \<Rightarrow> cow_state \<Rightarrow> cow_state option" where
  "cow_EnsureCapacity fresh x cap =
     with_buffer x (\<lambda>st. if cap > 0 then cw_renew x (Buffer_sized fresh 0 cap) st else Some st)
       (\<lambda>b one st.
          if cap \<le> capacity b then Some st
          else do {
            st1 \<leftarrow> CloneDataIfReferenced fresh x (max (capacity b) cap) st;
            cw_modify x (EnsureCapacity fresh cap) st1
          })"

definition cow_Clear :: "fresh_mem \<Rightarrow> nat \<Rightarrow> cow_state \<Rightarrow> cow_state option" where
  "cow_Clear fresh x =
     with_buffer x Some
       (\<lambda>b one st. if one then cw_modify x (Buffer_Clear False) st
                   else cw_renew x (Buffer_sized fresh 0 (capacity b)) st)"

definition cow_SetData :: "fresh_mem \<Rightarrow> nat \<Rightarrow> bytes \<Rightarrow> cow_state \<Rightarrow> cow_state option" where
  "cow_SetData fresh x data =
     with_buffer x
       (\<lambda>st. if length data > 0 then cw_renew x (Buffer_copy fresh data (length data)) st else cw_assign x None st)
       (\<lambda>b one st. if \<not> one then cw_renew x (Buffer_copy fresh data (capacity b)) st
                   else cw_modify x (SetData False fresh data) st)"

definition cow_AppendData :: "fresh_mem \<Rightarrow> nat \<Rightarrow> bytes \<Rightarrow> cow_state \<Rightarrow> cow_state option" where
  "cow_AppendData fresh x data =
     with_buffer x (cw_renew x (Buffer_copy fresh data (length data)))
       (\<lambda>b one st. do {
          st1 \<leftarrow> CloneDataIfReferenced fresh x (max (capacity b) (bf_size b + length data)) st;
          cw_modify x (AppendData fresh data) st1
        })"

text \<open>\<^verbatim>\<open>operator[]\<close> used to write: \<^verbatim>\<open>data()\<close> clones a shared buffer, then the byte is stored.\<close>

definition cow_set_at :: "fresh_mem \<Rightarrow> nat \<Rightarrow> nat \<Rightarrow> byte \<Rightarrow> cow_state \<Rightarrow> cow_state option" where
  "cow_set_at fresh x i v =
     with_buffer x (\<lambda>_. None)
       (\<lambda>b one st.
          if i < bf_size b then do {
            st1 \<leftarrow> CloneDataIfReferenced fresh x (capacity b) st;
            cw_modify x (\<lambda>b. b\<lparr>bf_mem := (bf_mem b)[i := v]\<rparr>) st1
          } else None)"

text \<open>\<^verbatim>\<open>operator==\<close> on two pointers.\<close>

definition cow_equal :: "nat \<Rightarrow> nat \<Rightarrow> cow_state \<Rightarrow> bool option" where
  "cow_equal x y st = do {
     p \<leftarrow> get_var x st;
     q \<leftarrow> get_var y st;
     (if p = q then Some True
      else case (p, q) of
          (Some a, Some b) \<Rightarrow> do { (u, _) \<leftarrow> cw_heap st a; (v, _) \<leftarrow> cw_heap st b; Some (Buffer_equal u v) }
        | _ \<Rightarrow> Some False)
   }"

section \<open>The invariant\<close>

definition refs :: "cow_state \<Rightarrow> addr \<Rightarrow> nat" where
  "refs st a = length (filter (\<lambda>(x, p). p = Some a) (cw_vars st))"

text \<open>
  \<open>counted st\<close>: names are distinct, every pointer is live, every count is the number of pointers to
  the buffer, buffers are consistent and new addresses are free. In \<open>cow_ok\<close> moreover every
  buffer is used: none has leaked.
\<close>

definition counted :: "cow_state \<Rightarrow> bool" where
  "counted st \<longleftrightarrow> distinct (map fst (cw_vars st)) \<and>
     (\<forall>x a. get_var x st = Some (Some a) \<longrightarrow> cw_heap st a \<noteq> None) \<and>
     (\<forall>a b n. cw_heap st a = Some (b, n) \<longrightarrow> n = int (refs st a) \<and> buffer_ok b \<and> a < cw_next st)"

definition cow_ok :: "cow_state \<Rightarrow> bool" where
  "cow_ok st \<longleftrightarrow> counted st \<and> (\<forall>a. cw_heap st a \<noteq> None \<longrightarrow> refs st a > 0)"

text \<open>The byte string an object stands for.\<close>

definition str_at :: "cow_state \<Rightarrow> ptr \<Rightarrow> bytes option" where
  "str_at st p = (case p of None \<Rightarrow> Some [] | Some a \<Rightarrow> map_option (\<lambda>(b, n). contents b) (cw_heap st a))"

definition str_of :: "cow_state \<Rightarrow> nat \<Rightarrow> bytes option" where
  "str_of st x = (case get_var x st of None \<Rightarrow> None | Some p \<Rightarrow> str_at st p)"

lemma get_set_var:
  "map_of (set_var x p vs) y = (if y = x \<and> map_of vs x \<noteq> None then Some p else map_of vs y)"
  by (induction vs) (auto simp: set_var_def)

lemma fst_set_var [simp]: "map fst (set_var x p vs) = map fst vs"
  by (induction vs) (auto simp: set_var_def)

lemma set_var_other: "x \<notin> fst ` set vs \<Longrightarrow> set_var x p vs = vs"
  by (induction vs) (auto simp: set_var_def)

lemma count_set_var:
  assumes "distinct (map fst vs)" "map_of vs x = Some old"
  shows "int (length (filter (\<lambda>(x, p). p = Some a) (set_var x p vs))) =
    int (length (filter (\<lambda>(x, p). p = Some a) vs)) - (if old = Some a then 1 else 0) + (if p = Some a then 1 else 0)"
  using assms
proof (induction vs)
  case (Cons v vs)
  obtain y q where v: "v = (y, q)" by force
  show ?case
  proof (cases "y = x")
    case True
    then have "set_var x p vs = vs" using Cons.prems(1) v by (intro set_var_other) auto
    then show ?thesis using True v Cons.prems(2) by (auto simp: set_var_def)
  next
    case False
    then show ?thesis using Cons v by (auto simp: set_var_def)
  qed
qed simp

lemma refs_pos:
  assumes "get_var x st = Some (Some a)"
  shows "refs st a > 0"
proof -
  have "(x, Some a) \<in> set (cw_vars st)" using assms by (auto simp: get_var_def dest: map_of_SomeD)
  then have "(x, Some a) \<in> set (filter (\<lambda>(x, p). p = Some a) (cw_vars st))" by simp
  then show ?thesis unfolding refs_def by (metis length_pos_if_in_set)
qed

lemma refs_one_unique:
  assumes "distinct (map fst (cw_vars st))" "refs st a = 1" "get_var x st = Some (Some a)" "get_var y st = Some (Some a)"
  shows "x = y"
proof (rule ccontr)
  assume ne: "x \<noteq> y"
  let ?vs = "set_var x None (cw_vars st)"
  have "int (length (filter (\<lambda>(x, p). p = Some a) ?vs)) = 0"
    using count_set_var [OF assms(1), of x "Some a" a None] assms(2,3) by (simp add: get_var_def refs_def)
  moreover have "map_of ?vs y = Some (Some a)" using ne assms(4) by (simp add: get_set_var get_var_def)
  then have "(y, Some a) \<in> set (filter (\<lambda>(x, p). p = Some a) ?vs)" by (auto dest: map_of_SomeD)
  ultimately show False by (metis length_pos_if_in_set of_nat_0_less_iff less_irrefl)
qed

lemma refs_live:
  assumes "counted st" "refs st a > 0"
  shows "cw_heap st a \<noteq> None"
proof -
  obtain y where "(y, Some a) \<in> set (cw_vars st)"
    using assms(2) unfolding refs_def by (auto simp: filter_empty_conv)
  then have "get_var y st = Some (Some a)" using assms(1) by (simp add: get_var_def counted_def)
  then show ?thesis using assms(1) by (auto simp: counted_def)
qed

text \<open>Assigning a pointer: the counts stay right, an unused old buffer is deleted, no other object changes.\<close>

lemma cw_assign_ok:
  assumes "counted st" "get_var x st \<noteq> None" "p = None \<or> (\<exists>a v. p = Some a \<and> cw_heap st a = Some v)"
    "\<And>a. cw_heap st a \<noteq> None \<Longrightarrow> refs st a > 0 \<or> p = Some a"
  shows "\<exists>st'. cw_assign x p st = Some st' \<and> cow_ok st' \<and>
    (\<forall>y. str_of st' y = (if y = x then str_at st p else str_of st y)) \<and> get_var x st' = Some p \<and>
    (\<forall>a. p = Some a \<longrightarrow> refs st a = 0 \<longrightarrow> cw_heap st' a = Some (fst (the (cw_heap st a)), 1))"
proof -
  obtain old where old: "get_var x st = Some old" using assms(2) by auto
  have dist: "distinct (map fst (cw_vars st))" using assms(1) by (simp add: counted_def)
  define H1 where "H1 = (case p of None \<Rightarrow> cw_heap st
    | Some a \<Rightarrow> (cw_heap st)(a \<mapsto> (fst (the (cw_heap st a)), snd (the (cw_heap st a)) + 1)))"
  have add: "AddRef p st = Some (st\<lparr>cw_heap := H1\<rparr>)"
    using assms(3) by (auto simp: AddRef_def H1_def split: option.splits prod.splits)
  define H2 where "H2 = (case old of None \<Rightarrow> H1
    | Some a \<Rightarrow> (if snd (the (H1 a)) - 1 = 0 then H1(a := None) else H1(a \<mapsto> (fst (the (H1 a)), snd (the (H1 a)) - 1))))"
  have liveold: "old = Some a \<Longrightarrow> H1 a \<noteq> None" for a
    using assms(1) old by (auto simp: counted_def H1_def split: option.splits)
  have rel: "Release old (st\<lparr>cw_heap := H1\<rparr>) = Some (st\<lparr>cw_heap := H2\<rparr>)"
    using liveold by (auto simp: Release_def H2_def split: option.splits prod.splits)
  define st' where "st' = st\<lparr>cw_heap := H2, cw_vars := set_var x p (cw_vars st)\<rparr>"
  have st': "cw_assign x p st = Some st'" by (simp add: cw_assign_def old add rel st'_def)
  have r: "int (refs st' a) = int (refs st a) - (if old = Some a then 1 else 0) + (if p = Some a then 1 else 0)" for a
    using count_set_var [OF dist, of x old a p] old by (simp add: refs_def st'_def get_var_def)
  have heap: "H2 a = (if refs st' a = 0 then None else Some (fst (the (cw_heap st a)), int (refs st' a)))" for a
  proof (cases "cw_heap st a")
    case None
    then have "refs st a = 0" "p \<noteq> Some a" "old \<noteq> Some a"
      using refs_live [OF assms(1), of a] refs_pos [of x st a] old assms(3) by auto
    moreover from this None have "H2 a = None"
      by (auto simp: H2_def H1_def split: option.splits)
    ultimately show ?thesis using r [of a] by simp
  next
    case (Some v)
    then obtain b where v: "v = (b, int (refs st a))" using assms(1) by (cases v) (auto simp: counted_def)
    define c where "c = int (refs st a) + (if p = Some a then 1 else 0)"
    have H1: "H1 a = Some (b, c)" using Some v by (auto simp: H1_def c_def split: option.splits)
    have c: "c > 0" using assms(4) [of a] Some by (auto simp: c_def)
    show ?thesis
    proof (cases "old = Some a")
      case True
      then have "int (refs st' a) = c - 1" using r [of a] by (simp add: c_def)
      with True H1 Some v show ?thesis by (auto simp: H2_def)
    next
      case False
      then have "int (refs st' a) = c" using r [of a] by (simp add: c_def)
      moreover have "H2 a = H1 a" using False by (auto simp: H2_def split: option.splits)
      ultimately show ?thesis using H1 Some v c by auto
    qed
  qed
  have var: "get_var y st' = (if y = x then Some p else get_var y st)" for y
    using old by (simp add: get_var_def st'_def get_set_var)
  have src: "cw_heap st a \<noteq> None" if "refs st' a > 0" for a
    using that r [of a] refs_live [OF assms(1), of a] assms(3) by (auto split: if_splits)
  have ok: "cow_ok st'"
    unfolding cow_ok_def counted_def
  proof (intro conjI allI impI)
    show "distinct (map fst (cw_vars st'))" using dist by (simp add: st'_def)
    show "cw_heap st' a \<noteq> None" if "get_var y st' = Some (Some a)" for y a
      using refs_pos [OF that] heap [of a] by (simp add: st'_def)
    fix a b n assume h: "cw_heap st' a = Some (b, n)"
    then have pos: "refs st' a > 0" and n: "n = int (refs st' a)" and b: "b = fst (the (cw_heap st a))"
      using heap [of a] by (auto simp: st'_def split: if_splits)
    show "n = int (refs st' a)" by (rule n)
    show "buffer_ok b" "a < cw_next st'"
      using src [OF pos] b assms(1) by (auto simp: counted_def st'_def)
  next
    show "refs st' a > 0" if "cw_heap st' a \<noteq> None" for a
      using that heap [of a] by (auto simp: st'_def split: if_splits)
  qed
  have keep: "str_at st' q = str_at st q" if "get_var y st' = Some q" for q y
  proof (cases q)
    case (Some a)
    then have "refs st' a > 0" using that refs_pos by blast
    then show ?thesis using Some heap [of a] src [of a] by (auto simp: str_at_def st'_def)
  qed (simp add: str_at_def)
  have "str_of st' y = (if y = x then str_at st p else str_of st y)" for y
    using var [of y] keep [of y] by (auto simp: str_of_def split: option.splits)
  moreover have "cw_heap st' a = Some (fst (the (cw_heap st a)), 1)" if "p = Some a" "refs st a = 0" for a
  proof -
    have "old \<noteq> Some a" using that(2) old refs_pos [of x st a] by auto
    then have "refs st' a = 1" using r [of a] that by simp
    then show ?thesis using heap [of a] by (simp add: st'_def)
  qed
  ultimately show ?thesis using st' ok var old by auto
qed

text \<open>
  \<open>changes st x v st'\<close>: afterwards \<open>x\<close> stands for \<open>v\<close> and every other object for what it stood for;
  \<open>owns st x b\<close>: \<open>x\<close> is the only user of the buffer \<open>b\<close>.
\<close>

definition changes :: "cow_state \<Rightarrow> nat \<Rightarrow> bytes \<Rightarrow> cow_state \<Rightarrow> bool" where
  "changes st x v st' \<longleftrightarrow> cow_ok st' \<and> (\<forall>y. str_of st' y = (if y = x then Some v else str_of st y))"

definition owns :: "cow_state \<Rightarrow> nat \<Rightarrow> buffer \<Rightarrow> bool" where
  "owns st x b \<longleftrightarrow> (\<exists>a. get_var x st = Some (Some a) \<and> cw_heap st a = Some (b, 1)) \<and> buffer_ok b"

lemma changes_trans: "changes st x v st1 \<Longrightarrow> changes st1 x w st2 \<Longrightarrow> changes st x w st2"
  by (auto simp: changes_def)

lemma changes_refl: "cow_ok st \<Longrightarrow> str_of st x = Some v \<Longrightarrow> changes st x v st"
  by (auto simp: changes_def)

lemma counted_heap:
  "counted st \<Longrightarrow> cw_heap st a = Some (b, n) \<Longrightarrow> n = int (refs st a) \<and> buffer_ok b \<and> a < cw_next st"
  by (simp add: counted_def)

lemma counted_ptr: "counted st \<Longrightarrow> get_var x st = Some (Some a) \<Longrightarrow> cw_heap st a \<noteq> None"
  by (simp add: counted_def)

lemma cow_ok_counted: "cow_ok st \<Longrightarrow> counted st"
  by (simp add: cow_ok_def)

lemma cow_ok_used: "cow_ok st \<Longrightarrow> cw_heap st a = Some v \<Longrightarrow> refs st a > 0"
  by (simp add: cow_ok_def)

lemma cow_okI:
  assumes "distinct (map fst (cw_vars st))" "\<And>x a. get_var x st = Some (Some a) \<Longrightarrow> cw_heap st a \<noteq> None"
    "\<And>a b n. cw_heap st a = Some (b, n) \<Longrightarrow> n = int (refs st a) \<and> buffer_ok b \<and> a < cw_next st \<and> refs st a > 0"
  shows "cow_ok st"
  using assms by (auto simp: cow_ok_def counted_def)

lemma cw_renew_ok:
  assumes "cow_ok st" "get_var x st \<noteq> None" "buffer_ok b"
  shows "\<exists>st'. cw_renew x b st = Some st' \<and> changes st x (contents b) st' \<and> owns st' x b"
proof -
  let ?a = "cw_next st"
  define st1 where "st1 = st\<lparr>cw_heap := (cw_heap st)(?a \<mapsto> (b, 0)), cw_next := ?a + 1\<rparr>"
  have ct: "counted st" using assms(1) by (simp add: cow_ok_def)
  have free: "cw_heap st ?a = None" using counted_heap [OF ct, of ?a] by (cases "cw_heap st ?a") auto
  have gv: "get_var y st1 = get_var y st" and rf: "refs st1 c = refs st c" for y c
    by (simp_all add: st1_def get_var_def refs_def)
  have r0: "refs st ?a = 0" using refs_live [OF ct, of ?a] free by auto
  have c1: "counted st1"
    unfolding counted_def
  proof (intro conjI allI impI)
    show "distinct (map fst (cw_vars st1))" using ct by (simp add: st1_def counted_def)
    show "cw_heap st1 c \<noteq> None" if "get_var y st1 = Some (Some c)" for y c
      using that counted_ptr [OF ct, of y c] by (simp add: gv) (simp add: st1_def)
    fix c d n assume h: "cw_heap st1 c = Some (d, n)"
    have "n = int (refs st c) \<and> buffer_ok d \<and> c < cw_next st + 1"
    proof (cases "c = ?a")
      case True
      then show ?thesis using h r0 assms(3) by (simp add: st1_def)
    next
      case False
      then have "cw_heap st c = Some (d, n)" using h by (simp add: st1_def)
      then show ?thesis using counted_heap [OF ct, of c d n] by simp
    qed
    then show "n = int (refs st1 c)" "buffer_ok d" "c < cw_next st1" by (simp_all add: rf) (simp add: st1_def)
  qed
  have used: "refs st1 c > 0 \<or> Some ?a = Some c" if "cw_heap st1 c \<noteq> None" for c
    using that cow_ok_used [OF assms(1), of c] unfolding rf by (cases "c = ?a") (auto simp: st1_def)
  obtain st' where st': "cw_assign x (Some ?a) st1 = Some st'" "cow_ok st'"
    "\<forall>y. str_of st' y = (if y = x then str_at st1 (Some ?a) else str_of st1 y)"
    "get_var x st' = Some (Some ?a)" "cw_heap st' ?a = Some (fst (the (cw_heap st1 ?a)), 1)"
    using cw_assign_ok [OF c1, of x "Some ?a"] used assms(2) r0 by (auto simp: gv rf) (auto simp: st1_def)
  have "str_of st1 y = str_of st y" for y
  proof (cases "get_var y st")
    case (Some q)
    then have "q \<noteq> Some ?a" using counted_ptr [OF ct, of y ?a] free by auto
    with Some show ?thesis unfolding str_of_def gv by (auto simp: str_at_def st1_def split: option.split)
  qed (simp add: str_of_def gv)
  moreover have "str_at st1 (Some ?a) = Some (contents b)" by (simp add: str_at_def st1_def)
  ultimately have "changes st x (contents b) st'" using st'(2,3) by (auto simp: changes_def)
  moreover have "owns st' x b" using st'(4,5) assms(3) by (simp add: owns_def st1_def)
  ultimately show ?thesis using st'(1) by (auto simp: cw_renew_def st1_def)
qed

lemma cw_modify_ok:
  assumes "cow_ok st" "owns st x b" "buffer_ok (f b)"
  shows "\<exists>st'. cw_modify x f st = Some st' \<and> changes st x (contents (f b)) st' \<and> owns st' x (f b)"
proof -
  obtain a where a: "get_var x st = Some (Some a)" "cw_heap st a = Some (b, 1)" using assms(2) by (auto simp: owns_def)
  define st' where "st' = st\<lparr>cw_heap := (cw_heap st)(a \<mapsto> (f b, 1))\<rparr>"
  have gv: "get_var y st' = get_var y st" and rf: "refs st' c = refs st c" for y c
    by (simp_all add: st'_def get_var_def refs_def)
  have ct: "counted st" using assms(1) by (simp add: cow_ok_def)
  have "refs st a = 1" using ct a(2) unfolding counted_def by (metis of_nat_1 of_nat_eq_iff)
  then have uniq: "y = x" if "get_var y st = Some (Some a)" for y
    using refs_one_unique [of st a y x] ct that a(1) by (simp add: counted_def)
  have "cow_ok st'"
  proof (rule cow_okI)
    show "distinct (map fst (cw_vars st'))" using ct by (simp add: st'_def counted_def)
    show "cw_heap st' c \<noteq> None" if "get_var y st' = Some (Some c)" for y c
      using that counted_ptr [OF ct, of y c] by (simp add: gv) (simp add: st'_def)
    show "n = int (refs st' c) \<and> buffer_ok d \<and> c < cw_next st' \<and> refs st' c > 0"
      if h: "cw_heap st' c = Some (d, n)" for c d n
    proof (cases "c = a")
      case True
      then show ?thesis
        using h counted_heap [OF ct a(2)] assms(3) \<open>refs st a = 1\<close> by (simp add: rf) (simp add: st'_def)
    next
      case False
      then have "cw_heap st c = Some (d, n)" using h by (simp add: st'_def)
      then show ?thesis
        using counted_heap [OF ct, of c d n] cow_ok_used [OF assms(1), of c] by (simp add: rf) (simp add: st'_def)
    qed
  qed
  moreover have "str_of st' y = (if y = x then Some (contents (f b)) else str_of st y)" for y
  proof (cases "y = x")
    case True
    then show ?thesis using a(1) unfolding str_of_def gv by (simp add: str_at_def st'_def)
  next
    case False
    then have "get_var y st \<noteq> Some (Some a)" using uniq by blast
    then show ?thesis
      using False unfolding str_of_def gv by (auto simp: str_at_def st'_def split: option.split)
  qed
  moreover have "cw_modify x f st = Some st'" using a by (simp add: cw_modify_def st'_def)
  moreover have "owns st' x (f b)" using a(1) gv assms(3) by (auto simp: owns_def st'_def)
  ultimately show ?thesis by (auto simp: changes_def)
qed

text \<open>An object with a buffer: it is consistent, and it is owned when its count is one.\<close>

lemma buffer_of:
  assumes "cow_ok st" "get_var x st = Some (Some a)"
  obtains b n where "cw_heap st a = Some (b, n)" "buffer_ok b" "n = 1 \<Longrightarrow> owns st x b"
    "str_of st x = Some (contents b)"
proof -
  obtain b n where h: "cw_heap st a = Some (b, n)"
    using counted_ptr [OF cow_ok_counted [OF assms(1)] assms(2)] by auto
  moreover have "buffer_ok b" using counted_heap [OF cow_ok_counted [OF assms(1)] h] by simp
  ultimately show thesis
    using assms(2) by (intro that [of b n]) (auto simp: owns_def str_of_def str_at_def)
qed

lemma Buffer_copy_props:
  assumes "\<And>n. length (fresh n) = n"
  shows "buffer_ok (Buffer_copy fresh data cap)" "contents (Buffer_copy fresh data cap) = data"
    "bf_size (Buffer_copy fresh data cap) = length data"
  using assms by (auto simp: Buffer_copy_def Buffer_sized_def buffer_ok_def capacity_def contents_def Let_def)

lemma CloneDataIfReferenced_ok:
  assumes "\<And>n. length (fresh n) = n" "cow_ok st" "get_var x st = Some (Some a)" "cw_heap st a = Some (b, n)"
  shows "\<exists>st' b'. CloneDataIfReferenced fresh x cap st = Some st' \<and> changes st x (contents b) st' \<and>
    owns st' x b' \<and> contents b' = contents b \<and> bf_size b' = bf_size b"
proof -
  obtain b2 n2 where B: "cw_heap st a = Some (b2, n2)" "buffer_ok b2" "n2 = 1 \<Longrightarrow> owns st x b2"
    "str_of st x = Some (contents b2)"
    using buffer_of [OF assms(2,3)] by blast
  then have [simp]: "b2 = b" "n2 = n" using assms(4) by auto
  show ?thesis
  proof (cases "n = 1")
    case True
    then show ?thesis using assms(3,4) B changes_refl [OF assms(2)]
      by (auto simp: CloneDataIfReferenced_def with_buffer_def)
  next
    case False
    let ?b = "Buffer_copy fresh (contents b) cap"
    obtain st' where "cw_renew x ?b st = Some st'" "changes st x (contents ?b) st'" "owns st' x ?b"
      using cw_renew_ok [OF assms(2), of x ?b] assms(3) Buffer_copy_props(1) [OF assms(1)] by auto
    then show ?thesis
      using False assms(3,4) Buffer_copy_props [OF assms(1), of "contents b" cap] length_contents [OF B(2)]
      by (auto simp: CloneDataIfReferenced_def with_buffer_def)
  qed
qed

text \<open>An operation that clones a shared buffer and then modifies it changes only its own object.\<close>

lemma clone_modify:
  assumes "\<And>n. length (fresh n) = n" "cow_ok st" "get_var x st = Some (Some a)" "cw_heap st a = Some (b, n)"
    "\<And>b'. buffer_ok b' \<Longrightarrow> contents b' = contents b \<Longrightarrow> bf_size b' = bf_size b \<Longrightarrow>
       buffer_ok (f b') \<and> contents (f b') = v"
  shows "\<exists>st'. (CloneDataIfReferenced fresh x cap st \<bind> cw_modify x f) = Some st' \<and> changes st x v st'"
proof -
  obtain st1 b' where 1: "CloneDataIfReferenced fresh x cap st = Some st1" "changes st x (contents b) st1"
    "owns st1 x b'" "contents b' = contents b" "bf_size b' = bf_size b"
    using CloneDataIfReferenced_ok [OF assms(1-4), of cap] by auto
  have f: "buffer_ok (f b')" "contents (f b') = v" using assms(5) [of b'] 1(3-5) by (auto simp: owns_def)
  obtain st2 where "cw_modify x f st1 = Some st2" "changes st1 x (contents (f b')) st2"
    using cw_modify_ok [of st1 x b' f] 1(2,3) f(1) by (auto simp: changes_def)
  then show ?thesis using 1 f(2) changes_trans by auto
qed

lemma null_str: "get_var x st = Some None \<Longrightarrow> str_of st x = Some []"
  by (simp add: str_of_def str_at_def)

lemma renew_changes:
  assumes "cow_ok st" "get_var x st \<noteq> None" "buffer_ok b" "contents b = v"
  shows "\<exists>st'. cw_renew x b st = Some st' \<and> changes st x v st'"
  using cw_renew_ok [OF assms(1-3)] assms(4) by auto

lemma var_cases:
  assumes "str_of st x = Some v"
  obtains "get_var x st = Some None" | a where "get_var x st = Some (Some a)"
  using assms by (auto simp: str_of_def split: option.splits)

section \<open>What the operations do\<close>

lemma cow_AppendData_ok:
  assumes "\<And>n. length (fresh n) = n" "cow_ok st" "str_of st x = Some v"
  shows "\<exists>st'. cow_AppendData fresh x d st = Some st' \<and> changes st x (v @ d) st'"
proof (cases rule: var_cases [OF assms(3)])
  case 1
  then have "v = []" using assms(3) null_str by force
  then show ?thesis
    using 1 renew_changes [OF assms(2), of x "Buffer_copy fresh d (length d)"] Buffer_copy_props [OF assms(1)]
    by (simp add: cow_AppendData_def with_buffer_def)
next
  case (2 a)
  then obtain b n where B: "cw_heap st a = Some (b, n)" "str_of st x = Some (contents b)"
    using buffer_of [OF assms(2)] by metis
  then have "\<exists>st'. (CloneDataIfReferenced fresh x (max (capacity b) (bf_size b + length d)) st \<bind>
      cw_modify x (AppendData fresh d)) = Some st' \<and> changes st x (v @ d) st'"
    using assms(3) AppendData_props(1,2) [OF assms(1)]
    by (intro clone_modify [OF assms(1,2) 2(1)]) auto
  then show ?thesis using 2 B by (simp add: cow_AppendData_def with_buffer_def)
qed

lemma cow_set_at_ok:
  assumes "\<And>n. length (fresh n) = n" "cow_ok st" "str_of st x = Some v" "i < length v"
  shows "\<exists>st'. cow_set_at fresh x i c st = Some st' \<and> changes st x (v[i := c]) st'"
proof (cases rule: var_cases [OF assms(3)])
  case 1
  then show ?thesis using assms(3,4) null_str by force
next
  case (2 a)
  then obtain b n where B: "cw_heap st a = Some (b, n)" "str_of st x = Some (contents b)" "buffer_ok b"
    using buffer_of [OF assms(2)] by metis
  then have "\<exists>st'. (CloneDataIfReferenced fresh x (capacity b) st \<bind>
      cw_modify x (\<lambda>b. b\<lparr>bf_mem := (bf_mem b)[i := c]\<rparr>)) = Some st' \<and> changes st x (v[i := c]) st'"
    using assms(3)
    by (intro clone_modify [OF assms(1,2) 2(1)]) (auto simp: buffer_ok_def capacity_def contents_def take_update_swap)
  moreover have "i < bf_size b" using assms(3,4) B length_contents [OF B(3)] by simp
  ultimately show ?thesis using 2 B by (simp add: cow_set_at_def with_buffer_def)
qed

lemma cow_EnsureCapacity_ok:
  assumes "\<And>n. length (fresh n) = n" "cow_ok st" "str_of st x = Some v"
  shows "\<exists>st'. cow_EnsureCapacity fresh x cap st = Some st' \<and> changes st x v st'"
proof (cases rule: var_cases [OF assms(3)])
  case 1
  then have "v = []" using assms(3) null_str by force
  moreover have "contents (Buffer_sized fresh 0 cap) = []" by (simp add: Buffer_sized_def contents_def)
  ultimately show ?thesis
    using 1 renew_changes [OF assms(2), of x "Buffer_sized fresh 0 cap"] Buffer_sized_ok [OF assms(1)]
      changes_refl [OF assms(2,3)]
    by (auto simp: cow_EnsureCapacity_def with_buffer_def)
next
  case (2 a)
  then obtain b n where B: "cw_heap st a = Some (b, n)" "str_of st x = Some (contents b)"
    using buffer_of [OF assms(2)] by metis
  then have "\<exists>st'. (CloneDataIfReferenced fresh x (max (capacity b) cap) st \<bind>
      cw_modify x (EnsureCapacity fresh cap)) = Some st' \<and> changes st x v st'"
    using assms(3) EnsureCapacityWithHeadroom_props(2,3) [OF assms(1)]
    by (intro clone_modify [OF assms(1,2) 2(1)]) (auto simp: EnsureCapacity_def)
  then show ?thesis
    using 2 B changes_refl [OF assms(2,3)] by (auto simp: cow_EnsureCapacity_def with_buffer_def)
qed

lemma cow_Clear_ok:
  assumes "\<And>n. length (fresh n) = n" "cow_ok st" "str_of st x = Some v"
  shows "\<exists>st'. cow_Clear fresh x st = Some st' \<and> changes st x [] st'"
proof (cases rule: var_cases [OF assms(3)])
  case 1
  then show ?thesis
    using changes_refl [OF assms(2) null_str [OF 1]] by (simp add: cow_Clear_def with_buffer_def)
next
  case (2 a)
  obtain b n where B: "cw_heap st a = Some (b, n)" "buffer_ok b" "n = 1 \<Longrightarrow> owns st x b"
    using buffer_of [OF assms(2) 2(1)] by metis
  have c: "contents (Buffer_sized fresh 0 (capacity b)) = []" "contents (Buffer_Clear False b) = []"
    "buffer_ok (Buffer_Clear False b)"
    by (simp_all add: Buffer_sized_def contents_def Buffer_Clear_def buffer_ok_def)
  show ?thesis
    using 2 B(1) cw_modify_ok [OF assms(2) B(3), of "Buffer_Clear False"] c
      renew_changes [OF assms(2) _ Buffer_sized_ok [OF assms(1)] c(1)]
    by (cases "n = 1") (auto simp: cow_Clear_def with_buffer_def)
qed

lemma cow_SetData_ok:
  assumes "\<And>n. length (fresh n) = n" "cow_ok st" "str_of st x = Some v"
  shows "\<exists>st'. cow_SetData fresh x d st = Some st' \<and> changes st x d st'"
proof (cases rule: var_cases [OF assms(3)])
  case 1
  have "\<exists>st'. cw_assign x None st = Some st' \<and> changes st x [] st'"
    using cw_assign_ok [OF cow_ok_counted [OF assms(2)], of x None] 1 assms(2)
    by (auto simp: changes_def str_at_def cow_ok_def)
  then show ?thesis
    using 1 renew_changes [OF assms(2) _ Buffer_copy_props(1,2) [OF assms(1)], of x d "length d"]
    by (cases "d = []") (auto simp: cow_SetData_def with_buffer_def)
next
  case (2 a)
  obtain b n where B: "cw_heap st a = Some (b, n)" "buffer_ok b" "n = 1 \<Longrightarrow> owns st x b"
    using buffer_of [OF assms(2) 2(1)] by metis
  show ?thesis
    using 2 B(1) cw_modify_ok [OF assms(2) B(3), of "SetData False fresh d"] SetData_props(1,2) [OF assms(1) B(2)]
      renew_changes [OF assms(2) _ Buffer_copy_props(1,2) [OF assms(1)], of x d "capacity b"]
    by (cases "n = 1") (auto simp: cow_SetData_def with_buffer_def)
qed

text \<open>Setting the size keeps what fits; the bytes of a longer buffer are not initialized.\<close>

definition resized :: "nat \<Rightarrow> bytes \<Rightarrow> bytes \<Rightarrow> bool" where
  "resized n v w \<longleftrightarrow> length w = n \<and> take (length v) w = take n v"

lemma SetSize_resized:
  assumes "\<And>n. length (fresh n) = n" "buffer_ok b"
  shows "resized n (contents b) (contents (SetSize False fresh n b))"
  using SetSize_props [OF assms, of False n] length_contents [OF assms(2)] length_contents
  by (simp add: resized_def)

lemma resized_take: "resized n (take n v) w \<Longrightarrow> resized n v w"
  by (auto simp: resized_def min_def split: if_splits)

lemma cow_SetSize_ok:
  assumes "\<And>n. length (fresh n) = n" "cow_ok st" "str_of st x = Some v"
  shows "\<exists>st' w. cow_SetSize fresh x n st = Some st' \<and> resized n v w \<and> changes st x w st'"
proof (cases rule: var_cases [OF assms(3)])
  case 1
  let ?b = "Buffer_sized fresh n n"
  have v: "v = []" using 1 assms(3) null_str by force
  have "resized n v (contents ?b)" using v assms(1) by (simp add: resized_def Buffer_sized_def contents_def)
  then show ?thesis
    using 1 v renew_changes [OF assms(2) _ Buffer_sized_ok [OF assms(1)] refl, of x n n] changes_refl [OF assms(2,3)]
    by (cases "n > 0") (auto simp: cow_SetSize_def with_buffer_def resized_def)
next
  case (2 a)
  obtain b m where B: "cw_heap st a = Some (b, m)" "buffer_ok b" "m = 1 \<Longrightarrow> owns st x b" "str_of st x = Some (contents b)"
    using buffer_of [OF assms(2) 2(1)] by metis
  define clone where "clone = Buffer_copy fresh (take (min (bf_size b) n) (bf_mem b)) (max (capacity b) n)"
  have v: "v = contents b" using assms(3) B(4) by simp
  have "contents clone = take (min (bf_size b) n) (bf_mem b)"
    by (simp only: clone_def Buffer_copy_props(2) [OF assms(1)])
  then have cl: "contents clone = take n v" "buffer_ok clone"
    using Buffer_copy_props(1) [OF assms(1)] by (simp_all add: clone_def v contents_def min.commute)
  obtain st1 b1 where 1: "(if m = 1 then Some st else cw_renew x clone st) = Some st1"
    "owns st1 x b1" "\<exists>u. changes st x u st1" "resized n (contents b1) w \<Longrightarrow> resized n v w" "buffer_ok b1" for w
  proof (cases "m = 1")
    case True
    then show thesis using that [of st b] B v changes_refl [OF assms(2,3)] by auto
  next
    case False
    then show thesis using that [of _ clone] cw_renew_ok [OF assms(2) _ cl(2), of x] 2 cl resized_take by auto
  qed
  obtain st2 where 2: "cw_modify x (SetSize False fresh n) st1 = Some st2"
    "changes st1 x (contents (SetSize False fresh n b1)) st2"
    using cw_modify_ok [of st1 x b1 "SetSize False fresh n"] 1(2,3,5) SetSize_props(1) [OF assms(1) 1(5)]
    by (auto simp: changes_def)
  let ?w = "contents (SetSize False fresh n b1)"
  have "changes st x ?w st2" using 1(3) 2(2) changes_trans by blast
  moreover have "resized n v ?w" using 1(4) SetSize_resized [OF assms(1) 1(5)] by blast
  moreover have "cow_SetSize fresh x n st = Some st2"
    using 1(1) 2(1) \<open>get_var x st = Some (Some a)\<close> B(1)
    by (cases "m = 1") (simp_all add: cow_SetSize_def with_buffer_def clone_def)
  ultimately show ?thesis by blast
qed

section \<open>Objects come and go\<close>

lemma str_of_None: "cow_ok st \<Longrightarrow> str_of st x = None \<longleftrightarrow> get_var x st = None"
  using counted_ptr [OF cow_ok_counted]
  by (auto simp: str_of_def str_at_def split: option.splits)

lemma get_var_None: "get_var x st = None \<longleftrightarrow> x \<notin> fst ` set (cw_vars st)"
  by (simp add: get_var_def map_of_eq_None_iff)

lemma declare_null_ok:
  assumes "cow_ok st" "str_of st x = None"
  shows "changes st x [] (cow_declare x None st)"
proof -
  let ?s = "cow_declare x None st"
  have new: "x \<notin> fst ` set (cw_vars st)" using str_of_None [OF assms(1)] assms(2) get_var_None by metis
  have gv: "get_var y ?s = (if y = x then Some None else get_var y st)" and rf: "refs ?s a = refs st a"
    and hp: "cw_heap ?s = cw_heap st" "cw_next ?s = cw_next st" for y a
    by (simp_all add: get_var_def cow_declare_def refs_def)
  have "cow_ok ?s"
  proof (rule cow_okI)
    show "distinct (map fst (cw_vars ?s))"
      using new cow_ok_counted [OF assms(1)] by (simp add: cow_declare_def counted_def)
    show "cw_heap ?s a \<noteq> None" if "get_var y ?s = Some (Some a)" for y a
      using that counted_ptr [OF cow_ok_counted [OF assms(1)], of y a] unfolding gv hp by (auto split: if_splits)
    show "n = int (refs ?s a) \<and> buffer_ok b \<and> a < cw_next ?s \<and> refs ?s a > 0" if "cw_heap ?s a = Some (b, n)" for a b n
      using that counted_heap [OF cow_ok_counted [OF assms(1)], of a b n] cow_ok_used [OF assms(1), of a]
      unfolding hp rf by auto
  qed
  moreover have "str_of ?s y = (if y = x then Some [] else str_of st y)" for y
    unfolding str_of_def gv by (auto simp: str_at_def hp split: option.split)
  ultimately show ?thesis by (simp add: changes_def)
qed

lemma assign_ptr_ok:
  assumes "cow_ok st" "get_var x st \<noteq> None" "get_var y st = Some p"
  shows "\<exists>st'. cw_assign x p st = Some st' \<and> cow_ok st' \<and>
    (\<forall>z. str_of st' z = (if z = x then str_of st y else str_of st z)) \<and> get_var x st' = Some p"
proof -
  have "p = None \<or> (\<exists>a v. p = Some a \<and> cw_heap st a = Some v)"
    using counted_ptr [OF cow_ok_counted [OF assms(1)], of y] assms(3) by (cases p) auto
  moreover have "str_at st p = str_of st y" using assms(3) by (simp add: str_of_def)
  ultimately show ?thesis
    using cw_assign_ok [OF cow_ok_counted [OF assms(1)] assms(2), of p] assms(1) by (auto simp: cow_ok_def)
qed

lemma assign_null_ok:
  assumes "cow_ok st" "get_var x st \<noteq> None"
  shows "\<exists>st'. cw_assign x None st = Some st' \<and> changes st x [] st' \<and> get_var x st' = Some None"
  using cw_assign_ok [OF cow_ok_counted [OF assms(1)] assms(2), of None] assms(1)
  by (auto simp: changes_def str_at_def cow_ok_def)

lemma cow_copy_eq:
  assumes "get_var x st = None" "get_var y st = Some p"
  shows "cow_copy x y st = cw_assign x p (cow_declare x None st)"
proof -
  have new: "x \<notin> fst ` set (cw_vars st)" using assms(1) get_var_None by blast
  then have "set_var x p ((x, None) # cw_vars st) = (x, p) # cw_vars st"
    using set_var_other [OF new, of p] by (simp add: set_var_def)
  then show ?thesis
    using assms
    by (auto simp: cow_copy_def cw_assign_def cow_declare_def get_var_def AddRef_def Release_def split: option.splits)
qed

lemma cow_copy_ok:
  assumes "cow_ok st" "str_of st x = None" "str_of st y = Some v"
  shows "\<exists>st'. cow_copy x y st = Some st' \<and> changes st x v st'"
proof -
  note D = declare_null_ok [OF assms(1,2)]
  obtain p where p: "get_var y st = Some p" using assms(3) by (auto simp: str_of_def split: option.splits)
  have x: "get_var x st = None" "x \<noteq> y" using str_of_None [OF assms(1), of x] assms(2,3) by auto
  have "get_var y (cow_declare x None st) = Some p" "get_var x (cow_declare x None st) \<noteq> None"
    using p x by (simp_all add: cow_declare_def get_var_def)
  then show ?thesis
    using assign_ptr_ok [of "cow_declare x None st" x y p] D cow_copy_eq [OF x(1) p] assms(3) x(2)
    by (auto simp: changes_def)
qed

lemma cow_assign_ok:
  assumes "cow_ok st" "str_of st x \<noteq> None" "str_of st y = Some v"
  shows "\<exists>st'. cow_assign x y st = Some st' \<and> changes st x v st'"
proof -
  obtain p where p: "get_var y st = Some p" using assms(3) by (auto simp: str_of_def split: option.splits)
  have "get_var x st \<noteq> None" using str_of_None [OF assms(1)] assms(2) by simp
  then show ?thesis
    using assign_ptr_ok [OF assms(1) _ p, of x] p assms(3) changes_refl [OF assms(1,3)]
    by (cases "y = x") (auto simp: cow_assign_def changes_def)
qed

lemma filter_set_var: "filter (\<lambda>(y, q). y \<noteq> x) (set_var x p vs) = filter (\<lambda>(y, q). y \<noteq> x) vs"
  by (induction vs) (auto simp: set_var_def)

lemma map_of_filter_key: "map_of (filter (\<lambda>(y, q). y \<noteq> x) vs) z = (if z = x then None else map_of vs z)"
  by (induction vs) auto

lemma forget_null_ok:
  assumes "cow_ok st" "get_var x st = Some None"
  shows "cow_ok (st\<lparr>cw_vars := filter (\<lambda>(y, q). y \<noteq> x) (cw_vars st)\<rparr>) \<and>
    (\<forall>y. str_of (st\<lparr>cw_vars := filter (\<lambda>(y, q). y \<noteq> x) (cw_vars st)\<rparr>) y = (if y = x then None else str_of st y))"
proof -
  let ?s = "st\<lparr>cw_vars := filter (\<lambda>(y, q). y \<noteq> x) (cw_vars st)\<rparr>"
  note ct = cow_ok_counted [OF assms(1)]
  have d: "distinct (map fst (cw_vars st))" using ct by (simp add: counted_def)
  have gv: "get_var y ?s = (if y = x then None else get_var y st)" for y
    by (simp add: get_var_def map_of_filter_key)
  have only: "q = None" if "(x, q) \<in> set (cw_vars st)" for q
    using that d assms(2) by (simp add: get_var_def)
  have rf: "refs ?s a = refs st a" for a
    using only unfolding refs_def by (auto simp: filter_filter intro!: arg_cong [of _ _ length] filter_cong)
  have "cow_ok ?s"
  proof (rule cow_okI)
    show "distinct (map fst (cw_vars ?s))" using d by (simp add: distinct_map_filter)
    show "cw_heap ?s a \<noteq> None" if "get_var y ?s = Some (Some a)" for y a
      using that counted_ptr [OF ct, of y a] unfolding gv by (auto split: if_splits)
    show "n = int (refs ?s a) \<and> buffer_ok b \<and> a < cw_next ?s \<and> refs ?s a > 0" if "cw_heap ?s a = Some (b, n)" for a b n
      using that counted_heap [OF ct, of a b n] cow_ok_used [OF assms(1), of a] unfolding rf by auto
  qed
  moreover have "str_of ?s y = (if y = x then None else str_of st y)" for y
    unfolding str_of_def gv by (auto simp: str_at_def split: option.split)
  ultimately show ?thesis by blast
qed

lemma cow_destroy_ok:
  assumes "cow_ok st" "str_of st x \<noteq> None"
  shows "\<exists>st'. cow_destroy x st = Some st' \<and> cow_ok st' \<and> (\<forall>y. str_of st' y = (if y = x then None else str_of st y))"
proof -
  have "get_var x st \<noteq> None" using str_of_None [OF assms(1)] assms(2) by simp
  then obtain st1 where 1: "cw_assign x None st = Some st1" "changes st x [] st1" "get_var x st1 = Some None"
    using assign_null_ok [OF assms(1)] by blast
  have "cow_destroy x st = Some (st1\<lparr>cw_vars := filter (\<lambda>(y, q). y \<noteq> x) (cw_vars st1)\<rparr>)"
    using 1(1) by (auto simp: cow_destroy_def cw_assign_def AddRef_def filter_set_var bind_eq_Some_conv)
  then show ?thesis using forget_null_ok [of st1 x] 1(2,3) by (auto simp: changes_def)
qed

text \<open>Moving is assigning and then clearing the source, with the count touched only once.\<close>

lemma count_once:
  assumes "cw_heap st a = Some (b, n)" "n > 0" "Release old st = Some st1"
  shows "(AddRef (Some a) st \<bind> Release old \<bind> Release (Some a)) = Some st1"
proof -
  have id: "(cw_heap st)(a \<mapsto> (b, n)) = cw_heap st" using assms(1) by (rule fun_upd_idem)
  show ?thesis
  proof (cases old)
    case None
    then show ?thesis using assms id by (simp add: AddRef_def Release_def)
  next
    case (Some c)
    then obtain d m where c: "cw_heap st c = Some (d, m)"
      using assms(3) by (auto simp: Release_def split: option.splits)
    show ?thesis
    proof (cases "c = a")
      case True
      then show ?thesis using assms Some c by (auto simp: AddRef_def Release_def)
    next
      case False
      then have "(cw_heap st)(c := w, a \<mapsto> (b, n)) = (cw_heap st)(c := w)" for w
        using assms(1) by (auto simp: fun_eq_iff)
      then show ?thesis
        using assms Some c False by (auto simp: AddRef_def Release_def fun_upd_twist [of a c])
    qed
  qed
qed

lemma set_var_commute: "x \<noteq> y \<Longrightarrow> set_var x p (set_var y q vs) = set_var y q (set_var x p vs)"
  by (induction vs) (auto simp: set_var_def)

lemma Release_vars: "Release p (st\<lparr>cw_vars := vs\<rparr>) = map_option (\<lambda>s. s\<lparr>cw_vars := vs\<rparr>) (Release p st)"
  by (auto simp: Release_def split: option.splits prod.splits)

lemma AddRef_keeps_vars: "AddRef p st = Some st' \<Longrightarrow> cw_vars st' = cw_vars st"
  and Release_keeps_vars: "Release p st = Some st' \<Longrightarrow> cw_vars st' = cw_vars st"
  by (auto simp: AddRef_def Release_def split: option.splits prod.splits)

lemma cow_move_eq:
  assumes "cow_ok st" "get_var x st = Some old" "get_var y st = Some p" "x \<noteq> y"
    "cw_assign x p st = Some st1" "cw_assign y None st1 = Some st2"
  shows "cow_move x y st = Some st2"
proof -
  obtain sA sB where A: "AddRef p st = Some sA" "Release old sA = Some sB"
    "st1 = sB\<lparr>cw_vars := set_var x p (cw_vars st)\<rparr>"
    using assms(2,5) AddRef_keeps_vars Release_keeps_vars by (fastforce simp: cw_assign_def bind_eq_Some_conv)
  have "get_var y st1 = Some p" using assms(3,4) A(3) by (simp add: get_var_def get_set_var)
  then obtain sC where C: "Release p st1 = Some sC" "st2 = sC\<lparr>cw_vars := set_var y None (cw_vars sC)\<rparr>"
    using assms(6) by (auto simp: cw_assign_def AddRef_def bind_eq_Some_conv)
  obtain sD where D: "Release p sB = Some sD" "sC = sD\<lparr>cw_vars := set_var x p (cw_vars st)\<rparr>"
    using C(1) A(3) by (auto simp: Release_vars)
  have "Release old st = Some sD"
  proof (cases p)
    case None
    then show ?thesis using A D by (simp add: AddRef_def Release_def)
  next
    case (Some a)
    obtain b n where h: "cw_heap st a = Some (b, n)" "n > 0"
      using counted_ptr [OF cow_ok_counted [OF assms(1)], of y a] counted_heap [OF cow_ok_counted [OF assms(1)], of a]
        cow_ok_used [OF assms(1), of a] assms(3) Some by fastforce
    have "Release old st \<noteq> None"
      using counted_ptr [OF cow_ok_counted [OF assms(1)], of x] assms(2)
      by (auto simp: Release_def split: option.splits)
    then obtain s where "Release old st = Some s" by auto
    with count_once [OF h this] A D Some show ?thesis by simp
  qed
  then show ?thesis
    using assms(2-4) C D
    by (simp add: cow_move_def get_var_def get_set_var Release_vars set_var_commute)
qed

lemma cow_move_ok:
  assumes "cow_ok st" "str_of st x \<noteq> None" "str_of st y = Some v" "x \<noteq> y"
  shows "\<exists>st'. cow_move x y st = Some st' \<and> cow_ok st' \<and>
    (\<forall>z. str_of st' z = (if z = x then Some v else if z = y then Some [] else str_of st z))"
proof -
  obtain old p where v: "get_var x st = Some old" "get_var y st = Some p"
    using str_of_None [OF assms(1), of x] str_of_None [OF assms(1), of y] assms(2,3) by auto
  obtain st1 where 1: "cw_assign x p st = Some st1" "cow_ok st1"
    "\<forall>z. str_of st1 z = (if z = x then str_of st y else str_of st z)"
    using assign_ptr_ok [OF assms(1) _ v(2), of x] v(1) by auto
  have "str_of st1 y \<noteq> None" using 1(3) assms(3) by simp
  then have "get_var y st1 \<noteq> None" using str_of_None [OF 1(2), of y] by simp
  then obtain st2 where 2: "cw_assign y None st1 = Some st2" "changes st1 y [] st2"
    using assign_null_ok [OF 1(2)] by blast
  have "cow_move x y st = Some st2" by (rule cow_move_eq [OF assms(1) v assms(4) 1(1) 2(1)])
  then show ?thesis using 1(3) 2(2) assms(3,4) by (auto simp: changes_def)
qed

lemma cow_from_data_ok:
  assumes "\<And>n. length (fresh n) = n" "cow_ok st" "str_of st x = None"
  shows "\<exists>st'. cow_from_data fresh x d cap st = Some st' \<and> changes st x d st'"
proof (cases "length d > 0 \<or> cap > 0")
  case True
  let ?s = "cow_declare x None st" and ?b = "Buffer_sized fresh (length d) cap"
  let ?f = "\<lambda>b. b\<lparr>bf_mem := d @ drop (length d) (bf_mem b)\<rparr>"
  note D = declare_null_ok [OF assms(2,3)]
  have "get_var x ?s \<noteq> None" by (simp add: cow_declare_def get_var_def)
  then obtain st1 where 1: "cw_renew x ?b ?s = Some st1" "changes ?s x (contents ?b) st1" "owns st1 x ?b"
    using cw_renew_ok [of ?s x ?b] D Buffer_sized_ok [OF assms(1)] by (auto simp: changes_def)
  have "?f ?b = Buffer_copy fresh d cap" by (simp add: Buffer_copy_def Let_def)
  then have f: "buffer_ok (?f ?b)" "contents (?f ?b) = d" using Buffer_copy_props [OF assms(1), of d cap] by simp_all
  obtain st2 where "cw_modify x ?f st1 = Some st2" "changes st1 x d st2"
    using cw_modify_ok [of st1 x ?b ?f] 1(2,3) f by (auto simp: changes_def)
  moreover from this have "changes st x d st2" using D 1(2) changes_trans by blast
  ultimately show ?thesis using True 1(1) by (auto simp: cow_from_data_def cow_sized_def)
next
  case False
  then show ?thesis using declare_null_ok [OF assms(2,3)] by (auto simp: cow_from_data_def cow_sized_def)
qed

section \<open>Independent values\<close>

datatype cow_op = New nat bytes nat | Copy nat nat | Assign nat nat | Move nat nat | Destroy nat
  | Set_size nat nat | Ensure nat nat | Clear nat | Set_data nat bytes | Append nat bytes | Put nat nat byte

fun cow_exec :: "fresh_mem \<Rightarrow> cow_op \<Rightarrow> cow_state \<Rightarrow> cow_state option" where
  "cow_exec fresh (New x d cap) = cow_from_data fresh x d cap"
| "cow_exec fresh (Copy x y) = cow_copy x y"
| "cow_exec fresh (Assign x y) = cow_assign x y"
| "cow_exec fresh (Move x y) = cow_move x y"
| "cow_exec fresh (Destroy x) = cow_destroy x"
| "cow_exec fresh (Set_size x n) = cow_SetSize fresh x n"
| "cow_exec fresh (Ensure x n) = cow_EnsureCapacity fresh x n"
| "cow_exec fresh (Clear x) = cow_Clear fresh x"
| "cow_exec fresh (Set_data x d) = cow_SetData fresh x d"
| "cow_exec fresh (Append x d) = cow_AppendData fresh x d"
| "cow_exec fresh (Put x i c) = cow_set_at fresh x i c"

text \<open>The same operations on byte strings that share nothing: when they apply, and what they give.\<close>

fun applies :: "cow_op \<Rightarrow> (nat \<rightharpoonup> bytes) \<Rightarrow> bool" where
  "applies (New x d cap) m = (m x = None)"
| "applies (Copy x y) m = (m x = None \<and> m y \<noteq> None)"
| "applies (Assign x y) m = (m x \<noteq> None \<and> m y \<noteq> None)"
| "applies (Move x y) m = (m x \<noteq> None \<and> m y \<noteq> None \<and> x \<noteq> y)"
| "applies (Put x i c) m = (case m x of None \<Rightarrow> False | Some v \<Rightarrow> i < length v)"
| "applies (Destroy x) m = (m x \<noteq> None)"
| "applies (Set_size x n) m = (m x \<noteq> None)"
| "applies (Ensure x n) m = (m x \<noteq> None)"
| "applies (Clear x) m = (m x \<noteq> None)"
| "applies (Set_data x d) m = (m x \<noteq> None)"
| "applies (Append x d) m = (m x \<noteq> None)"

fun gives :: "cow_op \<Rightarrow> (nat \<rightharpoonup> bytes) \<Rightarrow> (nat \<rightharpoonup> bytes) \<Rightarrow> bool" where
  "gives (New x d cap) m m' = (m' = m(x \<mapsto> d))"
| "gives (Copy x y) m m' = (m' = m(x := m y))"
| "gives (Assign x y) m m' = (m' = m(x := m y))"
| "gives (Move x y) m m' = (m' = m(y \<mapsto> [], x := m y))"
| "gives (Destroy x) m m' = (m' = m(x := None))"
| "gives (Set_size x n) m m' = (\<exists>w. resized n (the (m x)) w \<and> m' = m(x \<mapsto> w))"
| "gives (Ensure x n) m m' = (m' = m)"
| "gives (Clear x) m m' = (m' = m(x \<mapsto> []))"
| "gives (Set_data x d) m m' = (m' = m(x \<mapsto> d))"
| "gives (Append x d) m m' = (m' = m(x \<mapsto> the (m x) @ d))"
| "gives (Put x i c) m m' = (m' = m(x \<mapsto> (the (m x))[i := c]))"

lemma changes_str: "changes st x v st' \<longleftrightarrow> cow_ok st' \<and> str_of st' = (str_of st)(x \<mapsto> v)"
  by (auto simp: changes_def fun_eq_iff)

lemma cow_exec_ok:
  assumes "\<And>n. length (fresh n) = n" "cow_ok st" "applies op (str_of st)"
  shows "\<exists>st'. cow_exec fresh op st = Some st' \<and> cow_ok st' \<and> gives op (str_of st) (str_of st')"
proof (cases op)
  case (New x d cap)
  then show ?thesis using cow_from_data_ok [OF assms(1,2), of x d cap] assms(3) by (auto simp: changes_str)
next
  case (Copy x y)
  then show ?thesis using cow_copy_ok [OF assms(2), of x y] assms(3) by (auto simp: changes_str)
next
  case (Assign x y)
  then show ?thesis using cow_assign_ok [OF assms(2), of x y] assms(3) by (auto simp: changes_str)
next
  case (Move x y)
  then obtain v where "str_of st y = Some v" "str_of st x \<noteq> None" "x \<noteq> y" using assms(3) by auto
  then show ?thesis using cow_move_ok [OF assms(2), of x y v] Move by (force simp: fun_eq_iff)
next
  case (Destroy x)
  then show ?thesis using cow_destroy_ok [OF assms(2), of x] assms(3) by (force simp: fun_eq_iff)
next
  case (Set_size x n)
  then show ?thesis using cow_SetSize_ok [OF assms(1,2), of x _ n] assms(3) by (fastforce simp: changes_str)
next
  case (Ensure x n)
  then obtain v where v: "str_of st x = Some v" using assms(3) by auto
  then have "(str_of st)(x \<mapsto> v) = str_of st" by (simp add: fun_upd_idem)
  then show ?thesis
    using cow_EnsureCapacity_ok [OF assms(1,2) v, of n] Ensure by (auto simp: changes_str)
next
  case (Clear x)
  then show ?thesis using cow_Clear_ok [OF assms(1,2), of x] assms(3) by (auto simp: changes_str)
next
  case (Set_data x d)
  then show ?thesis using cow_SetData_ok [OF assms(1,2), of x _ d] assms(3) by (auto simp: changes_str)
next
  case (Append x d)
  then show ?thesis using cow_AppendData_ok [OF assms(1,2), of x _ d] assms(3) by (auto simp: changes_str)
next
  case (Put x i c)
  then show ?thesis
    using cow_set_at_ok [OF assms(1,2), of x _ i c] assms(3) by (auto simp: changes_str split: option.splits)
qed

lemma cw_init_ok: "cow_ok cw_init"
  by (simp add: cow_ok_def counted_def cw_init_def get_var_def)

lemma str_of_init: "str_of cw_init x = None"
  by (simp add: str_of_def get_var_def cw_init_def)

inductive cow_reaches :: "fresh_mem \<Rightarrow> cow_op list \<Rightarrow> cow_state \<Rightarrow> bool" for fresh where
  Start: "cow_reaches fresh [] cw_init"
| Step: "cow_reaches fresh ops st \<Longrightarrow> applies op (str_of st) \<Longrightarrow> cow_exec fresh op st = Some st' \<Longrightarrow>
    cow_reaches fresh (ops @ [op]) st'"

lemma cow_reaches_ok:
  assumes "\<And>n. length (fresh n) = n" "cow_reaches fresh ops st"
  shows "cow_ok st"
  using assms(2)
proof induction
  case (Step ops st op st')
  then show ?case using cow_exec_ok [OF assms(1) Step.IH, of op] by auto
qed (rule cw_init_ok)

text \<open>
  C12. Copy-on-write buffers behave as independent byte strings. In every state that operations on
  such objects can reach, the reference counts are the numbers of objects that share a buffer, no
  buffer is used after it was deleted and none is leaked; and the next operation succeeds and has
  the effect it would have on strings that share nothing: writing through one object never changes
  what another stands for.
\<close>

theorem cow_buffers_are_values:
  assumes "\<And>n. length (fresh n) = n" "cow_reaches fresh ops st" "applies op (str_of st)"
  shows "cow_ok st \<and> (\<exists>st'. cow_exec fresh op st = Some st' \<and> cow_ok st' \<and> gives op (str_of st) (str_of st'))"
  using cow_reaches_ok [OF assms(1,2)] cow_exec_ok [OF assms(1) _ assms(3)] by blast

definition sample_cow :: cow_state where
  "sample_cow = the (cow_exec zeros (Copy 1 0) (the (cow_exec zeros (New 0 [1, 2] 0) cw_init)))"

lemma sample_cow_reached: "cow_reaches zeros [New 0 [1, 2] 0, Copy 1 0] sample_cow"
proof -
  obtain st1 where 1: "cow_exec zeros (New 0 [1, 2] 0) cw_init = Some st1" "changes cw_init 0 [1, 2] st1"
    using cow_from_data_ok [OF zeros_length cw_init_ok str_of_init, of 0 "[1, 2]" 0] by auto
  have s: "str_of st1 0 = Some [1, 2]" "str_of st1 1 = None"
    using 1(2) by (auto simp: changes_def str_of_init)
  obtain st2 where 2: "cow_exec zeros (Copy 1 0) st1 = Some st2"
    using cow_copy_ok [of st1 1 0] 1(2) s by (auto simp: changes_def)
  have "cow_reaches zeros ([] @ [New 0 [1, 2] 0]) st1"
    using 1(1) by (intro cow_reaches.Step [OF cow_reaches.Start]) (auto simp: str_of_init)
  then have "cow_reaches zeros (([] @ [New 0 [1, 2] 0]) @ [Copy 1 0]) st2"
    by (rule cow_reaches.Step) (use 2 s in auto)
  moreover have "sample_cow = st2" using 1(1) 2 by (simp add: sample_cow_def)
  ultimately show ?thesis by simp
qed

lemma sample_cow_applies: "applies (Put 1 0 9) (str_of sample_cow)"
  by code_simp

theorem cow_buffers_are_values_witness:
  "cow_ok sample_cow \<and> (\<exists>st'. cow_exec zeros (Put 1 0 9) sample_cow = Some st' \<and> cow_ok st' \<and>
     gives (Put 1 0 9) (str_of sample_cow) (str_of st'))"
  by (rule cow_buffers_are_values [OF zeros_length sample_cow_reached sample_cow_applies])

text \<open>
  Two places where the class breaks its own rules. Appending nothing to a null buffer allocates one
  of capacity 0, though \<^verbatim>\<open>IsConsistent()\<close>, the postcondition of every method, wants a capacity above
  0; and a null buffer does not compare equal to an empty one, although both are empty.
\<close>

definition cow_consistent :: "nat \<Rightarrow> cow_state \<Rightarrow> bool" where
  "cow_consistent x st =
     (case get_var x st of
        Some (Some a) \<Rightarrow> (case cw_heap st a of Some (b, n) \<Rightarrow> capacity b > 0 | None \<Rightarrow> False)
      | _ \<Rightarrow> True)"

definition null_and_cleared :: cow_state where
  "null_and_cleared =
     the (cow_exec zeros (Clear 1) (the (cow_exec zeros (New 1 [5] 0) (the (cow_exec zeros (New 0 [] 0) cw_init)))))"

lemma append_nothing_inconsistent:
  "cow_consistent 0 null_and_cleared \<and>
   \<not> cow_consistent 0 (the (cow_exec zeros (Append 0 []) null_and_cleared))"
  by code_simp

lemma empty_buffers_differ:
  "str_of null_and_cleared 0 = Some [] \<and> str_of null_and_cleared 1 = Some [] \<and>
   cow_equal 0 1 null_and_cleared = Some False"
  by code_simp

end
