(* ===== verification/IpAddress.thy ===== *)
theory IpAddress
  imports ByteBuffer Logging Sockets
begin

text \<open>
  \<^verbatim>\<open>rtc_base/ip_address.cc\<close>: IPv4 and IPv6 addresses, their classes, order, hash, prefixes and masks.
  An address is its family and the 16 bytes of the union \<^verbatim>\<open>u_\<close>; an IPv4 address is in the first four,
  in network order. \<^verbatim>\<open>inet_ntop\<close> and \<^verbatim>\<open>inet_pton\<close> are parameters. The theorems say which addresses the
  predicates accept, that cutting an address to a prefix keeps exactly its leading bits, and that
  counting the bits of a mask is the inverse of making it.
\<close>

section \<open>Addresses\<close>

datatype ip_family = AF_UNSPEC | AF_INET | AF_INET6

record ip_address =
  ip_fam :: ip_family
  ip_u :: bytes

definition ip_nil :: ip_address where
  "ip_nil = \<lparr>ip_fam = AF_UNSPEC, ip_u = replicate 16 0\<rparr>"

text \<open>\<^verbatim>\<open>IPAddress(in_addr)\<close>, \<^verbatim>\<open>IPAddress(in6_addr)\<close> and \<^verbatim>\<open>IPAddress(uint32_t)\<close>.\<close>

definition ip_v4 :: "bytes \<Rightarrow> ip_address" where
  "ip_v4 addr = \<lparr>ip_fam = AF_INET, ip_u = addr @ replicate 12 0\<rparr>"

definition ip_v6 :: "bytes \<Rightarrow> ip_address" where
  "ip_v6 addr = \<lparr>ip_fam = AF_INET6, ip_u = addr\<rparr>"

definition ip_host :: "32 word \<Rightarrow> ip_address" where
  "ip_host n = ip_v4 (le32 (HostToNetwork32 n))"

definition ipv4_address :: "ip_address \<Rightarrow> bytes" where
  "ipv4_address ip = take 4 (ip_u ip)"

definition ipv6_address :: "ip_address \<Rightarrow> bytes" where
  "ipv6_address ip = ip_u ip"

definition INADDR_LOOPBACK :: "32 word" where "INADDR_LOOPBACK = 0x7F000001"
definition in6addr_any :: bytes where "in6addr_any = replicate 16 0"
definition in6addr_loopback :: bytes where "in6addr_loopback = replicate 15 0 @ [1]"

definition kV4MappedPrefix :: bytes where "kV4MappedPrefix = replicate 10 0 @ [0xFF, 0xFF] @ replicate 4 0"
definition k6To4Prefix :: bytes where "k6To4Prefix = [0x20, 0x02] @ replicate 14 0"
definition kTeredoPrefix :: bytes where "kTeredoPrefix = [0x20, 0x01] @ replicate 14 0"
definition kV4CompatibilityPrefix :: bytes where "kV4CompatibilityPrefix = replicate 16 0"
definition k6BonePrefix :: bytes where "k6BonePrefix = [0x3F, 0xFE] @ replicate 14 0"
definition kPrivateNetworkPrefix :: bytes where "kPrivateNetworkPrefix = [0xFD] @ replicate 15 0"

definition v4AddressAsHostOrderInteger :: "ip_address \<Rightarrow> 32 word" where
  "v4AddressAsHostOrderInteger ip = (if ip_fam ip = AF_INET then NetworkToHost32 (get_le32 0 (ip_u ip)) else 0)"

definition overhead :: "ip_address \<Rightarrow> int" where
  "overhead ip = (case ip_fam ip of AF_INET \<Rightarrow> 20 | AF_INET6 \<Rightarrow> 40 | AF_UNSPEC \<Rightarrow> 0)"

definition IPIsUnspec :: "ip_address \<Rightarrow> bool" where
  "IPIsUnspec ip \<longleftrightarrow> ip_fam ip = AF_UNSPEC"

definition IsNil :: "ip_address \<Rightarrow> bool" where
  "IsNil ip = IPIsUnspec ip"

definition ip_Size :: "ip_address \<Rightarrow> nat" where
  "ip_Size ip = (case ip_fam ip of AF_INET \<Rightarrow> 4 | AF_INET6 \<Rightarrow> 16 | AF_UNSPEC \<Rightarrow> 0)"

definition ip_eq :: "ip_address \<Rightarrow> ip_address \<Rightarrow> bool" where
  "ip_eq a b =
     (if ip_fam a \<noteq> ip_fam b then False
      else case ip_fam a of
          AF_INET \<Rightarrow> take 4 (ip_u a) = take 4 (ip_u b)
        | AF_INET6 \<Rightarrow> ip_u a = ip_u b
        | AF_UNSPEC \<Rightarrow> True)"

text \<open>\<^verbatim>\<open>memcmp(...) < 0\<close>: the first bytes that differ decide.\<close>

fun bytes_less :: "bytes \<Rightarrow> bytes \<Rightarrow> bool" where
  "bytes_less (a # as) (b # bs) = (if a = b then bytes_less as bs else a < b)"
| "bytes_less _ _ = False"

definition ip_less :: "ip_address \<Rightarrow> ip_address \<Rightarrow> bool" where
  "ip_less a b =
     (if ip_fam a \<noteq> ip_fam b then
        ip_fam a = AF_UNSPEC \<or> ip_fam a = AF_INET \<and> ip_fam b = AF_INET6
      else case ip_fam a of
          AF_INET \<Rightarrow> NetworkToHost32 (get_le32 0 (ip_u a)) < NetworkToHost32 (get_le32 0 (ip_u b))
        | AF_INET6 \<Rightarrow> bytes_less (ip_u a) (ip_u b)
        | AF_UNSPEC \<Rightarrow> False)"

definition ip_greater :: "ip_address \<Rightarrow> ip_address \<Rightarrow> bool" where
  "ip_greater a b \<longleftrightarrow> \<not> ip_eq a b \<and> \<not> ip_less a b"

section \<open>Text\<close>

definition ip_ToString :: "(ip_family \<Rightarrow> bytes \<Rightarrow> string option) \<Rightarrow> ip_address \<Rightarrow> string" where
  "ip_ToString ntop ip =
     (if ip_fam ip = AF_UNSPEC then []
      else case ntop (ip_fam ip) (if ip_fam ip = AF_INET6 then ip_u ip else take 4 (ip_u ip)) of
          None \<Rightarrow> []
        | Some s \<Rightarrow> s)"

text \<open>\<open>hex_of\<close> is \<^verbatim>\<open>%x\<close> of a number; \<^verbatim>\<open>rfind('.')\<close> and \<^verbatim>\<open>resize\<close>.\<close>

definition cut_last_dot :: "string \<Rightarrow> string option" where
  "cut_last_dot s =
     (if CHR ''.'' \<in> set s then Some (rev (tl (dropWhile (\<lambda>c. c \<noteq> CHR ''.'') (rev s)))) else None)"

definition ToSensitiveString :: "(ip_family \<Rightarrow> bytes \<Rightarrow> string option) \<Rightarrow> ip_address \<Rightarrow> string" where
  "ToSensitiveString ntop ip =
     (case ip_fam ip of
        AF_INET \<Rightarrow> (case cut_last_dot (ip_ToString ntop ip) of None \<Rightarrow> [] | Some a \<Rightarrow> a @ ''.x'')
      | AF_INET6 \<Rightarrow>
          (let a = ip_u ip; word = \<lambda>i. hex_of (unat (a ! i) * 256 + unat (a ! (i + 1)))
           in word 0 @ '':'' @ word 2 @ '':'' @ word 4 @ '':x:x:x:x:x'')
      | AF_UNSPEC \<Rightarrow> [])"

definition IPFromString :: "(ip_family \<Rightarrow> string \<Rightarrow> bytes option) \<Rightarrow> string \<Rightarrow> bool \<times> ip_address" where
  "IPFromString pton str =
     (case pton AF_INET str of
        Some addr \<Rightarrow> (True, ip_v4 addr)
      | None \<Rightarrow>
          (case pton AF_INET6 str of
             None \<Rightarrow> (False, ip_nil)
           | Some addr6 \<Rightarrow> (True, ip_v6 addr6)))"

text \<open>An \<^verbatim>\<open>addrinfo\<close> is its family and raw address, or null.\<close>

definition IPFromAddrInfo :: "(ip_family \<times> bytes) option \<Rightarrow> ip_address option" where
  "IPFromAddrInfo info =
     (case info of
        None \<Rightarrow> None
      | Some (AF_INET, addr) \<Rightarrow> Some (ip_v4 addr)
      | Some (AF_INET6, addr) \<Rightarrow> Some (ip_v6 addr)
      | Some (AF_UNSPEC, _) \<Rightarrow> None)"

text \<open>\<^verbatim>\<open>InterfaceAddress\<close>: an address with the flags of the interface.\<close>

record interface_address = ip_address +
  ipv6_flags :: int

definition ia_ip :: "interface_address \<Rightarrow> ip_address" where
  "ia_ip a = ip_address.truncate a"

definition InterfaceAddress :: "ip_address \<Rightarrow> int \<Rightarrow> interface_address" where
  "InterfaceAddress ip flags = \<lparr>ip_fam = ip_fam ip, ip_u = ip_u ip, ipv6_flags = flags\<rparr>"

definition ia_eq :: "interface_address \<Rightarrow> interface_address \<Rightarrow> bool" where
  "ia_eq a b \<longleftrightarrow> ipv6_flags a = ipv6_flags b \<and> ip_eq (ia_ip a) (ia_ip b)"

definition ia_assign :: "interface_address \<Rightarrow> interface_address \<Rightarrow> interface_address" where
  "ia_assign a b = a\<lparr>ipv6_flags := ipv6_flags b, ip_fam := ip_fam b, ip_u := ip_u b\<rparr>"

definition ia_ToString :: "(ip_family \<Rightarrow> bytes \<Rightarrow> string option) \<Rightarrow> interface_address \<Rightarrow> string" where
  "ia_ToString ntop a =
     ip_ToString ntop (ia_ip a) @
     (if ip_fam a = AF_INET6 then ''|flags:0x'' @ ToHex (ipv6_flags a) else [])"

definition InterfaceFromString ::
    "(ip_family \<Rightarrow> string \<Rightarrow> bytes option) \<Rightarrow> string \<Rightarrow> int \<Rightarrow> interface_address option" where
  "InterfaceFromString pton str flags =
     (case IPFromString pton str of (True, ip) \<Rightarrow> Some (InterfaceAddress ip flags) | (False, _) \<Rightarrow> None)"

section \<open>Classes of addresses\<close>

definition IPIsHelper :: "ip_address \<Rightarrow> bytes \<Rightarrow> nat \<Rightarrow> bool" where
  "IPIsHelper ip tomatch len \<longleftrightarrow> take (len div 8) (ip_u ip) = take (len div 8) tomatch"

definition IPIs6Bone :: "ip_address \<Rightarrow> bool" where "IPIs6Bone ip = IPIsHelper ip k6BonePrefix 16"
definition IPIs6To4 :: "ip_address \<Rightarrow> bool" where "IPIs6To4 ip = IPIsHelper ip k6To4Prefix 16"
definition IPIsTeredo :: "ip_address \<Rightarrow> bool" where "IPIsTeredo ip = IPIsHelper ip kTeredoPrefix 32"
definition IPIsV4Compatibility :: "ip_address \<Rightarrow> bool" where
  "IPIsV4Compatibility ip = IPIsHelper ip kV4CompatibilityPrefix 96"
definition IPIsV4Mapped :: "ip_address \<Rightarrow> bool" where "IPIsV4Mapped ip = IPIsHelper ip kV4MappedPrefix 96"

definition IPIsPrivateNetworkV4 :: "ip_address \<Rightarrow> bool" where
  "IPIsPrivateNetworkV4 ip \<longleftrightarrow>
     (let h = v4AddressAsHostOrderInteger ip
      in drop_bit 24 h = 10 \<or> drop_bit 20 h = (push_bit 4 172 OR 1) \<or> drop_bit 16 h = (push_bit 8 192 OR 168))"

definition IPIsPrivateNetworkV6 :: "ip_address \<Rightarrow> bool" where
  "IPIsPrivateNetworkV6 ip = IPIsHelper ip kPrivateNetworkPrefix 8"

definition IPIsPrivateNetwork :: "ip_address \<Rightarrow> bool" where
  "IPIsPrivateNetwork ip =
     (case ip_fam ip of AF_INET \<Rightarrow> IPIsPrivateNetworkV4 ip | AF_INET6 \<Rightarrow> IPIsPrivateNetworkV6 ip | AF_UNSPEC \<Rightarrow> False)"

definition IPIsSharedNetworkV4 :: "ip_address \<Rightarrow> bool" where
  "IPIsSharedNetworkV4 ip \<longleftrightarrow> drop_bit 22 (v4AddressAsHostOrderInteger ip) = (push_bit 2 100 OR 1)"

definition IPIsSharedNetwork :: "ip_address \<Rightarrow> bool" where
  "IPIsSharedNetwork ip = (if ip_fam ip = AF_INET then IPIsSharedNetworkV4 ip else False)"

definition IPIsLoopbackV4 :: "ip_address \<Rightarrow> bool" where
  "IPIsLoopbackV4 ip \<longleftrightarrow> drop_bit 24 (v4AddressAsHostOrderInteger ip) = 127"

definition IPIsLoopbackV6 :: "ip_address \<Rightarrow> bool" where
  "IPIsLoopbackV6 ip = ip_eq ip (ip_v6 in6addr_loopback)"

definition IPIsLoopback :: "ip_address \<Rightarrow> bool" where
  "IPIsLoopback ip =
     (case ip_fam ip of AF_INET \<Rightarrow> IPIsLoopbackV4 ip | AF_INET6 \<Rightarrow> IPIsLoopbackV6 ip | AF_UNSPEC \<Rightarrow> False)"

definition IPIsLinkLocalV4 :: "ip_address \<Rightarrow> bool" where
  "IPIsLinkLocalV4 ip \<longleftrightarrow> drop_bit 16 (v4AddressAsHostOrderInteger ip) = (push_bit 8 169 OR 254)"

definition IPIsLinkLocalV6 :: "ip_address \<Rightarrow> bool" where
  "IPIsLinkLocalV6 ip \<longleftrightarrow> ip_u ip ! 0 = 0xFE \<and> ip_u ip ! 1 AND 0xC0 = 0x80"

definition IPIsLinkLocal :: "ip_address \<Rightarrow> bool" where
  "IPIsLinkLocal ip =
     (case ip_fam ip of AF_INET \<Rightarrow> IPIsLinkLocalV4 ip | AF_INET6 \<Rightarrow> IPIsLinkLocalV6 ip | AF_UNSPEC \<Rightarrow> False)"

definition IPIsPrivate :: "ip_address \<Rightarrow> bool" where
  "IPIsPrivate ip \<longleftrightarrow> IPIsLinkLocal ip \<or> IPIsLoopback ip \<or> IPIsPrivateNetwork ip \<or> IPIsSharedNetwork ip"

definition IPIsAny :: "ip_address \<Rightarrow> bool" where
  "IPIsAny ip =
     (case ip_fam ip of
        AF_INET \<Rightarrow> ip_eq ip (ip_host INADDR_ANY)
      | AF_INET6 \<Rightarrow> ip_eq ip (ip_v6 in6addr_any) \<or> ip_eq ip (ip_v6 kV4MappedPrefix)
      | AF_UNSPEC \<Rightarrow> False)"

definition IPIsMacBased :: "ip_address \<Rightarrow> bool" where
  "IPIsMacBased ip \<longleftrightarrow> ip_u ip ! 8 AND 0x02 \<noteq> 0 \<and> ip_u ip ! 11 = 0xFF \<and> ip_u ip ! 12 = 0xFE"

definition IPIsSiteLocal :: "ip_address \<Rightarrow> bool" where
  "IPIsSiteLocal ip \<longleftrightarrow> ip_u ip ! 0 = 0xFE \<and> ip_u ip ! 1 AND 0xC0 = 0xC0"

definition IPIsULA :: "ip_address \<Rightarrow> bool" where
  "IPIsULA ip \<longleftrightarrow> ip_u ip ! 0 AND 0xFE = 0xFC"

definition IPAddressPrecedence :: "ip_address \<Rightarrow> int" where
  "IPAddressPrecedence ip =
     (case ip_fam ip of
        AF_INET \<Rightarrow> 30
      | AF_INET6 \<Rightarrow>
          if IPIsLoopback ip then 60
          else if IPIsULA ip then 50
          else if IPIsV4Mapped ip then 30
          else if IPIs6To4 ip then 20
          else if IPIsTeredo ip then 10
          else if IPIsV4Compatibility ip \<or> IPIsSiteLocal ip \<or> IPIs6Bone ip then 1
          else 40
      | AF_UNSPEC \<Rightarrow> 0)"

section \<open>Conversions, hash, prefixes and masks\<close>

definition ExtractMappedAddress :: "bytes \<Rightarrow> bytes" where
  "ExtractMappedAddress in6 = take 4 (drop 12 in6)"

definition Normalized :: "ip_address \<Rightarrow> ip_address" where
  "Normalized ip =
     (if ip_fam ip \<noteq> AF_INET6 then ip
      else if \<not> IPIsV4Mapped ip then ip
      else ip_v4 (ExtractMappedAddress (ip_u ip)))"

definition AsIPv6Address :: "ip_address \<Rightarrow> ip_address" where
  "AsIPv6Address ip =
     (if ip_fam ip \<noteq> AF_INET then ip else ip_v6 (take 12 kV4MappedPrefix @ take 4 (ip_u ip)))"

definition HashIP :: "ip_address \<Rightarrow> 32 word" where
  "HashIP ip =
     (case ip_fam ip of
        AF_INET \<Rightarrow> get_le32 0 (ip_u ip)
      | AF_INET6 \<Rightarrow> get_le32 0 (ip_u ip) XOR get_le32 4 (ip_u ip) XOR get_le32 8 (ip_u ip) XOR get_le32 12 (ip_u ip)
      | AF_UNSPEC \<Rightarrow> 0)"

text \<open>The loop of \<^verbatim>\<open>TruncateIP\<close> over the four words of an IPv6 address.\<close>

definition truncate_words :: "int \<Rightarrow> 32 word \<Rightarrow> bytes \<Rightarrow> bytes" where
  "truncate_words position inner_mask v6addr =
     concat (map (\<lambda>i.
       if int i = position then le32 (HostToNetwork32 (NetworkToHost32 (get_le32 (4 * i) v6addr) AND inner_mask))
       else if int i > position then le32 0
       else le32 (get_le32 (4 * i) v6addr)) [0..<4])"

definition TruncateIP :: "ip_address \<Rightarrow> int \<Rightarrow> ip_address" where
  "TruncateIP ip len =
     (if len < 0 then ip_nil
      else case ip_fam ip of
          AF_INET \<Rightarrow>
            if len > 31 then ip
            else if len = 0 then ip_host INADDR_ANY
            else
              let m = push_bit (nat (32 - len)) (0xFFFFFFFF :: 32 word);
                  host_order_ip = NetworkToHost32 (get_le32 0 (ip_u ip))
              in ip_v4 (le32 (HostToNetwork32 (host_order_ip AND m)))
        | AF_INET6 \<Rightarrow>
            if len > 127 then ip
            else if len = 0 then ip_v6 in6addr_any
            else
              let position = len div 32;
                  inner_length = 32 - (len - position * 32);
                  inner_mask = push_bit (nat inner_length) (0xFFFFFFFF :: 32 word)
              in ip_v6 (truncate_words position inner_mask (ip_u ip))
        | AF_UNSPEC \<Rightarrow> ip_nil)"

text \<open>The number of leading ones of a mask word: the trailing zeros are counted on its lowest set bit.\<close>

definition count_word :: "32 word \<Rightarrow> int" where
  "count_word w =
     (let w = w AND (NOT w + 1);
          zeroes = 32 - (if w \<noteq> 0 then 1 else 0)
            - (if w AND 0x0000FFFF \<noteq> 0 then 16 else 0) - (if w AND 0x00FF00FF \<noteq> 0 then 8 else 0)
            - (if w AND 0x0F0F0F0F \<noteq> 0 then 4 else 0) - (if w AND 0x33333333 \<noteq> 0 then 2 else 0)
            - (if w AND 0x55555555 \<noteq> 0 then 1 else 0)
      in 32 - zeroes)"

definition CountIPMaskBits :: "ip_address \<Rightarrow> int" where
  "CountIPMaskBits m =
     (case ip_fam m of
        AF_UNSPEC \<Rightarrow> 0
      | AF_INET \<Rightarrow>
          (let w = NetworkToHost32 (get_le32 0 (ip_u m)) in if w = 0 then 0 else count_word w)
      | AF_INET6 \<Rightarrow>
          (let ws = map (\<lambda>i. get_le32 (4 * i) (ip_u m)) [0..<4];
               i = length (takeWhile (\<lambda>w. w = 0xFFFFFFFF) ws);
               w = (if i < 4 then NetworkToHost32 (ws ! i) else 0);
               bits = int (i * 32)
           in if w = 0 then bits else bits + count_word w))"

definition GetLoopbackIP :: "ip_family \<Rightarrow> ip_address" where
  "GetLoopbackIP f =
     (case f of AF_INET \<Rightarrow> ip_host INADDR_LOOPBACK | AF_INET6 \<Rightarrow> ip_v6 in6addr_loopback | AF_UNSPEC \<Rightarrow> ip_nil)"

definition GetAnyIP :: "ip_family \<Rightarrow> ip_address" where
  "GetAnyIP f =
     (case f of AF_INET \<Rightarrow> ip_host INADDR_ANY | AF_INET6 \<Rightarrow> ip_v6 in6addr_any | AF_UNSPEC \<Rightarrow> ip_nil)"

section \<open>Words and bits of an address\<close>

definition ip_ok :: "ip_address \<Rightarrow> bool" where
  "ip_ok ip \<longleftrightarrow> length (ip_u ip) = 16"

text \<open>The words of an address in host order and its bits, first bit first.\<close>

definition host_word :: "ip_address \<Rightarrow> nat \<Rightarrow> 32 word" where
  "host_word ip i = NetworkToHost32 (get_le32 (4 * i) (ip_u ip))"

definition ip_words :: "ip_address \<Rightarrow> 32 word list" where
  "ip_words ip =
     (case ip_fam ip of AF_UNSPEC \<Rightarrow> [] | AF_INET \<Rightarrow> [host_word ip 0] | AF_INET6 \<Rightarrow> map (host_word ip) [0..<4])"

definition word_bits :: "32 word \<Rightarrow> bool list" where
  "word_bits w = map (bit w) (rev [0..<32])"

definition ip_bits :: "ip_address \<Rightarrow> bool list" where
  "ip_bits ip = concat (map word_bits (ip_words ip))"

lemma word_bits_length: "length (word_bits w) = 32"
  by (simp add: word_bits_def)

lemma all_ones: "(0xFFFFFFFF :: 32 word) = mask 32"
  by (simp add: mask_eq_exp_minus_1)

lemma word_bits_masked:
  assumes "n \<le> 32"
  shows "word_bits (w AND push_bit (32 - n) 0xFFFFFFFF) = take n (word_bits w) @ replicate (32 - n) False"
proof (rule nth_equalityI)
  show "length (word_bits (w AND push_bit (32 - n) 0xFFFFFFFF)) = length (take n (word_bits w) @ replicate (32 - n) False)"
    using assms by (simp add: word_bits_length)
  fix i assume "i < length (word_bits (w AND push_bit (32 - n) 0xFFFFFFFF))"
  then have i: "i < 32" by (simp add: word_bits_length)
  have nth: "word_bits v ! i = bit v (31 - i)" for v using i by (simp add: word_bits_def rev_nth)
  show "word_bits (w AND push_bit (32 - n) 0xFFFFFFFF) ! i = (take n (word_bits w) @ replicate (32 - n) False) ! i"
  proof (cases "i < n")
    case True
    then have "bit (push_bit (32 - n) 0xFFFFFFFF :: 32 word) (31 - i)"
      unfolding all_ones using assms i by (simp add: bit_simps) linarith
    then show ?thesis using True nth i by (simp add: nth_append word_bits_length bit_and_iff)
  next
    case False
    then have "\<not> bit (push_bit (32 - n) 0xFFFFFFFF :: 32 word) (31 - i)"
      unfolding all_ones using assms i by (simp add: bit_simps)
    then show ?thesis using False nth i assms by (simp add: nth_append word_bits_length bit_and_iff)
  qed
qed

lemma net_net: "NetworkToHost32 (HostToNetwork32 w) = w" "HostToNetwork32 (NetworkToHost32 w) = w"
  by (simp_all add: net_defs htobe_htobe)

lemma word_bits_0: "word_bits 0 = replicate 32 False"
  by (simp add: word_bits_def upt_rec numeral_eq_Suc)

lemma ip_words_v4: "ip_words (ip_v4 (le32 (HostToNetwork32 w))) = [w]"
  using get_le32_at [of "[]" 0 "HostToNetwork32 w" "replicate 12 0"]
  by (simp add: ip_words_def ip_v4_def host_word_def net_net)

lemma ip_words_v6:
  "ip_words (ip_v6 (le32 w0 @ le32 w1 @ le32 w2 @ le32 w3)) = map NetworkToHost32 [w0, w1, w2, w3]"
  using get_le32_at [of "[]" 0 w0 "le32 w1 @ le32 w2 @ le32 w3"] get_le32_at [of "le32 w0" 4 w1 "le32 w2 @ le32 w3"]
    get_le32_at [of "le32 w0 @ le32 w1" 8 w2 "le32 w3"] get_le32_at [of "le32 w0 @ le32 w1 @ le32 w2" 12 w3 "[]"]
  by (simp add: ip_words_def ip_v6_def host_word_def upt_rec)

lemma truncate_v4:
  assumes "ip_fam ip = AF_INET" "0 \<le> len"
  shows "ip_bits (TruncateIP ip len) = take (nat len) (ip_bits ip) @ replicate (32 - nat len) False"
proof -
  have b: "ip_bits ip = word_bits (host_word ip 0)"
    using assms(1) by (simp add: ip_bits_def ip_words_def)
  consider "len > 31" | "len = 0" | "0 < len" "len \<le> 31" using assms(2) by linarith
  then show ?thesis
  proof cases
    case 1
    then show ?thesis using assms b by (simp add: TruncateIP_def word_bits_length)
  next
    case 2
    then show ?thesis using assms(1)
      by (simp add: TruncateIP_def ip_host_def INADDR_ANY_def ip_bits_def ip_words_v4 word_bits_0)
  next
    case 3
    then have n: "nat (32 - len) = 32 - nat len" "nat len \<le> 32" by auto
    show ?thesis
      using 3 assms(1) b word_bits_masked [OF n(2), of "host_word ip 0"]
      by (simp add: TruncateIP_def Let_def ip_bits_def ip_words_v4 host_word_def n)
  qed
qed

lemma upt4: "[0..<4] = [0, 1, 2, 3 :: nat]"
  by (simp add: upt_rec numeral_eq_Suc)

lemma four_blocks:
  fixes b0 b1 b2 b3 :: "bool list"
  assumes "length b0 = 32" "length b1 = 32" "length b2 = 32" "length b3 = 32" "n < 128"
  shows "take n (b0 @ b1 @ b2 @ b3) @ replicate (128 - n) False =
    concat (map (\<lambda>i. if i = n div 32 then take (n mod 32) ([b0, b1, b2, b3] ! i) @ replicate (32 - n mod 32) False
      else if i > n div 32 then replicate 32 False else [b0, b1, b2, b3] ! i) [0..<4])"
proof -
  have dm: "n = n div 32 * 32 + n mod 32" "n mod 32 < 32" by simp_all
  have "n div 32 < 4" using assms(5) by auto
  then consider "n div 32 = 0" | "n div 32 = 1" | "n div 32 = 2" | "n div 32 = 3" by linarith
  then show ?thesis
  proof cases
    case 1
    then have m: "n mod 32 = n" "n < 32" using dm by simp_all
    have "replicate (128 - n) False = replicate (32 - n) False @ replicate 32 False @ replicate 32 False @ replicate 32 False"
      using m(2) by (simp flip: replicate_add)
    then show ?thesis using 1 m assms by (simp add: upt4)
  next
    case 2
    then have m: "n mod 32 = n - 32" "32 \<le> n" "n < 64" using dm by simp_all
    have "replicate (128 - n) False = replicate (64 - n) False @ replicate 32 False @ replicate 32 False"
      using m(3) by (simp flip: replicate_add)
    then show ?thesis using 2 m assms by (simp add: upt4)
  next
    case 3
    then have m: "n mod 32 = n - 64" "64 \<le> n" "n < 96" using dm by simp_all
    have "replicate (128 - n) False = replicate (96 - n) False @ replicate 32 False"
      using m(3) by (simp flip: replicate_add)
    then show ?thesis using 3 m assms by (simp add: upt4)
  next
    case 4
    then have m: "n mod 32 = n - 96" "96 \<le> n" using dm by simp_all
    show ?thesis using 4 m assms by (simp add: upt4)
  qed
qed

lemma truncate_v6:
  assumes "ip_fam ip = AF_INET6" "0 \<le> len"
  shows "ip_bits (TruncateIP ip len) = take (nat len) (ip_bits ip) @ replicate (128 - nat len) False"
proof -
  let ?h = "host_word ip"
  have w: "ip_words ip = [?h 0, ?h 1, ?h 2, ?h 3]" using assms(1) by (simp add: ip_words_def upt4)
  have b: "ip_bits ip = word_bits (?h 0) @ word_bits (?h 1) @ word_bits (?h 2) @ word_bits (?h 3)"
    using w by (simp add: ip_bits_def)
  have raw: "get_le32 (4 * i) (ip_u ip) = HostToNetwork32 (?h i)" for i
    by (simp add: host_word_def net_net)
  consider "len > 127" | "len = 0" | "0 < len" "len \<le> 127" using assms(2) by linarith
  then show ?thesis
  proof cases
    case 1
    then show ?thesis using assms b by (simp add: TruncateIP_def word_bits_length)
  next
    case 2
    have z: "in6addr_any = le32 0 @ le32 0 @ le32 0 @ le32 0" by (simp add: in6addr_any_def le32_def numeral_eq_Suc)
    have "NetworkToHost32 0 = 0" by (simp add: net_defs htobe32_def le32_def get_le32_def)
    then show ?thesis using 2 assms(1)
      by (simp add: TruncateIP_def ip_bits_def z ip_words_v6 word_bits_0 flip: replicate_add)
  next
    case 3
    define n where "n = nat len"
    have n: "len = int n" "n < 128" using 3 by (simp_all add: n_def)
    have il: "nat (32 - (len - len div 32 * 32)) = 32 - n mod 32"
      using n by (simp add: minus_div_mult_eq_mod nat_diff_distrib' nat_mod_distrib)
    define f where "f i = (if i = n div 32 then HostToNetwork32 (?h i AND push_bit (32 - n mod 32) 0xFFFFFFFF)
      else if i > n div 32 then 0 else HostToNetwork32 (?h i))" for i
    have d: "len div 32 = int (n div 32)" by (simp add: n zdiv_int)
    have step: "(if int i = len div 32 then le32 (HostToNetwork32 (NetworkToHost32 (get_le32 (4 * i) (ip_u ip)) AND m))
        else if int i > len div 32 then le32 0 else le32 (get_le32 (4 * i) (ip_u ip))) =
        le32 (if i = n div 32 then HostToNetwork32 (?h i AND m) else if i > n div 32 then 0 else HostToNetwork32 (?h i))" for i m
      unfolding d of_nat_eq_iff of_nat_less_iff raw net_net by simp
    have tw: "truncate_words (len div 32) (push_bit (32 - n mod 32) 0xFFFFFFFF) (ip_u ip) =
        le32 (f 0) @ le32 (f 1) @ le32 (f 2) @ le32 (f 3)"
      unfolding truncate_words_def step f_def upt4 by simp
    have z: "NetworkToHost32 0 = 0" by (simp add: net_defs htobe32_def le32_def get_le32_def)
    have blk: "word_bits (NetworkToHost32 (f i)) =
        (if i = n div 32 then take (n mod 32) (word_bits (?h i)) @ replicate (32 - n mod 32) False
         else if i > n div 32 then replicate 32 False else word_bits (?h i))" for i
      using word_bits_masked [of "n mod 32"] by (simp add: f_def net_net z word_bits_0)
    have "TruncateIP ip len = ip_v6 (le32 (f 0) @ le32 (f 1) @ le32 (f 2) @ le32 (f 3))"
      using 3 assms(1) il tw by (simp add: TruncateIP_def Let_def)
    then have "ip_bits (TruncateIP ip len) = concat (map (\<lambda>i. word_bits (NetworkToHost32 (f i))) [0..<4])"
      by (simp add: ip_bits_def ip_words_v6 upt4)
    also have "\<dots> = take n (ip_bits ip) @ replicate (128 - n) False"
      unfolding b four_blocks [OF word_bits_length word_bits_length word_bits_length word_bits_length n(2)] blk
      by (simp add: upt4)
    finally show ?thesis by (simp add: n)
  qed
qed

section \<open>Prefixes and masks\<close>

text \<open>
  Cutting an address to a prefix keeps exactly its first \<open>len\<close> bits and clears the others, in both
  families and for every length; a negative length gives the nil address, which has no bits.
\<close>

lemma TruncateIP_bits:
  "ip_bits (TruncateIP ip len) =
     (if len < 0 then [] else take (nat len) (ip_bits ip) @ replicate (length (ip_bits ip) - nat len) False)"
proof (cases "len < 0")
  case True
  then show ?thesis by (simp add: TruncateIP_def ip_bits_def ip_words_def ip_nil_def)
next
  case False
  then show ?thesis
  proof (cases "ip_fam ip")
    case AF_UNSPEC
    then show ?thesis using False by (simp add: TruncateIP_def ip_bits_def ip_words_def ip_nil_def)
  next
    case AF_INET
    then have "length (ip_bits ip) = 32" by (simp add: ip_bits_def ip_words_def word_bits_length)
    then show ?thesis using False truncate_v4 [OF AF_INET] by simp
  next
    case AF_INET6
    then have "length (ip_bits ip) = 128"
      by (simp add: ip_bits_def ip_words_def word_bits_length length_concat upt4)
    then show ?thesis using False truncate_v6 [OF AF_INET6] by simp
  qed
qed

text \<open>
  \<open>w AND (NOT w + 1)\<close> is the lowest set bit of a word, and the constants of
  \<^verbatim>\<open>CountIPMaskBits\<close> find its place.
\<close>

lemma lowest_bit:
  fixes w :: "32 word"
  assumes "bit w k" "\<And>j. j < k \<Longrightarrow> \<not> bit w j"
  shows "w AND (NOT w + 1) = 2 ^ k"
proof -
  have k: "k < 32" using bit_imp_le_length [OF assms(1)] by simp
  define u where "u = push_bit (Suc k) (drop_bit (Suc k) w)"
  have w: "w = u OR 2 ^ k"
  proof (rule bit_word_eqI)
    fix n :: nat
    consider "n < k" | "n = k" | "n > k" by linarith
    then show "bit w n = bit (u OR 2 ^ k) n"
      using assms k
      by cases (auto simp: u_def bit_simps Suc_le_eq simp del: push_bit_Suc drop_bit_Suc dest: bit_imp_le_length)
  qed
  have disj: "u AND 2 ^ k = 0" "u AND mask k = 0"
    by (auto intro!: bit_word_eqI simp: u_def bit_simps simp del: push_bit_Suc drop_bit_Suc)
  have "w - 1 = u + mask k"
    unfolding w using disjunctive_add_eq_or [OF disj(1)] by (simp add: mask_eq_exp_minus_1)
  then have pred: "w - 1 = u OR mask k" using disjunctive_add_eq_or [OF disj(2)] by simp
  have "w AND (NOT w + 1) = w AND NOT (u OR mask k)" by (simp add: not_eq_complement flip: pred)
  also have "\<dots> = (u OR 2 ^ k) AND NOT (u OR mask k)" by (simp flip: w)
  finally show ?thesis
    using k
    by (auto intro!: bit_word_eqI simp: u_def bit_simps simp del: push_bit_Suc drop_bit_Suc)
qed

lemma count_power: "list_all (\<lambda>k. count_word (2 ^ k) = 32 - int k) [0..<32]"
  by (simp add: count_word_def upt_rec)

definition last_one :: "bool list \<Rightarrow> nat" where
  "last_one bs = length (dropWhile Not (rev bs))"

definition leading_ones :: "bool list \<Rightarrow> nat" where
  "leading_ones bs = length (takeWhile (\<lambda>b. b) bs)"

lemma last_one_Least:
  assumes "bit w k" "\<And>j. j < k \<Longrightarrow> \<not> bit w j"
  shows "last_one (word_bits w) = 32 - k"
proof -
  have k: "k < 32" using bit_imp_le_length [OF assms(1)] by simp
  then have "rev (word_bits w) = map (bit w) ([0..<k] @ [k..<32])"
    using upt_add_eq_append [of 0 k "32 - k"] by (simp add: word_bits_def rev_map)
  also have "\<dots> = replicate k False @ True # map (bit w) [Suc k..<32]"
    using assms k map_cong [of "[0..<k]" "[0..<k]" "bit w" "\<lambda>_. False"]
    by (simp add: upt_conv_Cons [of k] map_replicate_const)
  finally show ?thesis using k by (simp add: last_one_def dropWhile_append)
qed

lemma count_word_last_one:
  assumes "w \<noteq> 0"
  shows "count_word w = int (last_one (word_bits w))"
proof -
  obtain i where "bit w i" using assms by (metis bit_eqI bit_0_eq bot_apply bot_bool_def)
  define k where "k = (LEAST i. bit w i)"
  have bk: "bit w k" unfolding k_def using \<open>bit w i\<close> by (rule LeastI)
  have low: "\<not> bit w j" if "j < k" for j using that unfolding k_def by (rule not_less_Least)
  have k: "k < 32" using bit_imp_le_length [OF bk] by simp
  have "(2 ^ k :: 32 word) AND (NOT (2 ^ k) + 1) = 2 ^ k"
    using k by (intro lowest_bit) (auto simp: bit_simps)
  then have "count_word w = count_word (2 ^ k)"
    by (simp add: count_word_def lowest_bit [OF bk low])
  also have "\<dots> = 32 - int k" using count_power k by (simp add: list_all_iff)
  finally show ?thesis using last_one_Least [OF bk low] k by simp
qed

lemma last_one_none: "last_one (replicate n False) = 0"
  by (simp add: last_one_def)

lemma count_v4_last_one: "ip_fam ip = AF_INET \<Longrightarrow> CountIPMaskBits ip = int (last_one (ip_bits ip))"
  using count_word_last_one [of "host_word ip 0"]
  by (auto simp: CountIPMaskBits_def Let_def ip_bits_def ip_words_def host_word_def word_bits_0 last_one_none)

lemma count_v6_last_one:
  assumes "ip_fam ip = AF_INET6"
  shows "CountIPMaskBits ip =
    (let full = length (takeWhile (\<lambda>w. w = 0xFFFFFFFF) (map (\<lambda>i. get_le32 (4 * i) (ip_u ip)) [0..<4]))
     in int (full * 32) + (if full < 4 then int (last_one (word_bits (host_word ip full))) else 0))"
proof -
  define full where "full = length (takeWhile (\<lambda>w. w = 0xFFFFFFFF) (map (\<lambda>i. get_le32 (4 * i) (ip_u ip)) [0..<4]))"
  show ?thesis
    using assms count_word_last_one [of "host_word ip full"]
    by (auto simp: CountIPMaskBits_def Let_def host_word_def word_bits_0 last_one_none simp flip: full_def)
qed

lemma last_one_split: "drop (last_one bs) bs = replicate (length bs - last_one bs) False"
proof -
  have "drop (last_one bs) bs = rev (takeWhile Not (rev bs))"
    unfolding last_one_def by (metis append_eq_conv_conj length_rev rev_append rev_rev_ident takeWhile_dropWhile_id)
  moreover have "set (takeWhile Not (rev bs)) \<subseteq> {False}" by (auto dest: set_takeWhileD)
  ultimately show ?thesis
    by (metis replicate_length_same length_drop set_rev singletonD subset_iff)
qed

lemma leading_ones_split: "take (leading_ones bs) bs = replicate (leading_ones bs) True"
proof -
  have t: "take (leading_ones bs) bs = takeWhile (\<lambda>b. b) bs"
    unfolding leading_ones_def by (metis takeWhile_eq_take)
  have "x = True" if "x \<in> set (takeWhile (\<lambda>b. b) bs)" for x using set_takeWhileD [OF that] by simp
  then show ?thesis using t by (metis leading_ones_def replicate_length_same)
qed

lemma leading_ones_last_one:
  "leading_ones bs = last_one bs \<longleftrightarrow> (\<exists>n m. bs = replicate n True @ replicate m False)"
proof
  assume eq: "leading_ones bs = last_one bs"
  have "bs = take (leading_ones bs) bs @ drop (last_one bs) bs" by (simp add: eq)
  then show "\<exists>n m. bs = replicate n True @ replicate m False"
    using leading_ones_split [of bs] last_one_split [of bs] by metis
next
  assume "\<exists>n m. bs = replicate n True @ replicate m False"
  then obtain n m where bs: "bs = replicate n True @ replicate m False" by blast
  have "dropWhile Not (replicate n True) = replicate n True" by (cases n) simp_all
  moreover have "takeWhile (\<lambda>b. b) (replicate m False) = []" by (cases m) simp_all
  ultimately show "leading_ones bs = last_one bs"
    by (simp add: bs leading_ones_def last_one_def dropWhile_append takeWhile_append)
qed

text \<open>
  C40. \<^verbatim>\<open>CountIPMaskBits\<close> of an IPv4 mask is the number of its leading ones, which its comment promises,
  exactly for the masks that are ones followed by zeros: the code counts up to the last one, not to
  the first zero, so that it gives 24 for 255.0.255.0.
\<close>

theorem CountIPMaskBits_counts_iff:
  "CountIPMaskBits (ip_v4 a) = int (leading_ones (ip_bits (ip_v4 a))) \<longleftrightarrow>
     (\<exists>n m. ip_bits (ip_v4 a) = replicate n True @ replicate m False)"
proof -
  have "CountIPMaskBits (ip_v4 a) = int (last_one (ip_bits (ip_v4 a)))"
    by (rule count_v4_last_one) (simp add: ip_v4_def)
  then show ?thesis using leading_ones_last_one [of "ip_bits (ip_v4 a)"] by auto
qed

section \<open>Address classes as dotted ranges\<close>

lemma byte_less: "unat (x :: 8 word) < 256"
  using unsigned_less [of x] by simp

lemma host_order_v4:
  "unat (v4AddressAsHostOrderInteger (ip_v4 [a, b, c, d])) =
     unat a * 2 ^ 24 + unat b * 2 ^ 16 + unat c * 2 ^ 8 + unat d"
proof -
  have h: "v4AddressAsHostOrderInteger (ip_v4 [a, b, c, d]) = get_le32 0 [d, c, b, a]"
    using le32_get [of 0 "[a, b, c, d] @ replicate 12 0"]
    by (simp add: v4AddressAsHostOrderInteger_def ip_v4_def net_defs htobe32_def)
  have "get_le32 0 [d, c, b, a] =
      ucast d + push_bit 8 (ucast c) + push_bit 16 (ucast b) + push_bit 24 (ucast a)"
  proof -
    have "ucast d AND (push_bit 8 (ucast c) OR push_bit 16 (ucast b) OR push_bit 24 (ucast a)) = (0 :: 32 word)"
      "push_bit 8 (ucast c) AND (push_bit 16 (ucast b) OR push_bit 24 (ucast a)) = (0 :: 32 word)"
      "push_bit 16 (ucast b) AND push_bit 24 (ucast a) = (0 :: 32 word)"
      by (rule bit_word_eqI, auto simp: bit_simps dest!: bit_imp_le_length)+
    then show ?thesis
      by (simp add: get_le32_def add.assoc disjunctive_add_eq_or)
  qed
  moreover have "unat a < 256" "unat b < 256" "unat c < 256" "unat d < 256"
    using byte_less by simp_all
  ultimately show ?thesis unfolding h
    by (simp add: push_bit_eq_mult unat_word_ariths unsigned_ucast_eq take_bit_eq_mod)
qed

lemma drop_bit_eq_iff:
  fixes h :: "32 word"
  shows "drop_bit n h = k \<longleftrightarrow> unat h div 2 ^ n = unat k"
  by (metis unat_drop_bit_eq word_unat_eq_iff drop_bit_eq_div)

lemma private_ranges:
  fixes A B C D :: nat
  assumes "A < 256" "B < 256" "C < 256" "D < 256"
  defines "H \<equiv> A * 2 ^ 24 + B * 2 ^ 16 + C * 2 ^ 8 + D"
  shows "H div 2 ^ 24 = A" "H div 2 ^ 16 = A * 256 + B"
    "H div 2 ^ 20 = A * 16 + B div 16" "H div 2 ^ 22 = A * 4 + B div 64"
proof -
  show h: "H div 2 ^ 16 = A * 256 + B" unfolding H_def by (rule div_nat_eqI) (use assms(1-4) in simp_all)
  show "H div 2 ^ 24 = A" unfolding H_def by (rule div_nat_eqI) (use assms(1-4) in simp_all)
  have "H div 2 ^ 20 = (H div 2 ^ 16) div 16" "H div 2 ^ 22 = (H div 2 ^ 16) div 64"
    by (simp_all flip: div_mult2_eq)
  then show "H div 2 ^ 20 = A * 16 + B div 16" "H div 2 ^ 22 = A * 4 + B div 64"
    unfolding h by simp_all
qed

lemma digits_eq:
  fixes A B x y m :: nat
  assumes "B < m" "y < m"
  shows "A * m + B = x * m + y \<longleftrightarrow> A = x \<and> B = y"
proof
  assume eq: "A * m + B = x * m + y"
  have "A = (A * m + B) div m" "B = (A * m + B) mod m" using assms by simp_all
  then show "A = x \<and> B = y" unfolding eq using assms by simp
qed simp

text \<open>
  The IPv4 addresses that \<^verbatim>\<open>IPIsPrivate\<close> accepts are exactly those of the ranges 10/8, 172.16/12,
  192.168/16, 127/8, 169.254/16 and 100.64/10.
\<close>

lemma IPIsPrivate_ranges:
  "IPIsPrivate (ip_v4 [a, b, c, d]) \<longleftrightarrow>
     a = 10 \<or> a = 172 \<and> 16 \<le> b \<and> b \<le> 31 \<or> a = 192 \<and> b = 168 \<or> a = 127 \<or> a = 169 \<and> b = 254 \<or>
     a = 100 \<and> 64 \<le> b \<and> b \<le> 127"
proof -
  let ?A = "unat a" and ?B = "unat b"
  have lt: "?A < 256" "?B < 256" "unat c < 256" "unat d < 256" using byte_less by simp_all
  note r = private_ranges [OF lt, simplified]
  have "IPIsPrivate (ip_v4 [a, b, c, d]) \<longleftrightarrow>
      ?A * 256 + ?B = 43518 \<or> ?A = 127 \<or> ?A = 10 \<or> ?A * 16 + ?B div 16 = 2753 \<or> ?A * 256 + ?B = 49320 \<or>
      ?A * 4 + ?B div 64 = 401"
    by (simp add: IPIsPrivate_def IPIsLinkLocal_def IPIsLinkLocalV4_def IPIsLoopback_def IPIsLoopbackV4_def
        IPIsPrivateNetwork_def IPIsPrivateNetworkV4_def IPIsSharedNetwork_def IPIsSharedNetworkV4_def
        drop_bit_eq_iff host_order_v4 r Let_def) (simp add: ip_v4_def)
  also have "\<dots> \<longleftrightarrow> ?A = 10 \<or> ?A = 172 \<and> 16 \<le> ?B \<and> ?B \<le> 31 \<or> ?A = 192 \<and> ?B = 168 \<or> ?A = 127 \<or>
      ?A = 169 \<and> ?B = 254 \<or> ?A = 100 \<and> 64 \<le> ?B \<and> ?B \<le> 127"
  proof -
    have "?B div 16 < 16" "?B div 64 < 64" using lt(2) by simp_all
    then have "?A * 256 + ?B = 169 * 256 + 254 \<longleftrightarrow> ?A = 169 \<and> ?B = 254"
      "?A * 256 + ?B = 192 * 256 + 168 \<longleftrightarrow> ?A = 192 \<and> ?B = 168"
      "?A * 16 + ?B div 16 = 172 * 16 + 1 \<longleftrightarrow> ?A = 172 \<and> ?B div 16 = 1"
      "?A * 4 + ?B div 64 = 100 * 4 + 1 \<longleftrightarrow> ?A = 100 \<and> ?B div 64 = 1"
      using lt(2) by (intro digits_eq, simp, simp)+
    moreover have "?B div 16 = 1 \<longleftrightarrow> 16 \<le> ?B \<and> ?B \<le> 31" "?B div 64 = 1 \<longleftrightarrow> 64 \<le> ?B \<and> ?B \<le> 127"
      by linarith+
    ultimately show ?thesis by simp blast
  qed
  finally show ?thesis by (simp add: word_unat_eq_iff word_le_nat_alt)
qed

section \<open>Order and mapped addresses\<close>

lemma bytes_less_irrefl: "\<not> bytes_less x x"
  by (induction x) simp_all

lemma bytes_less_trans: "bytes_less x y \<Longrightarrow> bytes_less y z \<Longrightarrow> length x = length z \<Longrightarrow> bytes_less x z"
  by (induction x y arbitrary: z rule: bytes_less.induct) (case_tac z; auto split: if_splits)+

lemma bytes_less_total: "length x = length y \<Longrightarrow> x = y \<or> bytes_less x y \<or> bytes_less y x"
  by (induction x y rule: list_induct2) auto

lemma host_order_inj:
  assumes "ip_ok a" "ip_ok b"
  shows "NetworkToHost32 (get_le32 0 (ip_u a)) = NetworkToHost32 (get_le32 0 (ip_u b)) \<longleftrightarrow>
    take 4 (ip_u a) = take 4 (ip_u b)"
proof -
  have "le32 (get_le32 0 (ip_u x)) = take 4 (ip_u x)" if "ip_ok x" for x
    using le32_get [of 0 "ip_u x"] that by (simp add: ip_ok_def)
  moreover have "get_le32 0 x = get_le32 0 (take 4 x)" if "length x = 16" for x using that by (simp add: get_le32_def)
  ultimately show ?thesis using assms unfolding ip_ok_def by (metis net_net(2))
qed

text \<open>
  Exactly one of \<open>a < b\<close>, \<open>a == b\<close> and \<open>b < a\<close> holds of two addresses, \<open>operator>\<close> is the converse
  of \<open>operator<\<close>, and equal addresses hash alike.
\<close>

lemma ip_order:
  assumes "ip_ok a" "ip_ok b"
  shows "ip_less a b \<Longrightarrow> \<not> ip_less b a" "ip_less a b \<Longrightarrow> \<not> ip_eq a b"
    "ip_eq a b \<or> ip_less a b \<or> ip_less b a" "ip_greater a b \<longleftrightarrow> ip_less b a"
proof -
  have len: "length (ip_u a) = length (ip_u b)" using assms by (simp add: ip_ok_def)
  show asym: "ip_less a b \<Longrightarrow> \<not> ip_less b a"
    using bytes_less_trans [of "ip_u a" "ip_u b" "ip_u a"] bytes_less_irrefl [of "ip_u a"]
    by (auto simp: ip_less_def split: if_splits ip_family.splits)
  show irr: "ip_less a b \<Longrightarrow> \<not> ip_eq a b"
    using bytes_less_irrefl [of "ip_u a"] host_order_inj [OF assms]
    by (auto simp: ip_less_def ip_eq_def split: if_splits ip_family.splits)
  show tot: "ip_eq a b \<or> ip_less a b \<or> ip_less b a"
    using bytes_less_total [OF len] host_order_inj [OF assms]
    by (cases "ip_fam a"; cases "ip_fam b") (auto simp: ip_less_def ip_eq_def)
  have "ip_less b a \<Longrightarrow> \<not> ip_eq a b"
    using bytes_less_irrefl [of "ip_u a"] host_order_inj [OF assms]
    by (auto simp: ip_less_def ip_eq_def split: if_splits ip_family.splits)
  then show "ip_greater a b \<longleftrightarrow> ip_less b a"
    using tot irr asym by (auto simp: ip_greater_def)
qed

lemma ip_less_trans:
  assumes "ip_ok a" "ip_ok b" "ip_ok c" "ip_less a b" "ip_less b c"
  shows "ip_less a c"
  using assms bytes_less_trans [of "ip_u a" "ip_u b" "ip_u c"]
  by (auto simp: ip_less_def ip_ok_def split: if_splits ip_family.splits)

lemma ip_eq_hash:
  assumes "ip_ok a" "ip_ok b" "ip_eq a b"
  shows "HashIP a = HashIP b"
proof -
  have fam: "ip_fam a = ip_fam b" using assms(3) by (simp add: ip_eq_def split: if_splits)
  show ?thesis
  proof (cases "ip_fam b")
    case AF_INET
    then have "NetworkToHost32 (get_le32 0 (ip_u a)) = NetworkToHost32 (get_le32 0 (ip_u b))"
      using assms fam host_order_inj [OF assms(1,2)] by (simp add: ip_eq_def)
    then have "get_le32 0 (ip_u a) = get_le32 0 (ip_u b)" by (metis net_net(2))
    then show ?thesis using AF_INET fam by (simp add: HashIP_def)
  qed (use assms fam in \<open>simp_all add: ip_eq_def HashIP_def\<close>)
qed

text \<open>An IPv4 address mapped to IPv6 and normalised is the address again.\<close>

lemma normalized_mapped:
  assumes "length addr = 4"
  shows "Normalized (AsIPv6Address (ip_v4 addr)) = ip_v4 addr"
  using assms
  by (simp add: Normalized_def AsIPv6Address_def IPIsV4Mapped_def IPIsHelper_def ExtractMappedAddress_def
      ip_v4_def ip_v6_def kV4MappedPrefix_def)

lemma normalized_idem: "Normalized (Normalized ip) = Normalized ip"
  by (simp add: Normalized_def ip_v4_def)

text \<open>Reading back the text of an address gives the address, when the system's two functions are inverse.\<close>

lemma ip_text_roundtrip:
  assumes "\<And>addr. length addr = 4 \<Longrightarrow> \<exists>s. ntop AF_INET addr = Some s \<and> pton AF_INET s = Some addr"
    and "\<And>addr. length addr = 16 \<Longrightarrow> \<exists>s. ntop AF_INET6 addr = Some s \<and> pton AF_INET s = None \<and> pton AF_INET6 s = Some addr"
    and "ip_ok ip" "ip_fam ip \<noteq> AF_UNSPEC"
  shows "\<exists>ip'. IPFromString pton (ip_ToString ntop ip) = (True, ip') \<and> ip_eq ip' ip"
proof (cases "ip_fam ip")
  case AF_INET
  then have "length (take 4 (ip_u ip)) = 4" using assms(3) by (simp add: ip_ok_def)
  then obtain s where s: "ntop AF_INET (take 4 (ip_u ip)) = Some s" "pton AF_INET s = Some (take 4 (ip_u ip))"
    using assms(1) by blast
  then have "IPFromString pton (ip_ToString ntop ip) = (True, ip_v4 (take 4 (ip_u ip)))"
    using AF_INET by (simp add: ip_ToString_def IPFromString_def)
  then show ?thesis using AF_INET assms(3) by (simp add: ip_eq_def ip_v4_def ip_ok_def)
next
  case AF_INET6
  then obtain s where "ntop AF_INET6 (ip_u ip) = Some s" "pton AF_INET s = None" "pton AF_INET6 s = Some (ip_u ip)"
    using assms(2,3) unfolding ip_ok_def by blast
  then have "IPFromString pton (ip_ToString ntop ip) = (True, ip_v6 (ip_u ip))"
    using AF_INET6 by (simp add: ip_ToString_def IPFromString_def)
  then show ?thesis using AF_INET6 by (simp add: ip_eq_def ip_v6_def)
qed (use assms in simp)

lemma interface_assign: "ia_assign a b = b"
  by (simp add: ia_assign_def)

end
