(* ===== verification/StringNumber.thy ===== *)
theory StringNumber
  imports StringEncode
begin

text \<open>
  Numbers and text: \<^verbatim>\<open>ToString\<close> and \<^verbatim>\<open>FromString\<close> of \<^verbatim>\<open>rtc_base/string_encode.cc\<close>, the parsers of
  \<^verbatim>\<open>string_to_number.cc\<close> over the C library's \<^verbatim>\<open>strtoll\<close>, the helpers of \<^verbatim>\<open>string_utils.cc\<close> and the
  string builder with a fixed buffer of \<^verbatim>\<open>strings/string_builder.cc\<close>. The theorems characterise the
  texts that parse, and say what a builder holds after any sequence of appends.
\<close>

section \<open>The C library's conversions\<close>

definition c_str :: "string \<Rightarrow> string" where
  "c_str s = takeWhile (\<lambda>c. c \<noteq> CHR 0x00) s"

definition c_isspace :: "char \<Rightarrow> bool" where
  "c_isspace c \<longleftrightarrow> c = CHR '' '' \<or> (9 \<le> (of_char c :: nat) \<and> (of_char c :: nat) \<le> 13)"

definition c_isdigit :: "char \<Rightarrow> bool" where
  "c_isdigit c \<longleftrightarrow> 48 \<le> (of_char c :: nat) \<and> (of_char c :: nat) \<le> 57"

definition digit_value :: "char \<Rightarrow> nat option" where
  "digit_value c =
     (let n = of_char c :: nat
      in if 48 \<le> n \<and> n \<le> 57 then Some (n - 48)
         else if 97 \<le> n \<and> n \<le> 122 then Some (n - 87)
         else if 65 \<le> n \<and> n \<le> 90 then Some (n - 55)
         else None)"

definition digit_in :: "nat \<Rightarrow> char \<Rightarrow> bool" where
  "digit_in base c \<longleftrightarrow> (case digit_value c of None \<Rightarrow> False | Some d \<Rightarrow> d < base)"

fun magnitude :: "nat \<Rightarrow> nat \<Rightarrow> string \<Rightarrow> nat" where
  "magnitude base acc [] = acc"
| "magnitude base acc (c # cs) = magnitude base (base * acc + the (digit_value c)) cs"

text \<open>
  A base of 0 is detected from the prefix; \<^verbatim>\<open>0x\<close> is skipped for base 16 when a digit follows it.
\<close>

definition detect_base :: "nat \<Rightarrow> string \<Rightarrow> nat \<times> string" where
  "detect_base base s =
     (if base \<in> {0, 16} \<and> length s > 2 \<and> s ! 0 = CHR ''0'' \<and> s ! 1 \<in> {CHR ''x'', CHR ''X''} \<and> digit_in 16 (s ! 2)
      then (16, drop 2 s)
      else if base = 0 then (if s \<noteq> [] \<and> s ! 0 = CHR ''0'' then 8 else 10, s)
      else (base, s))"

text \<open>
  The common part of \<^verbatim>\<open>strtoll\<close> and \<^verbatim>\<open>strtoull\<close>: white space, a sign, the digits. The result is the sign,
  the magnitude and the text from \<^verbatim>\<open>*end\<close> on, or \<open>None\<close> when there are no digits (\<^verbatim>\<open>*end\<close> is then the
  beginning of the text and the value 0).
\<close>

definition strto_scan :: "string \<Rightarrow> nat \<Rightarrow> (bool \<times> nat \<times> string) option" where
  "strto_scan str base =
     (let s1 = dropWhile c_isspace str;
          neg = (s1 \<noteq> [] \<and> s1 ! 0 = CHR ''-'');
          s2 = (if s1 \<noteq> [] \<and> s1 ! 0 \<in> {CHR ''-'', CHR ''+''} then tl s1 else s1);
          (b, s3) = detect_base base s2;
          ds = takeWhile (digit_in b) s3
      in if ds = [] then None else Some (neg, magnitude b 0 ds, dropWhile (digit_in b) s3))"

text \<open>The value, whether \<^verbatim>\<open>errno\<close> is set to \<^verbatim>\<open>ERANGE\<close>, and the text from \<^verbatim>\<open>*end\<close> on.\<close>

definition strtoll :: "string \<Rightarrow> nat \<Rightarrow> int \<times> bool \<times> string" where
  "strtoll str base =
     (case strto_scan str base of
        None \<Rightarrow> (0, False, str)
      | Some (neg, m, rest) \<Rightarrow>
          (let v = (if neg then - int m else int m)
           in if v < - (2 ^ 63) then (- (2 ^ 63), True, rest)
              else if v \<ge> 2 ^ 63 then (2 ^ 63 - 1, True, rest)
              else (v, False, rest)))"

definition strtoull :: "string \<Rightarrow> nat \<Rightarrow> int \<times> bool \<times> string" where
  "strtoull str base =
     (case strto_scan str base of
        None \<Rightarrow> (0, False, str)
      | Some (neg, m, rest) \<Rightarrow>
          if m \<ge> 2 ^ 64 then (2 ^ 64 - 1, True, rest)
          else ((if neg then - int m else int m) mod 2 ^ 64, False, rest))"

section \<open>Parsing and printing\<close>

definition ParseSigned :: "string \<Rightarrow> nat \<Rightarrow> int option" where
  "ParseSigned str base =
     (if str \<noteq> [] \<and> (c_isdigit (str ! 0) \<or> str ! 0 = CHR ''-'') then
        (case strtoll str base of (v, range_error, rest) \<Rightarrow> if rest = [] \<and> \<not> range_error then Some v else None)
      else None)"

definition ParseUnsigned :: "string \<Rightarrow> nat \<Rightarrow> int option" where
  "ParseUnsigned str base =
     (if str \<noteq> [] \<and> (c_isdigit (str ! 0) \<or> str ! 0 = CHR ''-'') then
        let is_negative = (str ! 0 = CHR ''-'')
        in (case strtoull str base of (v, range_error, rest) \<Rightarrow>
              if rest = [] \<and> \<not> range_error \<and> (v = 0 \<or> \<not> is_negative) then Some v else None)
      else None)"

text \<open>\<^verbatim>\<open>StringToNumber<T>\<close> for a signed \<open>T\<close> with the limits \<open>lo\<close> and \<open>hi\<close>, and for an unsigned one.\<close>

definition StringToSigned :: "int \<Rightarrow> int \<Rightarrow> string \<Rightarrow> nat \<Rightarrow> int option" where
  "StringToSigned lo hi str base =
     (case ParseSigned (c_str str) base of
        None \<Rightarrow> None
      | Some v \<Rightarrow> if lo \<le> v \<and> v \<le> hi then Some v else None)"

definition StringToUnsigned :: "int \<Rightarrow> string \<Rightarrow> nat \<Rightarrow> int option" where
  "StringToUnsigned hi str base =
     (case ParseUnsigned (c_str str) base of
        None \<Rightarrow> None
      | Some v \<Rightarrow> if v \<le> hi then Some v else None)"

definition ToString_bool :: "bool \<Rightarrow> string" where
  "ToString_bool b = (if b then ''true'' else ''false'')"

definition FromString_bool :: "string \<Rightarrow> bool option" where
  "FromString_bool s = (if s = ''false'' then Some False else if s = ''true'' then Some True else None)"

text \<open>
  \<^verbatim>\<open>ToString\<close> of the integer types: \<^verbatim>\<open>snprintf\<close> into 32 bytes, of which \<open>len\<close> are taken. \<open>None\<close> is a text
  that does not fit, and would be read past the end of the array.
\<close>

definition ToString_int :: "int \<Rightarrow> string option" where
  "ToString_int i = (let t = to_string i in if length t < 32 then Some t else None)"

section \<open>Helpers on strings\<close>

text \<open>\<^verbatim>\<open>strcpyn\<close>: the buffer afterwards and the number of characters copied; \<open>srclen\<close> is \<open>None\<close> for \<^verbatim>\<open>SIZE_UNKNOWN\<close>.\<close>

definition strcpyn :: "string \<Rightarrow> string \<Rightarrow> nat option \<Rightarrow> string \<times> nat" where
  "strcpyn buffer source srclen =
     (if length buffer = 0 then (buffer, 0)
      else
        let n = (case srclen of None \<Rightarrow> length (c_str source) | Some k \<Rightarrow> k);
            n = (if n \<ge> length buffer then length buffer - 1 else n)
        in (take n source @ [CHR 0x00] @ drop (n + 1) buffer, n))"

definition kWhitespace :: string where
  "kWhitespace = [CHR '' '', CHR 0x0A, CHR 0x0D, CHR 0x09]"

definition find_first_not_of :: "string \<Rightarrow> string \<Rightarrow> nat option" where
  "find_first_not_of s cs =
     (let n = length (takeWhile (\<lambda>c. c \<in> set cs) s) in if n = length s then None else Some n)"

definition find_last_not_of :: "string \<Rightarrow> string \<Rightarrow> nat option" where
  "find_last_not_of s cs =
     (let n = length (takeWhile (\<lambda>c. c \<in> set cs) (rev s)) in if n = length s then None else Some (length s - 1 - n))"

definition string_trim :: "string \<Rightarrow> string" where
  "string_trim s =
     (case (find_first_not_of s kWhitespace, find_last_not_of s kWhitespace) of
        (Some i, Some j) \<Rightarrow> take (j - i + 1) (drop i s)
      | _ \<Rightarrow> [])"

text \<open>\<^verbatim>\<open>find(c, pos)\<close> of \<^verbatim>\<open>std::string\<close>.\<close>

definition find_char :: "char \<Rightarrow> nat \<Rightarrow> string \<Rightarrow> nat option" where
  "find_char c pos s =
     (if c \<in> set (drop pos s) then Some (pos + length (takeWhile (\<lambda>x. x \<noteq> c) (drop pos s))) else None)"

text \<open>\<^verbatim>\<open>std::string::operator<\<close> compares characters as unsigned bytes.\<close>

fun string_less :: "string \<Rightarrow> string \<Rightarrow> bool" where
  "string_less _ [] = False"
| "string_less [] (_ # _) = True"
| "string_less (c # cs) (d # ds) =
     (if c = d then string_less cs ds else (of_char c :: nat) < of_char d)"

section \<open>Builders\<close>

record simple_builder =
  ssb_buffer :: string
  ssb_size :: nat

definition SimpleStringBuilder :: "string \<Rightarrow> simple_builder" where
  "SimpleStringBuilder buffer = \<lparr>ssb_buffer = buffer[0 := CHR 0x00], ssb_size = 0\<rparr>"

definition ssb_Append :: "string \<Rightarrow> simple_builder \<Rightarrow> simple_builder" where
  "ssb_Append str b =
     (let chars_added = min (length str) (length (ssb_buffer b) - ssb_size b - 1);
          buf = take (ssb_size b) (ssb_buffer b) @ take chars_added str @ drop (ssb_size b + chars_added) (ssb_buffer b)
      in \<lparr>ssb_buffer = buf[ssb_size b + chars_added := CHR 0x00], ssb_size = ssb_size b + chars_added\<rparr>)"

text \<open>
  \<^verbatim>\<open>AppendFormat\<close>: \<open>txt\<close> is the text that the format produces; \<^verbatim>\<open>vsnprintf\<close> writes as much of it as fits
  before a terminator and returns its whole length.
\<close>

definition ssb_AppendFormat :: "string \<Rightarrow> simple_builder \<Rightarrow> simple_builder" where
  "ssb_AppendFormat txt b =
     (let room = length (ssb_buffer b) - ssb_size b;
          written = take (room - 1) txt;
          buf = take (ssb_size b) (ssb_buffer b) @ written @ [CHR 0x00] @
            drop (ssb_size b + length written + 1) (ssb_buffer b);
          chars_added = min (length txt) (length (ssb_buffer b) - 1 - ssb_size b)
      in \<lparr>ssb_buffer = buf, ssb_size = ssb_size b + chars_added\<rparr>)"

definition ssb_int :: "int \<Rightarrow> simple_builder \<Rightarrow> simple_builder" where
  "ssb_int i b = ssb_AppendFormat (to_string i) b"

definition ssb_str :: "simple_builder \<Rightarrow> string" where
  "ssb_str b = c_str (ssb_buffer b)"

definition ssb_consistent :: "simple_builder \<Rightarrow> bool" where
  "ssb_consistent b \<longleftrightarrow> ssb_size b < length (ssb_buffer b) \<and> ssb_buffer b ! ssb_size b = CHR 0x00"

section \<open>The order of strings\<close>

lemma string_less_irrefl: "\<not> string_less x x"
  by (induction x) simp_all

lemma string_less_trans: "string_less x y \<Longrightarrow> string_less y z \<Longrightarrow> string_less x z"
proof (induction x y arbitrary: z rule: string_less.induct)
  case (3 c cs d ds)
  then show ?case by (cases z) (auto split: if_splits)
next
  case (2 d ds)
  then show ?case by (cases z) simp_all
qed simp

lemma string_less_total: "x \<noteq> y \<Longrightarrow> string_less x y \<or> string_less y x"
proof (induction x y rule: string_less.induct)
  case (1 x)
  then show ?case by (cases x) simp_all
next
  case (3 c cs d ds)
  have "c \<noteq> d \<Longrightarrow> (of_char c :: nat) < of_char d \<or> (of_char d :: nat) < of_char c"
    using linorder_neqE_nat of_char_eqI by blast
  then show ?case using 3 by (cases "c = d") auto
qed simp

section \<open>Which texts are numbers\<close>

lemma digit_value_digit: "c_isdigit c \<Longrightarrow> digit_value c = Some (of_char c - 48)"
  by (simp add: digit_value_def c_isdigit_def Let_def)

lemma digit_in_10: "digit_in 10 c = c_isdigit c"
proof (cases "c_isdigit c")
  case True
  then have "(of_char c :: nat) \<le> 57" by (simp add: c_isdigit_def)
  then show ?thesis using True by (simp add: digit_in_def digit_value_digit)
next
  case False
  then show ?thesis by (simp add: digit_in_def digit_value_def c_isdigit_def Let_def) linarith
qed

lemma magnitude_10: "list_all c_isdigit ds \<Longrightarrow> magnitude 10 acc ds = value_of_digits acc ds"
  by (induction ds arbitrary: acc) (simp_all add: digit_value_digit)

lemma digit_no_space: "c_isdigit c \<Longrightarrow> \<not> c_isspace c"
  by (auto simp: c_isdigit_def c_isspace_def)

lemma digit_no_sign: "c_isdigit c \<Longrightarrow> c \<noteq> CHR ''-'' \<and> c \<noteq> CHR ''+''"
  by (auto simp: c_isdigit_def)

lemma minus_no_space: "\<not> c_isspace (CHR ''-'')"
  by (simp add: c_isspace_def)

lemma all_digits_takeWhile: "list_all c_isdigit (takeWhile c_isdigit s)"
  by (induction s) simp_all

lemma takeWhile_all: "\<forall>c\<in>set s. P c \<Longrightarrow> takeWhile P s = s"
  by simp

text \<open>The text of a decimal number: an optional minus sign and at least one digit.\<close>

definition decimal_text :: "bool \<Rightarrow> string \<Rightarrow> string \<Rightarrow> bool" where
  "decimal_text neg ds s \<longleftrightarrow> s = (if neg then ''-'' else []) @ ds \<and> ds \<noteq> [] \<and> list_all c_isdigit ds"

lemma scan_minus:
  "strto_scan (CHR ''-'' # s) 10 =
     (let ds = takeWhile c_isdigit s
      in if ds = [] then None else Some (True, value_of_digits 0 ds, dropWhile c_isdigit s))"
  by (simp add: strto_scan_def minus_no_space detect_base_def digit_in_10 [abs_def] Let_def
      magnitude_10 [OF all_digits_takeWhile])

lemma scan_digit:
  assumes "c_isdigit c"
  shows "strto_scan (c # s) 10 = Some (False, value_of_digits 0 (c # takeWhile c_isdigit s), dropWhile c_isdigit s)"
proof -
  have "list_all c_isdigit (c # takeWhile c_isdigit s)"
    using assms all_digits_takeWhile by simp
  then show ?thesis
    using assms digit_no_space [OF assms] digit_no_sign [OF assms] magnitude_10 [of "c # takeWhile c_isdigit s" 0]
    by (simp add: strto_scan_def detect_base_def digit_in_10 [abs_def] Let_def)
qed

text \<open>A guarded scan that leaves nothing over has read a decimal text, and the other way round.\<close>

lemma guarded_scan:
  assumes "s \<noteq> []" "c_isdigit (s ! 0) \<or> s ! 0 = CHR ''-''"
  shows "strto_scan s 10 = Some (neg, m, []) \<longleftrightarrow> (\<exists>ds. decimal_text neg ds s \<and> m = value_of_digits 0 ds)"
proof (cases s)
  case Nil
  then show ?thesis using assms by simp
next
  case (Cons c r)
  show ?thesis
  proof (cases "c = CHR ''-''")
    case True
    then have "\<not> c_isdigit c" using digit_no_sign by blast
    then show ?thesis
      unfolding Cons True scan_minus decimal_text_def
      by (cases "\<forall>c\<in>set r. c_isdigit c") (auto simp: Let_def list_all_iff takeWhile_all)
  next
    case False
    then have d: "c_isdigit c" using assms Cons by simp
    show ?thesis
      unfolding Cons scan_digit [OF d] decimal_text_def using False d
      by (cases "\<forall>c\<in>set r. c_isdigit c") (auto simp: list_all_iff takeWhile_all)
  qed
qed

lemma decimal_guard: "decimal_text neg ds s \<Longrightarrow> s \<noteq> [] \<and> (c_isdigit (s ! 0) \<or> s ! 0 = CHR ''-'')"
  by (cases ds) (auto simp: decimal_text_def)

definition decimal_value :: "bool \<Rightarrow> string \<Rightarrow> int" where
  "decimal_value neg ds = (if neg then - int (value_of_digits 0 ds) else int (value_of_digits 0 ds))"

lemma ParseSigned_iff:
  "ParseSigned s 10 = Some v \<longleftrightarrow>
     (\<exists>neg ds. decimal_text neg ds s \<and> v = decimal_value neg ds \<and> - (2 ^ 63) \<le> v \<and> v < 2 ^ 63)"
proof (cases "s \<noteq> [] \<and> (c_isdigit (s ! 0) \<or> s ! 0 = CHR ''-'')")
  case True
  have "ParseSigned s 10 = Some v \<longleftrightarrow>
      (\<exists>neg m. strto_scan s 10 = Some (neg, m, []) \<and> v = (if neg then - int m else int m) \<and> - (2 ^ 63) \<le> v \<and> v < 2 ^ 63)"
  proof (cases "strto_scan s 10")
    case (Some r)
    obtain neg m rest where r: "r = (neg, m, rest)" by (metis surj_pair)
    show ?thesis using True unfolding Some r ParseSigned_def strtoll_def by (auto simp: Let_def)
  qed (use True in \<open>simp add: ParseSigned_def strtoll_def\<close>)
  also have "\<dots> \<longleftrightarrow> (\<exists>neg ds. decimal_text neg ds s \<and> v = decimal_value neg ds \<and> - (2 ^ 63) \<le> v \<and> v < 2 ^ 63)"
    unfolding decimal_value_def guarded_scan [OF conjunct1 [OF True] conjunct2 [OF True]] by blast
  finally show ?thesis .
next
  case False
  then show ?thesis using decimal_guard [of _ _ s] by (auto simp: ParseSigned_def)
qed

text \<open>
  \<^verbatim>\<open>StringToNumber\<close> of a signed type accepts exactly the texts that consist of an optional minus
  sign and decimal digits, up to a terminator, and whose value the type can hold (which is never more
  than \<^verbatim>\<open>long long\<close> can), and returns that value. No other text is accepted: no white space, no plus
  sign, nothing after the digits, no value that wraps.
\<close>

lemma StringToSigned_iff:
  "StringToSigned lo hi s 10 = Some v \<longleftrightarrow>
     (\<exists>neg ds. decimal_text neg ds (c_str s) \<and> v = decimal_value neg ds \<and>
        max lo (- (2 ^ 63)) \<le> v \<and> v \<le> min hi (2 ^ 63 - 1))"
proof -
  have "StringToSigned lo hi s 10 = Some v \<longleftrightarrow> ParseSigned (c_str s) 10 = Some v \<and> lo \<le> v \<and> v \<le> hi"
    by (auto simp: StringToSigned_def split: option.splits)
  also have "\<dots> \<longleftrightarrow> (\<exists>neg ds. decimal_text neg ds (c_str s) \<and> v = decimal_value neg ds \<and>
      max lo (- (2 ^ 63)) \<le> v \<and> v \<le> min hi (2 ^ 63 - 1))"
    unfolding ParseSigned_iff max.bounded_iff min.bounded_iff zle_diff1_eq by blast
  finally show ?thesis .
qed

text \<open>Unsigned types: a minus sign is accepted in front of zero only.\<close>

lemma ParseUnsigned_iff:
  "ParseUnsigned s 10 = Some v \<longleftrightarrow>
     (\<exists>neg ds. decimal_text neg ds s \<and> v = int (value_of_digits 0 ds) \<and> v < 2 ^ 64 \<and> (neg \<longrightarrow> v = 0))"
proof (cases "s \<noteq> [] \<and> (c_isdigit (s ! 0) \<or> s ! 0 = CHR ''-'')")
  case True
  have neg: "s ! 0 = CHR ''-'' \<longleftrightarrow> neg" if "strto_scan s 10 = Some (neg, m, [])" for neg m
  proof -
    from that obtain ds where "decimal_text neg ds s" using guarded_scan [of s neg m] True by blast
    then show ?thesis by (cases ds) (auto simp: decimal_text_def dest: digit_no_sign)
  qed
  have "ParseUnsigned s 10 = Some v \<longleftrightarrow>
      (\<exists>neg m. strto_scan s 10 = Some (neg, m, []) \<and> v = int m \<and> v < 2 ^ 64 \<and> (neg \<longrightarrow> v = 0))"
  proof (cases "strto_scan s 10")
    case (Some r)
    obtain sg m rest where r: "r = (sg, m, rest)" by (metis surj_pair)
    have wrap: "(- int m) mod 2 ^ 64 = 0 \<longleftrightarrow> m = 0" if "m < 2 ^ 64"
      using that by (cases "m = 0") (simp_all add: zmod_zminus1_eq_if)
    have keep: "int m mod 2 ^ 64 = int m" if "m < 2 ^ 64" using that by simp
    have lim: "int m < 2 ^ 64 \<longleftrightarrow> m < 2 ^ 64" by simp
    show ?thesis
    proof (cases "rest = [] \<and> m < 2 ^ 64")
      case True': True
      have sg: "s ! 0 = CHR ''-'' \<longleftrightarrow> sg" using neg [of sg m] Some r True' by simp
      define w :: int where "w = (if sg then - int m else int m) mod 2 ^ 64"
      have w: "w = int m" if "\<not> sg" using that True' keep by (simp add: w_def)
      have w0: "w = 0 \<longleftrightarrow> m = 0" if sg using that True' wrap by (simp add: w_def)
      have "strtoull s 10 = (w, False, [])"
        unfolding strtoull_def Some r w_def using True' by (simp del: power_numeral)
      then have "ParseUnsigned s 10 = (if w = 0 \<or> \<not> sg then Some w else None)"
        using True sg by (simp add: ParseUnsigned_def Let_def)
      moreover have "(\<exists>neg m. strto_scan s 10 = Some (neg, m, []) \<and> v = int m \<and> v < 2 ^ 64 \<and> (neg \<longrightarrow> v = 0)) \<longleftrightarrow>
          v = int m \<and> (sg \<longrightarrow> m = 0)"
        unfolding Some r using True' lim by auto
      ultimately show ?thesis using w w0 by (cases sg) auto
    next
      case False
      then show ?thesis using True unfolding Some r ParseUnsigned_def strtoull_def lim by auto
    qed
  qed (use True in \<open>simp add: ParseUnsigned_def strtoull_def\<close>)
  also have "\<dots> \<longleftrightarrow> (\<exists>neg ds. decimal_text neg ds s \<and> v = int (value_of_digits 0 ds) \<and> v < 2 ^ 64 \<and> (neg \<longrightarrow> v = 0))"
    unfolding guarded_scan [OF conjunct1 [OF True] conjunct2 [OF True]] by blast
  finally show ?thesis .
next
  case False
  then show ?thesis using decimal_guard [of _ _ s] by (auto simp: ParseUnsigned_def)
qed

lemma digits_of_digits: "list_all c_isdigit (digits_of n)"
proof (induction n rule: digits_of.induct)
  case (1 n)
  have "c_isdigit (char_of (48 + n mod 10))" "n < 10 \<Longrightarrow> c_isdigit (char_of (48 + n))" by (simp_all add: c_isdigit_def)
  then show ?case using 1 by (subst digits_of.simps) simp
qed

lemma to_string_decimal: "decimal_text (i < 0) (digits_of (nat \<bar>i\<bar>)) (to_string i)"
  by (simp add: decimal_text_def to_string_def digits_of_digits)

lemma decimal_no_nul: "decimal_text neg ds s \<Longrightarrow> c_str s = s"
  by (auto simp: decimal_text_def c_str_def list_all_iff c_isdigit_def takeWhile_eq_all_conv)

lemma decimal_value_to_string: "decimal_value (i < 0) (digits_of (nat \<bar>i\<bar>)) = i"
  by (simp add: decimal_value_def value_of_digits_of)

lemma digits_of_length: "n < 10 ^ k \<Longrightarrow> 0 < k \<Longrightarrow> length (digits_of n) \<le> k"
proof (induction n arbitrary: k rule: digits_of.induct)
  case (1 n)
  show ?case
  proof (cases "n < 10")
    case True
    then show ?thesis using 1 by (subst digits_of.simps) simp
  next
    case False
    then obtain j where j: "k = Suc j" "0 < j" using 1(2,3)
      by (cases k; cases "k - 1") auto
    then have "n div 10 < 10 ^ j" using 1(2) by (simp add: less_mult_imp_div_less mult.commute)
    then show ?thesis using 1(1) [OF False, of j] j False by (subst digits_of.simps) simp
  qed
qed

text \<open>Every value of the integer types prints, and parses back as itself.\<close>

lemma ToString_roundtrip:
  assumes "lo \<le> i" "i \<le> hi" "- (2 ^ 63) \<le> i" "i < 2 ^ 63"
  shows "\<exists>t. ToString_int i = Some t \<and> StringToSigned lo hi t 10 = Some i"
proof -
  have "nat \<bar>i\<bar> < 10 ^ 19" using assms(3,4) by simp
  then have "length (to_string i) \<le> 20"
    using digits_of_length [of "nat \<bar>i\<bar>" 19] by (cases "i < 0") (simp_all add: to_string_def)
  moreover have "ParseSigned (c_str (to_string i)) 10 = Some i"
    unfolding ParseSigned_iff decimal_no_nul [OF to_string_decimal]
    using to_string_decimal [of i] decimal_value_to_string [of i] assms(3,4) by metis
  ultimately show ?thesis using assms(1,2) by (simp add: ToString_int_def StringToSigned_def)
qed

lemma FromString_bool_roundtrip: "FromString_bool (ToString_bool b) = Some b"
  by (simp add: FromString_bool_def ToString_bool_def)

lemma strtoull_to_string:
  assumes "0 \<le> i" "i < 2 ^ 64"
  shows "strtoull (to_string i) 10 = (i, False, [])"
proof -
  have "strto_scan (to_string i) 10 = Some (False, nat i, [])"
    using guarded_scan [of "to_string i" False "nat i"] to_string_decimal [of i] decimal_guard [OF to_string_decimal, of i]
      assms(1) value_of_digits_of [of "nat i"] by auto
  then show ?thesis using assms by (simp add: strtoull_def nat_less_iff)
qed

text \<open>What follows a terminator inside the string is not seen.\<close>

lemma trailing_after_nul: "StringToSigned (- 128) 127 [CHR ''7'', CHR 0x00, CHR ''x''] 10 = Some 7"
  by code_simp

section \<open>What a builder holds\<close>

datatype piece = Text string | Number int

primrec piece_text :: "piece \<Rightarrow> string" where
  "piece_text (Text t) = t"
| "piece_text (Number i) = to_string i"

primrec ssb_put :: "piece \<Rightarrow> simple_builder \<Rightarrow> simple_builder" where
  "ssb_put (Text t) = ssb_Append t"
| "ssb_put (Number i) = ssb_int i"

lemma c_str_prefix: "\<forall>c\<in>set xs. c \<noteq> CHR 0x00 \<Longrightarrow> c_str (xs @ CHR 0x00 # ys) = xs"
  by (simp add: c_str_def takeWhile_append)

definition holds :: "nat \<Rightarrow> string \<Rightarrow> simple_builder \<Rightarrow> bool" where
  "holds cap t b \<longleftrightarrow> length (ssb_buffer b) = cap \<and> ssb_consistent b \<and> take (ssb_size b) (ssb_buffer b) = take (cap - 1) t \<and>
     ssb_size b = min (cap - 1) (length t)"

lemma holds_new: "buffer \<noteq> [] \<Longrightarrow> holds (length buffer) [] (SimpleStringBuilder buffer)"
  by (simp add: holds_def ssb_consistent_def SimpleStringBuilder_def)

text \<open>Both ways of appending leave the same bytes in front of the terminator.\<close>

lemma holds_appended:
  assumes "holds cap t b" "chars_added = min (length x) (cap - ssb_size b - 1)"
    and "ssb_buffer b' = take (ssb_size b) (ssb_buffer b) @ take chars_added x @ [CHR 0x00] @ rest"
    and "ssb_size b' = ssb_size b + chars_added" "length (ssb_buffer b') = cap"
  shows "holds cap (t @ x) b'"
proof -
  have b: "length (ssb_buffer b) = cap" "ssb_size b < cap" "take (ssb_size b) (ssb_buffer b) = take (cap - 1) t"
      "ssb_size b = min (cap - 1) (length t)"
    using assms(1) unfolding holds_def ssb_consistent_def by auto
  have len: "length (take (ssb_size b) (ssb_buffer b)) = ssb_size b" "length (take chars_added x) = chars_added"
    using b(1,2) assms(2) by simp_all
  have sz: "ssb_size b' = min (cap - 1) (length (t @ x))" unfolding assms(4) assms(2) using b(2,4) by (auto simp: min_def)
  have "take (ssb_size b') (ssb_buffer b') = take (ssb_size b) (ssb_buffer b) @ take chars_added x"
    unfolding assms(3,4) using len by (simp add: take_add)
  also have "\<dots> = take (cap - 1) t @ take chars_added x" by (simp only: b(3))
  also have "\<dots> = take (cap - 1) (t @ x)"
    using b assms(2) by (cases "length t \<le> cap - 1") (simp_all add: min_def)
  finally have tk: "take (ssb_size b') (ssb_buffer b') = take (cap - 1) (t @ x)" .
  have "ssb_buffer b' ! ssb_size b' = CHR 0x00" unfolding assms(3,4) using len by (simp add: nth_append)
  moreover have "ssb_size b' < length (ssb_buffer b')" using sz assms(5) b(2) by auto
  ultimately show ?thesis using tk sz assms(5) by (simp add: holds_def ssb_consistent_def)
qed

lemma holds_Append:
  assumes "holds cap t b"
  shows "holds cap (t @ x) (ssb_Append x b)"
proof -
  let ?n = "min (length x) (cap - ssb_size b - 1)"
  have b: "length (ssb_buffer b) = cap" "ssb_size b < cap" using assms by (simp_all add: holds_def ssb_consistent_def)
  have d: "drop (ssb_size b + ?n) (ssb_buffer b) \<noteq> []" using b by auto
  have "ssb_buffer (ssb_Append x b) =
      take (ssb_size b) (ssb_buffer b) @ take ?n x @ [CHR 0x00] @ tl (drop (ssb_size b + ?n) (ssb_buffer b))"
    using b d by (cases "drop (ssb_size b + ?n) (ssb_buffer b)") (auto simp: ssb_Append_def Let_def list_update_append)
  then show ?thesis using assms b by (intro holds_appended [OF assms refl]) (simp_all add: ssb_Append_def Let_def)
qed

lemma holds_AppendFormat:
  assumes "holds cap t b"
  shows "holds cap (t @ x) (ssb_AppendFormat x b)"
proof -
  let ?n = "min (length x) (cap - ssb_size b - 1)"
  have b: "length (ssb_buffer b) = cap" "ssb_size b < cap" using assms by (simp_all add: holds_def ssb_consistent_def)
  have "take (cap - ssb_size b - 1) x = take ?n x" by (simp add: min_def)
  then show ?thesis using assms b
    by (intro holds_appended [OF assms refl, where rest = "drop (ssb_size b + ?n + 1) (ssb_buffer b)"])
      (auto simp: ssb_AppendFormat_def Let_def min.commute)
qed

lemma holds_put: "holds cap t b \<Longrightarrow> holds cap (t @ piece_text p) (ssb_put p b)"
  by (cases p) (simp_all add: holds_Append ssb_int_def holds_AppendFormat)

lemma holds_all: "holds cap t b \<Longrightarrow> holds cap (t @ concat (map piece_text ps)) (fold ssb_put ps b)"
proof (induction ps arbitrary: t b)
  case (Cons p ps)
  show ?case using Cons.IH [OF holds_put [OF Cons.prems, of p]] by simp
qed simp

lemma holds_str:
  assumes "holds cap t b" "CHR 0x00 \<notin> set t"
  shows "ssb_str b = take (cap - 1) t"
proof -
  have c: "ssb_consistent b" and t: "take (ssb_size b) (ssb_buffer b) = take (cap - 1) t"
    using assms(1) unfolding holds_def by blast+
  have buf: "ssb_buffer b = take (cap - 1) t @ CHR 0x00 # drop (Suc (ssb_size b)) (ssb_buffer b)"
    using c id_take_nth_drop [of "ssb_size b" "ssb_buffer b"] unfolding t by (simp add: ssb_consistent_def)
  have "CHR 0x00 \<notin> set (take (cap - 1) t)" using assms(2) by (auto dest: in_set_takeD)
  then show ?thesis unfolding ssb_str_def by (subst buf) (rule c_str_prefix, blast)
qed

text \<open>
  A \<^verbatim>\<open>SimpleStringBuilder\<close> over a buffer of \<open>n\<close> bytes holds, after any sequence of strings and numbers,
  the first \<open>n - 1\<close> characters of their concatenation, and is terminated inside its buffer: it
  truncates and never writes outside.
\<close>

lemma simple_builder_truncates:
  assumes "buffer \<noteq> []" "CHR 0x00 \<notin> set (concat (map piece_text ps))"
  shows "ssb_str (fold ssb_put ps (SimpleStringBuilder buffer)) = take (length buffer - 1) (concat (map piece_text ps))
    \<and> ssb_consistent (fold ssb_put ps (SimpleStringBuilder buffer))
    \<and> length (ssb_buffer (fold ssb_put ps (SimpleStringBuilder buffer))) = length buffer"
proof -
  let ?b = "fold ssb_put ps (SimpleStringBuilder buffer)" and ?t = "concat (map piece_text ps)"
  have h: "holds (length buffer) ?t ?b" using holds_all [OF holds_new [OF assms(1)], of ps] by simp
  then have "ssb_consistent ?b" "length (ssb_buffer ?b) = length buffer" unfolding holds_def by blast+
  then show ?thesis using holds_str [OF h assms(2)] by simp
qed

section \<open>Trimming and bounded copies\<close>

text \<open>\<^verbatim>\<open>string_trim\<close> is what dropping the white space at both ends gives.\<close>

lemma string_trim_drops:
  "string_trim s = rev (dropWhile (\<lambda>c. c \<in> set kWhitespace) (rev (dropWhile (\<lambda>c. c \<in> set kWhitespace) s)))"
proof -
  let ?ws = "\<lambda>c. c \<in> set kWhitespace"
  define i j where "i = length (takeWhile ?ws s)" and "j = length (takeWhile ?ws (rev s))"
  show ?thesis
  proof (cases "\<forall>c\<in>set s. ?ws c")
    case True
    then have "dropWhile ?ws s = []" by simp
    moreover have "i = length s" unfolding i_def by (simp only: takeWhile_all [OF True])
    ultimately show ?thesis
      by (simp add: string_trim_def find_first_not_of_def Let_def del: dropWhile_eq_Nil_conv flip: i_def)
  next
    case False
    have "takeWhile ?ws s \<noteq> s" "takeWhile ?ws (rev s) \<noteq> rev s" using False by (auto simp: takeWhile_eq_all_conv)
    then have ne: "i < length s" "j < length s"
      using length_takeWhile_le [of ?ws s] length_takeWhile_le [of ?ws "rev s"] takeWhile_eq_take [of ?ws s]
        takeWhile_eq_take [of ?ws "rev s"] unfolding i_def j_def
      by (metis le_neq_implies_less take_all order_refl, metis le_neq_implies_less length_rev take_all order_refl)
    have d: "dropWhile ?ws s = drop i s" by (simp add: dropWhile_eq_drop i_def)
    have ex: "\<exists>c\<in>set (rev (drop i s)). \<not> ?ws c"
      using False d by (metis dropWhile_eq_Nil_conv set_rev dropWhile_idem)
    have front: "takeWhile ?ws (rev (drop i s)) = takeWhile ?ws (rev s)"
    proof -
      have "rev s = rev (drop i s) @ rev (take i s)" by (metis append_take_drop_id rev_append)
      then show ?thesis using ex by (metis takeWhile_append1)
    qed
    have "rev (dropWhile ?ws (rev (drop i s))) = rev (drop j (rev (drop i s)))"
      unfolding dropWhile_eq_drop front by (simp add: j_def)
    also have "\<dots> = take (length s - i - j) (drop i s)" using rev_drop [of j "rev (drop i s)"] by simp
    finally have r: "rev (dropWhile ?ws (rev (dropWhile ?ws s))) = take (length s - i - j) (drop i s)" by (simp add: d)
    have "i + j < length s"
    proof -
      have "dropWhile ?ws (rev (drop i s)) \<noteq> []" using ex by auto
      then have "drop j (rev (drop i s)) \<noteq> []" unfolding dropWhile_eq_drop front j_def .
      then have "j < length (rev (drop i s))" by (metis drop_all not_le)
      then show ?thesis by simp
    qed
    then have "length s - 1 - j - i + 1 = length s - i - j" by simp
    then show ?thesis
      unfolding r using ne by (simp add: string_trim_def find_first_not_of_def find_last_not_of_def Let_def flip: i_def j_def)
  qed
qed

text \<open>\<^verbatim>\<open>strcpyn\<close> keeps inside its buffer and terminates what it copied.\<close>

lemma strcpyn_terminates:
  assumes "buffer \<noteq> []" "CHR 0x00 \<notin> set source"
  shows "length (fst (strcpyn buffer source None)) = length buffer"
    "c_str (fst (strcpyn buffer source None)) = take (length buffer - 1) source"
proof -
  have "c_str source = source" using assms(2) by (auto simp: c_str_def takeWhile_eq_all_conv)
  then show "length (fst (strcpyn buffer source None)) = length buffer"
    using assms(1) by (cases buffer) (auto simp: strcpyn_def Let_def)
  have "\<forall>c\<in>set (take n source). c \<noteq> CHR 0x00" for n using assms(2) by (auto dest: in_set_takeD)
  then show "c_str (fst (strcpyn buffer source None)) = take (length buffer - 1) source"
    using assms(1) \<open>c_str source = source\<close> c_str_prefix by (simp add: strcpyn_def Let_def)
qed

end
