(* ===== verification/SocketAddress.thy ===== *)
theory SocketAddress
  imports IpAddress StringNumber
begin

text \<open>
  \<^verbatim>\<open>rtc_base/socket_address.cc\<close>: a host, given by its name or its address, and a port, with the text
  form \<open>host:port\<close>, the forms of the socket interface, equality, order and hash. \<^verbatim>\<open>inet_ntop\<close> and
  \<^verbatim>\<open>inet_pton\<close> are parameters, and so are the uninitialized bytes of the buffer of \<^verbatim>\<open>ToString\<close>. The
  theorems say that the text and the socket forms read back as the address, and that equality and order
  fit together.
\<close>

type_synonym ntop_fun = "ip_family \<Rightarrow> bytes \<Rightarrow> string option"
type_synonym pton_fun = "ip_family \<Rightarrow> string \<Rightarrow> bytes option"

section \<open>Addresses\<close>

record socket_address =
  sa_hostname :: string
  sa_ip :: ip_address
  sa_port :: "16 word"
  sa_scope_id :: int
  sa_literal :: bool

definition sa_Clear :: socket_address where
  "sa_Clear = \<lparr>sa_hostname = [], sa_ip = ip_nil, sa_port = 0, sa_scope_id = 0, sa_literal = False\<rparr>"

definition sa_IsNil :: "socket_address \<Rightarrow> bool" where
  "sa_IsNil a \<longleftrightarrow> sa_hostname a = [] \<and> IPIsUnspec (sa_ip a) \<and> sa_port a = 0"

definition IsComplete :: "socket_address \<Rightarrow> bool" where
  "IsComplete a \<longleftrightarrow> \<not> IPIsAny (sa_ip a) \<and> sa_port a \<noteq> 0"

definition SetIP :: "ip_address \<Rightarrow> socket_address \<Rightarrow> socket_address" where
  "SetIP ip a = a\<lparr>sa_hostname := [], sa_literal := False, sa_ip := ip, sa_scope_id := 0\<rparr>"

definition SetIP_host :: "32 word \<Rightarrow> socket_address \<Rightarrow> socket_address" where
  "SetIP_host ip_as_host_order_integer a =
     a\<lparr>sa_hostname := [], sa_literal := False, sa_ip := ip_host ip_as_host_order_integer, sa_scope_id := 0\<rparr>"

definition SetIP_name :: "pton_fun \<Rightarrow> string \<Rightarrow> socket_address \<Rightarrow> socket_address" where
  "SetIP_name pton hostname a =
     (case IPFromString pton hostname of (literal, ip) \<Rightarrow>
        a\<lparr>sa_hostname := hostname, sa_literal := literal, sa_ip := (if \<not> literal then ip_nil else ip), sa_scope_id := 0\<rparr>)"

definition SetResolvedIP :: "ip_address \<Rightarrow> socket_address \<Rightarrow> socket_address" where
  "SetResolvedIP ip a = a\<lparr>sa_ip := ip, sa_scope_id := 0\<rparr>"

definition SetPort :: "int \<Rightarrow> socket_address \<Rightarrow> socket_address" where
  "SetPort port a = a\<lparr>sa_port := word_of_int port\<rparr>"

definition SetScopeID :: "int \<Rightarrow> socket_address \<Rightarrow> socket_address" where
  "SetScopeID scope a = a\<lparr>sa_scope_id := scope\<rparr>"

definition SocketAddress_ip :: "ip_address \<Rightarrow> int \<Rightarrow> socket_address" where
  "SocketAddress_ip ip port = SetPort port (SetIP ip sa_Clear)"

definition SocketAddress_name :: "pton_fun \<Rightarrow> string \<Rightarrow> int \<Rightarrow> socket_address" where
  "SocketAddress_name pton hostname port = SetPort port (SetIP_name pton hostname sa_Clear)"

definition IsAnyIP :: "socket_address \<Rightarrow> bool" where
  "IsAnyIP a = IPIsAny (sa_ip a)"

definition IsLoopbackIP :: "socket_address \<Rightarrow> bool" where
  "IsLoopbackIP a \<longleftrightarrow> IPIsLoopback (sa_ip a) \<or> IPIsAny (sa_ip a) \<and> c_str (sa_hostname a) = ''localhost''"

definition IsPrivateIP :: "socket_address \<Rightarrow> bool" where
  "IsPrivateIP a = IPIsPrivate (sa_ip a)"

definition IsUnresolvedIP :: "socket_address \<Rightarrow> bool" where
  "IsUnresolvedIP a \<longleftrightarrow> IPIsUnspec (sa_ip a) \<and> \<not> sa_literal a \<and> sa_hostname a \<noteq> []"

section \<open>Text\<close>

definition HostAsURIString :: "ntop_fun \<Rightarrow> socket_address \<Rightarrow> string" where
  "HostAsURIString ntop a =
     (if \<not> sa_literal a \<and> sa_hostname a \<noteq> [] then sa_hostname a
      else if ip_fam (sa_ip a) = AF_INET6 then ''['' @ ip_ToString ntop (sa_ip a) @ '']''
      else ip_ToString ntop (sa_ip a))"

definition HostAsSensitiveURIString :: "ntop_fun \<Rightarrow> socket_address \<Rightarrow> string" where
  "HostAsSensitiveURIString ntop a =
     (if \<not> sa_literal a \<and> sa_hostname a \<noteq> [] then sa_hostname a
      else if ip_fam (sa_ip a) = AF_INET6 then ''['' @ ToSensitiveString ntop (sa_ip a) @ '']''
      else ToSensitiveString ntop (sa_ip a))"

definition PortAsString :: "socket_address \<Rightarrow> string" where
  "PortAsString a = to_string (uint (sa_port a))"

text \<open>The three functions that print into \<^verbatim>\<open>char buf[1024]\<close>, whose first bytes are \<open>junk\<close>.\<close>

definition with_port :: "string \<Rightarrow> string \<Rightarrow> socket_address \<Rightarrow> string" where
  "with_port junk host a =
     ssb_str (ssb_int (uint (sa_port a)) (ssb_Append '':'' (ssb_Append host (SimpleStringBuilder junk))))"

definition sa_ToString :: "string \<Rightarrow> ntop_fun \<Rightarrow> socket_address \<Rightarrow> string" where
  "sa_ToString junk ntop a = with_port junk (HostAsURIString ntop a) a"

definition sa_ToSensitiveString :: "string \<Rightarrow> ntop_fun \<Rightarrow> socket_address \<Rightarrow> string" where
  "sa_ToSensitiveString junk ntop a = with_port junk (HostAsSensitiveURIString ntop a) a"

definition ToResolvedSensitiveString :: "string \<Rightarrow> ntop_fun \<Rightarrow> socket_address \<Rightarrow> string" where
  "ToResolvedSensitiveString junk ntop a =
     (if IsUnresolvedIP a then [] else with_port junk (ToSensitiveString ntop (sa_ip a)) a)"

text \<open>\<^verbatim>\<open>rfind(c)\<close>; \<^verbatim>\<open>strtoul(..., nullptr, 10)\<close> converted to the \<^verbatim>\<open>int\<close> of \<^verbatim>\<open>SetPort\<close>.\<close>

definition rfind_char :: "char \<Rightarrow> string \<Rightarrow> nat option" where
  "rfind_char c s =
     (if c \<in> set s then Some (length s - 1 - length (takeWhile (\<lambda>x. x \<noteq> c) (rev s))) else None)"

definition port_of_text :: "string \<Rightarrow> int" where
  "port_of_text s = c_int (fst (strtoull (c_str s) 10))"

text \<open>\<^verbatim>\<open>FromString\<close>; \<open>None\<close> is the exception of \<^verbatim>\<open>str.at(0)\<close> for an empty text.\<close>

definition sa_FromString :: "pton_fun \<Rightarrow> string \<Rightarrow> socket_address \<Rightarrow> (bool \<times> socket_address) option" where
  "sa_FromString pton str a =
     (if str = [] then None
      else if str ! 0 = CHR ''['' then
        (case rfind_char (CHR '']'') str of
           None \<Rightarrow> Some (True, a)
         | Some closebracket \<Rightarrow>
             (case find_char (CHR '':'') closebracket str of
                None \<Rightarrow> Some (False, a)
              | Some colon \<Rightarrow>
                  if colon > closebracket then
                    Some (True, SetIP_name pton (take (closebracket - 1) (drop 1 str))
                      (SetPort (port_of_text (drop (colon + 1) str)) a))
                  else Some (False, a)))
      else
        (case find_char (CHR '':'') 0 str of
           None \<Rightarrow> Some (False, a)
         | Some pos \<Rightarrow>
             Some (True, SetIP_name pton (take pos str) (SetPort (port_of_text (drop (pos + 1) str)) a))))"

section \<open>Equality, order and hash\<close>

definition EqualIPs :: "socket_address \<Rightarrow> socket_address \<Rightarrow> bool" where
  "EqualIPs a b \<longleftrightarrow> ip_eq (sa_ip a) (sa_ip b) \<and>
     (\<not> IPIsAny (sa_ip a) \<and> \<not> IPIsUnspec (sa_ip a) \<or> sa_hostname a = sa_hostname b)"

definition EqualPorts :: "socket_address \<Rightarrow> socket_address \<Rightarrow> bool" where
  "EqualPorts a b \<longleftrightarrow> sa_port a = sa_port b"

definition sa_eq :: "socket_address \<Rightarrow> socket_address \<Rightarrow> bool" where
  "sa_eq a b \<longleftrightarrow> EqualIPs a b \<and> EqualPorts a b"

definition sa_less :: "socket_address \<Rightarrow> socket_address \<Rightarrow> bool" where
  "sa_less a b =
     (if \<not> ip_eq (sa_ip a) (sa_ip b) then ip_less (sa_ip a) (sa_ip b)
      else if (IPIsAny (sa_ip a) \<or> IPIsUnspec (sa_ip a)) \<and> sa_hostname a \<noteq> sa_hostname b then
        string_less (sa_hostname a) (sa_hostname b)
      else sa_port a < sa_port b)"

text \<open>\<^verbatim>\<open>port_ | (port_ << 16)\<close> is an \<^verbatim>\<open>int\<close>, which is extended with its sign to \<^verbatim>\<open>size_t\<close>.\<close>

definition sa_Hash :: "socket_address \<Rightarrow> 64 word" where
  "sa_Hash a =
     ucast (HashIP (sa_ip a)) XOR scast (ucast (sa_port a) OR push_bit 16 (ucast (sa_port a)) :: 32 word)"

section \<open>The forms of the socket interface\<close>

text \<open>A \<^verbatim>\<open>sockaddr_in\<close> or \<^verbatim>\<open>sockaddr_in6\<close>: the port and the address are in network order.\<close>

record sockaddr =
  sin_family :: ip_family
  sin_port :: "16 word"
  sin_addr :: bytes
  sin6_scope_id :: int

definition sockaddr_zero :: sockaddr where
  "sockaddr_zero = \<lparr>sin_family = AF_UNSPEC, sin_port = 0, sin_addr = replicate 4 0, sin6_scope_id = 0\<rparr>"

definition ToSockAddr :: "socket_address \<Rightarrow> sockaddr" where
  "ToSockAddr a =
     (if ip_fam (sa_ip a) \<noteq> AF_INET then sockaddr_zero
      else sockaddr_zero\<lparr>sin_family := AF_INET, sin_port := HostToNetwork16 (sa_port a),
        sin_addr := (if IPIsAny (sa_ip a) then le32 INADDR_ANY else ipv4_address (sa_ip a))\<rparr>)"

definition FromSockAddr :: "sockaddr \<Rightarrow> socket_address \<Rightarrow> bool \<times> socket_address" where
  "FromSockAddr s a =
     (if sin_family s \<noteq> AF_INET then (False, a)
      else (True, (SetPort (uint (NetworkToHost16 (sin_port s)))
             (SetIP_host (NetworkToHost32 (get_le32 0 (sin_addr s))) a))\<lparr>sa_literal := False\<rparr>))"

text \<open>\<^verbatim>\<open>sockaddr_storage\<close>: the size that the code returns and the structure.\<close>

definition ToSockAddrStorageHelper :: "ip_address \<Rightarrow> 16 word \<Rightarrow> int \<Rightarrow> nat \<times> sockaddr" where
  "ToSockAddrStorageHelper ip port scope_id =
     (case ip_fam ip of
        AF_INET6 \<Rightarrow> (28, \<lparr>sin_family = AF_INET6, sin_port = HostToNetwork16 port, sin_addr = ipv6_address ip,
          sin6_scope_id = scope_id\<rparr>)
      | AF_INET \<Rightarrow> (16, \<lparr>sin_family = AF_INET, sin_port = HostToNetwork16 port, sin_addr = ipv4_address ip,
          sin6_scope_id = 0\<rparr>)
      | AF_UNSPEC \<Rightarrow> (0, sockaddr_zero))"

definition ToDualStackSockAddrStorage :: "socket_address \<Rightarrow> nat \<times> sockaddr" where
  "ToDualStackSockAddrStorage a = ToSockAddrStorageHelper (AsIPv6Address (sa_ip a)) (sa_port a) (sa_scope_id a)"

definition ToSockAddrStorage :: "socket_address \<Rightarrow> nat \<times> sockaddr" where
  "ToSockAddrStorage a = ToSockAddrStorageHelper (sa_ip a) (sa_port a) (sa_scope_id a)"

definition SocketAddressFromSockAddrStorage :: "sockaddr \<Rightarrow> socket_address option" where
  "SocketAddressFromSockAddrStorage s =
     (case sin_family s of
        AF_INET \<Rightarrow> Some (SocketAddress_ip (ip_v4 (sin_addr s)) (uint (NetworkToHost16 (sin_port s))))
      | AF_INET6 \<Rightarrow>
          Some (SetScopeID (sin6_scope_id s)
            (SocketAddress_ip (ip_v6 (sin_addr s)) (uint (NetworkToHost16 (sin_port s)))))
      | AF_UNSPEC \<Rightarrow> None)"

definition EmptySocketAddressWithFamily :: "ip_family \<Rightarrow> socket_address" where
  "EmptySocketAddressWithFamily family =
     (case family of
        AF_INET \<Rightarrow> SocketAddress_ip (ip_host INADDR_ANY) 0
      | AF_INET6 \<Rightarrow> SocketAddress_ip (ip_v6 in6addr_any) 0
      | AF_UNSPEC \<Rightarrow> sa_Clear)"

section \<open>Reading back the text\<close>

lemma to_string_port: "CHR 0x00 \<notin> set (to_string i)" "CHR '']'' \<notin> set (to_string i)" "CHR '':'' \<notin> set (to_string i)"
  using to_string_decimal [of i] by (auto simp: decimal_text_def list_all_iff c_isdigit_def split: if_splits)

lemma port_less: "uint (p :: 16 word) < 65536"
  using unsigned_less [of p, where ?'a = int] by simp

lemma port_of_to_string: "port_of_text (to_string (uint (p :: 16 word))) = uint p"
proof -
  have "uint p < 2 ^ 16" using port_less [of p] by simp
  moreover have "0 \<le> uint p" by simp
  ultimately have "c_int (uint p) = uint p" by (intro c_int_id) (auto intro: order_trans [of _ 0])
  then show ?thesis
    using \<open>uint p < 2 ^ 16\<close> strtoull_to_string [of "uint p"] decimal_no_nul [OF to_string_decimal, of "uint p"]
    by (simp add: port_of_text_def)
qed

lemma with_port_text:
  assumes "length junk = 1024" "CHR 0x00 \<notin> set host" "length host \<le> 1000"
  shows "with_port junk host a = host @ '':'' @ PortAsString a"
proof -
  have "holds 1024 (host @ '':'' @ PortAsString a)
      (ssb_int (uint (sa_port a)) (ssb_Append '':'' (ssb_Append host (SimpleStringBuilder junk))))"
    using holds_put [OF holds_put [OF holds_put [OF holds_new [of junk], of "Text host"], of "Text '':''"],
        of "Number (uint (sa_port a))"] assms(1) by (fastforce simp: PortAsString_def)
  moreover have "length (PortAsString a) \<le> 5"
  proof -
    have "nat (uint (sa_port a)) < 10 ^ 5" using port_less [of "sa_port a"] by (simp del: nat_uint_eq)
    then show ?thesis using digits_of_length [of "nat (uint (sa_port a))" 5] by (simp add: PortAsString_def to_string_def)
  qed
  ultimately show ?thesis
    using holds_str [of 1024 "host @ '':'' @ PortAsString a"] assms(2,3) to_string_port(1) [of "uint (sa_port a)"]
    by (simp add: with_port_def PortAsString_def)
qed

lemma FromString_plain:
  assumes "host \<noteq> []" "host ! 0 \<noteq> CHR ''[''" "CHR '':'' \<notin> set host"
  shows "sa_FromString pton (host @ '':'' @ PortAsString b) a = Some (True, SetIP_name pton host (SetPort (uint (sa_port b)) a))"
proof -
  have "takeWhile (\<lambda>x. x \<noteq> CHR '':'') (host @ '':'' @ PortAsString b) = host"
    using assms(3) by (auto simp: takeWhile_append)
  then have "find_char (CHR '':'') 0 (host @ '':'' @ PortAsString b) = Some (length host)"
    by (simp add: find_char_def)
  then show ?thesis using assms(1,2) by (simp add: sa_FromString_def nth_append PortAsString_def port_of_to_string)
qed

lemma FromString_bracket:
  assumes "CHR '']'' \<notin> set host"
  shows "sa_FromString pton (''['' @ host @ '']:'' @ PortAsString b) a =
    Some (True, SetIP_name pton host (SetPort (uint (sa_port b)) a))"
proof -
  let ?s = "''['' @ host @ '']:'' @ PortAsString b"
  have p: "CHR '']'' \<notin> set (PortAsString b)" by (simp add: PortAsString_def to_string_port)
  have "takeWhile (\<lambda>x. x \<noteq> CHR '']'') (rev ?s) = rev (PortAsString b) @ '':''"
    using p by (auto simp: takeWhile_append)
  then have r: "rfind_char (CHR '']'') ?s = Some (Suc (length host))"
    by (simp add: rfind_char_def)
  have "drop (Suc (length host)) ?s = '']:'' @ PortAsString b" by simp
  then have "find_char (CHR '':'') (Suc (length host)) ?s = Some (Suc (Suc (length host)))"
    by (simp add: find_char_def)
  then show ?thesis using r by (simp add: sa_FromString_def PortAsString_def port_of_to_string)
qed

text \<open>
  C30. The text of a socket address reads back as the address: for an address whose \<^verbatim>\<open>inet_ntop\<close> text
  \<^verbatim>\<open>inet_pton\<close> accepts and gives back, \<^verbatim>\<open>FromString\<close> of \<^verbatim>\<open>ToString\<close> succeeds, with the same IP address and the
  same port. IPv6 texts may contain colons, since they stand in brackets, but no closing bracket.
\<close>

theorem socket_text_roundtrip:
  assumes "length junk = 1024" "sa_hostname a = [] \<or> sa_literal a"
    and "ip_ToString ntop (sa_ip a) = t" "IPFromString pton t = (True, ip)" "ip_eq ip (sa_ip a)"
    and "t \<noteq> []" "length t \<le> 900" "CHR 0x00 \<notin> set t"
    and "if ip_fam (sa_ip a) = AF_INET6 then CHR '']'' \<notin> set t else CHR '':'' \<notin> set t \<and> t ! 0 \<noteq> CHR ''[''"
  shows "\<exists>b. sa_FromString pton (sa_ToString junk ntop a) a0 = Some (True, b) \<and>
    ip_eq (sa_ip b) (sa_ip a) \<and> sa_port b = sa_port a"
proof -
  have ip: "sa_ip (SetIP_name pton t x) = ip" "sa_port (SetIP_name pton t x) = sa_port x" for x
    using assms(4) by (simp_all add: SetIP_name_def)
  have port: "sa_port (SetPort (uint (sa_port a)) a0) = sa_port a" by (simp add: SetPort_def)
  show ?thesis
  proof (cases "ip_fam (sa_ip a) = AF_INET6")
    case True
    then have "HostAsURIString ntop a = ''['' @ t @ '']''" using assms(2,3) by (auto simp: HostAsURIString_def)
    then have "sa_ToString junk ntop a = ''['' @ t @ '']:'' @ PortAsString a"
      using with_port_text [OF assms(1), of "''['' @ t @ '']''" a] assms(7,8) by (simp add: sa_ToString_def)
    moreover have "CHR '']'' \<notin> set t" using True assms(9) by simp
    ultimately show ?thesis using FromString_bracket [of t pton a a0] ip port assms(5) by simp
  next
    case False
    then have "HostAsURIString ntop a = t" using assms(2,3) by (auto simp: HostAsURIString_def)
    then have "sa_ToString junk ntop a = t @ '':'' @ PortAsString a"
      using with_port_text [OF assms(1), of t a] assms(7,8) by (simp add: sa_ToString_def)
    then show ?thesis using FromString_plain [of t pton a a0] False assms(5,6,9) ip port by simp
  qed
qed

definition sample_pton :: pton_fun where
  "sample_pton fam s = (if fam = AF_INET6 \<and> s = ''::1'' then Some in6addr_loopback else None)"

definition sample_ntop :: ntop_fun where
  "sample_ntop fam addr = (if fam = AF_INET6 \<and> addr = in6addr_loopback then Some ''::1'' else None)"

theorem socket_text_roundtrip_witness:
  "\<exists>b. sa_FromString sample_pton
      (sa_ToString (replicate 1024 (CHR ''?'')) sample_ntop (SocketAddress_ip (ip_v6 in6addr_loopback) 8443)) sa_Clear = Some (True, b) \<and>
    ip_eq (sa_ip b) (ip_v6 in6addr_loopback) \<and> sa_port b = 8443"
proof -
  let ?a = "SocketAddress_ip (ip_v6 in6addr_loopback) 8443"
  have a: "sa_ip ?a = ip_v6 in6addr_loopback" "sa_hostname ?a = []" "sa_port ?a = 8443"
    by (simp_all add: SocketAddress_ip_def SetPort_def SetIP_def)
  have t: "ip_ToString sample_ntop (sa_ip ?a) = ''::1''"
    unfolding a by (simp add: ip_ToString_def sample_ntop_def ip_v6_def)
  have p: "IPFromString sample_pton ''::1'' = (True, ip_v6 in6addr_loopback)"
    by (simp add: IPFromString_def sample_pton_def)
  have f: "ip_fam (ip_v6 in6addr_loopback) = AF_INET6" by (simp add: ip_v6_def)
  have e: "ip_eq (ip_v6 in6addr_loopback) (sa_ip ?a)" unfolding a by (simp add: ip_eq_def ip_v6_def)
  show ?thesis
    using socket_text_roundtrip [of "replicate 1024 (CHR ''?'')" ?a sample_ntop "''::1''" sample_pton
        "ip_v6 in6addr_loopback" sa_Clear] t p e a f by simp
qed

text \<open>
  What \<^verbatim>\<open>FromString\<close> does not check: a text with an opening bracket and no closing one is reported as
  parsed and leaves the object as it was; a port above 65535 wraps.
\<close>

lemma open_bracket_accepted: "CHR '']'' \<notin> set host \<Longrightarrow> sa_FromString pton (CHR ''['' # host) a = Some (True, a)"
  by (simp add: sa_FromString_def rfind_char_def)

lemma port_wraps: "port_of_text ''65616'' = 65616" "sa_port (SetPort 65616 a) = 80"
proof -
  have "to_string 65616 = ''65616''" by (simp add: to_string_def digits_of.simps char_of_def bit_0)
  then have "strtoull ''65616'' 10 = (65616, False, [])" using strtoull_to_string [of 65616] by simp
  then show "port_of_text ''65616'' = 65616" by (simp add: port_of_text_def c_str_def c_int_id)
  show "sa_port (SetPort 65616 a) = 80" by (simp add: SetPort_def)
qed

section \<open>Order and hash\<close>

definition sa_ok :: "socket_address \<Rightarrow> bool" where
  "sa_ok a \<longleftrightarrow> ip_ok (sa_ip a)"

lemma ip_eq_equiv: "ip_eq a a" "ip_eq a b = ip_eq b a" "ip_eq a b \<Longrightarrow> ip_eq b c \<Longrightarrow> ip_eq a c"
  by (auto simp: ip_eq_def split: ip_family.splits if_splits)

lemma ip_eq_class: "ip_eq a b \<Longrightarrow> IPIsAny a = IPIsAny b \<and> IPIsUnspec a = IPIsUnspec b"
proof -
  assume e: "ip_eq a b"
  then have f: "ip_fam a = ip_fam b" by (simp add: ip_eq_def split: if_splits)
  moreover have "ip_eq a x = ip_eq b x" for x using e ip_eq_equiv by metis
  ultimately show ?thesis by (cases "ip_fam b") (simp_all add: IPIsAny_def IPIsUnspec_def)
qed

text \<open>Of two addresses exactly one of \<open>a < b\<close>, \<open>a == b\<close> and \<open>b < a\<close> holds, and equal ones hash alike.\<close>

lemma sa_order:
  assumes "sa_ok a" "sa_ok b"
  shows "sa_eq a b \<or> sa_less a b \<or> sa_less b a" "sa_less a b \<Longrightarrow> \<not> sa_less b a" "sa_less a b \<Longrightarrow> \<not> sa_eq a b"
proof -
  have ip: "ip_ok (sa_ip a)" "ip_ok (sa_ip b)" using assms by (simp_all add: sa_ok_def)
  note o1 = ip_order [OF ip]
  show "sa_eq a b \<or> sa_less a b \<or> sa_less b a"
  proof (cases "ip_eq (sa_ip a) (sa_ip b)")
    case True
    then show ?thesis
      using ip_eq_class [OF True] ip_eq_equiv(2) [of "sa_ip a" "sa_ip b"] string_less_total [of "sa_hostname a" "sa_hostname b"]
      by (cases "sa_hostname a = sa_hostname b"; cases "IPIsAny (sa_ip a) \<or> IPIsUnspec (sa_ip a)")
        (auto simp: sa_eq_def sa_less_def EqualIPs_def EqualPorts_def)
  next
    case False
    then show ?thesis using o1(3) ip_eq_equiv(2) [of "sa_ip a" "sa_ip b"] by (auto simp: sa_less_def)
  qed
  show "sa_less a b \<Longrightarrow> \<not> sa_less b a"
  proof (cases "ip_eq (sa_ip a) (sa_ip b)")
    case True
    assume l: "sa_less a b"
    have sym: "ip_eq (sa_ip b) (sa_ip a)" using True ip_eq_equiv(2) by blast
    have "\<not> string_less (sa_hostname b) (sa_hostname a)" if "string_less (sa_hostname a) (sa_hostname b)"
      using that string_less_trans string_less_irrefl by blast
    then show ?thesis
      using l True sym ip_eq_class [OF True]
      by (cases "sa_hostname a = sa_hostname b"; cases "IPIsAny (sa_ip a) \<or> IPIsUnspec (sa_ip a)")
        (simp_all add: sa_less_def)
  next
    case False
    assume "sa_less a b"
    then show ?thesis using o1(1) False ip_eq_equiv(2) [of "sa_ip a" "sa_ip b"] by (auto simp: sa_less_def)
  qed
  show "sa_less a b \<Longrightarrow> \<not> sa_eq a b"
    using string_less_irrefl [of "sa_hostname a"]
    by (auto simp: sa_less_def sa_eq_def EqualIPs_def EqualPorts_def split: if_splits)
qed

lemma sa_eq_hash: "sa_ok a \<Longrightarrow> sa_ok b \<Longrightarrow> sa_eq a b \<Longrightarrow> sa_Hash a = sa_Hash b"
  using ip_eq_hash [of "sa_ip a" "sa_ip b"]
  by (simp add: sa_ok_def sa_eq_def EqualIPs_def EqualPorts_def sa_Hash_def)

section \<open>Reading back the socket forms\<close>

lemma net16: "NetworkToHost16 (HostToNetwork16 p) = p"
  by (simp add: net_defs htobe_htobe)

lemma storage_roundtrip:
  assumes "sa_ok a" "ip_fam (sa_ip a) \<noteq> AF_UNSPEC"
  shows "\<exists>b. SocketAddressFromSockAddrStorage (snd (ToSockAddrStorage a)) = Some b \<and>
    ip_eq (sa_ip b) (sa_ip a) \<and> sa_port b = sa_port a \<and> (ip_fam (sa_ip a) = AF_INET6 \<longrightarrow> sa_scope_id b = sa_scope_id a)"
  using assms
  by (cases "ip_fam (sa_ip a)")
    (auto simp: ToSockAddrStorage_def ToSockAddrStorageHelper_def SocketAddressFromSockAddrStorage_def SocketAddress_ip_def
      SetPort_def SetIP_def SetScopeID_def net16 ip_v4_def ip_v6_def ipv4_address_def ipv6_address_def ip_eq_def sa_ok_def
      ip_ok_def min_def)

text \<open>Through a dual-stack socket an IPv4 address comes back mapped, and normalises to itself.\<close>

lemma dual_stack_roundtrip:
  assumes "sa_ok a" "ip_fam (sa_ip a) = AF_INET"
  shows "\<exists>b. SocketAddressFromSockAddrStorage (snd (ToDualStackSockAddrStorage a)) = Some b \<and>
    ip_eq (Normalized (sa_ip b)) (sa_ip a) \<and> sa_port b = sa_port a"
proof -
  let ?v4 = "take 4 (ip_u (sa_ip a))"
  have "AsIPv6Address (sa_ip a) = AsIPv6Address (ip_v4 ?v4)"
    using assms by (simp add: AsIPv6Address_def ip_v4_def sa_ok_def ip_ok_def)
  moreover have "Normalized (AsIPv6Address (ip_v4 ?v4)) = ip_v4 ?v4"
    using assms by (intro normalized_mapped) (simp add: sa_ok_def ip_ok_def)
  moreover have "ip_eq (ip_v4 ?v4) (sa_ip a)"
    using assms by (simp add: ip_eq_def ip_v4_def sa_ok_def ip_ok_def)
  moreover have "ip_fam (AsIPv6Address (sa_ip a)) = AF_INET6" "ip_v6 (ip_u (AsIPv6Address (sa_ip a))) = AsIPv6Address (sa_ip a)"
    using assms(2) by (simp_all add: AsIPv6Address_def ip_v6_def)
  ultimately show ?thesis
    by (simp add: ToDualStackSockAddrStorage_def ToSockAddrStorageHelper_def SocketAddressFromSockAddrStorage_def
        SocketAddress_ip_def SetPort_def SetIP_def SetScopeID_def net16 ipv6_address_def)
qed

end
