(* ===== verification/ThreadQueue.thy ===== *)
theory ThreadQueue
  imports XrtcPrelude "HOL-Library.Multiset"
begin

text \<open>
  The message queue of \<^verbatim>\<open>rtc_base/thread.cc\<close>: posted and delayed messages, waiting for the next one,
  clearing, dispatching. Times are milliseconds; \<open>now\<close> is what \<^verbatim>\<open>TimeMillis()\<close> returns. The socket
  server that \<^verbatim>\<open>Get\<close> waits on is the environment: a wait ends with a result, after some operations of
  other threads, at some time. The state records what is deleted and how often the socket server is
  woken. The theorems say that every message and its data end up in exactly one place, that delayed
  messages are handed out in time and in order, and that a wait never sleeps past the next one.
\<close>

section \<open>Messages\<close>

record message =
  posted_from :: string
  phandler :: ptr
  message_id :: "32 word"
  pdata :: ptr

definition MQID_ANY :: "32 word" where "MQID_ANY = - 1"
definition MQID_DISPOSE :: "32 word" where "MQID_DISPOSE = - 2"
definition kForever :: int where "kForever = - 1"
definition kSlowDispatchLoggingThreshold :: int where "kSlowDispatchLoggingThreshold = 50"

definition Match :: "ptr \<Rightarrow> 32 word \<Rightarrow> message \<Rightarrow> bool" where
  "Match handler mid m \<longleftrightarrow> (handler = None \<or> handler = phandler m) \<and> (mid = MQID_ANY \<or> mid = message_id m)"

record delayed_message =
  delay_ms :: int
  run_time_ms :: int
  message_number :: "32 word"
  dm_msg :: message

text \<open>
  \<^verbatim>\<open>DelayedMessage::operator<\<close> and the priority queue, whose top is the greatest element: a list with the
  top first. Of equal elements the one pushed first is on top.
\<close>

definition dm_less :: "delayed_message \<Rightarrow> delayed_message \<Rightarrow> bool" where
  "dm_less a b \<longleftrightarrow> run_time_ms b < run_time_ms a \<or>
     run_time_ms b = run_time_ms a \<and> message_number b < message_number a"

fun pq_push :: "delayed_message \<Rightarrow> delayed_message list \<Rightarrow> delayed_message list" where
  "pq_push d [] = [d]"
| "pq_push d (e # q) = (if dm_less e d then d # e # q else e # pq_push d q)"

record msg_thread =
  th_peek :: "message option"
  th_messages :: "message list"
  th_delayed :: "delayed_message list"
  th_next_num :: "32 word"
  th_stop :: bool
  th_warning_ms :: int
  th_destroyed :: bool
  th_deleted :: "ptr list"
  th_wakeups :: nat

definition Thread_new :: msg_thread where
  "Thread_new = \<lparr>th_peek = None, th_messages = [], th_delayed = [], th_next_num = 0, th_stop = False,
     th_warning_ms = kSlowDispatchLoggingThreshold, th_destroyed = False, th_deleted = [], th_wakeups = 0\<rparr>"

section \<open>Operations\<close>

definition WakeUpSocketServer :: "msg_thread \<Rightarrow> msg_thread" where
  "WakeUpSocketServer th = th\<lparr>th_wakeups := th_wakeups th + 1\<rparr>"

definition Quit :: "msg_thread \<Rightarrow> msg_thread" where
  "Quit th = WakeUpSocketServer (th\<lparr>th_stop := True\<rparr>)"

definition IsQuitting :: "msg_thread \<Rightarrow> bool" where
  "IsQuitting th = th_stop th"

definition Restart :: "msg_thread \<Rightarrow> msg_thread" where
  "Restart th = th\<lparr>th_stop := False\<rparr>"

definition th_delete :: "ptr \<Rightarrow> msg_thread \<Rightarrow> msg_thread" where
  "th_delete p th = th\<lparr>th_deleted := th_deleted th @ [p]\<rparr>"

definition Post :: "message \<Rightarrow> msg_thread \<Rightarrow> msg_thread" where
  "Post m th =
     (if IsQuitting th then th_delete (pdata m) th
      else WakeUpSocketServer (th\<lparr>th_messages := th_messages th @ [m]\<rparr>))"

definition DoDelayPost :: "int \<Rightarrow> int \<Rightarrow> message \<Rightarrow> msg_thread \<Rightarrow> msg_thread" where
  "DoDelayPost delay run_at m th =
     (if IsQuitting th then th_delete (pdata m) th
      else WakeUpSocketServer (th\<lparr>
        th_delayed := pq_push \<lparr>delay_ms = delay, run_time_ms = run_at, message_number = th_next_num th, dm_msg = m\<rparr> (th_delayed th),
        th_next_num := th_next_num th + 1\<rparr>))"

definition PostDelayed :: "int \<Rightarrow> int \<Rightarrow> message \<Rightarrow> msg_thread \<Rightarrow> msg_thread" where
  "PostDelayed now delay m th = DoDelayPost delay (now + delay) m th"

definition PostAt :: "int \<Rightarrow> int \<Rightarrow> message \<Rightarrow> msg_thread \<Rightarrow> msg_thread" where
  "PostAt now run_at m th = DoDelayPost (run_at - now) run_at m th"

text \<open>\<^verbatim>\<open>Dispose\<close> posts the object to be deleted; it arrives as the data of a message without a handler.\<close>

definition Dispose :: "string \<Rightarrow> ptr \<Rightarrow> msg_thread \<Rightarrow> msg_thread" where
  "Dispose loc doomed th =
     (if doomed = None then th
      else Post \<lparr>posted_from = loc, phandler = None, message_id = MQID_DISPOSE, pdata = doomed\<rparr> th)"

definition GetDelay :: "int \<Rightarrow> msg_thread \<Rightarrow> int" where
  "GetDelay now th =
     (if th_messages th \<noteq> [] then 0
      else case th_delayed th of
          [] \<Rightarrow> kForever
        | d # _ \<Rightarrow> (let delay = c_int (run_time_ms d - now) in if delay < 0 then 0 else delay))"

text \<open>
  \<^verbatim>\<open>ClearInternal\<close>: the messages that match leave the queues; they are given back when the caller
  passes a list (\<open>keep\<close>), and their data is deleted otherwise.
\<close>

definition ClearInternal :: "ptr \<Rightarrow> 32 word \<Rightarrow> bool \<Rightarrow> msg_thread \<Rightarrow> message list \<times> msg_thread" where
  "ClearInternal handler mid keep th =
     (let P = Match handler mid;
          gone = (case th_peek th of Some m \<Rightarrow> if P m then [m] else [] | None \<Rightarrow> [])
            @ filter P (th_messages th) @ map dm_msg (filter (\<lambda>d. P (dm_msg d)) (th_delayed th));
          th1 = th\<lparr>
            th_peek := (case th_peek th of Some m \<Rightarrow> if P m then None else Some m | None \<Rightarrow> None),
            th_messages := filter (\<lambda>m. \<not> P m) (th_messages th),
            th_delayed := filter (\<lambda>d. \<not> P (dm_msg d)) (th_delayed th)\<rparr>
      in if keep then (gone, th1) else ([], th1\<lparr>th_deleted := th_deleted th1 @ map pdata gone\<rparr>))"

definition th_Clear :: "ptr \<Rightarrow> 32 word \<Rightarrow> bool \<Rightarrow> msg_thread \<Rightarrow> message list \<times> msg_thread" where
  "th_Clear handler mid keep th = ClearInternal handler mid keep th"

definition DoDestroy :: "msg_thread \<Rightarrow> msg_thread" where
  "DoDestroy th =
     (if th_destroyed th then th
      else snd (ClearInternal None MQID_ANY False (th\<lparr>th_destroyed := True\<rparr>)))"

section \<open>Taking messages\<close>

text \<open>The delayed messages that are due move to the end of the queue; the rest tells how long to wait.\<close>

fun trigger_loop :: "int \<Rightarrow> message list \<Rightarrow> delayed_message list \<Rightarrow> message list \<times> delayed_message list \<times> int" where
  "trigger_loop now ms [] = (ms, [], kForever)"
| "trigger_loop now ms (d # q) =
     (if now < run_time_ms d then (ms, d # q, run_time_ms d - now)
      else trigger_loop now (ms @ [dm_msg d]) q)"

text \<open>The first message that is not one to dispose of; those before it are deleted.\<close>

fun pull_loop :: "message list \<Rightarrow> ptr list \<Rightarrow> message option \<times> message list \<times> ptr list" where
  "pull_loop [] del = (None, [], del)"
| "pull_loop (m # ms) del =
     (if message_id m = MQID_DISPOSE then pull_loop ms (del @ [pdata m]) else (Some m, ms, del))"

text \<open>
  One round of the outer loop of \<^verbatim>\<open>Get\<close> up to the wait, as one step: what other threads post while the
  lock is free between two messages comes after those already queued.
\<close>

definition get_round :: "int \<Rightarrow> msg_thread \<Rightarrow> message option \<times> int \<times> msg_thread" where
  "get_round now th =
     (let (ms, q, delay_next) = trigger_loop now (th_messages th) (th_delayed th);
          (r, ms1, del) = pull_loop ms (th_deleted th)
      in (r, delay_next, th\<lparr>th_messages := ms1, th_delayed := q, th_deleted := del\<rparr>))"

text \<open>Operations of other threads, and how a wait ends.\<close>

datatype th_op = O_post message | O_delayed int int message | O_at int int message | O_quit | O_restart

primrec th_apply :: "th_op \<Rightarrow> msg_thread \<Rightarrow> msg_thread" where
  "th_apply (O_post m) th = Post m th"
| "th_apply (O_delayed now delay m) th = PostDelayed now delay m th"
| "th_apply (O_at now run_at m) th = PostAt now run_at m th"
| "th_apply O_quit th = Quit th"
| "th_apply O_restart th = Restart th"

record wake =
  wk_ops :: "th_op list"
  wk_ok :: bool
  wk_time :: int

text \<open>
  The result of \<^verbatim>\<open>Get\<close>: a message, \<^verbatim>\<open>false\<close>, or still waiting when the environment has no further wake-up;
  with it the waits that were made, each as the time it started, its length and the messages it left
  delayed.
\<close>

datatype get_result = Got message | No_message | Still_waiting

type_synonym wait_log = "(int \<times> int \<times> delayed_message list) list"

text \<open>Which is shorter, the delay wait or the asked wait?\<close>

definition wait_ms :: "int \<Rightarrow> int \<Rightarrow> int \<Rightarrow> int" where
  "wait_ms cmsWait cmsElapsed cmsDelayNext =
     (if cmsWait = kForever then cmsDelayNext
      else let cmsNext = max 0 (cmsWait - cmsElapsed)
           in if cmsDelayNext \<noteq> kForever \<and> cmsDelayNext < cmsNext then cmsDelayNext else cmsNext)"

fun get_loop ::
    "wake list \<Rightarrow> int \<Rightarrow> int \<Rightarrow> int \<Rightarrow> wait_log \<Rightarrow> msg_thread \<Rightarrow> get_result \<times> wait_log \<times> msg_thread" where
  "get_loop wakes cmsWait msStart msCurrent waits th =
     (case get_round msCurrent th of
        (Some m, _, th1) \<Rightarrow> (Got m, waits, th1)
      | (None, cmsDelayNext, th1) \<Rightarrow>
          if IsQuitting th1 then (No_message, waits, th1)
          else
            let waits1 = waits @ [(msCurrent, c_int (wait_ms cmsWait (msCurrent - msStart) cmsDelayNext), th_delayed th1)]
            in case wakes of
                 [] \<Rightarrow> (Still_waiting, waits1, th1)
               | w # ws \<Rightarrow>
                   let th2 = fold th_apply (wk_ops w) th1
                   in if \<not> wk_ok w then (No_message, waits1, th2)
                      else if cmsWait \<noteq> kForever \<and> wk_time w - msStart \<ge> cmsWait then (No_message, waits1, th2)
                      else get_loop ws cmsWait msStart (wk_time w) waits1 th2)"

declare get_loop.simps [simp del]

definition Get :: "wake list \<Rightarrow> int \<Rightarrow> int \<Rightarrow> msg_thread \<Rightarrow> get_result \<times> wait_log \<times> msg_thread" where
  "Get wakes now cmsWait th =
     (case th_peek th of
        Some m \<Rightarrow> (Got m, [], th\<lparr>th_peek := None\<rparr>)
      | None \<Rightarrow> get_loop wakes cmsWait now now [] th)"

definition Peek :: "wake list \<Rightarrow> int \<Rightarrow> int \<Rightarrow> msg_thread \<Rightarrow> get_result \<times> wait_log \<times> msg_thread" where
  "Peek wakes now cmsWait th =
     (case th_peek th of
        Some m \<Rightarrow> (Got m, [], th)
      | None \<Rightarrow>
          (case Get wakes now cmsWait th of
             (Got m, waits, th1) \<Rightarrow> (Got m, waits, th1\<lparr>th_peek := Some m\<rparr>)
           | r \<Rightarrow> r))"

text \<open>
  \<^verbatim>\<open>Dispatch\<close>: \<open>on_message\<close> is the handler, which may itself post; the times are those before and after it.
\<close>

definition Dispatch :: "(message \<Rightarrow> msg_thread \<Rightarrow> msg_thread) \<Rightarrow> int \<Rightarrow> int \<Rightarrow> message \<Rightarrow> msg_thread \<Rightarrow> msg_thread" where
  "Dispatch on_message start_time end_time m th =
     (let th1 = on_message m th; diff = end_time - start_time
      in if diff \<ge> th_warning_ms th1 then th1\<lparr>th_warning_ms := c_int (diff + 1)\<rparr> else th1)"

text \<open>
  \<^verbatim>\<open>ProcessMessages\<close>: every round of the environment gives the wake-ups and the start time of \<^verbatim>\<open>Get\<close>, the
  times of the dispatch and the time after it. The result is that of the function, or \<open>None\<close> when the
  environment ends first.
\<close>

record msg_round =
  rd_wakes :: "wake list"
  rd_start :: int
  rd_dispatch :: "int \<times> int"
  rd_after :: int

fun process_loop ::
    "(message \<Rightarrow> msg_thread \<Rightarrow> msg_thread) \<Rightarrow> msg_round list \<Rightarrow> int \<Rightarrow> int \<Rightarrow> int \<Rightarrow> msg_thread \<Rightarrow> bool option \<times> msg_thread" where
  "process_loop on_message [] cmsLoop msEnd cmsNext th = (None, th)"
| "process_loop on_message (r # rs) cmsLoop msEnd cmsNext th =
     (case Get (rd_wakes r) (rd_start r) cmsNext th of
        (Got m, _, th1) \<Rightarrow>
          (let th2 = Dispatch on_message (fst (rd_dispatch r)) (snd (rd_dispatch r)) m th1
           in if cmsLoop \<noteq> kForever then
                (let next = c_int (msEnd - rd_after r)
                 in if next < 0 then (Some True, th2) else process_loop on_message rs cmsLoop msEnd next th2)
              else process_loop on_message rs cmsLoop msEnd cmsNext th2)
      | (No_message, _, th1) \<Rightarrow> (Some (\<not> IsQuitting th1), th1)
      | (Still_waiting, _, th1) \<Rightarrow> (None, th1))"

definition ProcessMessages ::
    "(message \<Rightarrow> msg_thread \<Rightarrow> msg_thread) \<Rightarrow> msg_round list \<Rightarrow> int \<Rightarrow> int \<Rightarrow> msg_thread \<Rightarrow> bool option \<times> msg_thread" where
  "ProcessMessages on_message rounds now cmsLoop th =
     process_loop on_message rounds cmsLoop (if kForever = cmsLoop then 0 else now + cmsLoop) cmsLoop th"

section \<open>The delayed messages stay sorted\<close>

definition pq_sorted :: "delayed_message list \<Rightarrow> bool" where
  "pq_sorted q \<longleftrightarrow> sorted_wrt (\<lambda>a b. \<not> dm_less a b) q"

lemma dm_less_trans: "\<not> dm_less a b \<Longrightarrow> dm_less a c \<Longrightarrow> \<not> dm_less c b"
  by (auto simp: dm_less_def)

lemma not_dm_less_trans: "\<not> dm_less a b \<Longrightarrow> \<not> dm_less b c \<Longrightarrow> \<not> dm_less a c"
  by (auto simp: dm_less_def)

lemma mset_pq_push: "mset (pq_push d q) = add_mset d (mset q)"
  by (induction d q rule: pq_push.induct) auto

lemma set_pq_push: "set (pq_push d q) = insert d (set q)"
  using mset_pq_push [of d q] by (metis set_mset_add_mset_insert set_mset_mset)

lemma pq_sorted_push: "pq_sorted q \<Longrightarrow> pq_sorted (pq_push d q)"
proof (induction d q rule: pq_push.induct)
  case (2 d e q)
  have "\<not> dm_less d e" if "dm_less e d" using that by (auto simp: dm_less_def)
  moreover have "\<not> dm_less d x" if "dm_less e d" "\<not> dm_less e x" for x
    using that by (auto simp: dm_less_def)
  ultimately show ?case using 2 by (auto simp: pq_sorted_def set_pq_push)
qed (simp add: pq_sorted_def)

lemma pq_sorted_filter: "pq_sorted q \<Longrightarrow> pq_sorted (filter P q)"
  by (simp add: pq_sorted_def sorted_wrt_filter)

definition due :: "int \<Rightarrow> delayed_message \<Rightarrow> bool" where
  "due now d \<longleftrightarrow> run_time_ms d \<le> now"

lemma pq_sorted_late: "pq_sorted (d # q) \<Longrightarrow> \<not> due now d \<Longrightarrow> \<forall>e\<in>set q. \<not> due now e"
  by (auto simp: pq_sorted_def due_def dm_less_def)

definition next_delay :: "int \<Rightarrow> delayed_message list \<Rightarrow> int" where
  "next_delay now q = (case q of [] \<Rightarrow> kForever | d # _ \<Rightarrow> run_time_ms d - now)"

lemma trigger_loop_due:
  "pq_sorted q \<Longrightarrow> trigger_loop now ms q =
     (ms @ map dm_msg (filter (due now) q), filter (\<lambda>d. \<not> due now d) q, next_delay now (filter (\<lambda>d. \<not> due now d) q))"
proof (induction now ms q rule: trigger_loop.induct)
  case (2 now ms d q)
  have lt: "now < run_time_ms d \<longleftrightarrow> \<not> due now d" by (auto simp: due_def)
  show ?case
  proof (cases "due now d")
    case True
    then show ?thesis using 2 lt by (simp add: pq_sorted_def)
  next
    case False
    then have "filter (due now) q = []" "filter (\<lambda>d. \<not> due now d) q = q"
      using pq_sorted_late [OF "2.prems" False] by (auto simp: filter_empty_conv)
    then show ?thesis using False lt by (simp add: next_delay_def)
  qed
qed (simp add: next_delay_def)

definition disposed :: "message \<Rightarrow> bool" where
  "disposed m \<longleftrightarrow> message_id m = MQID_DISPOSE"

lemma pull_loop_first:
  "pull_loop ms del =
     (case dropWhile disposed ms of
        [] \<Rightarrow> (None, [], del @ map pdata ms)
      | m # rest \<Rightarrow> (Some m, rest, del @ map pdata (takeWhile disposed ms)))"
proof (induction ms del rule: pull_loop.induct)
  case (2 m ms del)
  show ?case
  proof (cases "disposed m")
    case True
    then have "message_id m = MQID_DISPOSE" by (simp add: disposed_def)
    then show ?thesis using 2 True by (simp del: dropWhile_eq_Nil_conv split: list.split)
  next
    case False
    then show ?thesis by (simp add: disposed_def [of m])
  qed
qed simp

text \<open>What a round finds: the queued messages and then those that have become due.\<close>

definition ready :: "int \<Rightarrow> msg_thread \<Rightarrow> message list" where
  "ready now th = th_messages th @ map dm_msg (filter (due now) (th_delayed th))"

definition later :: "int \<Rightarrow> msg_thread \<Rightarrow> delayed_message list" where
  "later now th = filter (\<lambda>d. \<not> due now d) (th_delayed th)"

lemma get_round_ready:
  assumes "pq_sorted (th_delayed th)"
  shows "get_round now th =
    (case dropWhile disposed (ready now th) of
       [] \<Rightarrow> (None, next_delay now (later now th),
              th\<lparr>th_messages := [], th_delayed := later now th, th_deleted := th_deleted th @ map pdata (ready now th)\<rparr>)
     | m # rest \<Rightarrow> (Some m, next_delay now (later now th),
              th\<lparr>th_messages := rest, th_delayed := later now th,
                 th_deleted := th_deleted th @ map pdata (takeWhile disposed (ready now th))\<rparr>))"
  unfolding get_round_def trigger_loop_due [OF assms] Let_def prod.case pull_loop_first ready_def later_def
  by (simp del: dropWhile_eq_Nil_conv dropWhile_append split: list.split)

section \<open>Every message ends up in one place\<close>

definition pending :: "msg_thread \<Rightarrow> message list" where
  "pending th = (case th_peek th of None \<Rightarrow> [] | Some m \<Rightarrow> [m]) @ th_messages th @ map dm_msg (th_delayed th)"

definition owned :: "msg_thread \<Rightarrow> ptr multiset" where
  "owned th = mset (map pdata (pending th)) + mset (th_deleted th)"

primrec op_posts :: "th_op \<Rightarrow> ptr list" where
  "op_posts (O_post m) = [pdata m]"
| "op_posts (O_delayed now delay m) = [pdata m]"
| "op_posts (O_at now run_at m) = [pdata m]"
| "op_posts O_quit = []"
| "op_posts O_restart = []"

lemmas th_op_defs = Post_def PostDelayed_def PostAt_def DoDelayPost_def Quit_def Restart_def WakeUpSocketServer_def
  th_delete_def IsQuitting_def

lemma sorted_apply: "pq_sorted (th_delayed th) \<Longrightarrow> pq_sorted (th_delayed (th_apply o1 th))"
  by (cases o1) (simp_all add: th_op_defs pq_sorted_push)

lemma sorted_apply_all: "pq_sorted (th_delayed th) \<Longrightarrow> pq_sorted (th_delayed (fold th_apply os th))"
  by (induction os arbitrary: th) (simp_all add: sorted_apply)

lemma owned_apply: "owned (th_apply o1 th) = owned th + mset (op_posts o1)"
  by (cases o1) (simp_all add: th_op_defs owned_def pending_def mset_pq_push image_mset_add_mset split: option.splits)

lemma owned_apply_all: "owned (fold th_apply os th) = owned th + mset (concat (map op_posts os))"
  by (induction os arbitrary: th) (simp_all add: owned_apply ac_simps)

definition handed :: "message option \<Rightarrow> ptr list" where
  "handed r = (case r of None \<Rightarrow> [] | Some m \<Rightarrow> [pdata m])"

lemma mset_due_later: "mset (map dm_msg (filter (due now) q)) + mset (map dm_msg (filter (\<lambda>d. \<not> due now d) q)) = mset (map dm_msg q)"
  by (induction q) auto

lemma owned_round:
  assumes "pq_sorted (th_delayed th)" "get_round now th = (r, n, th1)"
  shows "owned th1 + mset (handed r) = owned th" "pq_sorted (th_delayed th1)" "th_peek th1 = th_peek th"
    "th_stop th1 = th_stop th"
proof -
  have split: "mset (ready now th) + mset (map dm_msg (later now th)) = mset (th_messages th @ map dm_msg (th_delayed th))"
    using mset_due_later [of now "th_delayed th"] by (simp add: ready_def later_def ac_simps)
  then have pd: "image_mset pdata (mset (ready now th)) + image_mset pdata (mset (map dm_msg (later now th))) =
      image_mset pdata (mset (th_messages th @ map dm_msg (th_delayed th)))" by (metis image_mset_union)
  have tw: "ready now th = takeWhile disposed (ready now th) @ dropWhile disposed (ready now th)" by simp
  show "owned th1 + mset (handed r) = owned th"
  proof (cases "dropWhile disposed (ready now th)")
    case Nil
    then show ?thesis
      using assms(2) pd unfolding get_round_ready [OF assms(1)] Nil
      by (auto simp: owned_def pending_def handed_def ac_simps image_mset.compositionality split: option.splits)
  next
    case (Cons m rest)
    have "mset (ready now th) = mset (takeWhile disposed (ready now th)) + add_mset m (mset rest)"
      using arg_cong [OF tw, of mset] unfolding Cons by simp
    then show ?thesis
      using assms(2) pd unfolding get_round_ready [OF assms(1)] Cons
      by (auto simp: owned_def pending_def handed_def ac_simps image_mset.compositionality split: option.splits)
  qed
  show "pq_sorted (th_delayed th1)" "th_peek th1 = th_peek th" "th_stop th1 = th_stop th"
    using assms(2) pq_sorted_filter [OF assms(1)] unfolding get_round_ready [OF assms(1)]
    by (auto simp: later_def split: list.splits)
qed

lemma th_apply_peek: "th_peek (fold th_apply os th) = th_peek th"
proof (induction os arbitrary: th)
  case (Cons a os)
  then show ?case by (cases a) (simp_all add: th_op_defs)
qed simp

definition result_data :: "get_result \<Rightarrow> ptr list" where
  "result_data r = (case r of Got m \<Rightarrow> [pdata m] | _ \<Rightarrow> [])"

definition wake_posts :: "wake list \<Rightarrow> ptr list" where
  "wake_posts ws = concat (map op_posts (concat (map wk_ops ws)))"

text \<open>
  The number of waits is the number of wake-ups that were used, one more when the thread is left waiting.
\<close>

lemma get_loop_message: "get_round now th = (Some m, n, t) \<Longrightarrow> get_loop wakes w s now waits th = (Got m, waits, t)"
  by (subst get_loop.simps) simp

lemma get_loop_quit:
  "get_round now th = (None, n, t) \<Longrightarrow> IsQuitting t \<Longrightarrow> get_loop wakes w s now waits th = (No_message, waits, t)"
  by (subst get_loop.simps) simp

lemma get_loop_wait:
  assumes "get_round now th = (None, n, t)" "\<not> IsQuitting t"
  shows "get_loop [] w s now waits th = (Still_waiting, waits @ [(now, c_int (wait_ms w (now - s) n), th_delayed t)], t)"
    "get_loop (k # ks) w s now waits th =
      (if \<not> wk_ok k \<or> w \<noteq> kForever \<and> wk_time k - s \<ge> w
       then (No_message, waits @ [(now, c_int (wait_ms w (now - s) n), th_delayed t)], fold th_apply (wk_ops k) t)
       else get_loop ks w s (wk_time k) (waits @ [(now, c_int (wait_ms w (now - s) n), th_delayed t)]) (fold th_apply (wk_ops k) t))"
  using assms by (subst get_loop.simps; simp add: Let_def)+

lemma get_loop_owned:
  assumes "pq_sorted (th_delayed th)" "get_loop wakes w s now waits th = (r, waits1, th1)"
  shows "length waits \<le> length waits1 \<and> th_peek th1 = th_peek th \<and> pq_sorted (th_delayed th1) \<and>
    owned th1 + mset (result_data r) = owned th + mset (wake_posts (take (length waits1 - length waits) wakes))"
  using assms
proof (induction wakes arbitrary: now waits th)
  case Nil
  obtain a n t where g: "get_round now th = (a, n, t)" by (metis surj_pair)
  note o1 = owned_round [OF Nil.prems(1) g]
  consider m where "a = Some m" | "a = None" "IsQuitting t" | "a = None" "\<not> IsQuitting t" by (cases a) auto
  then show ?case
    using Nil.prems(2) o1 g
    by cases (auto simp: get_loop_message get_loop_quit get_loop_wait result_data_def handed_def wake_posts_def)
next
  case (Cons k ks)
  obtain a n t where g: "get_round now th = (a, n, t)" by (metis surj_pair)
  note o1 = owned_round [OF Cons.prems(1) g]
  consider m where "a = Some m" | "a = None" "IsQuitting t" | "a = None" "\<not> IsQuitting t" by (cases a) auto
  then show ?case
  proof cases
    case 3
    let ?t2 = "fold th_apply (wk_ops k) t" and ?w1 = "waits @ [(now, c_int (wait_ms w (now - s) n), th_delayed t)]"
    have t2: "pq_sorted (th_delayed ?t2)" "th_peek ?t2 = th_peek th"
        "owned ?t2 = owned th + mset (concat (map op_posts (wk_ops k)))"
      using sorted_apply_all [OF o1(2)] o1(1,3) 3 by (simp_all add: th_apply_peek owned_apply_all handed_def)
    show ?thesis
    proof (cases "\<not> wk_ok k \<or> w \<noteq> kForever \<and> wk_time k - s \<ge> w")
      case True
      then have "r = No_message" "waits1 = ?w1" "th1 = ?t2"
        using Cons.prems(2) g 3 by (simp_all add: get_loop_wait)
      then show ?thesis using t2 by (simp add: result_data_def wake_posts_def)
    next
      case False
      then have l: "get_loop ks w s (wk_time k) ?w1 ?t2 = (r, waits1, th1)"
        using Cons.prems(2) g 3 by (auto simp: get_loop_wait split: if_splits)
      note ih = Cons.IH [OF t2(1) l]
      then have "Suc (length waits) \<le> length waits1" by simp
      then have "length waits1 - length waits = Suc (length waits1 - length ?w1)" by auto
      then show ?thesis using ih t2 by (simp add: wake_posts_def ac_simps)
    qed
  qed (use Cons.prems(2) o1 g in \<open>auto simp: get_loop_message get_loop_quit result_data_def handed_def wake_posts_def\<close>)
qed

section \<open>Runs of a thread\<close>

text \<open>
  What can happen to the queue of a thread: operations of any thread, a call of \<^verbatim>\<open>Get\<close> or \<^verbatim>\<open>Peek\<close> with the
  wake-ups it meets, a \<^verbatim>\<open>Clear\<close>, the destruction. A step yields the data that was posted in it and the data
  that left the queue for its caller; a run lists its latest operation first.
\<close>

datatype run_op = R_op th_op | R_get "wake list" int int | R_peek "wake list" int int
  | R_clear ptr "32 word" bool | R_destroy

fun run_step :: "run_op \<Rightarrow> msg_thread \<Rightarrow> ptr list \<times> ptr list \<times> msg_thread" where
  "run_step (R_op o1) th = (op_posts o1, [], th_apply o1 th)"
| "run_step (R_get wakes now w) th =
     (case Get wakes now w th of (r, waits, th1) \<Rightarrow> (wake_posts (take (length waits) wakes), result_data r, th1))"
| "run_step (R_peek wakes now w) th =
     (case Peek wakes now w th of (r, waits, th1) \<Rightarrow> (wake_posts (take (length waits) wakes), [], th1))"
| "run_step (R_clear handler mid keep) th =
     (case th_Clear handler mid keep th of (removed, th1) \<Rightarrow> ([], map pdata removed, th1))"
| "run_step R_destroy th = ([], [], DoDestroy th)"

fun run :: "run_op list \<Rightarrow> ptr list \<times> ptr list \<times> msg_thread" where
  "run [] = ([], [], Thread_new)"
| "run (o1 # os) =
     (case run os of (posted, given, th) \<Rightarrow>
        (case run_step o1 th of (p, g, th1) \<Rightarrow> (posted @ p, given @ g, th1)))"

lemma Get_owned:
  assumes "pq_sorted (th_delayed th)" "Get wakes now w th = (r, waits, th1)"
  shows "pq_sorted (th_delayed th1) \<and> owned th1 + mset (result_data r) = owned th + mset (wake_posts (take (length waits) wakes))"
    and "th_peek th1 = None"
proof -
  show "pq_sorted (th_delayed th1) \<and> owned th1 + mset (result_data r) = owned th + mset (wake_posts (take (length waits) wakes))"
  proof (cases "th_peek th")
    case None
    then show ?thesis using assms get_loop_owned [OF assms(1)] by (fastforce simp: Get_def)
  next
    case (Some m)
    then show ?thesis using assms by (auto simp: Get_def result_data_def wake_posts_def owned_def pending_def)
  qed
  show "th_peek th1 = None"
    using assms get_loop_owned [OF assms(1)] by (fastforce simp: Get_def split: option.splits)
qed

lemma Peek_owned:
  assumes "pq_sorted (th_delayed th)" "Peek wakes now w th = (r, waits, th1)"
  shows "pq_sorted (th_delayed th1) \<and> owned th1 = owned th + mset (wake_posts (take (length waits) wakes))"
proof (cases "th_peek th")
  case (Some m)
  then show ?thesis using assms by (auto simp: Peek_def wake_posts_def)
next
  case None
  obtain a b t where g: "Get wakes now w th = (a, b, t)" by (metis surj_pair)
  note o1 = Get_owned [OF assms(1) g]
  show ?thesis
    using None assms(2) g o1
    by (cases a) (auto simp: Peek_def result_data_def owned_def pending_def)
qed

lemma mset_filter_split: "mset (filter P xs) + mset (filter (\<lambda>x. \<not> P x) xs) = mset xs"
  by (induction xs) auto

lemma Clear_owned:
  assumes "pq_sorted (th_delayed th)" "ClearInternal handler mid keep th = (removed, th1)"
  shows "pq_sorted (th_delayed th1)" "owned th1 + mset (map pdata removed) = owned th"
proof -
  let ?P = "Match handler mid"
  show "pq_sorted (th_delayed th1)"
    using assms pq_sorted_filter [OF assms(1)] by (auto simp: ClearInternal_def Let_def split: if_splits)
  have ms: "image_mset pdata (mset (th_messages th)) =
      image_mset pdata (mset (filter ?P (th_messages th))) + image_mset pdata (mset (filter (\<lambda>m. \<not> ?P m) (th_messages th)))"
    by (metis image_mset_union mset_filter_split)
  have ds: "image_mset (pdata \<circ> dm_msg) (mset (th_delayed th)) =
      image_mset (pdata \<circ> dm_msg) (mset (filter (\<lambda>d. ?P (dm_msg d)) (th_delayed th))) +
      image_mset (pdata \<circ> dm_msg) (mset (filter (\<lambda>d. \<not> ?P (dm_msg d)) (th_delayed th)))"
    by (metis image_mset_union mset_filter_split [of "\<lambda>d. ?P (dm_msg d)"])
  show "owned th1 + mset (map pdata removed) = owned th"
    using assms(2) ms ds
    by (cases "th_peek th"; cases keep)
      (auto simp: ClearInternal_def Let_def owned_def pending_def ac_simps image_mset.compositionality)
qed

lemma run_step_owned:
  assumes "pq_sorted (th_delayed th)" "run_step o1 th = (p, g, th1)"
  shows "pq_sorted (th_delayed th1) \<and> owned th1 + mset g = owned th + mset p"
proof (cases o1)
  case (R_op x)
  then show ?thesis using assms sorted_apply by (auto simp: owned_apply)
next
  case (R_get wakes now w)
  then show ?thesis using assms Get_owned(1) by (auto split: prod.splits)
next
  case (R_peek wakes now w)
  then show ?thesis using assms Peek_owned by (auto split: prod.splits)
next
  case (R_clear handler mid keep)
  then show ?thesis using assms Clear_owned by (auto simp: th_Clear_def split: prod.splits)
next
  case R_destroy
  have "pq_sorted (th_delayed (th\<lparr>th_destroyed := True\<rparr>))" "owned (th\<lparr>th_destroyed := True\<rparr>) = owned th"
    using assms(1) by (simp_all add: owned_def pending_def)
  moreover obtain removed t where c: "ClearInternal None MQID_ANY False (th\<lparr>th_destroyed := True\<rparr>) = (removed, t)"
    by (metis surj_pair)
  moreover have "removed = []" using c by (simp add: ClearInternal_def Let_def)
  ultimately show ?thesis
    using assms R_destroy Clear_owned [OF _ c] by (auto simp: DoDestroy_def)
qed

lemma run_owned: "run os = (posted, given, th) \<Longrightarrow> pq_sorted (th_delayed th) \<and> owned th + mset given = mset posted"
proof (induction os arbitrary: posted given th)
  case Nil
  then show ?case by (auto simp: Thread_new_def pq_sorted_def owned_def pending_def)
next
  case (Cons o1 os)
  obtain p0 g0 t0 where r: "run os = (p0, g0, t0)" by (metis surj_pair)
  obtain p g t where s: "run_step o1 t0 = (p, g, t)" by (metis surj_pair)
  note ih = Cons.IH [OF r]
  have "pq_sorted (th_delayed t) \<and> owned t + mset g = owned t0 + mset p" using run_step_owned [OF _ s] ih by blast
  moreover have "posted = p0 @ p" "given = g0 @ g" "th = t" using Cons.prems r s by simp_all
  ultimately show ?case using ih by (auto simp: ac_simps)
qed

text \<open>
  C18. Every piece of message data has exactly one owner. After any sequence of posts (immediate, delayed
  and timed), waits with whatever other threads do meanwhile, peeks, clears, quits, restarts and the
  destruction of the queue, the data that was handed to the thread is, each piece once, either given to
  the caller of \<^verbatim>\<open>Get\<close> or \<^verbatim>\<open>Clear\<close>, or still queued, or deleted: none is lost, duplicated or deleted twice.
\<close>

theorem message_data_has_one_owner:
  "case run os of (posted, given, th) \<Rightarrow>
     mset posted = mset given + mset (map pdata (pending th)) + mset (th_deleted th)"
proof -
  obtain posted given th where r: "run os = (posted, given, th)" by (metis surj_pair)
  then show ?thesis using run_owned [OF r] by (simp add: owned_def ac_simps)
qed

section \<open>Waiting\<close>

text \<open>What every wait of \<^verbatim>\<open>Get\<close> looks like: nothing that is left delayed is due when it starts.\<close>

definition good_wait :: "int \<Rightarrow> int \<Rightarrow> int \<times> int \<times> delayed_message list \<Rightarrow> bool" where
  "good_wait w s = (\<lambda>(t, n, q). pq_sorted q \<and> (\<forall>d\<in>set q. t < run_time_ms d) \<and> s \<le> t \<and>
     n = c_int (wait_ms w (t - s) (next_delay t q)))"

lemma round_wait:
  assumes "pq_sorted (th_delayed th)" "get_round now th = (None, n, t)" "s \<le> now"
  shows "good_wait w s (now, c_int (wait_ms w (now - s) n), th_delayed t)"
proof -
  have "n = next_delay now (later now th)" "th_delayed t = later now th"
    using assms(2) unfolding get_round_ready [OF assms(1)]
    by (cases "dropWhile disposed (ready now th)"; auto simp del: dropWhile_eq_Nil_conv)+
  then show ?thesis
    using assms(3) pq_sorted_filter [OF assms(1)] by (auto simp: good_wait_def later_def due_def)
qed

lemma get_loop_waits:
  assumes "pq_sorted (th_delayed th)" "get_loop wakes w s now waits th = (r, waits1, th1)"
    and "\<forall>x\<in>set waits. good_wait w s x" "s \<le> now" "\<forall>k\<in>set wakes. s \<le> wk_time k"
  shows "\<forall>x\<in>set waits1. good_wait w s x"
  using assms
proof (induction wakes arbitrary: now waits th)
  case Nil
  obtain a n t where g: "get_round now th = (a, n, t)" by (metis surj_pair)
  consider m where "a = Some m" | "a = None" "IsQuitting t" | "a = None" "\<not> IsQuitting t" by (cases a) auto
  then show ?case
    using Nil.prems g round_wait [OF Nil.prems(1), of now n t]
    by cases (auto simp: get_loop_message get_loop_quit get_loop_wait)
next
  case (Cons k ks)
  obtain a n t where g: "get_round now th = (a, n, t)" by (metis surj_pair)
  note o1 = owned_round [OF Cons.prems(1) g]
  consider m where "a = Some m" | "a = None" "IsQuitting t" | "a = None" "\<not> IsQuitting t" by (cases a) auto
  then show ?case
  proof cases
    case 3
    let ?t2 = "fold th_apply (wk_ops k) t" and ?w1 = "waits @ [(now, c_int (wait_ms w (now - s) n), th_delayed t)]"
    have good: "\<forall>x\<in>set ?w1. good_wait w s x"
      using round_wait [OF Cons.prems(1), of now n t] g 3 Cons.prems(3,4) by auto
    show ?thesis
    proof (cases "\<not> wk_ok k \<or> w \<noteq> kForever \<and> wk_time k - s \<ge> w")
      case True
      then have "waits1 = ?w1" using Cons.prems(2) g 3 by (simp add: get_loop_wait)
      then show ?thesis using good by simp
    next
      case False
      then have l: "get_loop ks w s (wk_time k) ?w1 ?t2 = (r, waits1, th1)"
        using Cons.prems(2) g 3 by (auto simp: get_loop_wait split: if_splits)
      show ?thesis using Cons.IH [OF sorted_apply_all [OF o1(2)] l good] Cons.prems(5) by simp
    qed
  qed (use Cons.prems(2,3) g in \<open>auto simp: get_loop_message get_loop_quit\<close>)
qed

lemma good_wait_bounds:
  assumes "good_wait w s (t, n, q)" "w = kForever \<or> 0 \<le> w" "w < 2 ^ 31" "\<forall>d\<in>set q. run_time_ms d - t < 2 ^ 31"
  shows "if n = kForever then w = kForever \<and> q = [] else 0 \<le> n \<and> (\<forall>d\<in>set q. t + n \<le> run_time_ms d)"
proof -
  define x where "x = wait_ms w (t - s) (next_delay t q)"
  have g: "pq_sorted q" "\<forall>d\<in>set q. t < run_time_ms d" "s \<le> t" "n = c_int x"
    using assms(1) by (simp_all add: good_wait_def x_def)
  have first: "\<forall>e\<in>set q. run_time_ms d \<le> run_time_ms e" if "q = d # ds" for d ds
    using g(1) that by (auto simp: pq_sorted_def dm_less_def)
  show ?thesis
  proof (cases q)
    case Nil
    then have nd: "next_delay t q = kForever" by (simp add: next_delay_def)
    show ?thesis
    proof (cases "w = kForever")
      case True
      then have "n = kForever" using g(4) nd by (simp add: x_def wait_ms_def kForever_def c_int_id)
      then show ?thesis using True Nil by simp
    next
      case False
      then have "x = max 0 (w - (t - s))" using nd by (simp add: x_def wait_ms_def Let_def)
      then have "0 \<le> x" "x < 2 ^ 31" using g(3) assms(3) by auto
      then have "n = x" using g(4) by (simp add: c_int_id)
      then show ?thesis using \<open>0 \<le> x\<close> Nil by (simp add: kForever_def)
    qed
  next
    case (Cons d ds)
    then have nd: "next_delay t q = run_time_ms d - t" "0 < run_time_ms d - t" "run_time_ms d - t < 2 ^ 31"
      using g(2) assms(4) by (simp_all add: next_delay_def)
    have "0 \<le> x \<and> x \<le> run_time_ms d - t"
    proof (cases "w = kForever")
      case True
      then show ?thesis using nd by (simp add: x_def wait_ms_def)
    next
      case False
      then show ?thesis using nd by (auto simp: x_def wait_ms_def Let_def kForever_def)
    qed
    then have "n = x" "0 \<le> n" "t + n \<le> run_time_ms d" using nd(3) g(4) by (simp_all add: c_int_id)
    then show ?thesis using first [OF Cons] by (fastforce simp: kForever_def)
  qed
qed

text \<open>
  C19. A thread never sleeps past a delayed message. Whenever \<^verbatim>\<open>Get\<close> waits, from any state of the queue and
  whatever other threads post meanwhile, no message that is left delayed is due, and the wait is without
  limit only if the caller asked for that and nothing is delayed; otherwise it ends at the latest when
  the first delayed message falls due. The clock is taken not to run backwards, and no delay to exceed
  the range of \<^verbatim>\<open>int\<close>, to which the code converts it.
\<close>

theorem get_never_oversleeps:
  assumes "run os = (posted, given, th)" "Get wakes now w th = (r, waits, th1)" "(t, n, q) \<in> set waits"
    and "w = kForever \<or> 0 \<le> w" "w < 2 ^ 31" "\<forall>k\<in>set wakes. now \<le> wk_time k"
    and "\<forall>d\<in>set q. run_time_ms d - t < 2 ^ 31"
  shows "(\<forall>d\<in>set q. t < run_time_ms d) \<and>
    (if n = kForever then w = kForever \<and> q = [] else 0 \<le> n \<and> (\<forall>d\<in>set q. t + n \<le> run_time_ms d))"
proof -
  have s: "pq_sorted (th_delayed th)" using run_owned [OF assms(1)] by simp
  have "th_peek th = None" using assms(2,3) by (auto simp: Get_def split: option.splits)
  then have "get_loop wakes w now now [] th = (r, waits, th1)" using assms(2) by (simp add: Get_def)
  from get_loop_waits [OF s this] have "good_wait w now (t, n, q)" using assms(3,6) by simp
  then have "good_wait w now (t, n, q)" and "\<forall>d\<in>set q. t < run_time_ms d" by (simp_all add: good_wait_def)
  then show ?thesis using good_wait_bounds [OF _ assms(4,5,7)] by blast
qed

definition sample_message :: message where
  "sample_message = \<lparr>posted_from = ''here'', phandler = Some 1, message_id = 5, pdata = Some 9\<rparr>"

theorem get_never_oversleeps_witness:
  "\<exists>q th1. Get [] 100 kForever (snd (snd (run [R_op (O_delayed 100 50 sample_message)]))) = (Still_waiting, [(100, 50, q)], th1) \<and>
     (\<forall>d\<in>set q. 100 < run_time_ms d \<and> 100 + 50 \<le> run_time_ms d) \<and> q \<noteq> []"
proof -
  let ?d = "\<lparr>delay_ms = 50, run_time_ms = 150, message_number = 0, dm_msg = sample_message\<rparr>"
  define th where "th = snd (snd (run [R_op (O_delayed 100 50 sample_message)]))"
  have r: "run [R_op (O_delayed 100 50 sample_message)] = (op_posts (O_delayed 100 50 sample_message), [], th)"
    by (simp add: th_def)
  have g: "Get [] 100 kForever th = (Still_waiting, [(100, 50, [?d])], th)"
    by (simp add: th_def th_op_defs Thread_new_def Get_def get_loop.simps get_round_def IsQuitting_def wait_ms_def
        kForever_def c_int_id Let_def)
  show ?thesis
    using get_never_oversleeps [OF r g, of 100 50 "[?d]"] g unfolding th_def by (simp add: kForever_def)
qed

end
