(* ===== verification/SendGraph.thy ===== *)
theory SendGraph
  imports ThreadQueue "HOL-Library.Monad_Syntax"
begin

text \<open>
  \<^verbatim>\<open>ThreadManager\<close> of \<^verbatim>\<open>rtc_base/thread.cc\<close>: the list of message queues and, in builds with checks, the graph
  of which thread sends synchronously to which. A thread is a number. Collecting the threads that can be
  reached is a loop over a list that grows; on a graph with a cycle it would not end, and has then no
  value. The theorem says that this does not happen, that exactly the calls that would close a cycle are
  refused, and that the graph stays free of cycles.
\<close>

section \<open>The graph\<close>

type_synonym send_graph = "nat \<rightharpoonup> nat list"

text \<open>\<^verbatim>\<open>send_graph_[x]\<close>: the entry, which is made empty when it does not exist.\<close>

definition sg_get :: "send_graph \<Rightarrow> nat \<Rightarrow> nat list" where
  "sg_get g x = (case g x of None \<Rightarrow> [] | Some ts \<Rightarrow> ts)"

definition sg_access :: "nat \<Rightarrow> send_graph \<Rightarrow> send_graph" where
  "sg_access x g = g(x \<mapsto> sg_get g x)"

text \<open>\<open>seen\<close> are the elements of \<^verbatim>\<open>all_targets\<close> before the index, \<open>rest\<close> those from it on.\<close>

partial_function (option) collect_targets ::
    "nat list \<Rightarrow> nat list \<Rightarrow> send_graph \<Rightarrow> (nat list \<times> send_graph) option" where
  "collect_targets seen rest g =
     (case rest of
        [] \<Rightarrow> Some (seen, g)
      | x # xs \<Rightarrow> collect_targets (seen @ [x]) (xs @ sg_get g x) (sg_access x g))"

text \<open>The result of a failed \<^verbatim>\<open>RTC_CHECK\<close>, which ends the program, is \<open>Inl\<close>.\<close>

definition RegisterSendAndCheckForCycles :: "nat \<Rightarrow> nat \<Rightarrow> send_graph \<Rightarrow> (string + send_graph) option" where
  "RegisterSendAndCheckForCycles source target g = do {
     (all_targets, g1) \<leftarrow> collect_targets [] [target] g;
     Some (if source \<in> set all_targets then Inl ''send loop''
           else Inr (g1(source \<mapsto> List.insert target (sg_get g1 source))))
   }"

definition RemoveFromSendGraph :: "nat \<Rightarrow> send_graph \<Rightarrow> send_graph" where
  "RemoveFromSendGraph thread g x =
     (if x = thread then None else case g x of None \<Rightarrow> None | Some ts \<Rightarrow> Some (filter (\<lambda>t. t \<noteq> thread) ts))"

record thread_manager =
  tm_queues :: "nat list"
  tm_graph :: send_graph

definition AddInternal :: "nat \<Rightarrow> thread_manager \<Rightarrow> thread_manager" where
  "AddInternal q tm = tm\<lparr>tm_queues := tm_queues tm @ [q]\<rparr>"

definition RemoveInternal :: "nat \<Rightarrow> thread_manager \<Rightarrow> thread_manager" where
  "RemoveInternal q tm = tm\<lparr>tm_queues := remove1 q (tm_queues tm), tm_graph := RemoveFromSendGraph q (tm_graph tm)\<rparr>"

text \<open>\<^verbatim>\<open>ThreadManager::ClearInternal\<close>: clear the handler's messages in every queue.\<close>

definition tm_ClearInternal :: "ptr \<Rightarrow> thread_manager \<Rightarrow> (nat \<rightharpoonup> msg_thread) \<Rightarrow> (nat \<rightharpoonup> msg_thread)" where
  "tm_ClearInternal handler tm ths =
     fold (\<lambda>q ths. ths(q := map_option (\<lambda>th. snd (th_Clear handler MQID_ANY False th)) (ths q))) (tm_queues tm) ths"

section \<open>Edges and what can be reached\<close>

definition edges :: "send_graph \<Rightarrow> (nat \<times> nat) set" where
  "edges g = {(x, y). y \<in> set (sg_get g x)}"

lemma sg_get_access [simp]: "sg_get (sg_access x g) y = sg_get g y"
  by (simp add: sg_access_def sg_get_def split: option.splits)

lemma edges_access [simp]: "edges (sg_access x g) = edges g"
  by (simp add: edges_def)

lemma finite_edges:
  assumes "finite (dom g)"
  shows "finite (edges g)"
proof -
  have "x \<in> dom g" if "y \<in> set (sg_get g x)" for x y using that by (cases "g x") (auto simp: sg_get_def)
  then have "edges g \<subseteq> (\<Union>x\<in>dom g. {x} \<times> set (sg_get g x))" by (auto simp: edges_def)
  then show ?thesis by (rule finite_subset) (use assms in auto)
qed

lemma collect_step: "(mset (xs @ sg_get g x), mset (x # xs)) \<in> mult ((edges g)\<inverse>)"
proof -
  have "(mset xs + mset (sg_get g x), add_mset x (mset xs)) \<in> mult1 ((edges g)\<inverse>)"
    by (rule mult1I [of _ x "mset xs" _ "mset (sg_get g x)"]) (auto simp: edges_def)
  then show ?thesis unfolding mult_def by (auto intro: r_into_trancl)
qed

lemma collect_simps:
  "collect_targets seen [] g = Some (seen, g)"
  "collect_targets seen (x # xs) g = collect_targets (seen @ [x]) (xs @ sg_get g x) (sg_access x g)"
  by (subst collect_targets.simps; simp)+

lemma reach_step: "(edges g)\<^sup>* `` set (x # xs) = insert x ((edges g)\<^sup>* `` set (xs @ sg_get g x))"
proof -
  have "(edges g)\<^sup>* `` {x} = insert x ((edges g)\<^sup>* `` set (sg_get g x))"
    by (auto simp: edges_def elim: converse_rtranclE intro: converse_rtrancl_into_rtrancl)
  then show ?thesis by (auto simp: Image_Un)
qed

lemma collect_reaches_aux:
  assumes "wf ((edges g)\<inverse>)" "edges h = edges g" "finite (dom h)"
  shows "\<exists>l g1. collect_targets seen rest h = Some (l, g1) \<and> set l = set seen \<union> (edges g)\<^sup>* `` set rest \<and>
    edges g1 = edges g \<and> finite (dom g1)"
proof -
  have "wf (inv_image (mult ((edges g)\<inverse>)) mset)" using wf_mult [OF assms(1)] by (rule wf_inv_image)
  then show ?thesis using assms(2,3)
  proof (induction rest arbitrary: seen h rule: wf_induct_rule)
    case (less rest)
    show ?case
    proof (cases rest)
      case Nil
      then show ?thesis using less.prems by (simp add: collect_simps)
    next
      case (Cons x xs)
      have "(xs @ sg_get h x, rest) \<in> inv_image (mult ((edges g)\<inverse>)) mset"
        using collect_step [of xs h x] less.prems(1) Cons by (simp add: inv_image_def)
      moreover have "edges (sg_access x h) = edges g" "finite (dom (sg_access x h))"
        using less.prems by (simp_all add: sg_access_def [of x h])  (simp_all add: flip: sg_access_def)
      ultimately obtain l g1 where "collect_targets (seen @ [x]) (xs @ sg_get h x) (sg_access x h) = Some (l, g1)"
          "set l = set (seen @ [x]) \<union> (edges g)\<^sup>* `` set (xs @ sg_get h x)" "edges g1 = edges g" "finite (dom g1)"
        using less.IH by blast
      moreover have "(edges g)\<^sup>* `` set rest = insert x ((edges g)\<^sup>* `` set (xs @ sg_get h x))"
        using reach_step [of h x xs] less.prems(1) Cons by simp
      ultimately show ?thesis using Cons by (simp add: collect_simps)
    qed
  qed
qed

text \<open>The loop ends on every finite graph without cycles, with exactly the threads that can be reached.\<close>

lemma collect_reaches:
  assumes "acyclic (edges g)" "finite (dom g)"
  shows "\<exists>l g1. collect_targets [] [target] g = Some (l, g1) \<and> set l = {t. (target, t) \<in> (edges g)\<^sup>*} \<and>
    edges g1 = edges g \<and> finite (dom g1)"
proof -
  have "wf ((edges g)\<inverse>)"
    using finite_acyclic_wf_converse [OF finite_edges [OF assms(2)] assms(1)] .
  from collect_reaches_aux [OF this refl assms(2), of "[]" "[target]"] show ?thesis by (auto simp: Image_def)
qed

section \<open>The graph stays free of cycles\<close>

datatype sg_op = Send nat nat | Remove nat

text \<open>A run of the manager: \<open>None\<close> when a check failed (the program has ended) or a loop did not end.\<close>

fun sg_step :: "sg_op \<Rightarrow> send_graph \<Rightarrow> send_graph option" where
  "sg_step (Send s t) g = (case RegisterSendAndCheckForCycles s t g of Some (Inr g1) \<Rightarrow> Some g1 | _ \<Rightarrow> None)"
| "sg_step (Remove t) g = Some (RemoveFromSendGraph t g)"

fun sg_run :: "sg_op list \<Rightarrow> send_graph option" where
  "sg_run [] = Some Map.empty"
| "sg_run (o1 # os) = do { g \<leftarrow> sg_run os; sg_step o1 g }"

lemma edges_send: "edges (g(s \<mapsto> List.insert t (sg_get g s))) = insert (s, t) (edges g)"
  by (auto simp: edges_def sg_get_def split: if_splits option.splits)

lemma sg_get_remove: "sg_get (RemoveFromSendGraph x g) y = (if y = x then [] else filter (\<lambda>t. t \<noteq> x) (sg_get g y))"
  unfolding sg_get_def RemoveFromSendGraph_def by (cases "g y") simp_all

lemma edges_remove: "edges (RemoveFromSendGraph x g) \<subseteq> edges g"
  unfolding edges_def sg_get_remove by (auto split: if_splits)

lemma dom_remove: "dom (RemoveFromSendGraph x g) \<subseteq> dom g"
proof
  fix y assume "y \<in> dom (RemoveFromSendGraph x g)"
  then show "y \<in> dom g" by (cases "g y") (auto simp: RemoveFromSendGraph_def split: if_splits)
qed

lemma Register_cases:
  assumes "acyclic (edges g)" "finite (dom g)"
  shows "if (t, s) \<in> (edges g)\<^sup>* then RegisterSendAndCheckForCycles s t g = Some (Inl ''send loop'')
    else \<exists>g1. RegisterSendAndCheckForCycles s t g = Some (Inr g1) \<and> edges g1 = insert (s, t) (edges g) \<and> finite (dom g1)"
proof -
  obtain l g1 where l: "collect_targets [] [t] g = Some (l, g1)" "set l = {x. (t, x) \<in> (edges g)\<^sup>*}"
      "edges g1 = edges g" "finite (dom g1)"
    using collect_reaches [OF assms] by blast
  then show ?thesis
    using edges_send [of g1 s t] by (simp add: RegisterSendAndCheckForCycles_def)
qed

lemma sg_run_acyclic: "sg_run os = Some g \<Longrightarrow> acyclic (edges g) \<and> finite (dom g)"
proof (induction os arbitrary: g)
  case Nil
  then show ?case by (auto simp: edges_def sg_get_def acyclic_def trancl_empty)
next
  case (Cons o1 os)
  then obtain h where h: "sg_run os = Some h" "sg_step o1 h = Some g" by (auto split: bind_splits)
  note ih = Cons.IH [OF h(1)]
  show ?case
  proof (cases o1)
    case (Send s t)
    then have "(t, s) \<notin> (edges h)\<^sup>*" "edges g = insert (s, t) (edges h)" "finite (dom g)"
      using h(2) Register_cases [of h t s] ih by (auto split: if_splits option.splits sum.splits)
    then show ?thesis using ih by (simp add: acyclic_insert)
  next
    case (Remove x)
    then have g: "g = RemoveFromSendGraph x h" using h(2) by simp
    show ?thesis
      using ih acyclic_subset [OF _ edges_remove, of h x] finite_subset [OF dom_remove, of h x] unfolding g by blast
  qed
qed

text \<open>
  C20. The check for send loops is exact and always ends. After any sequence of registered sends and removed
  threads that the checks let pass, the graph has no cycle; the next registration ends, is refused
  exactly when the target can already reach the source, and otherwise adds exactly that edge.
\<close>

theorem send_loops_are_refused:
  assumes "sg_run os = Some g"
  shows "acyclic (edges g) \<and>
    (if (t, s) \<in> (edges g)\<^sup>* then RegisterSendAndCheckForCycles s t g = Some (Inl ''send loop'')
     else \<exists>g1. RegisterSendAndCheckForCycles s t g = Some (Inr g1) \<and> edges g1 = insert (s, t) (edges g))"
  using sg_run_acyclic [OF assms] Register_cases [of g t s] by (auto split: if_splits)

theorem send_loops_are_refused_witness:
  "\<exists>g. sg_run [Send 2 3, Send 1 2] = Some g \<and> RegisterSendAndCheckForCycles 3 1 g = Some (Inl ''send loop'')"
proof -
  have "\<exists>g. sg_run [Send 2 3, Send 1 2] = Some g \<and> {(1, 2), (2, 3)} \<subseteq> edges g"
    by (simp add: RegisterSendAndCheckForCycles_def collect_simps sg_get_def sg_access_def edges_def)
  then obtain g where g: "sg_run [Send 2 3, Send 1 2] = Some g" "(1, 2) \<in> edges g" "(2, 3) \<in> edges g" by blast
  then have "(1, 3) \<in> (edges g)\<^sup>*" by (meson r_into_rtrancl rtrancl_into_rtrancl)
  then show ?thesis using send_loops_are_refused [OF g(1), of 1 3] g(1) by auto
qed

end
