(* ===== verification/SigSlot.thy ===== *)
theory SigSlot
  imports XrtcPrelude "HOL-Library.Monad_Syntax"
begin

text \<open>
  The signals and slots of \<^verbatim>\<open>rtc_base/third_party/sigslot/sigslot.h\<close>, through which WebRTC objects call one
  another. A signal keeps a list of connections, and an object with slots keeps the set of signals that
  are connected to it, so that whichever of the two is destroyed first can tell the other. A signal may
  be changed by the very slots it calls: the list has an iterator that the removal of an element moves.

  Signals and objects have addresses; an element of the list (a \<^verbatim>\<open>std::list\<close> node) has an identity that
  stays while the element exists, and an iterator is that identity or, at the end, \<open>None\<close>. Using a signal
  or an object that does not exist, or an iterator whose element is gone, has no value. What a slot does
  when it is called is a parameter, a list of operations; an emission is a frame on a stack, so that the
  slots it calls can change the signal or emit again.
\<close>

section \<open>The state\<close>

record opaque_connection =
  oc_node :: nat
  pdest :: nat
  pmethod :: nat

record signal_base =
  m_connected_slots :: "opaque_connection list"
  m_current_iterator :: "nat option"

text \<open>\<open>ss_slots\<close> gives the \<^verbatim>\<open>m_senders\<close> of each object, a \<^verbatim>\<open>std::set\<close> in the order of addresses.\<close>

record sig_world =
  ss_signals :: "nat \<rightharpoonup> signal_base"
  ss_slots :: "nat \<rightharpoonup> nat list"
  ss_next :: nat

definition signal_init :: signal_base where
  "signal_init = \<lparr>m_connected_slots = [], m_current_iterator = None\<rparr>"

definition sender_insert :: "nat \<Rightarrow> nat list \<Rightarrow> nat list" where
  "sender_insert s xs = (if s \<in> set xs then xs else insort s xs)"

definition put_signal :: "nat \<Rightarrow> signal_base \<Rightarrow> sig_world \<Rightarrow> sig_world" where
  "put_signal s b w = w\<lparr>ss_signals := (ss_signals w)(s \<mapsto> b)\<rparr>"

definition put_senders :: "nat \<Rightarrow> nat list \<Rightarrow> sig_world \<Rightarrow> sig_world" where
  "put_senders d xs w = w\<lparr>ss_slots := (ss_slots w)(d \<mapsto> xs)\<rparr>"

section \<open>Objects with slots\<close>

definition do_signal_connect :: "nat \<Rightarrow> nat \<Rightarrow> sig_world \<Rightarrow> sig_world option" where
  "do_signal_connect d sender w = do { xs \<leftarrow> ss_slots w d; Some (put_senders d (sender_insert sender xs) w) }"

definition do_signal_disconnect :: "nat \<Rightarrow> nat \<Rightarrow> sig_world \<Rightarrow> sig_world option" where
  "do_signal_disconnect d sender w = do { xs \<leftarrow> ss_slots w d; Some (put_senders d (removeAll sender xs) w) }"

section \<open>Signals\<close>

text \<open>\<^verbatim>\<open>std::list::erase\<close> returns the iterator behind the element; it replaces the current one if that was erased.\<close>

definition next_node :: "nat \<Rightarrow> opaque_connection list \<Rightarrow> nat option" where
  "next_node n cs = (case dropWhile (\<lambda>c. oc_node c \<noteq> n) cs of _ # d # _ \<Rightarrow> Some (oc_node d) | _ \<Rightarrow> None)"

definition erase_conn :: "nat \<Rightarrow> signal_base \<Rightarrow> signal_base" where
  "erase_conn n b =
     b\<lparr>m_connected_slots := filter (\<lambda>c. oc_node c \<noteq> n) (m_connected_slots b),
       m_current_iterator :=
         (if m_current_iterator b = Some n then next_node n (m_connected_slots b) else m_current_iterator b)\<rparr>"

definition push_back :: "nat \<Rightarrow> nat \<Rightarrow> nat \<Rightarrow> sig_world \<Rightarrow> (opaque_connection \<times> sig_world) option" where
  "push_back s d m w = do {
     b \<leftarrow> ss_signals w s;
     let c = \<lparr>oc_node = ss_next w, pdest = d, pmethod = m\<rparr>;
     Some (c, put_signal s (b\<lparr>m_connected_slots := m_connected_slots b @ [c]\<rparr>) (w\<lparr>ss_next := Suc (ss_next w)\<rparr>))
   }"

definition connect :: "nat \<Rightarrow> nat \<Rightarrow> nat \<Rightarrow> sig_world \<Rightarrow> sig_world option" where
  "connect s pclass pmemfun w = do { (c, w1) \<leftarrow> push_back s pclass pmemfun w; do_signal_connect pclass s w1 }"

definition sig_is_empty :: "nat \<Rightarrow> sig_world \<Rightarrow> bool option" where
  "sig_is_empty s w = do { b \<leftarrow> ss_signals w s; Some (m_connected_slots b = []) }"

definition connected :: "nat \<Rightarrow> nat \<Rightarrow> sig_world \<Rightarrow> bool option" where
  "connected s pclass w = do { b \<leftarrow> ss_signals w s; Some (\<exists>c\<in>set (m_connected_slots b). pdest c = pclass) }"

definition disconnect :: "nat \<Rightarrow> nat \<Rightarrow> sig_world \<Rightarrow> sig_world option" where
  "disconnect s pclass w = do {
     b \<leftarrow> ss_signals w s;
     case find (\<lambda>c. pdest c = pclass) (m_connected_slots b) of
       None \<Rightarrow> Some w
     | Some c \<Rightarrow> do_signal_disconnect pclass s (put_signal s (erase_conn (oc_node c) b) w)
   }"

text \<open>\<^verbatim>\<open>_signal_base::disconnect_all\<close>: \<^verbatim>\<open>pop_front\<close> leaves the rest of the list.\<close>

fun disconnect_loop :: "nat \<Rightarrow> opaque_connection list \<Rightarrow> sig_world \<Rightarrow> sig_world option" where
  "disconnect_loop s [] w = Some w"
| "disconnect_loop s (c # cs) w = do {
     b \<leftarrow> ss_signals w s;
     w1 \<leftarrow> do_signal_disconnect (pdest c) s (put_signal s (b\<lparr>m_connected_slots := cs\<rparr>) w);
     disconnect_loop s cs w1
   }"

definition disconnect_all :: "nat \<Rightarrow> sig_world \<Rightarrow> sig_world option" where
  "disconnect_all s w = do {
     b \<leftarrow> ss_signals w s;
     w1 \<leftarrow> disconnect_loop s (m_connected_slots b) w;
     b1 \<leftarrow> ss_signals w1 s;
     Some (put_signal s (b1\<lparr>m_current_iterator := None\<rparr>) w1)
   }"

fun slot_disconnect_loop :: "nat \<Rightarrow> opaque_connection list \<Rightarrow> signal_base \<Rightarrow> signal_base" where
  "slot_disconnect_loop pslot [] b = b"
| "slot_disconnect_loop pslot (c # cs) b =
     slot_disconnect_loop pslot cs (if pdest c = pslot then erase_conn (oc_node c) b else b)"

definition do_slot_disconnect :: "nat \<Rightarrow> nat \<Rightarrow> sig_world \<Rightarrow> sig_world option" where
  "do_slot_disconnect s pslot w = do {
     b \<leftarrow> ss_signals w s;
     Some (put_signal s (slot_disconnect_loop pslot (m_connected_slots b) b) w)
   }"

text \<open>The loop of \<^verbatim>\<open>do_slot_duplicate\<close> also visits the elements that it appends, since the end stays the end.\<close>

partial_function (option) slot_duplicate_loop ::
    "nat \<Rightarrow> nat \<Rightarrow> nat \<Rightarrow> opaque_connection list \<Rightarrow> sig_world \<Rightarrow> sig_world option" where
  "slot_duplicate_loop s oldtarget newtarget rest w =
     (case rest of
        [] \<Rightarrow> Some w
      | c # cs \<Rightarrow>
          if pdest c = oldtarget then
            Option.bind (push_back s newtarget (pmethod c) w)
              (\<lambda>p. slot_duplicate_loop s oldtarget newtarget (cs @ [fst p]) (snd p))
          else slot_duplicate_loop s oldtarget newtarget cs w)"

definition do_slot_duplicate :: "nat \<Rightarrow> nat \<Rightarrow> nat \<Rightarrow> sig_world \<Rightarrow> sig_world option" where
  "do_slot_duplicate s oldtarget newtarget w = do {
     b \<leftarrow> ss_signals w s;
     slot_duplicate_loop s oldtarget newtarget (m_connected_slots b) w
   }"

section \<open>Construction and destruction\<close>

text \<open>Addresses of new objects come from the allocator; \<^verbatim>\<open>new\<close> at an address in use has no value.\<close>

definition new_signal :: "nat \<Rightarrow> sig_world \<Rightarrow> sig_world option" where
  "new_signal s w = (if ss_signals w s = None then Some (put_signal s signal_init w) else None)"

fun copy_connections :: "nat \<Rightarrow> opaque_connection list \<Rightarrow> sig_world \<Rightarrow> sig_world option" where
  "copy_connections s [] w = Some w"
| "copy_connections s (c # cs) w = do {
     w1 \<leftarrow> do_signal_connect (pdest c) s w;
     (c1, w2) \<leftarrow> push_back s (pdest c) (pmethod c) w1;
     copy_connections s cs w2
   }"

definition copy_signal :: "nat \<Rightarrow> nat \<Rightarrow> sig_world \<Rightarrow> sig_world option" where
  "copy_signal s from_sig w = do {
     w1 \<leftarrow> new_signal s w;
     b \<leftarrow> ss_signals w from_sig;
     copy_connections s (m_connected_slots b) w1
   }"

definition delete_signal :: "nat \<Rightarrow> sig_world \<Rightarrow> sig_world option" where
  "delete_signal s w = do { w1 \<leftarrow> disconnect_all s w; Some (w1\<lparr>ss_signals := (ss_signals w1)(s := None)\<rparr>) }"

definition new_slots :: "nat \<Rightarrow> sig_world \<Rightarrow> sig_world option" where
  "new_slots d w = (if ss_slots w d = None then Some (put_senders d [] w) else None)"

fun copy_senders :: "nat \<Rightarrow> nat \<Rightarrow> nat list \<Rightarrow> sig_world \<Rightarrow> sig_world option" where
  "copy_senders d old [] w = Some w"
| "copy_senders d old (s # ss) w = do {
     w1 \<leftarrow> do_slot_duplicate s old d w;
     w2 \<leftarrow> do_signal_connect d s w1;
     copy_senders d old ss w2
   }"

definition copy_slots :: "nat \<Rightarrow> nat \<Rightarrow> sig_world \<Rightarrow> sig_world option" where
  "copy_slots d old w = do {
     w1 \<leftarrow> new_slots d w;
     senders \<leftarrow> ss_slots w old;
     copy_senders d old senders w1
   }"

fun slot_disconnect_all :: "nat \<Rightarrow> nat list \<Rightarrow> sig_world \<Rightarrow> sig_world option" where
  "slot_disconnect_all d [] w = Some w"
| "slot_disconnect_all d (s # ss) w = do { w1 \<leftarrow> do_slot_disconnect s d w; slot_disconnect_all d ss w1 }"

partial_function (option) do_disconnect_all :: "nat \<Rightarrow> sig_world \<Rightarrow> sig_world option" where
  "do_disconnect_all d w =
     Option.bind (ss_slots w d) (\<lambda>senders.
       if senders = [] then Some w
       else Option.bind (slot_disconnect_all d senders (put_senders d [] w)) (do_disconnect_all d))"

definition delete_slots :: "nat \<Rightarrow> sig_world \<Rightarrow> sig_world option" where
  "delete_slots d w = do { w1 \<leftarrow> do_disconnect_all d w; Some (w1\<lparr>ss_slots := (ss_slots w1)(d := None)\<rparr>) }"

declare slot_duplicate_loop.simps [code] do_disconnect_all.simps [code]

section \<open>Emission\<close>

definition node_at :: "opaque_connection list \<Rightarrow> nat option" where
  "node_at cs = (case cs of [] \<Rightarrow> None | c # _ \<Rightarrow> Some (oc_node c))"

definition emit_begin :: "nat \<Rightarrow> sig_world \<Rightarrow> sig_world option" where
  "emit_begin s w = do {
     b \<leftarrow> ss_signals w s;
     Some (put_signal s (b\<lparr>m_current_iterator := node_at (m_connected_slots b)\<rparr>) w)
   }"

text \<open>One test of the loop of \<^verbatim>\<open>emit\<close>: the connection to call next, after the iterator has been advanced.\<close>

definition emit_next :: "nat \<Rightarrow> sig_world \<Rightarrow> (opaque_connection option \<times> sig_world) option" where
  "emit_next s w = do {
     b \<leftarrow> ss_signals w s;
     case m_current_iterator b of
       None \<Rightarrow> Some (None, w)
     | Some n \<Rightarrow>
         (case dropWhile (\<lambda>c. oc_node c \<noteq> n) (m_connected_slots b) of
            [] \<Rightarrow> None
          | c # cs \<Rightarrow> Some (Some c, put_signal s (b\<lparr>m_current_iterator := node_at cs\<rparr>) w))
   }"

datatype ss_op = Connect nat nat nat | Disconnect nat nat | Disconnect_all nat | Slots_disconnect_all nat
  | New_signal nat | Copy_signal nat nat | Delete_signal nat
  | New_slots nat | Copy_slots nat nat | Delete_slots nat | Emit nat

datatype frame = F_op ss_op | F_emit nat

fun ss_apply :: "ss_op \<Rightarrow> sig_world \<Rightarrow> sig_world option" where
  "ss_apply (Connect s d m) w = connect s d m w"
| "ss_apply (Disconnect s d) w = disconnect s d w"
| "ss_apply (Disconnect_all s) w = disconnect_all s w"
| "ss_apply (Slots_disconnect_all d) w = do_disconnect_all d w"
| "ss_apply (New_signal s) w = new_signal s w"
| "ss_apply (Copy_signal s s0) w = copy_signal s s0 w"
| "ss_apply (Delete_signal s) w = delete_signal s w"
| "ss_apply (New_slots d) w = new_slots d w"
| "ss_apply (Copy_slots d d0) w = copy_slots d d0 w"
| "ss_apply (Delete_slots d) w = delete_slots d w"
| "ss_apply (Emit s) w = emit_begin s w"

type_synonym slot_bodies = "nat \<Rightarrow> nat \<Rightarrow> sig_world \<Rightarrow> ss_op list"
type_synonym sig_config = "frame list \<times> sig_world \<times> (nat \<times> opaque_connection) list"

text \<open>
  One step of the program: an operation, or one test of the loop of an emission. Calling a slot pushes
  the operations of its body; calling a slot of an object that does not exist has no value.
\<close>

fun sig_step :: "slot_bodies \<Rightarrow> sig_config \<Rightarrow> sig_config option" where
  "sig_step bodies ([], w, calls) = None"
| "sig_step bodies (F_op p # fs, w, calls) = do {
     w1 \<leftarrow> ss_apply p w;
     Some ((case p of Emit s \<Rightarrow> F_emit s # fs | _ \<Rightarrow> fs), w1, calls)
   }"
| "sig_step bodies (F_emit s # fs, w, calls) = do {
     (next_conn, w1) \<leftarrow> emit_next s w;
     case next_conn of
       None \<Rightarrow> Some (fs, w1, calls)
     | Some c \<Rightarrow> do {
         senders \<leftarrow> ss_slots w1 (pdest c);
         Some (map F_op (bodies (pdest c) (pmethod c) w1) @ F_emit s # fs, w1, calls @ [(s, c)])
       }
   }"

section \<open>Iterators\<close>

text \<open>The elements from the current iterator on: what an emission has yet to call.\<close>

definition to_call :: "signal_base \<Rightarrow> opaque_connection list" where
  "to_call b =
     (case m_current_iterator b of None \<Rightarrow> [] | Some n \<Rightarrow> dropWhile (\<lambda>c. oc_node c \<noteq> n) (m_connected_slots b))"

definition conns_ok :: "signal_base \<Rightarrow> bool" where
  "conns_ok b \<longleftrightarrow> distinct (map oc_node (m_connected_slots b)) \<and>
     (case m_current_iterator b of None \<Rightarrow> True | Some n \<Rightarrow> n \<in> oc_node ` set (m_connected_slots b))"

lemma drop_to_node: "oc_node c \<notin> oc_node ` set xs \<Longrightarrow> dropWhile (\<lambda>d. oc_node d \<noteq> oc_node c) (xs @ c # ys) = c # ys"
  by (induction xs) auto

lemma at_iterator:
  assumes "conns_ok b" "m_current_iterator b = Some n"
  obtains xs c ys where "m_connected_slots b = xs @ c # ys" "oc_node c = n" "to_call b = c # ys"
    "n \<notin> oc_node ` set xs" "n \<notin> oc_node ` set ys" "distinct (map oc_node ys)" "oc_node ` set xs \<inter> oc_node ` set ys = {}"
proof -
  obtain c where "c \<in> set (m_connected_slots b)" "oc_node c = n" using assms by (auto simp: conns_ok_def)
  then obtain xs ys where s: "m_connected_slots b = xs @ c # ys" by (meson split_list)
  then have d: "n \<notin> oc_node ` set xs" "n \<notin> oc_node ` set ys" "distinct (map oc_node ys)" "oc_node ` set xs \<inter> oc_node ` set ys = {}"
    using assms(1) \<open>oc_node c = n\<close> by (auto simp: conns_ok_def)
  have "to_call b = c # ys" using drop_to_node [of c xs ys] d(1) s \<open>oc_node c = n\<close> assms(2) by (simp add: to_call_def)
  then show ?thesis using that s \<open>oc_node c = n\<close> d by blast
qed

lemma filter_nodes_id: "n \<notin> oc_node ` set xs \<Longrightarrow> filter (\<lambda>c. oc_node c \<noteq> n) xs = xs"
  by (rule filter_True) auto

lemma to_call_erase:
  assumes "conns_ok b"
  shows "conns_ok (erase_conn n b)" "to_call (erase_conn n b) = filter (\<lambda>c. oc_node c \<noteq> n) (to_call b)"
proof -
  have d: "distinct (map oc_node (filter (\<lambda>c. oc_node c \<noteq> n) (m_connected_slots b)))"
    using assms by (simp add: conns_ok_def distinct_map_filter)
  have "conns_ok (erase_conn n b) \<and> to_call (erase_conn n b) = filter (\<lambda>c. oc_node c \<noteq> n) (to_call b)"
  proof (cases "m_current_iterator b")
    case None
    then show ?thesis using d by (simp add: conns_ok_def erase_conn_def to_call_def)
  next
    case (Some m)
    obtain xs c ys where s: "m_connected_slots b = xs @ c # ys" "oc_node c = m" "to_call b = c # ys"
        "m \<notin> oc_node ` set xs" "m \<notin> oc_node ` set ys" "oc_node ` set xs \<inter> oc_node ` set ys = {}"
      using at_iterator [OF assms Some] by metis
    show ?thesis
    proof (cases "m = n")
      case False
      have "dropWhile (\<lambda>d. oc_node d \<noteq> m) (filter (\<lambda>c. oc_node c \<noteq> n) xs @ c # filter (\<lambda>c. oc_node c \<noteq> n) ys)
          = c # filter (\<lambda>c. oc_node c \<noteq> n) ys"
        using drop_to_node [of c "filter (\<lambda>c. oc_node c \<noteq> n) xs"] s(2,4) by auto
      then show ?thesis using False Some s d by (auto simp: conns_ok_def erase_conn_def to_call_def)
    next
      case True
      have f: "filter (\<lambda>c. oc_node c \<noteq> n) (m_connected_slots b) = xs @ ys" "filter (\<lambda>c. oc_node c \<noteq> n) (to_call b) = ys"
        using s True by (simp_all add: filter_nodes_id)
      have nn: "next_node n (m_connected_slots b) = node_at ys"
        using drop_to_node [of c xs ys] s(1,2,4) True by (cases ys) (simp_all add: next_node_def node_at_def)
      have "to_call (erase_conn n b) = ys"
      proof (cases ys)
        case (Cons e zs)
        then have "oc_node e \<notin> oc_node ` set xs" using s(6) by auto
        then show ?thesis
          using drop_to_node [of e xs zs] Cons nn f(1) Some True by (simp add: to_call_def erase_conn_def node_at_def)
      qed (use nn f(1) Some True in \<open>simp add: to_call_def erase_conn_def node_at_def\<close>)
      moreover have "conns_ok (erase_conn n b)"
        using d nn f(1) Some True by (cases ys) (simp_all add: conns_ok_def erase_conn_def node_at_def)
      ultimately show ?thesis using f(2) by simp
    qed
  qed
  then show "conns_ok (erase_conn n b)" "to_call (erase_conn n b) = filter (\<lambda>c. oc_node c \<noteq> n) (to_call b)"
    by simp_all
qed

lemma to_call_subset: "set (to_call b) \<subseteq> set (m_connected_slots b)"
  by (auto simp: to_call_def dest: set_dropWhileD split: option.splits)


text \<open>The removal loop erases exactly the connections to the object.\<close>

lemma slot_disconnect_loop:
  "conns_ok b \<Longrightarrow> set (m_connected_slots b) \<inter> {c. pdest c = d} \<subseteq> set cs \<Longrightarrow> set cs \<subseteq> set (m_connected_slots b0)
    \<Longrightarrow> distinct (map oc_node (m_connected_slots b0)) \<Longrightarrow> set (m_connected_slots b) \<subseteq> set (m_connected_slots b0) \<Longrightarrow>
    conns_ok (slot_disconnect_loop d cs b) \<and>
    set (m_connected_slots (slot_disconnect_loop d cs b)) = {c \<in> set (m_connected_slots b). pdest c \<noteq> d} \<and>
    set (to_call (slot_disconnect_loop d cs b)) = {c \<in> set (to_call b). pdest c \<noteq> d}"
proof (induction cs arbitrary: b)
  case Nil
  then show ?case using to_call_subset [of b] by auto
next
  case (Cons c cs)
  let ?b = "if pdest c = d then erase_conn (oc_node c) b else b"
  have uniq: "e = c" if "e \<in> set (m_connected_slots b)" "oc_node e = oc_node c" for e
    using that Cons.prems(3-5) inj_onD [of oc_node "set (m_connected_slots b0)" e c] by (auto simp: distinct_map)
  have s: "set (m_connected_slots ?b) = {e \<in> set (m_connected_slots b). \<not> (pdest c = d \<and> e = c)}"
    "set (to_call ?b) = {e \<in> set (to_call b). \<not> (pdest c = d \<and> e = c)}"
    using uniq to_call_erase(2) [OF Cons.prems(1)] to_call_subset [of b] by (auto simp: erase_conn_def)
  have ok: "conns_ok ?b" using Cons.prems(1) to_call_erase(1) by simp
  have "conns_ok (slot_disconnect_loop d cs ?b) \<and>
    set (m_connected_slots (slot_disconnect_loop d cs ?b)) = {c \<in> set (m_connected_slots ?b). pdest c \<noteq> d} \<and>
    set (to_call (slot_disconnect_loop d cs ?b)) = {c \<in> set (to_call ?b). pdest c \<noteq> d}"
    by (rule Cons.IH [OF ok]) (use Cons.prems s(1) in auto)
  then show ?case using s by auto
qed

section \<open>Both sides of a connection\<close>















lemmas put_simps [simp] = put_signal_def put_senders_def







text \<open>\<^verbatim>\<open>disconnect\<close> removes one element but the sender altogether: right when there is at most one element.\<close>

definition connection_count :: "sig_world \<Rightarrow> nat \<Rightarrow> nat \<Rightarrow> nat" where
  "connection_count w s d =
     (case ss_signals w s of None \<Rightarrow> 0 | Some b \<Rightarrow> length (filter (\<lambda>c. pdest c = d) (m_connected_slots b)))"

















section \<open>Well-behaved programs\<close>

text \<open>
  What the code leaves to its users: they name signals and objects that exist, they do not destroy a
  signal that is being emitted, and they do not \<^verbatim>\<open>disconnect\<close> an object with two connections.
\<close>

fun op_ok :: "ss_op \<Rightarrow> frame list \<Rightarrow> sig_world \<Rightarrow> bool" where
  "op_ok (Connect s d m) fs w \<longleftrightarrow> ss_signals w s \<noteq> None \<and> ss_slots w d \<noteq> None"
| "op_ok (Disconnect s d) fs w \<longleftrightarrow> ss_signals w s \<noteq> None \<and> connection_count w s d \<le> 1"
| "op_ok (Disconnect_all s) fs w \<longleftrightarrow> ss_signals w s \<noteq> None"
| "op_ok (Slots_disconnect_all d) fs w \<longleftrightarrow> ss_slots w d \<noteq> None"
| "op_ok (New_signal s) fs w \<longleftrightarrow> ss_signals w s = None"
| "op_ok (Copy_signal s s0) fs w \<longleftrightarrow> ss_signals w s = None \<and> ss_signals w s0 \<noteq> None"
| "op_ok (Delete_signal s) fs w \<longleftrightarrow> ss_signals w s \<noteq> None \<and> F_emit s \<notin> set fs"
| "op_ok (New_slots d) fs w \<longleftrightarrow> ss_slots w d = None"
| "op_ok (Copy_slots d d0) fs w \<longleftrightarrow> ss_slots w d = None \<and> ss_slots w d0 \<noteq> None"
| "op_ok (Delete_slots d) fs w \<longleftrightarrow> ss_slots w d \<noteq> None"
| "op_ok (Emit s) fs w \<longleftrightarrow> ss_signals w s \<noteq> None"






section \<open>Emissions are safe\<close>




definition config_ok :: "sig_config \<Rightarrow> bool" where
  "config_ok = (\<lambda>(fs, w, calls). case fs of F_op p # rest \<Rightarrow> op_ok p rest w | _ \<Rightarrow> True)"

definition sig_world_init :: sig_world where
  "sig_world_init = \<lparr>ss_signals = Map.empty, ss_slots = Map.empty, ss_next = 0\<rparr>"






text \<open>Running a program for some steps, as long as it behaves.\<close>

fun sig_exec :: "slot_bodies \<Rightarrow> nat \<Rightarrow> sig_config \<Rightarrow> sig_config option" where
  "sig_exec bodies 0 x = Some x"
| "sig_exec bodies (Suc n) x = (if config_ok x then Option.bind (sig_step bodies x) (sig_exec bodies n) else None)"





text \<open>
  With two connections, \<^verbatim>\<open>disconnect\<close> forgets the sender but keeps a connection: when the object is
  destroyed, the signal keeps a connection to it, and the next emission calls the destroyed object.
\<close>

lemma emit_next_slots:
  assumes "emit_next s w = Some (x, w1)"
  shows "ss_slots w1 = ss_slots w"
proof -
  obtain b where b: "ss_signals w s = Some b" using assms by (cases "ss_signals w s") (simp_all add: emit_next_def)
  show ?thesis
  proof (cases "m_current_iterator b")
    case (Some n)
    then show ?thesis
      using assms b by (cases "dropWhile (\<lambda>c. oc_node c \<noteq> n) (m_connected_slots b)") (auto simp: emit_next_def)
  qed (use assms b in \<open>simp add: emit_next_def\<close>)
qed

definition double_connection :: "ss_op list" where
  "double_connection = [New_signal 1, New_slots 5, Connect 1 5 1, Connect 1 5 2, Disconnect 1 5, Delete_slots 5, Emit 1]"

lemma double_connection_dangles:
  "\<exists>w. fold (\<lambda>p w. Option.bind w (ss_apply p)) double_connection (Some sig_world_init) = Some w \<and>
     ss_slots w 5 = None \<and> sig_step bodies ([F_emit 1], w, []) = None"
proof -
  let ?w = "fold (\<lambda>p w. Option.bind w (ss_apply p)) double_connection (Some sig_world_init)"
  have "map_option (\<lambda>w. (ss_slots w 5, map_option (\<lambda>p. map_option pdest (fst p)) (emit_next 1 w))) ?w = Some (None, Some (Some 5))"
    by code_simp
  then obtain w c w1 where w: "?w = Some w" "ss_slots w 5 = None" "emit_next 1 w = Some (Some c, w1)" "pdest c = 5"
    by (auto simp: map_option_case split: option.splits)
  have "sig_step bodies ([F_emit 1], w, []) = None" using w(2-4) emit_next_slots [OF w(3)] by simp
  then show ?thesis using w(1,2) by blast
qed

section \<open>Emissions reach everyone\<close>














text \<open>
  A slot that emits the same signal again: the inner emission leaves the shared iterator at the end, so
  the outer one ends there. The second object is called once although the signal was emitted twice.
\<close>

definition nested_bodies :: slot_bodies where
  "nested_bodies d m w = (if m = 1 \<and> ss_slots w 9 = None then [New_slots 9, Emit 1] else [])"

lemma nested_emission_cuts_outer:
  "map_option (\<lambda>(fs, w, calls). (fs, map (pdest \<circ> snd) calls))
     (sig_exec nested_bodies 13
        (map F_op [New_signal 1, New_slots 5, New_slots 6, Connect 1 5 1, Connect 1 6 0, Emit 1], sig_world_init, []))
   = Some ([], [5, 5, 6])"
  by code_simp

end
