(* ===== verification/TimeUnits.thy ===== *)
theory TimeUnits
  imports TimeUtils StringNumber "HOL-Library.Monad_Syntax"
begin

text \<open>
  \<^verbatim>\<open>rtc_base/units/unit_base.h\<close> with its two instances, \<^verbatim>\<open>TimeDelta\<close> and \<^verbatim>\<open>Timestamp\<close> of \<^verbatim>\<open>api/units\<close>, and the
  conversion to NTP time of \<^verbatim>\<open>system_wrappers/source/clock.cc\<close>. A value is a 64-bit count of microseconds in
  which the largest and the smallest number stand for the infinities. An operation has no value where
  one of its \<^verbatim>\<open>RTC_DCHECK\<close>s fails (a build without checks goes on with a number of no meaning there) or
  where a signed number overflows. Only the integral overloads are modelled, not those for \<^verbatim>\<open>double\<close>.
\<close>

section \<open>Units\<close>

definition PlusInfinityVal :: int where "PlusInfinityVal = 2 ^ 63 - 1"
definition MinusInfinityVal :: int where "MinusInfinityVal = - (2 ^ 63)"

text \<open>The result of an operation on \<^verbatim>\<open>int64_t\<close>, which must not overflow.\<close>

definition i64 :: "int \<Rightarrow> int option" where
  "i64 x = (if MinusInfinityVal \<le> x \<and> x \<le> PlusInfinityVal then Some x else None)"

definition IsPlusInfinity :: "int \<Rightarrow> bool" where "IsPlusInfinity v \<longleftrightarrow> v = PlusInfinityVal"
definition IsMinusInfinity :: "int \<Rightarrow> bool" where "IsMinusInfinity v \<longleftrightarrow> v = MinusInfinityVal"

definition IsInfinite :: "int \<Rightarrow> bool" where
  "IsInfinite v \<longleftrightarrow> v = PlusInfinityVal \<or> v = MinusInfinityVal"

definition IsFinite :: "int \<Rightarrow> bool" where "IsFinite v \<longleftrightarrow> \<not> IsInfinite v"

text \<open>\<open>os\<close> is the \<^verbatim>\<open>one_sided\<close> of the unit.\<close>

definition FromValue :: "bool \<Rightarrow> int \<Rightarrow> int option" where
  "FromValue os v = (if (os \<longrightarrow> 0 \<le> v) \<and> MinusInfinityVal < v \<and> v < PlusInfinityVal then Some v else None)"

definition FromFraction :: "bool \<Rightarrow> int \<Rightarrow> int \<Rightarrow> int option" where
  "FromFraction os denominator v =
     (if (os \<longrightarrow> 0 \<le> v) \<and> c_div MinusInfinityVal denominator < v \<and> v < c_div PlusInfinityVal denominator
      then i64 (v * denominator) else None)"

definition ToValue :: "int \<Rightarrow> int option" where
  "ToValue v = (if IsFinite v then Some v else None)"

definition ToValueOr :: "int \<Rightarrow> int \<Rightarrow> int" where
  "ToValueOr fallback v = (if IsFinite v then v else fallback)"

definition DivRoundPositiveToNearest :: "int \<Rightarrow> int \<Rightarrow> int option" where
  "DivRoundPositiveToNearest n d = do { x \<leftarrow> i64 (n + c_div d 2); Some (c_div x d) }"

definition DivRoundToNearest :: "int \<Rightarrow> int \<Rightarrow> int option" where
  "DivRoundToNearest n d = do { x \<leftarrow> i64 (n + (if 0 \<le> n then c_div d 2 else c_div (- d) 2)); Some (c_div x d) }"

definition ToFraction :: "bool \<Rightarrow> int \<Rightarrow> int \<Rightarrow> int option" where
  "ToFraction os denominator v =
     (if IsFinite v then (if os then DivRoundPositiveToNearest v denominator else DivRoundToNearest v denominator) else None)"

definition ToFractionOr :: "bool \<Rightarrow> int \<Rightarrow> int \<Rightarrow> int \<Rightarrow> int option" where
  "ToFractionOr os denominator fallback v =
     (if IsFinite v then (if os then DivRoundPositiveToNearest v denominator else DivRoundToNearest v denominator)
      else Some fallback)"

definition ToMultiple :: "int \<Rightarrow> int \<Rightarrow> int option" where
  "ToMultiple factor v = do {
     x \<leftarrow> ToValue v;
     if c_div MinusInfinityVal factor \<le> x \<and> x \<le> c_div PlusInfinityVal factor then i64 (x * factor) else None
   }"

section \<open>Differences of time\<close>

definition delta_mult :: "int \<Rightarrow> int \<Rightarrow> int option" where
  "delta_mult scalar v = do { x \<leftarrow> ToValue v; y \<leftarrow> i64 (x * scalar); FromValue False y }"

definition round_check :: "int \<Rightarrow> int \<Rightarrow> bool" where
  "round_check v resolution \<longleftrightarrow> IsFinite v \<and> IsFinite resolution \<and> 0 < resolution"

definition RoundTo :: "int \<Rightarrow> int \<Rightarrow> int option" where
  "RoundTo resolution v =
     (if round_check v resolution
      then do { x \<leftarrow> i64 (v + c_div resolution 2); delta_mult resolution (c_div x resolution) } else None)"

definition RoundUpTo :: "int \<Rightarrow> int \<Rightarrow> int option" where
  "RoundUpTo resolution v =
     (if round_check v resolution
      then do { x \<leftarrow> i64 (v + resolution); y \<leftarrow> i64 (x - 1); delta_mult resolution (c_div y resolution) } else None)"

definition RoundDownTo :: "int \<Rightarrow> int \<Rightarrow> int option" where
  "RoundDownTo resolution v =
     (if round_check v resolution then delta_mult resolution (c_div v resolution) else None)"

definition Clamped :: "int \<Rightarrow> int \<Rightarrow> int \<Rightarrow> int" where
  "Clamped min_value max_value v = max min_value (min v max_value)"

text \<open>
  The same scheme for the sum of two differences and of a time and a difference, and for the three kinds
  of subtraction: \<open>os\<close> is the kind of the result.
\<close>

definition unit_plus :: "bool \<Rightarrow> int \<Rightarrow> int \<Rightarrow> int option" where
  "unit_plus os a b =
     (if IsPlusInfinity a \<or> IsPlusInfinity b then
        (if IsMinusInfinity a \<or> IsMinusInfinity b then None else Some PlusInfinityVal)
      else if IsMinusInfinity a \<or> IsMinusInfinity b then
        (if IsPlusInfinity a \<or> IsPlusInfinity b then None else Some MinusInfinityVal)
      else do { x \<leftarrow> ToValue a; y \<leftarrow> ToValue b; z \<leftarrow> i64 (x + y); FromValue os z })"

definition unit_minus :: "bool \<Rightarrow> int \<Rightarrow> int \<Rightarrow> int option" where
  "unit_minus os a b =
     (if IsPlusInfinity a \<or> IsMinusInfinity b then
        (if IsMinusInfinity a \<or> IsPlusInfinity b then None else Some PlusInfinityVal)
      else if IsMinusInfinity a \<or> IsPlusInfinity b then
        (if IsPlusInfinity a \<or> IsMinusInfinity b then None else Some MinusInfinityVal)
      else do { x \<leftarrow> ToValue a; y \<leftarrow> ToValue b; z \<leftarrow> i64 (x - y); FromValue os z })"

definition delta_plus :: "int \<Rightarrow> int \<Rightarrow> int option" where "delta_plus = unit_plus False"
definition delta_minus :: "int \<Rightarrow> int \<Rightarrow> int option" where "delta_minus = unit_minus False"

definition delta_Seconds :: "int \<Rightarrow> int option" where "delta_Seconds = FromFraction False 1000000"
definition delta_Millis :: "int \<Rightarrow> int option" where "delta_Millis = FromFraction False 1000"
definition delta_Micros :: "int \<Rightarrow> int option" where "delta_Micros = FromValue False"
definition delta_seconds :: "int \<Rightarrow> int option" where "delta_seconds = ToFraction False 1000000"
definition delta_ms :: "int \<Rightarrow> int option" where "delta_ms = ToFraction False 1000"
definition delta_us :: "int \<Rightarrow> int option" where "delta_us = ToValue"
definition delta_ns :: "int \<Rightarrow> int option" where "delta_ns = ToMultiple 1000"

definition delta_Abs :: "int \<Rightarrow> int option" where
  "delta_Abs v = do { x \<leftarrow> delta_us v; if x < 0 then do { y \<leftarrow> i64 (- x); delta_Micros y } else Some v }"

section \<open>Times\<close>

definition ts_Seconds :: "int \<Rightarrow> int option" where "ts_Seconds = FromFraction True 1000000"
definition ts_Millis :: "int \<Rightarrow> int option" where "ts_Millis = FromFraction True 1000"
definition ts_Micros :: "int \<Rightarrow> int option" where "ts_Micros = FromValue True"
definition ts_seconds :: "int \<Rightarrow> int option" where "ts_seconds = ToFraction True 1000000"
definition ts_ms :: "int \<Rightarrow> int option" where "ts_ms = ToFraction True 1000"
definition ts_us :: "int \<Rightarrow> int option" where "ts_us = ToValue"
definition ts_plus :: "int \<Rightarrow> int \<Rightarrow> int option" where "ts_plus = unit_plus True"
definition ts_minus :: "int \<Rightarrow> int \<Rightarrow> int option" where "ts_minus = unit_minus True"
definition ts_diff :: "int \<Rightarrow> int \<Rightarrow> int option" where "ts_diff = unit_minus False"

section \<open>Text\<close>

definition c_rem :: "int \<Rightarrow> int \<Rightarrow> int" where
  "c_rem a b = a - c_div a b * b"

text \<open>What \<^verbatim>\<open>ToString\<close> puts into its builder, over a buffer of 64 bytes; it is the same for both units.\<close>

definition unit_pieces :: "bool \<Rightarrow> int \<Rightarrow> piece list option" where
  "unit_pieces os v =
     (if IsPlusInfinity v then Some [Text ''+inf ms'']
      else if IsMinusInfinity v then Some [Text ''-inf ms'']
      else do {
        us \<leftarrow> ToValue v;
        if us = 0 \<or> c_rem us 1000 \<noteq> 0 then Some [Number us, Text '' us'']
        else do {
          ms \<leftarrow> ToFraction os 1000 v;
          if c_rem ms 1000 \<noteq> 0 then Some [Number ms, Text '' ms'']
          else do { s \<leftarrow> ToFraction os 1000000 v; Some [Number s, Text '' s''] }
        }
      })"

definition unit_ToString :: "string \<Rightarrow> bool \<Rightarrow> int \<Rightarrow> string option" where
  "unit_ToString buf os v = do { ps \<leftarrow> unit_pieces os v; Some (ssb_str (fold ssb_put ps (SimpleStringBuilder buf))) }"

definition delta_ToString :: "string \<Rightarrow> int \<Rightarrow> string option" where
  "delta_ToString buf = unit_ToString buf False"

definition ts_ToString :: "string \<Rightarrow> int \<Rightarrow> string option" where
  "ts_ToString buf = unit_ToString buf True"

section \<open>NTP time\<close>

definition NtpTime :: "32 word \<Rightarrow> 32 word \<Rightarrow> 64 word" where
  "NtpTime seconds fractions = ucast seconds * 0x100000000 + ucast fractions"

definition ntp_seconds :: "64 word \<Rightarrow> 32 word" where "ntp_seconds v = ucast (v div 0x100000000)"
definition ntp_fractions :: "64 word \<Rightarrow> 32 word" where "ntp_fractions v = ucast (v mod 0x100000000)"
definition ntp_Valid :: "64 word \<Rightarrow> bool" where "ntp_Valid v \<longleftrightarrow> v \<noteq> 0"

definition NtpOffsetUsCalledOnce :: "int \<Rightarrow> int \<Rightarrow> int" where
  "NtpOffsetUsCalledOnce clock_time utc_time = utc_time - clock_time + 2208988800 * kNumMicrosecsPerSec"

definition TimeMicrosToNtp :: "int \<Rightarrow> int \<Rightarrow> 64 word" where
  "TimeMicrosToNtp ntp_offset_us time_us =
     (let time_ntp_us = time_us + ntp_offset_us;
          seconds = word_of_int (c_div time_ntp_us kNumMicrosecsPerSec);
          us_fractions = c_rem time_ntp_us kNumMicrosecsPerSec;
          fractions = word_of_int (c_div (us_fractions * 2 ^ 32) kNumMicrosecsPerSec)
      in NtpTime seconds fractions)"

section \<open>Scales\<close>

lemmas infinity_defs = PlusInfinityVal_def MinusInfinityVal_def
lemmas finite_defs = IsFinite_def IsInfinite_def IsPlusInfinity_def IsMinusInfinity_def

lemma i64_Some: "MinusInfinityVal \<le> x \<Longrightarrow> x \<le> PlusInfinityVal \<Longrightarrow> i64 x = Some x"
  by (simp add: i64_def)

lemma i64_iff: "i64 x = Some y \<longleftrightarrow> y = x \<and> MinusInfinityVal \<le> x \<and> x \<le> PlusInfinityVal"
  by (auto simp: i64_def)

lemma c_div_near: "0 < d \<Longrightarrow> 0 \<le> r \<Longrightarrow> r < d \<Longrightarrow> 0 \<le> n \<Longrightarrow> c_div (n * d + r) d = n"
  by (simp add: c_div_def div_pos_pos_trivial)

lemma c_div_neg: "a < 0 \<Longrightarrow> c_div a d = - c_div (- a) d"
  by (simp add: c_div_def)

lemma c_div_half: "0 < d \<Longrightarrow> c_div d 2 = d div 2" "0 < d \<Longrightarrow> c_div (- d) 2 = - (d div 2)"
  by (simp_all add: c_div_def)

lemma c_div_bounds:
  assumes "0 < d" "0 \<le> n"
  shows "c_div n d * d \<le> n \<and> n < c_div n d * d + d"
proof -
  have "0 \<le> n mod d" "n mod d < d" using assms(1) by simp_all
  then have "n div d * d \<le> n" "n < n div d * d + d" using div_mult_mod_eq [of n d] by linarith+
  then show ?thesis using assms(2) by (simp add: c_div_def)
qed

lemma c_div_bounds_neg: "0 < d \<Longrightarrow> n \<le> 0 \<Longrightarrow> n \<le> c_div n d * d \<and> c_div n d * d - d < n"
  using c_div_bounds [of d "- n"] by (cases "n = 0") (auto simp: c_div_def)

lemma FromFraction_range:
  assumes "FromFraction os d v = Some x" "0 < d"
  shows "x = v * d" "MinusInfinityVal + d \<le> x" "x \<le> PlusInfinityVal - d" "os \<longrightarrow> 0 \<le> v"
proof -
  have v: "- ((2 ^ 63) div d) < v" "v < (2 ^ 63 - 1) div d"
    using assms by (auto simp: FromFraction_def c_div_def infinity_defs split: if_splits)
  show x: "x = v * d" and "os \<longrightarrow> 0 \<le> v" using assms(1) by (auto simp: FromFraction_def i64_iff split: if_splits)
  have "v + 1 \<le> (2 ^ 63 - 1) div d" "- ((2 ^ 63) div d) + 1 \<le> v" using v by simp_all
  then have "(v + 1) * d \<le> (2 ^ 63 - 1) div d * d" "(- ((2 ^ 63) div d) + 1) * d \<le> v * d"
    using assms(2) by (simp_all add: mult_right_mono)
  moreover have "(2 ^ 63 - 1) div d * d \<le> 2 ^ 63 - 1" "(2 ^ 63) div d * d \<le> (2 ^ 63 :: int)"
    using c_div_bounds [OF assms(2), of "2 ^ 63 - 1"] c_div_bounds [OF assms(2), of "2 ^ 63"] by (simp_all add: c_div_def)
  ultimately show "MinusInfinityVal + d \<le> x" "x \<le> PlusInfinityVal - d"
    unfolding x infinity_defs by (simp_all add: algebra_simps)
qed

text \<open>Rounding division finds the nearest multiple, whichever sign the value has.\<close>

lemma half_bounds: "0 < d \<Longrightarrow> 2 * (d div 2) \<le> d \<and> d \<le> 2 * (d div 2) + (1 :: int)"
  by auto

lemma nearest: "x \<le> v + h \<Longrightarrow> v - h \<le> x \<Longrightarrow> 2 * h \<le> d \<Longrightarrow> 2 * \<bar>x - v\<bar> \<le> d" for x :: int
  by arith

lemma ToFraction_nearest:
  assumes "ToFraction os d v = Some q" "0 < d" "os \<longrightarrow> 0 \<le> v"
  shows "2 * \<bar>q * d - v\<bar> \<le> d"
proof (cases "0 \<le> v")
  case True
  then have q: "q = c_div (v + d div 2) d"
    using assms(1,2) by (auto simp: ToFraction_def DivRoundPositiveToNearest_def DivRoundToNearest_def i64_iff c_div_half
        bind_eq_Some_conv split: if_splits)
  have "q * d \<le> v + d div 2" "v + d div 2 < q * d + d"
    using c_div_bounds [OF assms(2), of "v + d div 2"] True assms(2) unfolding q by auto
  then show ?thesis using half_bounds [OF assms(2)] by (intro nearest [of _ _ "d div 2"]) auto
next
  case False
  then have q: "q = c_div (v + - (d div 2)) d"
    using assms by (auto simp: ToFraction_def DivRoundToNearest_def i64_iff c_div_half bind_eq_Some_conv split: if_splits)
  have "v + - (d div 2) \<le> q * d" "q * d - d < v + - (d div 2)"
    using c_div_bounds_neg [OF assms(2), of "v + - (d div 2)"] False assms(2) unfolding q by auto
  then show ?thesis using half_bounds [OF assms(2)] by (intro nearest [of _ _ "d div 2"]) auto
qed

lemma ToFraction_exact:
  assumes "0 < d" "os \<longrightarrow> 0 \<le> n" "MinusInfinityVal + d div 2 < n * d" "n * d < PlusInfinityVal - d div 2"
  shows "ToFraction os d (n * d) = Some n"
proof -
  have h: "0 \<le> d div 2" "d div 2 < d" using assms(1) by auto
  have fin: "IsFinite (n * d)" using assms(3,4) h(1) by (auto simp: finite_defs)
  show ?thesis
  proof (cases "0 \<le> n")
    case True
    then have "0 \<le> n * d" using assms(1) by simp
    moreover have "i64 (n * d + d div 2) = Some (n * d + d div 2)"
      using assms(4) h(1) \<open>0 \<le> n * d\<close> by (simp add: i64_def infinity_defs)
    ultimately show ?thesis
      using fin c_div_near [OF assms(1) h True] assms(1)
      by (simp add: ToFraction_def DivRoundPositiveToNearest_def DivRoundToNearest_def c_div_half)
  next
    case False
    then have neg: "n * d < 0" using assms(1) by (simp add: mult_neg_pos)
    have "i64 (n * d + - (d div 2)) = Some (n * d + - (d div 2))"
      using assms(3) h(1) neg by (simp add: i64_def infinity_defs)
    moreover have "c_div (n * d + - (d div 2)) d = n"
      using c_div_near [OF assms(1) h, of "- n"] c_div_neg [of "n * d + - (d div 2)" d] neg h(1) False by simp
    moreover have "\<not> os" using False assms(2) by simp
    ultimately show ?thesis
      using fin neg assms(1) by (simp add: ToFraction_def DivRoundToNearest_def c_div_half)
  qed
qed

text \<open>
  Conversions of times keep the time. A difference or a time that is made from seconds or
  milliseconds gives back exactly that number; and whatever the value is, the seconds or milliseconds it
  is rounded to are nearest to it.
\<close>

lemma time_conversions:
  assumes "0 < d" "FromFraction os d n = Some v"
  shows "IsFinite v \<and> v = n * d \<and> ToFraction os d v = Some n \<and>
    (\<forall>u q. (os \<longrightarrow> 0 \<le> u) \<longrightarrow> ToFraction os d u = Some q \<longrightarrow> 2 * \<bar>q * d - u\<bar> \<le> d)"
proof -
  note r = FromFraction_range [OF assms(2,1)]
  have h: "d div 2 < d" using assms(1) by auto
  then have "ToFraction os d v = Some n"
    using r ToFraction_exact [OF assms(1) r(4)] by simp
  moreover have "IsFinite v" using r(2,3) assms(1) by (auto simp: finite_defs)
  ultimately show ?thesis using r(1) ToFraction_nearest [OF _ assms(1)] by blast
qed

section \<open>Arithmetic\<close>

text \<open>Finite sums and differences are exact, the infinities absorb, and only opposite infinities clash.\<close>

lemma unit_plus_finite:
  assumes "IsFinite a" "IsFinite b"
  shows "unit_plus os a b = (if (os \<longrightarrow> 0 \<le> a + b) \<and> MinusInfinityVal < a + b \<and> a + b < PlusInfinityVal then Some (a + b) else None)"
  using assms by (auto simp: unit_plus_def finite_defs ToValue_def FromValue_def i64_def)

lemma unit_minus_finite:
  assumes "IsFinite a" "IsFinite b"
  shows "unit_minus os a b = (if (os \<longrightarrow> 0 \<le> a - b) \<and> MinusInfinityVal < a - b \<and> a - b < PlusInfinityVal then Some (a - b) else None)"
  using assms by (auto simp: unit_minus_def finite_defs ToValue_def FromValue_def i64_def)

lemma unit_plus_infinite:
  "unit_plus os PlusInfinityVal b = (if IsMinusInfinity b then None else Some PlusInfinityVal)"
  "unit_plus os MinusInfinityVal b = (if IsPlusInfinity b then None else Some MinusInfinityVal)"
  by (auto simp: unit_plus_def IsPlusInfinity_def IsMinusInfinity_def infinity_defs)

definition in64 :: "int \<Rightarrow> bool" where
  "in64 v \<longleftrightarrow> MinusInfinityVal \<le> v \<and> v \<le> PlusInfinityVal"

lemma in64_finite: "in64 v \<Longrightarrow> IsFinite v \<longleftrightarrow> MinusInfinityVal < v \<and> v < PlusInfinityVal"
  by (auto simp: in64_def finite_defs)

lemma plus_then_diff:
  assumes "in64 t" "in64 d" "IsFinite t" "IsFinite d" "0 \<le> t" "ts_plus t d = Some u"
  shows "IsFinite u \<and> ts_diff u t = Some d \<and> ts_minus u d = Some t"
proof -
  have u: "u = t + d" "MinusInfinityVal < u" "u < PlusInfinityVal"
    using assms(3,4,6) by (auto simp: ts_plus_def unit_plus_finite split: if_splits)
  then have "IsFinite u" by (simp add: finite_defs)
  moreover have "MinusInfinityVal < d \<and> d < PlusInfinityVal" "MinusInfinityVal < t \<and> t < PlusInfinityVal"
    using assms(1-4) in64_finite by simp_all
  ultimately show ?thesis
    using u(1) assms(3-5) by (simp add: ts_diff_def ts_minus_def unit_minus_finite)
qed

section \<open>Printed times\<close>

lemma to_string_int64:
  assumes "in64 v"
  shows "length (to_string v) \<le> 20" "CHR 0x00 \<notin> set (to_string v)"
proof -
  have "nat \<bar>v\<bar> < 10 ^ 19" using assms by (auto simp: in64_def infinity_defs nat_less_iff)
  then have "length (digits_of (nat \<bar>v\<bar>)) \<le> 19" by (intro digits_of_length) auto
  then show "length (to_string v) \<le> 20" by (auto simp: to_string_def)
  show "CHR 0x00 \<notin> set (to_string v)"
    using digits_of_digits [of "nat v"] digits_of_digits [of "nat (- v)"]
    by (auto simp: to_string_def list_all_iff c_isdigit_def)
qed

lemma builder_text:
  assumes "length buf = 64" "in64 n" "length suffix \<le> 10" "CHR 0x00 \<notin> set suffix"
  shows "ssb_str (fold ssb_put [Number n, Text suffix] (SimpleStringBuilder buf)) = to_string n @ suffix"
proof -
  have "holds 64 (to_string n @ suffix) (fold ssb_put [Number n, Text suffix] (SimpleStringBuilder buf))"
    using holds_all [OF holds_new [of buf], of "[Number n, Text suffix]"] assms(1) by (cases buf) auto
  then show ?thesis using holds_str [of 64 "to_string n @ suffix"] to_string_int64 [OF assms(2)] assms(3,4) by simp
qed

lemma c_rem_0: "0 < d \<Longrightarrow> c_rem v d = 0 \<Longrightarrow> v = c_div v d * d"
  by (simp add: c_rem_def)

lemma ToFraction_multiple:
  assumes "0 < d" "v = n * d" "os \<longrightarrow> 0 \<le> v" "MinusInfinityVal + d div 2 < v" "v < PlusInfinityVal - d div 2"
  shows "ToFraction os d v = Some n"
proof -
  have "os \<longrightarrow> 0 \<le> n" using assms(1-3) by (auto simp: zero_le_mult_iff)
  then show ?thesis using ToFraction_exact [OF assms(1), of os n] assms(2,4,5) by simp
qed

text \<open>A finite value prints as a number of microseconds, milliseconds or seconds, without rounding.\<close>

lemma unit_pieces_exact:
  assumes "in64 v" "IsFinite v" "os \<longrightarrow> 0 \<le> v"
  shows "\<exists>n suffix scale. unit_pieces os v = Some [Number n, Text suffix] \<and> v = n * scale \<and>
    (suffix, scale) \<in> {('' us'', 1), ('' ms'', 1000), ('' s'', 1000000)}"
proof -
  have fin: "\<not> IsPlusInfinity v" "\<not> IsMinusInfinity v" "ToValue v = Some v"
    using assms(2) by (auto simp: finite_defs ToValue_def)
  have rng: "MinusInfinityVal < v" "v < PlusInfinityVal" using assms(1,2) in64_finite by simp_all
  show ?thesis
  proof (cases "v = 0 \<or> c_rem v 1000 \<noteq> 0")
    case True
    then show ?thesis using fin by (simp add: unit_pieces_def)
  next
    case False
    define n where "n = c_div v 1000"
    have n: "v = n * 1000" using False c_rem_0 [of 1000 v] by (simp add: n_def)
    have "- 9223372036854775 \<le> n" "n \<le> 9223372036854775" using rng unfolding n infinity_defs by simp_all
    then have ms: "ToFraction os 1000 v = Some n"
      by (intro ToFraction_multiple [OF _ n assms(3)]) (simp_all add: infinity_defs n)
    show ?thesis
    proof (cases "c_rem n 1000 = 0")
      case False
      then show ?thesis using fin ms n \<open>\<not> (v = 0 \<or> c_rem v 1000 \<noteq> 0)\<close> by (simp add: unit_pieces_def)
    next
      case True
      define s where "s = c_div n 1000"
      have s: "v = s * 1000000" using True c_rem_0 [of 1000 n] n by (simp add: s_def)
      have "- 9223372036854 \<le> s" "s \<le> 9223372036854" using rng unfolding s infinity_defs by simp_all
      then have "ToFraction os 1000000 v = Some s"
        by (intro ToFraction_multiple [OF _ s assms(3)]) (simp_all add: infinity_defs s)
      then show ?thesis using fin ms s True \<open>\<not> (v = 0 \<or> c_rem v 1000 \<noteq> 0)\<close> by (simp add: unit_pieces_def)
    qed
  qed
qed

text \<open>
  C32. The text of a time is exact. For every finite difference or time, \<^verbatim>\<open>ToString\<close> finishes within its
  buffer, whatever that contained, and gives a decimal number followed by a unit, which multiply to the
  value: although milliseconds and seconds come from rounding divisions, nothing is rounded.
\<close>

theorem time_text_exact:
  assumes "in64 v" "IsFinite v" "os \<longrightarrow> 0 \<le> v" "length buf = 64"
  shows "\<exists>n suffix scale. unit_ToString buf os v = Some (to_string n @ suffix) \<and> v = n * scale \<and>
    (suffix, scale) \<in> {('' us'', 1), ('' ms'', 1000), ('' s'', 1000000)}"
proof -
  obtain n suffix scale where p: "unit_pieces os v = Some [Number n, Text suffix]" "v = n * scale"
      "(suffix, scale) \<in> {('' us'', 1), ('' ms'', 1000), ('' s'', 1000000)}"
    using unit_pieces_exact [OF assms(1-3)] by blast
  have "1 \<le> scale" using p(3) by auto
  then have "\<bar>n\<bar> * 1 \<le> \<bar>n\<bar> * scale" by (intro mult_left_mono) auto
  then have "\<bar>n\<bar> \<le> \<bar>v\<bar>" unfolding p(2) abs_mult using \<open>1 \<le> scale\<close> by simp
  moreover have "MinusInfinityVal < v" "v < PlusInfinityVal" using assms(1,2) in64_finite by simp_all
  ultimately have "in64 n" unfolding in64_def infinity_defs by linarith
  then have "ssb_str (fold ssb_put [Number n, Text suffix] (SimpleStringBuilder buf)) = to_string n @ suffix"
    using p(3) by (intro builder_text [OF assms(4)]) auto
  then show ?thesis using p by (auto simp: unit_ToString_def)
qed

theorem time_text_exact_witness:
  "\<exists>n suffix scale. unit_ToString (replicate 64 (CHR ''?'')) False (- 2500000) = Some (to_string n @ suffix) \<and>
     - 2500000 = n * scale \<and> (suffix, scale) \<in> {('' us'', 1), ('' ms'', 1000), ('' s'', 1000000)}"
  by (rule time_text_exact) (simp_all add: in64_def infinity_defs finite_defs)

section \<open>NTP\<close>

lemma uint32_bounds: "0 \<le> uint s" "uint s < 4294967296" for s :: "32 word"
  using unsigned_less [of s, where ?'a = int] by simp_all

lemma uint_NtpTime: "uint (NtpTime s f) = uint s * 4294967296 + uint f"
proof -
  have "uint s * 4294967296 + uint f < 2 ^ 64" using uint32_bounds [of s] uint32_bounds [of f] by simp
  moreover have "NtpTime s f = word_of_int (uint s * 4294967296 + uint f)"
    by (simp add: NtpTime_def)
  then have "uint (NtpTime s f) = (uint s * 4294967296 + uint f) mod 2 ^ LENGTH(64)" by (simp only: uint_word_of_int)
  ultimately show ?thesis using uint32_bounds(1) [of s] uint32_bounds(1) [of f] by simp
qed

lemma NtpTime_parts: "ntp_seconds (NtpTime s f) = s" "ntp_fractions (NtpTime s f) = f"
proof -
  have "uint (NtpTime s f) div 4294967296 = uint s" "uint (NtpTime s f) mod 4294967296 = uint f"
    using uint32_bounds [of f] unfolding uint_NtpTime by simp_all
  then have "uint (ntp_seconds (NtpTime s f)) = uint s" "uint (ntp_fractions (NtpTime s f)) = uint f"
    using uint32_bounds [of s] uint32_bounds [of f]
    by (simp_all add: ntp_seconds_def ntp_fractions_def uint_div uint_mod unsigned_ucast_eq take_bit_eq_mod)
  then show "ntp_seconds (NtpTime s f) = s" "ntp_fractions (NtpTime s f) = f" by (simp_all add: word_uint_eq_iff)
qed

lemma scale_up_down:
  assumes "0 \<le> u" "u < (1000000 :: int)"
  shows "(u * 4294967296 div 1000000 * 1000000 + 4294967295) div 4294967296 = u"
    and "0 \<le> u * 4294967296 div 1000000" "u * 4294967296 div 1000000 < 4294967296"
proof -
  define f where "f = u * 4294967296 div 1000000"
  have f: "f * 1000000 \<le> u * 4294967296" "u * 4294967296 < f * 1000000 + 1000000"
    using c_div_bounds [of 1000000 "u * 4294967296"] assms(1) by (simp_all add: f_def c_div_def)
  have "(f * 1000000 + 4294967295) div 4294967296 = u"
    using f by (intro int_div_pos_eq [of _ _ _ "f * 1000000 + 4294967295 - 4294967296 * u"]) auto
  then show "(u * 4294967296 div 1000000 * 1000000 + 4294967295) div 4294967296 = u" by (simp add: f_def)
  show "0 \<le> u * 4294967296 div 1000000" "u * 4294967296 div 1000000 < 4294967296"
    using f assms by (simp_all add: f_def [symmetric])
qed

text \<open>
  NTP time keeps every microsecond. For any time from 1900 on, the seconds of the NTP time are the
  seconds since 1900 modulo \<open>2^32\<close> (they wrap in 2036), and its fraction determines the microsecond
  within the second, although it is cut off: rounding it up gives the microsecond back.
\<close>

lemma ntp_keeps_microseconds:
  assumes "0 \<le> time_us + offset_us"
  shows "ntp_seconds (TimeMicrosToNtp offset_us time_us) = word_of_int ((time_us + offset_us) div 1000000) \<and>
    (uint (ntp_fractions (TimeMicrosToNtp offset_us time_us)) * 1000000 + 4294967295) div 4294967296 =
      (time_us + offset_us) mod 1000000"
proof -
  define t u where "t = time_us + offset_us" and "u = t mod 1000000"
  have t: "0 \<le> t" using assms by (simp add: t_def)
  have u: "0 \<le> u" "u < 1000000" by (simp_all add: u_def)
  have "c_rem t 1000000 = u"
    using t minus_div_mult_eq_mod [of t 1000000] by (simp add: c_rem_def c_div_def u_def)
  then have n: "TimeMicrosToNtp offset_us time_us =
      NtpTime (word_of_int (t div 1000000)) (word_of_int (u * 4294967296 div 1000000))"
    using t u by (simp add: TimeMicrosToNtp_def t_def [symmetric] Let_def kNumMicrosecsPerSec_def c_div_def)
  have "uint (word_of_int (u * 4294967296 div 1000000) :: 32 word) = u * 4294967296 div 1000000"
    using scale_up_down(2,3) [OF u] by (simp only: uint_word_of_int) simp
  then show ?thesis using scale_up_down(1) [OF u] by (simp only: n NtpTime_parts t_def [symmetric] u_def [symmetric])
qed

end
