(* ===== verification/FieldTrial.thy ===== *)
theory FieldTrial
  imports StringEncode StringNumber
begin

text \<open>
  \<^verbatim>\<open>system_wrappers/source/field_trial.cc\<close>: switches for experiments, kept as one text of the form
  \<^verbatim>\<open>name/group/name/group/\<close>. The text can be validated, searched for a name, and merged with another.
  The loops walk through the text with an index; here the text from the index on is passed along. A
  \<^verbatim>\<open>std::map\<close> is an association list in the order of its keys, and \<^verbatim>\<open>RTC_NOTREACHED\<close> does nothing, as the
  library is built without its checks.
\<close>

section \<open>Reading\<close>

text \<open>The next name and group, and the text behind them; \<open>None\<close> where the loops stop.\<close>

definition next_trial :: "string \<Rightarrow> (string \<times> string \<times> string) option" where
  "next_trial rest =
     (case find_char (CHR ''/'') 0 rest of
        None \<Rightarrow> None
      | Some name_end \<Rightarrow>
          if name_end = 0 then None
          else (case find_char (CHR ''/'') (name_end + 1) rest of
                  None \<Rightarrow> None
                | Some group_name_end \<Rightarrow>
                    if name_end + 1 = group_name_end then None
                    else Some (take name_end rest, take (group_name_end - name_end - 1) (drop (name_end + 1) rest),
                               drop (group_name_end + 1) rest)))"

lemma next_trial_shorter: "next_trial rest = Some (n, g, r) \<Longrightarrow> length r < length rest"
proof -
  assume a: "next_trial rest = Some (n, g, r)"
  then obtain k where "r = drop (k + 1) rest" by (auto simp: next_trial_def split: option.splits if_splits)
  moreover have "rest \<noteq> []" using a by (auto simp: next_trial_def find_char_def)
  ultimately show ?thesis by (simp add: diff_less)
qed

function valid_loop :: "string \<Rightarrow> (string \<rightharpoonup> string) \<Rightarrow> bool" where
  "valid_loop rest field_trials =
     (if rest = [] then True
      else (case next_trial rest of
              None \<Rightarrow> False
            | Some (name, group_name, rest1) \<Rightarrow>
                if field_trials name \<noteq> None \<and> field_trials name \<noteq> Some group_name then False
                else valid_loop rest1 (field_trials(name \<mapsto> group_name))))"
  by pat_completeness auto
termination
  by (relation "measure (length \<circ> fst)") (auto dest: next_trial_shorter)

definition FieldTrialsStringIsValidInternal :: "string \<Rightarrow> bool" where
  "FieldTrialsStringIsValidInternal trials = (if trials = [] then True else valid_loop trials Map.empty)"

function find_loop :: "string \<Rightarrow> string \<Rightarrow> string" where
  "find_loop name rest =
     (if rest = [] then []
      else (case next_trial rest of
              None \<Rightarrow> []
            | Some (field_name, field_value, rest1) \<Rightarrow>
                if name = field_name then field_value else find_loop name rest1))"
  by pat_completeness auto
termination
  by (relation "measure (length \<circ> snd)") (auto dest: next_trial_shorter)

declare valid_loop.simps [simp del] find_loop.simps [simp del]

text \<open>\<open>trials_init_string\<close> is the installed text, if there is one.\<close>

definition FindFullName :: "string option \<Rightarrow> string \<Rightarrow> string" where
  "FindFullName trials_init_string name =
     (case trials_init_string of
        None \<Rightarrow> []
      | Some trials_string \<Rightarrow> if trials_string = [] then [] else find_loop name trials_string)"

definition IsEnabled :: "string option \<Rightarrow> string \<Rightarrow> bool" where
  "IsEnabled trials name \<longleftrightarrow> take 7 (FindFullName trials name) = ''Enabled''"

definition IsDisabled :: "string option \<Rightarrow> string \<Rightarrow> bool" where
  "IsDisabled trials name \<longleftrightarrow> take 8 (FindFullName trials name) = ''Disabled''"

section \<open>Merging\<close>

fun map_put :: "string \<Rightarrow> string \<Rightarrow> (string \<times> string) list \<Rightarrow> (string \<times> string) list" where
  "map_put k v [] = [(k, v)]"
| "map_put k v ((k1, v1) # m) =
     (if k = k1 then (k, v) # m else if string_less k k1 then (k, v) # (k1, v1) # m else (k1, v1) # map_put k v m)"

fun insert_tokens :: "string list \<Rightarrow> (string \<times> string) list \<Rightarrow> (string \<times> string) list" where
  "insert_tokens (k # v # tokens) m = insert_tokens tokens (map_put k v m)"
| "insert_tokens tokens m = m"

definition InsertOrReplaceFieldTrialStringsInMap :: "string \<Rightarrow> (string \<times> string) list \<Rightarrow> (string \<times> string) list" where
  "InsertOrReplaceFieldTrialStringsInMap trials_string m =
     (if FieldTrialsStringIsValidInternal trials_string then insert_tokens (split trials_string (CHR ''/'')) m else m)"

definition MergeFieldTrialsStrings :: "string \<Rightarrow> string \<Rightarrow> string" where
  "MergeFieldTrialsStrings first second =
     concat (map (\<lambda>(name, group). name @ ''/'' @ group @ ''/'')
       (InsertOrReplaceFieldTrialStringsInMap second (InsertOrReplaceFieldTrialStringsInMap first [])))"

section \<open>What a valid text says\<close>

definition trial_text :: "(string \<times> string) list \<Rightarrow> string" where
  "trial_text ps = concat (map (\<lambda>(name, group). name @ ''/'' @ group @ ''/'') ps)"

definition trial_word :: "string \<Rightarrow> bool" where
  "trial_word s \<longleftrightarrow> s \<noteq> [] \<and> CHR ''/'' \<notin> set s"

definition trial_list :: "(string \<times> string) list \<Rightarrow> bool" where
  "trial_list ps \<longleftrightarrow> (\<forall>(n, g)\<in>set ps. trial_word n \<and> trial_word g)"

fun agrees :: "(string \<rightharpoonup> string) \<Rightarrow> (string \<times> string) list \<Rightarrow> bool" where
  "agrees m [] \<longleftrightarrow> True"
| "agrees m ((n, g) # ps) \<longleftrightarrow> (m n = None \<or> m n = Some g) \<and> agrees (m(n \<mapsto> g)) ps"

lemma find_slash: "CHR ''/'' \<notin> set s \<Longrightarrow> find_char (CHR ''/'') 0 (s @ CHR ''/'' # t) = Some (length s)"
  by (simp add: find_char_def takeWhile_append)

lemma find_slash_from:
  "CHR ''/'' \<notin> set s \<Longrightarrow> find_char (CHR ''/'') (length p) (p @ s @ CHR ''/'' # t) = Some (length p + length s)"
  by (simp add: find_char_def takeWhile_append)

lemma next_trial_text:
  assumes "trial_word n" "trial_word g"
  shows "next_trial (n @ ''/'' @ g @ ''/'' @ r) = Some (n, g, r)"
proof -
  have 1: "find_char (CHR ''/'') 0 (n @ ''/'' @ g @ ''/'' @ r) = Some (length n)"
    using assms find_slash [of n "g @ ''/'' @ r"] by (simp add: trial_word_def)
  have "find_char (CHR ''/'') (length (n @ ''/'')) ((n @ ''/'') @ g @ CHR ''/'' # r) = Some (length (n @ ''/'') + length g)"
    using assms(2) by (intro find_slash_from) (simp add: trial_word_def)
  then have 2: "find_char (CHR ''/'') (length n + 1) (n @ ''/'' @ g @ ''/'' @ r) = Some (length n + 1 + length g)" by simp
  show ?thesis using assms 1 2 by (simp add: next_trial_def trial_word_def)
qed

lemma find_char_split:
  assumes "find_char c pos s = Some k"
  shows "pos \<le> k" "c \<notin> set (take (k - pos) (drop pos s))" "drop k s = c # drop (Suc k) s"
proof -
  let ?t = "takeWhile (\<lambda>x. x \<noteq> c) (drop pos s)"
  have c: "c \<in> set (drop pos s)" and k: "k = pos + length ?t" using assms by (auto simp: find_char_def split: if_splits)
  show "pos \<le> k" using k by simp
  have "take (length ?t) (drop pos s) = ?t" by (rule takeWhile_eq_take [symmetric])
  then have "take (k - pos) (drop pos s) = ?t" using k by simp
  then show "c \<notin> set (take (k - pos) (drop pos s))" by (auto dest: set_takeWhileD)
  have "drop k s = drop (length ?t) (drop pos s)" unfolding k drop_drop by (rule arg_cong [where f = "\<lambda>i. drop i s"]) (rule add.commute)
  then have d: "drop k s = dropWhile (\<lambda>x. x \<noteq> c) (drop pos s)" by (simp only: dropWhile_eq_drop)
  moreover obtain ys where "dropWhile (\<lambda>x. x \<noteq> c) (drop pos s) = c # ys"
    using c by (cases "dropWhile (\<lambda>x. x \<noteq> c) (drop pos s)") (auto simp: dropWhile_eq_Cons_conv)
  ultimately have "drop k s = c # ys" by simp
  moreover from this have "drop (Suc k) s = ys" by (simp add: drop_Suc tl_drop [symmetric])
  ultimately show "drop k s = c # drop (Suc k) s" by simp
qed

lemma next_trial_Some:
  assumes "next_trial s = Some (n, g, r)"
  shows "trial_word n \<and> trial_word g \<and> s = n @ ''/'' @ g @ ''/'' @ r"
proof -
  obtain i j where i: "find_char (CHR ''/'') 0 s = Some i" "i \<noteq> 0" and j: "find_char (CHR ''/'') (i + 1) s = Some j" "i + 1 \<noteq> j"
    and r: "n = take i s" "g = take (j - i - 1) (drop (i + 1) s)" "r = drop (j + 1) s"
    using assms by (auto simp: next_trial_def split: option.splits if_splits)
  note a = find_char_split [OF i(1)] and b = find_char_split [OF j(1)]
  have "s = take i s @ drop i s" by simp
  also have "\<dots> = n @ ''/'' @ drop (i + 1) s" using a(3) r(1) by simp
  also have "drop (i + 1) s = take (j - (i + 1)) (drop (i + 1) s) @ drop j s"
    using b(1) by (metis append_take_drop_id drop_drop le_add_diff_inverse2)
  also have "\<dots> = g @ ''/'' @ r" using b(3) r(2,3) by simp
  finally have s: "s = n @ ''/'' @ g @ ''/'' @ r" .
  have "length (drop j s) > 0" using b(3) by simp
  then have "length g = j - i - 1" "length n = i" using b(1) r(1,2) by auto
  then have "n \<noteq> []" "g \<noteq> []" using i(2) j(2) b(1) by auto
  moreover have "CHR ''/'' \<notin> set n" "CHR ''/'' \<notin> set g" using a(2) b(2) r(1,2) by simp_all
  ultimately show ?thesis using s by (simp add: trial_word_def)
qed

lemma valid_loop_iff: "valid_loop s m \<longleftrightarrow> (\<exists>ps. s = trial_text ps \<and> trial_list ps \<and> agrees m ps)"
proof (induction s m rule: valid_loop.induct)
  case (1 s m)
  show ?case
  proof
    assume v: "valid_loop s m"
    show "\<exists>ps. s = trial_text ps \<and> trial_list ps \<and> agrees m ps"
    proof (cases "s = []")
      case True
      then show ?thesis by (intro exI [of _ "[]"]) (simp add: trial_text_def trial_list_def)
    next
      case False
      then obtain n g r where t: "next_trial s = Some (n, g, r)" "m n = None \<or> m n = Some g" "valid_loop r (m(n \<mapsto> g))"
        using v by (subst (asm) valid_loop.simps) (auto split: option.splits if_splits)
      have "valid_loop r (m(n \<mapsto> g)) \<longleftrightarrow> (\<exists>ps. r = trial_text ps \<and> trial_list ps \<and> agrees (m(n \<mapsto> g)) ps)"
        by (rule 1 [OF False t(1) refl refl]) (use t(2) in auto)
      then obtain ps where "r = trial_text ps" "trial_list ps" "agrees (m(n \<mapsto> g)) ps" using t(3) by blast
      then show ?thesis
        using next_trial_Some [OF t(1)] t(2) by (intro exI [of _ "(n, g) # ps"]) (auto simp: trial_text_def trial_list_def)
    qed
  next
    assume "\<exists>ps. s = trial_text ps \<and> trial_list ps \<and> agrees m ps"
    then obtain ps where ps: "s = trial_text ps" "trial_list ps" "agrees m ps" by blast
    show "valid_loop s m"
    proof (cases ps)
      case Nil
      then show ?thesis using ps(1) by (simp add: trial_text_def valid_loop.simps)
    next
      case (Cons p qs)
      obtain n g where p: "p = (n, g)" by (cases p)
      have w: "trial_word n" "trial_word g" "trial_list qs" "m n = None \<or> m n = Some g" "agrees (m(n \<mapsto> g)) qs"
        using ps Cons p by (auto simp: trial_list_def)
      have s: "s = n @ ''/'' @ g @ ''/'' @ trial_text qs" using ps(1) Cons p by (simp add: trial_text_def)
      then have ne: "s \<noteq> []" and t: "next_trial s = Some (n, g, trial_text qs)" using next_trial_text [OF w(1,2)] by auto
      have "valid_loop (trial_text qs) (m(n \<mapsto> g)) \<longleftrightarrow>
          (\<exists>ps. trial_text qs = trial_text ps \<and> trial_list ps \<and> agrees (m(n \<mapsto> g)) ps)"
        by (rule 1 [OF ne t refl refl]) (use w(4) in auto)
      then have "valid_loop (trial_text qs) (m(n \<mapsto> g))" using w(3,5) by blast
      then show ?thesis using ne t w(4) by (subst valid_loop.simps) auto
    qed
  qed
qed

lemma valid_iff: "FieldTrialsStringIsValidInternal s \<longleftrightarrow> (\<exists>ps. s = trial_text ps \<and> trial_list ps \<and> agrees Map.empty ps)"
  unfolding FieldTrialsStringIsValidInternal_def valid_loop_iff
  by (auto intro!: exI [of _ "[]"] simp: trial_text_def trial_list_def)

lemma find_loop_text: "trial_list ps \<Longrightarrow> find_loop name (trial_text ps) = (case map_of ps name of None \<Rightarrow> [] | Some g \<Rightarrow> g)"
proof (induction ps)
  case Nil
  then show ?case by (simp add: trial_text_def find_loop.simps)
next
  case (Cons p ps)
  obtain n g where p: "p = (n, g)" by (cases p)
  have w: "trial_word n" "trial_word g" "trial_list ps" using Cons.prems p by (auto simp: trial_list_def)
  have s: "trial_text (p # ps) = n @ ''/'' @ g @ ''/'' @ trial_text ps" using p by (simp add: trial_text_def)
  then have "trial_text (p # ps) \<noteq> []" "next_trial (trial_text (p # ps)) = Some (n, g, trial_text ps)"
    using next_trial_text [OF w(1,2)] by auto
  then show ?case using Cons.IH [OF w(3)] p by (subst find_loop.simps) simp
qed

lemma FindFullName_text: "trial_list ps \<Longrightarrow> FindFullName (Some (trial_text ps)) name = (case map_of ps name of None \<Rightarrow> [] | Some g \<Rightarrow> g)"
  using find_loop_text [of ps name] by (auto simp: FindFullName_def find_loop.simps)

section \<open>What merging does\<close>

lemma agrees_map_of: "agrees m ps \<Longrightarrow> map_of (rev ps) k = map_of ps k \<and> (\<forall>g. map_of ps k = Some g \<longrightarrow> m k = None \<or> m k = Some g)"
proof (induction ps arbitrary: m)
  case (Cons p ps)
  obtain n g where p: "p = (n, g)" by (cases p)
  have "agrees (m(n \<mapsto> g)) ps" "m n = None \<or> m n = Some g" using Cons.prems p by simp_all
  from Cons.IH [OF this(1)] this(2) show ?case
    unfolding p by (cases "k = n"; cases "map_of ps k") (auto simp: map_add_def)
qed simp

lemma split_trial_text:
  "trial_list ps \<Longrightarrow> split_loop (CHR ''/'') [] (trial_text ps) = concat (map (\<lambda>(n, g). [n, g]) ps) @ [[]]"
proof (induction ps)
  case Nil
  then show ?case by (simp add: trial_text_def)
next
  case (Cons p ps)
  obtain n g where p: "p = (n, g)" by (cases p)
  have w: "CHR ''/'' \<notin> set n" "CHR ''/'' \<notin> set g" "trial_list ps" using Cons.prems p by (auto simp: trial_list_def trial_word_def)
  have s: "trial_text (p # ps) = n @ CHR ''/'' # g @ CHR ''/'' # trial_text ps" using p by (simp add: trial_text_def)
  show ?case unfolding s using w Cons.IH [OF w(3)] p by (simp add: split_loop_field)
qed

lemma insert_tokens_pairs: "insert_tokens (concat (map (\<lambda>(n, g). [n, g]) ps) @ [[]]) m = fold (\<lambda>(n, g). map_put n g) ps m"
  by (induction ps arbitrary: m) auto

lemma map_put_map: "map_of (map_put k v m) = (map_of m)(k \<mapsto> v)"
  by (induction k v m rule: map_put.induct) (auto simp: fun_upd_twist)

lemma fold_put_map: "map_of (fold (\<lambda>(n, g). map_put n g) ps m) = map_of m ++ map_of (rev ps)"
  by (induction ps arbitrary: m) (auto simp: map_put_map)

lemma map_put_set: "set (map_put k v m) \<subseteq> insert (k, v) (set m)" "fst ` set (map_put k v m) = insert k (fst ` set m)"
  by (induction k v m rule: map_put.induct) auto

lemma map_put_sorted: "sorted_wrt string_less (map fst m) \<Longrightarrow> sorted_wrt string_less (map fst (map_put k v m))"
proof (induction k v m rule: map_put.induct)
  case (2 k v k1 v1 m)
  have "string_less k1 x" if "string_less k1 k" "x \<in> fst ` set (map_put k v m)" for x
    using that 2(2) unfolding map_put_set(2) by auto
  moreover have "string_less k x" if "string_less k k1" "x \<in> fst ` set m" for x
    using that 2(2) string_less_trans by auto
  ultimately show ?case using 2 string_less_total [of k k1] by auto
qed simp

lemma fold_put_ok:
  "trial_list ps \<Longrightarrow> trial_list m \<Longrightarrow> sorted_wrt string_less (map fst m) \<Longrightarrow>
    trial_list (fold (\<lambda>(n, g). map_put n g) ps m) \<and> sorted_wrt string_less (map fst (fold (\<lambda>(n, g). map_put n g) ps m))"
proof (induction ps arbitrary: m)
  case (Cons p ps)
  obtain n g where p: "p = (n, g)" by (cases p)
  have "trial_list (map_put n g m)"
    using Cons.prems(1,2) map_put_set(1) [of n g m] p unfolding trial_list_def by fastforce
  then show ?case using Cons.IH [of "map_put n g m"] Cons.prems p map_put_sorted by (auto simp: trial_list_def)
qed simp

lemma sorted_agrees:
  "sorted_wrt string_less (map fst ps) \<Longrightarrow> (\<And>k. k \<in> fst ` set ps \<Longrightarrow> m k = None) \<Longrightarrow> agrees m ps"
proof (induction ps arbitrary: m)
  case (Cons p ps)
  obtain n g where p: "p = (n, g)" by (cases p)
  have "n \<notin> fst ` set ps" using Cons.prems(1) p string_less_irrefl by auto
  then have "agrees (m(n \<mapsto> g)) ps" using Cons.prems p by (intro Cons.IH) auto
  then show ?case using Cons.prems(2) p by simp
qed simp

text \<open>
  C31. Merging two valid texts gives a valid text in which every trial has the group that the second text
  gives it, and otherwise the one of the first text; nothing else is found in it.
\<close>

theorem merged_trials:
  assumes "FieldTrialsStringIsValidInternal first" "FieldTrialsStringIsValidInternal second"
  shows "FieldTrialsStringIsValidInternal (MergeFieldTrialsStrings first second) \<and>
    FindFullName (Some (MergeFieldTrialsStrings first second)) name =
      (if FindFullName (Some second) name \<noteq> [] then FindFullName (Some second) name else FindFullName (Some first) name)"
proof -
  obtain ps qs where p: "first = trial_text ps" "trial_list ps" "agrees Map.empty ps"
    and q: "second = trial_text qs" "trial_list qs" "agrees Map.empty qs"
    using assms unfolding valid_iff by blast
  let ?m1 = "fold (\<lambda>(n, g). map_put n g) ps []" and ?put = "\<lambda>m. fold (\<lambda>(n, g). map_put n g) qs m"
  have m1: "trial_list ?m1" "sorted_wrt string_less (map fst ?m1)" using fold_put_ok [OF p(2), of "[]"] by (auto simp: trial_list_def)
  have m2: "trial_list (?put ?m1)" "sorted_wrt string_less (map fst (?put ?m1))" using fold_put_ok [OF q(2) m1] by auto
  have t: "MergeFieldTrialsStrings first second = trial_text (?put ?m1)"
    using assms p q by (simp add: MergeFieldTrialsStrings_def InsertOrReplaceFieldTrialStringsInMap_def split_def
        split_trial_text insert_tokens_pairs) (simp add: trial_text_def)
  have "agrees Map.empty (?put ?m1)" using sorted_agrees [OF m2(2)] by simp
  then have v: "FieldTrialsStringIsValidInternal (trial_text (?put ?m1))" using m2(1) unfolding valid_iff by blast
  have "map_of (rev ps) = map_of ps" "map_of (rev qs) = map_of qs"
    using agrees_map_of [OF p(3)] agrees_map_of [OF q(3)] by blast+
  then have "map_of (?put ?m1) = map_of ps ++ map_of qs" unfolding fold_put_map by simp
  moreover have "g \<noteq> []" if "map_of qs name = Some g" for g
    using that q(2) map_of_SomeD [of qs name g] by (auto simp: trial_list_def trial_word_def)
  ultimately have "FindFullName (Some (trial_text (?put ?m1))) name =
      (if FindFullName (Some second) name \<noteq> [] then FindFullName (Some second) name else FindFullName (Some first) name)"
    using p(1,2) q(1,2) m2(1) by (auto simp: FindFullName_text map_add_def split: option.splits)
  then show ?thesis using t v by simp
qed

theorem merged_trials_witness:
  "FieldTrialsStringIsValidInternal (MergeFieldTrialsStrings ''b/Off/a/On/'' ''b/On/'') \<and>
   FindFullName (Some (MergeFieldTrialsStrings ''b/Off/a/On/'' ''b/On/'')) ''b'' = ''On''"
proof -
  have 1: "FieldTrialsStringIsValidInternal ''b/Off/a/On/''" and 2: "FieldTrialsStringIsValidInternal ''b/On/''"
    and 3: "FindFullName (Some ''b/On/'') ''b'' = ''On''"
    by code_simp+
  show ?thesis using merged_trials [OF 1 2, of "''b''"] unfolding 3 by simp
qed

end
