(* ===== verification/ByteIo.thy ===== *)
theory ByteIo
  imports XrtcPrelude "HOL-Library.Monad_Syntax"
begin

text \<open>
  \<^verbatim>\<open>rtc_base/byte_io.h\<close>: \<^verbatim>\<open>ByteReader\<close> and \<^verbatim>\<open>ByteWriter\<close>, which read and write integers of a given number of bytes
  in either order. The type \<^verbatim>\<open>T\<close> is a word of any length, the number \<^verbatim>\<open>B\<close> of bytes an argument; signed results
  are integers. Reading behind the given bytes has no value, and neither has a shift that C++ leaves
  undefined. The header has loops for every size and separate code for 1, 2, 4 and 8 bytes.
\<close>

unbundle bit_operations_syntax

section \<open>Unsigned numbers\<close>

definition InternalReadBigEndian :: "nat \<Rightarrow> bytes \<Rightarrow> 'a::len word" where
  "InternalReadBigEndian B data = fold (\<lambda>i val. val OR push_bit ((B - 1 - i) * 8) (ucast (data ! i))) [0..<B] 0"

definition InternalReadLittleEndian :: "nat \<Rightarrow> bytes \<Rightarrow> 'a::len word" where
  "InternalReadLittleEndian B data = fold (\<lambda>i val. val OR push_bit (i * 8) (ucast (data ! i))) [0..<B] 0"

text \<open>The code for two bytes computes with \<^verbatim>\<open>int\<close>, the one for four and eight bytes with \<^verbatim>\<open>T\<close>.\<close>

definition ReadBigEndian1 :: "bytes \<Rightarrow> 'a::len word" where
  "ReadBigEndian1 data = ucast (data ! 0)"

definition ReadBigEndian2 :: "bytes \<Rightarrow> 'a::len word" where
  "ReadBigEndian2 data = ucast (push_bit 8 (ucast (data ! 0)) OR ucast (data ! 1) :: 32 word)"

definition ReadLittleEndian2 :: "bytes \<Rightarrow> 'a::len word" where
  "ReadLittleEndian2 data = ucast (ucast (data ! 0) OR push_bit 8 (ucast (data ! 1)) :: 32 word)"

definition ReadBigEndian4 :: "bytes \<Rightarrow> 'a::len word" where
  "ReadBigEndian4 data =
     push_bit 24 (ucast (data ! 0)) OR push_bit 16 (ucast (data ! 1)) OR push_bit 8 (ucast (data ! 2)) OR ucast (data ! 3)"

definition ReadLittleEndian4 :: "bytes \<Rightarrow> 'a::len word" where
  "ReadLittleEndian4 data =
     ucast (data ! 0) OR push_bit 8 (ucast (data ! 1)) OR push_bit 16 (ucast (data ! 2)) OR push_bit 24 (ucast (data ! 3))"

definition ReadBigEndian8 :: "bytes \<Rightarrow> 'a::len word" where
  "ReadBigEndian8 data =
     push_bit 56 (ucast (data ! 0)) OR push_bit 48 (ucast (data ! 1)) OR push_bit 40 (ucast (data ! 2)) OR
     push_bit 32 (ucast (data ! 3)) OR push_bit 24 (ucast (data ! 4)) OR push_bit 16 (ucast (data ! 5)) OR
     push_bit 8 (ucast (data ! 6)) OR ucast (data ! 7)"

definition ReadLittleEndian8 :: "bytes \<Rightarrow> 'a::len word" where
  "ReadLittleEndian8 data =
     ucast (data ! 0) OR push_bit 8 (ucast (data ! 1)) OR push_bit 16 (ucast (data ! 2)) OR
     push_bit 24 (ucast (data ! 3)) OR push_bit 32 (ucast (data ! 4)) OR push_bit 40 (ucast (data ! 5)) OR
     push_bit 48 (ucast (data ! 6)) OR push_bit 56 (ucast (data ! 7))"

text \<open>The template that the compiler selects.\<close>

definition ReadBigEndian :: "nat \<Rightarrow> bytes \<Rightarrow> 'a::len word option" where
  "ReadBigEndian B data =
     (if length data < B then None
      else Some (if B = 1 then ReadBigEndian1 data else if B = 2 then ReadBigEndian2 data
        else if B = 4 then ReadBigEndian4 data else if B = 8 then ReadBigEndian8 data
        else InternalReadBigEndian B data))"

definition ReadLittleEndian :: "nat \<Rightarrow> bytes \<Rightarrow> 'a::len word option" where
  "ReadLittleEndian B data =
     (if length data < B then None
      else Some (if B = 1 then ReadBigEndian1 data else if B = 2 then ReadLittleEndian2 data
        else if B = 4 then ReadLittleEndian4 data else if B = 8 then ReadLittleEndian8 data
        else InternalReadLittleEndian B data))"

text \<open>Writing: the specializations store the same bytes, one assignment each.\<close>

definition byte_at :: "nat \<Rightarrow> 'a::len word \<Rightarrow> byte" where
  "byte_at shift val = ucast (drop_bit shift val)"

definition WriteBigEndian_loop :: "nat \<Rightarrow> 'a::len word \<Rightarrow> bytes \<Rightarrow> bytes" where
  "WriteBigEndian_loop B val data = fold (\<lambda>i d. d[i := byte_at ((B - 1 - i) * 8) val]) [0..<B] data"

definition WriteLittleEndian_loop :: "nat \<Rightarrow> 'a::len word \<Rightarrow> bytes \<Rightarrow> bytes" where
  "WriteLittleEndian_loop B val data = fold (\<lambda>i d. d[i := byte_at (i * 8) val]) [0..<B] data"

definition write_bytes :: "byte list \<Rightarrow> bytes \<Rightarrow> bytes" where
  "write_bytes bs data = bs @ drop (length bs) data"

definition WriteBigEndian1 :: "'a::len word \<Rightarrow> bytes \<Rightarrow> bytes" where
  "WriteBigEndian1 val = write_bytes [byte_at 0 val]"

definition WriteBigEndian2 :: "'a::len word \<Rightarrow> bytes \<Rightarrow> bytes" where
  "WriteBigEndian2 val = write_bytes [byte_at 8 val, byte_at 0 val]"

definition WriteLittleEndian2 :: "'a::len word \<Rightarrow> bytes \<Rightarrow> bytes" where
  "WriteLittleEndian2 val = write_bytes [byte_at 0 val, byte_at 8 val]"

definition WriteBigEndian4 :: "'a::len word \<Rightarrow> bytes \<Rightarrow> bytes" where
  "WriteBigEndian4 val = write_bytes [byte_at 24 val, byte_at 16 val, byte_at 8 val, byte_at 0 val]"

definition WriteLittleEndian4 :: "'a::len word \<Rightarrow> bytes \<Rightarrow> bytes" where
  "WriteLittleEndian4 val = write_bytes [byte_at 0 val, byte_at 8 val, byte_at 16 val, byte_at 24 val]"

definition WriteBigEndian8 :: "'a::len word \<Rightarrow> bytes \<Rightarrow> bytes" where
  "WriteBigEndian8 val = write_bytes [byte_at 56 val, byte_at 48 val, byte_at 40 val, byte_at 32 val,
     byte_at 24 val, byte_at 16 val, byte_at 8 val, byte_at 0 val]"

definition WriteLittleEndian8 :: "'a::len word \<Rightarrow> bytes \<Rightarrow> bytes" where
  "WriteLittleEndian8 val = write_bytes [byte_at 0 val, byte_at 8 val, byte_at 16 val, byte_at 24 val,
     byte_at 32 val, byte_at 40 val, byte_at 48 val, byte_at 56 val]"

definition WriteBigEndian :: "nat \<Rightarrow> 'a::len word \<Rightarrow> bytes \<Rightarrow> bytes option" where
  "WriteBigEndian B val data =
     (if length data < B then None
      else Some (if B = 1 then WriteBigEndian1 val data else if B = 2 then WriteBigEndian2 val data
        else if B = 4 then WriteBigEndian4 val data else if B = 8 then WriteBigEndian8 val data
        else WriteBigEndian_loop B val data))"

definition WriteLittleEndian :: "nat \<Rightarrow> 'a::len word \<Rightarrow> bytes \<Rightarrow> bytes option" where
  "WriteLittleEndian B val data =
     (if length data < B then None
      else Some (if B = 1 then WriteBigEndian1 val data else if B = 2 then WriteLittleEndian2 val data
        else if B = 4 then WriteLittleEndian4 val data else if B = 8 then WriteLittleEndian8 val data
        else WriteLittleEndian_loop B val data))"

section \<open>Signed numbers\<close>

text \<open>\<^verbatim>\<open>1 << n\<close> is computed with \<^verbatim>\<open>int\<close>, whose shifts by 32 and more are undefined.\<close>

definition SignExtend :: "nat \<Rightarrow> 'a::len word \<Rightarrow> 'a word option" where
  "SignExtend B val =
     (let kMsb = byte_at ((B - 1) * 8) val; shift = B mod (LENGTH('a) div 8) * 8
      in if kMsb AND 0x80 \<noteq> 0
         then (if shift < 32 then Some (NOT (ucast (push_bit shift 1 - 1 :: 32 word)) OR val) else None)
         else Some val)"

definition ReinterpretAsSigned :: "'a::len word \<Rightarrow> int" where
  "ReinterpretAsSigned val =
     (let high = push_bit (LENGTH('a) - 1) 1
      in if val AND high \<noteq> 0 then uint (val AND NOT high) OR - (2 ^ (LENGTH('a) - 1)) else uint val)"

definition read_signed :: "nat \<Rightarrow> 'a::len word \<Rightarrow> int option" where
  "read_signed B val = do {
     v \<leftarrow> (if B < LENGTH('a) div 8 then SignExtend B val else Some val);
     Some (ReinterpretAsSigned v)
   }"

definition ReadSignedBigEndian :: "'a::len itself \<Rightarrow> nat \<Rightarrow> bytes \<Rightarrow> int option" where
  "ReadSignedBigEndian T B data = do { v \<leftarrow> ReadBigEndian B data; read_signed B (v :: 'a word) }"

definition ReadSignedLittleEndian :: "'a::len itself \<Rightarrow> nat \<Rightarrow> bytes \<Rightarrow> int option" where
  "ReadSignedLittleEndian T B data = do { v \<leftarrow> ReadLittleEndian B data; read_signed B (v :: 'a word) }"

definition WriteSignedBigEndian :: "'a::len itself \<Rightarrow> nat \<Rightarrow> int \<Rightarrow> bytes \<Rightarrow> bytes option" where
  "WriteSignedBigEndian T B val data = WriteBigEndian B (word_of_int val :: 'a word) data"

definition WriteSignedLittleEndian :: "'a::len itself \<Rightarrow> nat \<Rightarrow> int \<Rightarrow> bytes \<Rightarrow> bytes option" where
  "WriteSignedLittleEndian T B val data = WriteLittleEndian B (word_of_int val :: 'a word) data"

section \<open>The bits of a number\<close>

lemma bit_fold_or: "bit (fold (\<lambda>i val. val OR f i) is a) k \<longleftrightarrow> bit a k \<or> (\<exists>i\<in>set is. bit (f i :: 'a::len word) k)"
  by (induction "is" arbitrary: a) (auto simp: bit_or_iff)

lemma bit_shifted_byte:
  "bit (push_bit s (ucast (b :: byte)) :: 'a::len word) k \<longleftrightarrow> k < LENGTH('a) \<and> s \<le> k \<and> k < s + 8 \<and> bit b (k - s)"
  using bit_imp_le_length [of b "k - s"] by (auto simp: bit_push_bit_iff bit_ucast_iff)

lemma bit_InternalReadLittleEndian:
  "bit (InternalReadLittleEndian B data :: 'a::len word) k \<longleftrightarrow> k < LENGTH('a) \<and> k < 8 * B \<and> bit (data ! (k div 8)) (k mod 8)"
proof -
  have "i * 8 \<le> k \<and> k < i * 8 + 8 \<and> bit (data ! i) (k - i * 8) \<longleftrightarrow> i = k div 8 \<and> bit (data ! (k div 8)) (k mod 8)" for i
  proof -
    have "i * 8 \<le> k \<and> k < i * 8 + 8 \<longleftrightarrow> i = k div 8" by auto
    moreover have "k - k div 8 * 8 = k mod 8" by (simp add: minus_div_mult_eq_mod)
    ultimately show ?thesis by metis
  qed
  then show ?thesis
    unfolding InternalReadLittleEndian_def bit_fold_or bit_shifted_byte by (auto simp: less_mult_imp_div_less mult.commute)
qed

lemma InternalReadBigEndian_rev:
  assumes "B \<le> length data"
  shows "(InternalReadBigEndian B data :: 'a::len word) = InternalReadLittleEndian B (rev (take B data))"
proof (rule bit_word_eqI)
  fix k assume k: "k < LENGTH('a)"
  have n: "rev (take B data) ! i = data ! (B - 1 - i)" if "i < B" for i using that assms by (simp add: rev_nth)
  have "bit (InternalReadBigEndian B data :: 'a word) k \<longleftrightarrow>
      (\<exists>i<B. (B - 1 - i) * 8 \<le> k \<and> k < (B - 1 - i) * 8 + 8 \<and> bit (data ! i) (k - (B - 1 - i) * 8))"
    using k unfolding InternalReadBigEndian_def bit_fold_or bit_shifted_byte by auto
  also have "\<dots> \<longleftrightarrow> (\<exists>j<B. j * 8 \<le> k \<and> k < j * 8 + 8 \<and> bit (data ! (B - 1 - j)) (k - j * 8))"
  proof
    assume "\<exists>i<B. (B - 1 - i) * 8 \<le> k \<and> k < (B - 1 - i) * 8 + 8 \<and> bit (data ! i) (k - (B - 1 - i) * 8)"
    then obtain i where i: "i < B" "(B - 1 - i) * 8 \<le> k" "k < (B - 1 - i) * 8 + 8" "bit (data ! i) (k - (B - 1 - i) * 8)" by blast
    moreover have "B - 1 - (B - 1 - i) = i" using i(1) by simp
    ultimately show "\<exists>j<B. j * 8 \<le> k \<and> k < j * 8 + 8 \<and> bit (data ! (B - 1 - j)) (k - j * 8)"
      by (intro exI [of _ "B - 1 - i"]) auto
  next
    assume "\<exists>j<B. j * 8 \<le> k \<and> k < j * 8 + 8 \<and> bit (data ! (B - 1 - j)) (k - j * 8)"
    then obtain j where j: "j < B" "j * 8 \<le> k" "k < j * 8 + 8" "bit (data ! (B - 1 - j)) (k - j * 8)" by blast
    moreover have "B - 1 - (B - 1 - j) = j" using j(1) by simp
    ultimately show "\<exists>i<B. (B - 1 - i) * 8 \<le> k \<and> k < (B - 1 - i) * 8 + 8 \<and> bit (data ! i) (k - (B - 1 - i) * 8)"
      by (intro exI [of _ "B - 1 - j"]) auto
  qed
  also have "\<dots> \<longleftrightarrow> bit (InternalReadLittleEndian B (rev (take B data)) :: 'a word) k"
    using k n unfolding InternalReadLittleEndian_def bit_fold_or bit_shifted_byte by auto
  finally show "bit (InternalReadBigEndian B data :: 'a word) k \<longleftrightarrow> bit (InternalReadLittleEndian B (rev (take B data)) :: 'a word) k" .
qed

section \<open>The separate code agrees with the loops\<close>

lemma upto_numerals: "[0..<2] = [0, 1 :: nat]" "[0..<4] = [0, 1, 2, 3 :: nat]" "[0..<8] = [0, 1, 2, 3, 4, 5, 6, 7 :: nat]"
  by (simp_all add: upt_rec)

lemma ucast_two_bytes: "(ucast (push_bit 8 (ucast a) OR ucast b :: 32 word) :: 'a::len word) = push_bit 8 (ucast a) OR ucast b"
  for a b :: byte
proof (rule bit_word_eqI)
  fix k assume "k < LENGTH('a)"
  then show "bit (ucast (push_bit 8 (ucast a) OR ucast b :: 32 word) :: 'a word) k = bit (push_bit 8 (ucast a) OR ucast b :: 'a word) k"
    using bit_imp_le_length [of a "k - 8"] bit_imp_le_length [of b k]
    by (auto simp: bit_ucast_iff bit_or_iff bit_push_bit_iff)
qed

lemma ucast_two_bytes': "(ucast (ucast a OR push_bit 8 (ucast b) :: 32 word) :: 'a::len word) = ucast a OR push_bit 8 (ucast b)"
  for a b :: byte
  using ucast_two_bytes [of b a, where ?'a = 'a] by (simp only: or.commute)

lemma Read_specialized:
  "length data \<ge> B \<Longrightarrow> (ReadBigEndian B data :: 'a::len word option) = Some (InternalReadBigEndian B data)"
  "length data \<ge> B \<Longrightarrow> (ReadLittleEndian B data :: 'a::len word option) = Some (InternalReadLittleEndian B data)"
proof -
  have "InternalReadBigEndian 1 data = (ReadBigEndian1 data :: 'a word)" "InternalReadBigEndian 2 data = (ReadBigEndian2 data :: 'a word)"
    "InternalReadBigEndian 4 data = (ReadBigEndian4 data :: 'a word)" "InternalReadBigEndian 8 data = (ReadBigEndian8 data :: 'a word)"
    by (simp_all add: InternalReadBigEndian_def ReadBigEndian1_def ReadBigEndian2_def ReadBigEndian4_def ReadBigEndian8_def
        upto_numerals ucast_two_bytes or.assoc)
  then show "length data \<ge> B \<Longrightarrow> (ReadBigEndian B data :: 'a word option) = Some (InternalReadBigEndian B data)"
    by (simp add: ReadBigEndian_def)
  have "InternalReadLittleEndian 1 data = (ReadBigEndian1 data :: 'a word)" "InternalReadLittleEndian 2 data = (ReadLittleEndian2 data :: 'a word)"
    "InternalReadLittleEndian 4 data = (ReadLittleEndian4 data :: 'a word)" "InternalReadLittleEndian 8 data = (ReadLittleEndian8 data :: 'a word)"
    by (simp_all add: InternalReadLittleEndian_def ReadBigEndian1_def ReadLittleEndian2_def ReadLittleEndian4_def ReadLittleEndian8_def
        upto_numerals ucast_two_bytes' or.assoc)
  then show "length data \<ge> B \<Longrightarrow> (ReadLittleEndian B data :: 'a word option) = Some (InternalReadLittleEndian B data)"
    by (simp add: ReadLittleEndian_def)
qed

lemma fold_list_update:
  "B \<le> length data \<Longrightarrow> fold (\<lambda>i d. d[i := f i]) [0..<B] data = map f [0..<B] @ drop B data"
proof (induction B)
  case (Suc B)
  then have "drop B data = data ! B # drop (Suc B) data" by (simp add: Cons_nth_drop_Suc)
  then show ?case using Suc by (simp add: list_update_append)
qed simp

lemma drop_numerals:
  "drop (Suc (Suc 0)) xs = drop 2 xs" "drop (Suc (Suc (Suc (Suc 0)))) xs = drop 4 xs"
  "drop (Suc (Suc (Suc (Suc (Suc (Suc (Suc (Suc 0)))))))) xs = drop 8 xs"
  by (simp_all add: numeral_eq_Suc)

lemma Write_specialized:
  "length data \<ge> B \<Longrightarrow> WriteBigEndian B val data = Some (map (\<lambda>i. byte_at ((B - 1 - i) * 8) val) [0..<B] @ drop B data)"
  "length data \<ge> B \<Longrightarrow> WriteLittleEndian B val data = Some (map (\<lambda>i. byte_at (i * 8) val) [0..<B] @ drop B data)"
  by (auto simp: WriteBigEndian_def WriteLittleEndian_def WriteBigEndian_loop_def WriteLittleEndian_loop_def write_bytes_def
      WriteBigEndian1_def WriteBigEndian2_def WriteLittleEndian2_def WriteBigEndian4_def WriteLittleEndian4_def
      WriteBigEndian8_def WriteLittleEndian8_def fold_list_update upto_numerals drop_numerals)

section \<open>Round trips\<close>

lemma bit_byte_at: "bit (byte_at s (val :: 'a::len word)) k \<longleftrightarrow> k < 8 \<and> bit val (s + k)"
  by (auto simp: byte_at_def bit_ucast_iff bit_drop_bit_eq)

lemma read_written_little:
  "B \<le> length data \<Longrightarrow>
    InternalReadLittleEndian B (map (\<lambda>i. byte_at (i * 8) val) [0..<B] @ drop B data) = take_bit (8 * B) (val :: 'a::len word)"
proof (rule bit_word_eqI)
  fix k assume k: "B \<le> length data" "k < LENGTH('a)"
  have "bit (byte_at (k div 8 * 8) val) (k mod 8) = bit val k" by (simp add: bit_byte_at)
  moreover have "k div 8 < B" if "k < 8 * B" using that by (simp add: less_mult_imp_div_less mult.commute)
  ultimately show "bit (InternalReadLittleEndian B (map (\<lambda>i. byte_at (i * 8) val) [0..<B] @ drop B data) :: 'a word) k = bit (take_bit (8 * B) val) k"
    using k by (auto simp: bit_InternalReadLittleEndian bit_take_bit_iff nth_append)
qed

lemma rev_big_bytes: "rev (map (\<lambda>i. byte_at ((B - 1 - i) * 8) val) [0..<B]) = map (\<lambda>i. byte_at (i * 8) val) [0..<B]"
  by (rule nth_equalityI) (auto simp: rev_nth)

lemma write_read:
  assumes "B \<le> length data"
  shows "\<exists>out. WriteBigEndian B (val :: 'a::len word) data = Some out \<and> length out = length data \<and> drop B out = drop B data \<and>
      (ReadBigEndian B out :: 'a word option) = Some (take_bit (8 * B) val)"
    and "\<exists>out. WriteLittleEndian B val data = Some out \<and> length out = length data \<and> drop B out = drop B data \<and>
      (ReadLittleEndian B out :: 'a word option) = Some (take_bit (8 * B) val)"
proof -
  let ?be = "map (\<lambda>i. byte_at ((B - 1 - i) * 8) val) [0..<B]" and ?le = "map (\<lambda>i. byte_at (i * 8) val) [0..<B]"
  have "InternalReadBigEndian B (?be @ drop B data) = (InternalReadLittleEndian B (rev ?be) :: 'a word)"
    using InternalReadBigEndian_rev [of B "?be @ drop B data"] by simp
  also have "\<dots> = take_bit (8 * B) val" using read_written_little [of B "[]" val] read_written_little [of B ?le val] unfolding rev_big_bytes by simp
  finally show "\<exists>out. WriteBigEndian B val data = Some out \<and> length out = length data \<and> drop B out = drop B data \<and>
      (ReadBigEndian B out :: 'a word option) = Some (take_bit (8 * B) val)"
    using assms Write_specialized(1) [OF assms, of val] by (simp add: Read_specialized)
  show "\<exists>out. WriteLittleEndian B val data = Some out \<and> length out = length data \<and> drop B out = drop B data \<and>
      (ReadLittleEndian B out :: 'a word option) = Some (take_bit (8 * B) val)"
    using assms Write_specialized(2) [OF assms, of val] read_written_little [OF assms, of val] by (simp add: Read_specialized)
qed

section \<open>Signed numbers keep their sign\<close>

lemma and_high_bit: "(w AND push_bit n 1 \<noteq> 0) \<longleftrightarrow> bit w n" for w :: "'a::len word"
proof -
  have "bit (w AND push_bit n 1) k \<longleftrightarrow> bit w n \<and> k = n" for k
    using bit_imp_le_length [of w n] by (auto simp: bit_and_iff push_bit_of_1 bit_exp_iff)
  then show ?thesis by (metis bit_0_eq bot_apply bot_bool_def bit_eqI)
qed

lemma bit_sint_min: "bit (sint w) k = bit w (min k (LENGTH('a) - 1))" for w :: "'a::len word"
  using bit_imp_le_length [of w k] by (auto simp: bit_sint_iff min_def)

lemma ReinterpretAsSigned_sint: "ReinterpretAsSigned w = sint w" for w :: "'a::len word"
proof (rule bit_eqI)
  fix k
  let ?low = "uint (w AND NOT (push_bit (LENGTH('a) - 1) 1))"
  have R: "ReinterpretAsSigned w = (if bit w (LENGTH('a) - 1) then ?low OR - (2 ^ (LENGTH('a) - 1)) else uint w)"
    by (simp only: ReinterpretAsSigned_def Let_def and_high_bit)
  have low: "bit ?low k \<longleftrightarrow> k < LENGTH('a) - 1 \<and> bit w k"
    using bit_imp_le_length [of w k] by (auto simp: bit_uint_iff bit_and_iff bit_not_iff push_bit_of_1 bit_exp_iff)
  have "bit (?low OR - (2 ^ (LENGTH('a) - 1))) k \<longleftrightarrow> (k < LENGTH('a) - 1 \<longrightarrow> bit w k)"
    unfolding bit_or_iff low bit_minus_exp_iff by auto
  moreover have "bit (uint w) k \<longleftrightarrow> k < LENGTH('a) \<and> bit w k" by (simp add: bit_uint_iff)
  moreover have "k < LENGTH('a) - 1 \<or> min k (LENGTH('a) - 1) = LENGTH('a) - 1 \<and> (k < LENGTH('a) \<longrightarrow> k = LENGTH('a) - 1)" by auto
  ultimately show "bit (ReinterpretAsSigned w) k = bit (sint w) k"
    unfolding R bit_sint_min by (cases "k < LENGTH('a) - 1"; cases "bit w (LENGTH('a) - 1)") auto
qed

lemma SignExtend_msb: "0 < B \<Longrightarrow> byte_at ((B - 1) * 8) v AND 0x80 \<noteq> 0 \<longleftrightarrow> bit v (8 * B - 1)" for v :: "'a::len word"
proof -
  assume "0 < B"
  then have i: "(B - 1) * 8 + 7 = 8 * B - 1" by (cases B) auto
  have "(0x80 :: byte) = push_bit 7 1" by (simp add: push_bit_eq_mult)
  then show ?thesis using and_high_bit [of "byte_at ((B - 1) * 8) v" 7] i by (simp add: bit_byte_at)
qed

lemma mask32: "8 * B < 32 \<Longrightarrow> (ucast (push_bit (8 * B) 1 - 1 :: 32 word) :: 'a::len word) = mask (8 * B)"
proof (rule bit_word_eqI)
  fix k assume a: "8 * B < 32" "k < LENGTH('a)"
  have "push_bit (8 * B) 1 - 1 = (mask (8 * B) :: 32 word)" by (simp add: mask_eq_decr_exp push_bit_eq_mult)
  then show "bit (ucast (push_bit (8 * B) 1 - 1 :: 32 word) :: 'a word) k = bit (mask (8 * B) :: 'a word) k"
    using a by (auto simp: bit_ucast_iff bit_mask_iff)
qed

lemma read_signed_value:
  assumes "0 < B" "8 dvd LENGTH('a)" "8 * B \<le> LENGTH('a::len)" "B < 4 \<or> 8 * B = LENGTH('a)"
  shows "read_signed B (take_bit (8 * B) v :: 'a word) = Some (signed_take_bit (8 * B - 1) (uint v))"
proof -
  let ?v = "take_bit (8 * B) v"
  have bits: "bit (signed_take_bit (8 * B - 1) (uint v)) k = bit v (min k (8 * B - 1))" for k
    using bit_imp_le_length [of v] assms(1,3) by (auto simp: bit_signed_take_bit_iff bit_uint_iff min_def)
  show ?thesis
  proof (cases "8 * B = LENGTH('a)")
    case True
    then have "\<not> B < LENGTH('a) div 8" by auto
    moreover have "?v = v" using True by (simp add: take_bit_word_eq_self)
    moreover have "sint v = signed_take_bit (8 * B - 1) (uint v)" using True by (simp add: sint_uint)
    ultimately show ?thesis by (simp add: read_signed_def ReinterpretAsSigned_sint)
  next
    case False
    then have lt: "8 * B < LENGTH('a)" "B < 4" using assms(3,4) by auto
    then have d: "B < LENGTH('a) div 8" using assms(2) by auto
    have msb: "byte_at ((B - 1) * 8) ?v AND 0x80 \<noteq> 0 \<longleftrightarrow> bit v (8 * B - 1)"
      using SignExtend_msb [OF assms(1), of ?v] assms(1) by (simp add: bit_take_bit_iff)
    define r where "r = (if bit v (8 * B - 1) then NOT (mask (8 * B)) OR ?v else ?v)"
    have "SignExtend B ?v = Some r"
      using msb lt(2) d mask32 [of B, where ?'a = 'a] by (simp add: SignExtend_def Let_def r_def mult.commute)
    moreover have "sint r = signed_take_bit (8 * B - 1) (uint v)"
    proof (rule bit_eqI)
      fix k
      have "bit (sint r) k = bit r (min k (LENGTH('a) - 1))" by (rule bit_sint_min)
      also have "\<dots> = bit v (min k (8 * B - 1))"
        using lt(1) assms(1) by (auto simp: r_def bit_or_iff bit_not_iff bit_mask_iff bit_take_bit_iff min_def not_less)
      finally show "bit (sint r) k = bit (signed_take_bit (8 * B - 1) (uint v)) k" using bits by simp
    qed
    ultimately show ?thesis using d by (simp add: read_signed_def ReinterpretAsSigned_sint)
  qed
qed

text \<open>
  Signed numbers that are written can be read back, in both byte orders and for every type \<^verbatim>\<open>T\<close> and
  number of bytes, if the number fits into the bytes: the sign is extended and the bit pattern
  reinterpreted without any overflow. This needs at most three bytes or as many as the type has; for
  four or more bytes of a longer type the code shifts an \<^verbatim>\<open>int\<close> too far.
\<close>

lemma signed_byte_io_roundtrip:
  assumes "0 < B" "8 dvd LENGTH('a)" "8 * B \<le> LENGTH('a::len)" "B < 4 \<or> 8 * B = LENGTH('a)"
    and "B \<le> length data" "- (2 ^ (8 * B - 1)) \<le> val" "val < 2 ^ (8 * B - 1)"
  shows "(\<exists>out. WriteSignedBigEndian TYPE('a) B val data = Some out \<and> ReadSignedBigEndian TYPE('a) B out = Some val) \<and>
    (\<exists>out. WriteSignedLittleEndian TYPE('a) B val data = Some out \<and> ReadSignedLittleEndian TYPE('a) B out = Some val)"
proof -
  let ?w = "word_of_int val :: 'a word"
  have "signed_take_bit (8 * B - 1) (uint ?w) = signed_take_bit (8 * B - 1) (take_bit LENGTH('a) val)"
    by (simp add: unsigned_of_int)
  also have "\<dots> = signed_take_bit (8 * B - 1) val"
    using assms(1,3) by (auto simp: signed_take_bit_take_bit)
  also have "\<dots> = val" using assms(6,7) by (intro signed_take_bit_int_eq_self) auto
  finally have "read_signed B (take_bit (8 * B) ?w) = Some val" using read_signed_value [OF assms(1-4), of ?w] by simp
  then show ?thesis
    using write_read [OF assms(5), of ?w]
    by (auto simp: WriteSignedBigEndian_def WriteSignedLittleEndian_def ReadSignedBigEndian_def ReadSignedLittleEndian_def)
qed

text \<open>Five bytes of a 64-bit number: for a negative one the mask of \<^verbatim>\<open>SignExtend\<close> has no defined value.\<close>

lemma sign_extension_undefined:
  "ReadSignedBigEndian TYPE(64) 5 [0xFF, 0, 0, 0, 1] = None" "ReadSignedBigEndian TYPE(64) 5 [0x7F, 0, 0, 0, 1] = Some 0x7F00000001"
  by code_simp+

end
