(* ===== verification/PhysSocket.thy ===== *)
theory PhysSocket
  imports SocketAddress ThreadQueue "HOL-Library.Monad_Syntax" "HOL-Library.Signed_Division"
begin

unbundle bit_operations_syntax

text \<open>
  \<^verbatim>\<open>rtc_base/physical_socket_server.cc\<close>, as it is built for macOS (the \<^verbatim>\<open>select\<close> loop, without epoll): the sockets
  of WebRTC with their connection state and the events they ask for, the registry of dispatchers, and
  the loop that waits and delivers events. All sockets are \<^verbatim>\<open>SocketDispatcher\<close>s, so that the overridden methods
  are the ones modelled; sockets have addresses. A system call is an argument of the operation that makes
  it: its result and the \<^verbatim>\<open>errno\<close> after it. A signal (\<^verbatim>\<open>SignalReadEvent\<close> and so on) calls code that is not here; what
  it does is a script of operations on sockets. Using a socket that has been deleted has no value.
\<close>

section \<open>Sockets\<close>

datatype sock_state = CS_CLOSED | CS_CONNECTING | CS_CONNECTED

record phys_socket =
  ps_fd :: int
  ps_udp :: bool
  ps_family :: ip_family
  ps_error :: int
  ps_state :: sock_state
  ps_resolver :: "nat option"
  ps_events :: "8 word"

definition INVALID_SOCKET :: int where "INVALID_SOCKET = - 1"
definition SOCKET_ERROR :: int where "SOCKET_ERROR = - 1"

definition DE_READ :: "8 word" where "DE_READ = 1"
definition DE_WRITE :: "8 word" where "DE_WRITE = 2"
definition DE_CONNECT :: "8 word" where "DE_CONNECT = 4"
definition DE_CLOSE :: "8 word" where "DE_CLOSE = 8"
definition DE_ACCEPT :: "8 word" where "DE_ACCEPT = 16"

text \<open>Numbers of the system headers.\<close>

definition EINTR :: int where "EINTR = 4"
definition EBADF :: int where "EBADF = 9"
definition EWOULDBLOCK :: int where "EWOULDBLOCK = 35"
definition EINPROGRESS :: int where "EINPROGRESS = 36"
definition EALREADY :: int where "EALREADY = 37"
definition ECONNRESET :: int where "ECONNRESET = 54"
definition ENOBUFS :: int where "ENOBUFS = 55"

text \<open>The descriptors that an \<^verbatim>\<open>fd_set\<close> can hold (\<^verbatim>\<open>FD_SETSIZE\<close> is 1024), and the results of calls that make descriptors, while \<open>afd\<close> is open.\<close>

definition fits_fd_set :: "int \<Rightarrow> bool" where "fits_fd_set fd \<longleftrightarrow> 0 \<le> fd \<and> fd < 1024"
definition fd_result :: "int \<Rightarrow> int \<Rightarrow> bool" where "fd_result afd r \<longleftrightarrow> r = INVALID_SOCKET \<or> fits_fd_set r \<and> r \<noteq> afd"

definition IsBlockingError :: "int \<Rightarrow> bool" where
  "IsBlockingError e \<longleftrightarrow> e = EWOULDBLOCK \<or> e = EINPROGRESS"

definition SetEnabledEvents :: "8 word \<Rightarrow> phys_socket \<Rightarrow> phys_socket" where
  "SetEnabledEvents events p = p\<lparr>ps_events := events\<rparr>"

definition EnableEvents :: "8 word \<Rightarrow> phys_socket \<Rightarrow> phys_socket" where
  "EnableEvents events p = p\<lparr>ps_events := ps_events p OR events\<rparr>"

definition DisableEvents :: "8 word \<Rightarrow> phys_socket \<Rightarrow> phys_socket" where
  "DisableEvents events p = p\<lparr>ps_events := ps_events p AND NOT events\<rparr>"

definition ps_SetError :: "int \<Rightarrow> phys_socket \<Rightarrow> phys_socket" where
  "ps_SetError e p = p\<lparr>ps_error := e\<rparr>"

definition MaybeRemapSendError :: "phys_socket \<Rightarrow> phys_socket" where
  "MaybeRemapSendError p = (if ps_error p = ENOBUFS then ps_SetError EWOULDBLOCK p else p)"

text \<open>The constructors: without a descriptor, and around one (whose type \<^verbatim>\<open>getsockopt\<close> tells).\<close>

definition PhysicalSocket_new :: phys_socket where
  "PhysicalSocket_new = \<lparr>ps_fd = INVALID_SOCKET, ps_udp = False, ps_family = AF_UNSPEC, ps_error = 0,
     ps_state = CS_CLOSED, ps_resolver = None, ps_events = 0\<rparr>"

definition PhysicalSocket_wrap :: "int \<Rightarrow> bool \<Rightarrow> phys_socket" where
  "PhysicalSocket_wrap s dgram =
     (if s = INVALID_SOCKET then PhysicalSocket_new
      else SetEnabledEvents (DE_READ OR DE_WRITE)
        (PhysicalSocket_new\<lparr>ps_fd := s, ps_state := CS_CONNECTED, ps_udp := dgram\<rparr>))"

section \<open>The registry\<close>

datatype dispatcher = D_signaler | D_socket nat

record phys_world =
  pw_sockets :: "nat \<rightharpoonup> phys_socket"
  next_dispatcher_key :: nat
  dispatcher_by_key :: "nat \<rightharpoonup> dispatcher"
  key_by_dispatcher :: "dispatcher \<rightharpoonup> nat"
  pw_afd :: int
  pw_fWait :: bool
  pw_fSignaled :: bool

definition pss_Add :: "dispatcher \<Rightarrow> phys_world \<Rightarrow> phys_world" where
  "pss_Add d w =
     (if key_by_dispatcher w d \<noteq> None then w
      else w\<lparr>next_dispatcher_key := Suc (next_dispatcher_key w),
             dispatcher_by_key := (dispatcher_by_key w)(next_dispatcher_key w \<mapsto> d),
             key_by_dispatcher := (key_by_dispatcher w)(d \<mapsto> next_dispatcher_key w)\<rparr>)"

definition pss_Remove :: "dispatcher \<Rightarrow> phys_world \<Rightarrow> phys_world" where
  "pss_Remove d w =
     (case key_by_dispatcher w d of
        None \<Rightarrow> w
      | Some key \<Rightarrow> w\<lparr>key_by_dispatcher := (key_by_dispatcher w)(d := None),
                       dispatcher_by_key := (dispatcher_by_key w)(key := None)\<rparr>)"

text \<open>The server starts with its \<^verbatim>\<open>Signaler\<close>, which wakes it up; \<open>afd\<close> is the end of its pipe that the loop reads.\<close>

definition PhysicalSocketServer_new :: "int \<Rightarrow> phys_world" where
  "PhysicalSocketServer_new afd =
     pss_Add D_signaler \<lparr>pw_sockets = Map.empty, next_dispatcher_key = 0, dispatcher_by_key = Map.empty,
       key_by_dispatcher = Map.empty, pw_afd = afd, pw_fWait = False, pw_fSignaled = False\<rparr>"

definition pss_WakeUp :: "phys_world \<Rightarrow> phys_world" where
  "pss_WakeUp w = w\<lparr>pw_fSignaled := True\<rparr>"

definition signaler_OnEvent :: "phys_world \<Rightarrow> phys_world" where
  "signaler_OnEvent w = w\<lparr>pw_fSignaled := False, pw_fWait := False\<rparr>"

section \<open>Operations\<close>

type_synonym sysres = "int \<times> int"

definition put_socket :: "nat \<Rightarrow> phys_socket \<Rightarrow> phys_world \<Rightarrow> phys_world" where
  "put_socket a p w = w\<lparr>pw_sockets := (pw_sockets w)(a \<mapsto> p)\<rparr>"

definition ps_Close :: "nat \<Rightarrow> sysres \<Rightarrow> phys_world \<Rightarrow> (int \<times> phys_world) option" where
  "ps_Close a closed w = do {
     p \<leftarrow> pw_sockets w a;
     if ps_fd p = INVALID_SOCKET then Some (0, w)
     else Some (fst closed, put_socket a
       (SetEnabledEvents 0 (p\<lparr>ps_error := snd closed, ps_fd := INVALID_SOCKET, ps_state := CS_CLOSED, ps_resolver := None\<rparr>)) w)
   }"

definition sd_Close :: "nat \<Rightarrow> sysres \<Rightarrow> phys_world \<Rightarrow> (int \<times> phys_world) option" where
  "sd_Close a closed w = do {
     p \<leftarrow> pw_sockets w a;
     if ps_fd p = INVALID_SOCKET then Some (0, w) else ps_Close a closed (pss_Remove (D_socket a) w)
   }"

text \<open>\<^verbatim>\<open>Create\<close>: \<open>dgram\<close> is the type of the socket; a new descriptor is made non-blocking and registered.\<close>

definition ps_Create :: "nat \<Rightarrow> ip_family \<Rightarrow> bool \<Rightarrow> sysres \<Rightarrow> sysres \<Rightarrow> phys_world \<Rightarrow> (bool \<times> phys_world) option" where
  "ps_Create a family dgram closed made w = do {
     (r, w1) \<leftarrow> sd_Close a closed w;
     p \<leftarrow> pw_sockets w1 a;
     let p1 = p\<lparr>ps_fd := fst made, ps_udp := dgram, ps_family := family, ps_error := snd made\<rparr>;
     let p2 = (if dgram then SetEnabledEvents (DE_READ OR DE_WRITE) p1 else p1);
     Some (fst made \<noteq> INVALID_SOCKET, put_socket a p2 w1)
   }"

definition sd_Create :: "nat \<Rightarrow> ip_family \<Rightarrow> bool \<Rightarrow> sysres \<Rightarrow> sysres \<Rightarrow> phys_world \<Rightarrow> (bool \<times> phys_world) option" where
  "sd_Create a family dgram closed made w = do {
     (ok, w1) \<leftarrow> ps_Create a family dgram closed made w;
     Some (ok, if ok then pss_Add (D_socket a) w1 else w1)
   }"

definition CreateSocket :: "nat \<Rightarrow> ip_family \<Rightarrow> bool \<Rightarrow> sysres \<Rightarrow> phys_world \<Rightarrow> (ptr \<times> phys_world) option" where
  "CreateSocket a family dgram made w = do {
     (ok, w1) \<leftarrow> sd_Create a family dgram (0, 0) made (put_socket a PhysicalSocket_new w);
     Some (if ok then (Some a, w1) else (None, w1\<lparr>pw_sockets := (pw_sockets w1)(a := None)\<rparr>))
   }"

definition WrapSocket :: "nat \<Rightarrow> int \<Rightarrow> bool \<Rightarrow> phys_world \<Rightarrow> phys_world" where
  "WrapSocket a s dgram w = pss_Add (D_socket a) (put_socket a (PhysicalSocket_wrap s dgram) w)"

definition sd_delete :: "nat \<Rightarrow> sysres \<Rightarrow> phys_world \<Rightarrow> phys_world option" where
  "sd_delete a closed w = do {
     (r, w1) \<leftarrow> sd_Close a closed w;
     Some (w1\<lparr>pw_sockets := (pw_sockets w1)(a := None)\<rparr>)
   }"

definition DoConnect :: "nat \<Rightarrow> socket_address \<Rightarrow> sysres \<Rightarrow> sysres \<Rightarrow> phys_world \<Rightarrow> (int \<times> phys_world) option" where
  "DoConnect a addr made conn w = do {
     p \<leftarrow> pw_sockets w a;
     (ok, w1) \<leftarrow> (if ps_fd p = INVALID_SOCKET then sd_Create a (ip_fam (sa_ip addr)) False (0, 0) made w else Some (True, w));
     if \<not> ok then Some (SOCKET_ERROR, w1)
     else do {
       p1 \<leftarrow> pw_sockets w1 a;
       let p2 = ps_SetError (snd conn) p1;
       if fst conn = 0 then Some (0, put_socket a (EnableEvents (DE_READ OR DE_WRITE) (p2\<lparr>ps_state := CS_CONNECTED\<rparr>)) w1)
       else if IsBlockingError (snd conn) then
         Some (0, put_socket a (EnableEvents (DE_READ OR DE_WRITE OR DE_CONNECT) (p2\<lparr>ps_state := CS_CONNECTING\<rparr>)) w1)
       else Some (SOCKET_ERROR, put_socket a p2 w1)
     }
   }"

text \<open>\<open>resolver\<close> is the address of the resolver that \<^verbatim>\<open>Connect\<close> makes for a name.\<close>

definition ps_Connect :: "nat \<Rightarrow> socket_address \<Rightarrow> nat \<Rightarrow> sysres \<Rightarrow> sysres \<Rightarrow> phys_world \<Rightarrow> (int \<times> phys_world) option" where
  "ps_Connect a addr resolver made conn w = do {
     p \<leftarrow> pw_sockets w a;
     if ps_state p \<noteq> CS_CLOSED then Some (SOCKET_ERROR, put_socket a (ps_SetError EALREADY p) w)
     else if IsUnresolvedIP addr then Some (0, put_socket a (p\<lparr>ps_resolver := Some resolver, ps_state := CS_CONNECTING\<rparr>) w)
     else DoConnect a addr made conn w
   }"

text \<open>\<^verbatim>\<open>OnResolveResult\<close>: the error with which \<^verbatim>\<open>SignalCloseEvent\<close> is emitted, if it is.\<close>

definition OnResolveResult ::
    "nat \<Rightarrow> nat \<Rightarrow> int \<Rightarrow> socket_address \<Rightarrow> sysres \<Rightarrow> sysres \<Rightarrow> sysres \<Rightarrow> phys_world \<Rightarrow> (int option \<times> phys_world) option" where
  "OnResolveResult a resolver rerror addr made conn closed w = do {
     p \<leftarrow> pw_sockets w a;
     if ps_resolver p \<noteq> Some resolver then Some (None, w)
     else do {
       (error, w1) \<leftarrow> (if rerror = 0 then DoConnect a addr made conn w
                       else do { (r, w1) \<leftarrow> sd_Close a closed w; Some (rerror, w1) });
       if error = 0 then Some (None, w1)
       else do { p1 \<leftarrow> pw_sockets w1 a; Some (Some error, put_socket a (ps_SetError error p1) w1) }
     }
   }"

definition ps_Send :: "nat \<Rightarrow> nat \<Rightarrow> sysres \<Rightarrow> phys_world \<Rightarrow> (int \<times> phys_world) option" where
  "ps_Send a cb res w = do {
     p \<leftarrow> pw_sockets w a;
     let sent = fst res;
     let p1 = MaybeRemapSendError (ps_SetError (snd res) p);
     Some (sent, put_socket a
       (if 0 < sent \<and> sent < c_int (int cb) \<or> sent < 0 \<and> IsBlockingError (ps_error p1) then EnableEvents DE_WRITE p1 else p1) w)
   }"

definition ps_SendTo :: "nat \<Rightarrow> nat \<Rightarrow> sysres \<Rightarrow> phys_world \<Rightarrow> (int \<times> phys_world) option" where
  "ps_SendTo a length1 res w = do {
     p \<leftarrow> pw_sockets w a;
     let sent = fst res;
     let p1 = MaybeRemapSendError (ps_SetError (snd res) p);
     Some (sent, put_socket a
       (if 0 < sent \<and> sent < c_int (int length1) \<or> sent < 0 \<and> IsBlockingError (ps_error p1) then EnableEvents DE_WRITE p1 else p1) w)
   }"

definition ps_Recv :: "nat \<Rightarrow> nat \<Rightarrow> sysres \<Rightarrow> phys_world \<Rightarrow> (int \<times> phys_world) option" where
  "ps_Recv a len res w = do {
     p \<leftarrow> pw_sockets w a;
     let received = fst res;
     if received = 0 \<and> len \<noteq> 0 then Some (SOCKET_ERROR, put_socket a (ps_SetError EWOULDBLOCK (EnableEvents DE_READ p)) w)
     else (let p1 = ps_SetError (snd res) p
           in Some (received, put_socket a
                (if ps_udp p1 \<or> 0 \<le> received \<or> IsBlockingError (ps_error p1) then EnableEvents DE_READ p1 else p1) w))
   }"

definition ps_RecvFrom :: "nat \<Rightarrow> sysres \<Rightarrow> phys_world \<Rightarrow> (int \<times> phys_world) option" where
  "ps_RecvFrom a res w = do {
     p \<leftarrow> pw_sockets w a;
     let p1 = ps_SetError (snd res) p;
     Some (fst res, put_socket a
       (if ps_udp p1 \<or> 0 \<le> fst res \<or> IsBlockingError (ps_error p1) then EnableEvents DE_READ p1 else p1) w)
   }"

definition ps_Listen :: "nat \<Rightarrow> sysres \<Rightarrow> phys_world \<Rightarrow> (int \<times> phys_world) option" where
  "ps_Listen a res w = do {
     p \<leftarrow> pw_sockets w a;
     let p1 = ps_SetError (snd res) p;
     Some (fst res, put_socket a (if fst res = 0 then EnableEvents DE_ACCEPT (p1\<lparr>ps_state := CS_CONNECTING\<rparr>) else p1) w)
   }"

text \<open>\<^verbatim>\<open>Accept\<close>: \<open>b\<close> is the address of the new socket.\<close>

definition ps_Accept :: "nat \<Rightarrow> nat \<Rightarrow> sysres \<Rightarrow> bool \<Rightarrow> phys_world \<Rightarrow> (ptr \<times> phys_world) option" where
  "ps_Accept a b res dgram w = do {
     p \<leftarrow> pw_sockets w a;
     let w1 = put_socket a (ps_SetError (snd res) (EnableEvents DE_ACCEPT p)) w;
     Some (if fst res = INVALID_SOCKET then (None, w1) else (Some b, WrapSocket b (fst res) dgram w1))
   }"

datatype binding = B_success | B_not_implemented | B_failed

text \<open>\<^verbatim>\<open>Bind\<close>: \<open>net\<close> is the answer of \<^verbatim>\<open>BindSocketToNetwork\<close>, where one is installed; also the address that is bound, if any.\<close>

definition ps_Bind ::
    "nat \<Rightarrow> socket_address \<Rightarrow> binding option \<Rightarrow> sysres \<Rightarrow> phys_world \<Rightarrow> (int \<times> socket_address option \<times> phys_world) option" where
  "ps_Bind a addr net res w = do {
     p \<leftarrow> pw_sockets w a;
     let net1 = (if IsAnyIP addr then None else net);
     if net1 = Some B_failed \<and> \<not> IsLoopbackIP addr then Some (- 1, None, w)
     else (let bound = (if net1 = Some B_success then SetIP (GetAnyIP (ip_fam (sa_ip addr))) addr else addr)
           in Some (fst res, Some bound, put_socket a (ps_SetError (snd res) p) w))
   }"

section \<open>Options\<close>

datatype sock_option = OPT_DONTFRAGMENT | OPT_RCVBUF | OPT_SNDBUF | OPT_NODELAY | OPT_IPV6_V6ONLY | OPT_DSCP | OPT_RTP_SENDTIME_EXTN_ID

text \<open>Level and number of an option; \<open>None\<close> is the result -1.\<close>

definition TranslateOption :: "sock_option \<Rightarrow> phys_socket \<Rightarrow> (int \<times> int) option" where
  "TranslateOption opt p =
     (case opt of
        OPT_DONTFRAGMENT \<Rightarrow> None
      | OPT_RCVBUF \<Rightarrow> Some (0xFFFF, 0x1002)
      | OPT_SNDBUF \<Rightarrow> Some (0xFFFF, 0x1001)
      | OPT_NODELAY \<Rightarrow> Some (6, 1)
      | OPT_IPV6_V6ONLY \<Rightarrow> None
      | OPT_DSCP \<Rightarrow> if ps_family p = AF_INET6 then Some (41, 36) else Some (0, 3)
      | OPT_RTP_SENDTIME_EXTN_ID \<Rightarrow> None)"

text \<open>\<^verbatim>\<open>GetOption\<close>: \<open>got\<close> is what \<^verbatim>\<open>getsockopt\<close> returns and stores.\<close>

definition ps_GetOption :: "sock_option \<Rightarrow> int \<times> int \<Rightarrow> phys_socket \<Rightarrow> int \<times> int option" where
  "ps_GetOption opt got p =
     (case TranslateOption opt p of
        None \<Rightarrow> (- 1, None)
      | Some _ \<Rightarrow>
          if fst got = - 1 then (- 1, None)
          else (fst got, Some (if opt = OPT_DSCP then snd got div 4 else snd got)))"

text \<open>\<^verbatim>\<open>SetOption\<close>: also the calls of \<^verbatim>\<open>setsockopt\<close>, as level, number and value.\<close>

definition ps_SetOption :: "sock_option \<Rightarrow> int \<Rightarrow> sysres \<Rightarrow> phys_socket \<Rightarrow> int \<times> (int \<times> int \<times> int) list \<times> phys_socket" where
  "ps_SetOption opt value res p =
     (case TranslateOption opt p of
        None \<Rightarrow> (- 1, [], p)
      | Some (slevel, sopt) \<Rightarrow>
          (let v = (if opt = OPT_DSCP then c_int (value * 4) else value)
           in (fst res, (if sopt = 36 then [(0, 3, v)] else []) @ [(slevel, sopt, v)],
               if fst res \<noteq> 0 then ps_SetError (snd res) p else p)))"

section \<open>Scripts\<close>

datatype ps_op = P_close nat sysres | P_create nat ip_family bool sysres sysres | P_new nat ip_family bool sysres
  | P_delete nat sysres | P_connect nat socket_address nat sysres sysres
  | P_resolved nat nat int socket_address sysres sysres sysres | P_send nat nat sysres | P_sendto nat nat sysres | P_recv nat nat sysres
  | P_recvfrom nat sysres | P_listen nat sysres | P_accept nat nat sysres bool
  | P_bind nat socket_address "binding option" sysres | P_wakeup

fun ps_apply :: "ps_op \<Rightarrow> phys_world \<Rightarrow> phys_world option" where
  "ps_apply (P_close a res) w = map_option snd (sd_Close a res w)"
| "ps_apply (P_create a fam dgram closed made) w = map_option snd (sd_Create a fam dgram closed made w)"
| "ps_apply (P_new a fam dgram made) w = map_option snd (CreateSocket a fam dgram made w)"
| "ps_apply (P_delete a closed) w = sd_delete a closed w"
| "ps_apply (P_connect a addr r made conn) w = map_option snd (ps_Connect a addr r made conn w)"
| "ps_apply (P_resolved a r e addr made conn closed) w = map_option snd (OnResolveResult a r e addr made conn closed w)"
| "ps_apply (P_send a cb res) w = map_option snd (ps_Send a cb res w)"
| "ps_apply (P_sendto a cb res) w = map_option snd (ps_SendTo a cb res w)"
| "ps_apply (P_recv a len res) w = map_option snd (ps_Recv a len res w)"
| "ps_apply (P_recvfrom a res) w = map_option snd (ps_RecvFrom a res w)"
| "ps_apply (P_listen a res) w = map_option snd (ps_Listen a res w)"
| "ps_apply (P_accept a b res dgram) w = map_option snd (ps_Accept a b res dgram w)"
| "ps_apply (P_bind a addr net res) w = map_option (snd \<circ> snd) (ps_Bind a addr net res w)"
| "ps_apply P_wakeup w = Some (pss_WakeUp w)"

text \<open>
  What the users of sockets keep to: they name sockets that exist, new ones get unused addresses, and the
  socket that is being called back (\<open>busy\<close>) is not deleted. The system hands out descriptors
  that fit into an \<^verbatim>\<open>fd_set\<close> and are not the one of the \<^verbatim>\<open>Signaler\<close>. A script skips what is not allowed.
\<close>

fun ps_op_ok :: "ptr \<Rightarrow> ps_op \<Rightarrow> phys_world \<Rightarrow> bool" where
  "ps_op_ok busy (P_new a _ _ made) w \<longleftrightarrow> pw_sockets w a = None \<and> fd_result (pw_afd w) (fst made)"
| "ps_op_ok busy (P_delete a _) w \<longleftrightarrow> pw_sockets w a \<noteq> None \<and> busy \<noteq> Some a"
| "ps_op_ok busy (P_accept a b res _) w \<longleftrightarrow> pw_sockets w a \<noteq> None \<and> pw_sockets w b = None \<and> fd_result (pw_afd w) (fst res)"
| "ps_op_ok busy (P_close a _) w \<longleftrightarrow> pw_sockets w a \<noteq> None"
| "ps_op_ok busy (P_create a _ _ _ made) w \<longleftrightarrow> pw_sockets w a \<noteq> None \<and> fd_result (pw_afd w) (fst made)"
| "ps_op_ok busy (P_connect a _ _ made _) w \<longleftrightarrow> pw_sockets w a \<noteq> None \<and> fd_result (pw_afd w) (fst made)"
| "ps_op_ok busy (P_resolved a _ _ _ made _ _) w \<longleftrightarrow> pw_sockets w a \<noteq> None \<and> fd_result (pw_afd w) (fst made)"
| "ps_op_ok busy (P_send a _ _) w \<longleftrightarrow> pw_sockets w a \<noteq> None"
| "ps_op_ok busy (P_sendto a _ _) w \<longleftrightarrow> pw_sockets w a \<noteq> None"
| "ps_op_ok busy (P_recv a _ _) w \<longleftrightarrow> pw_sockets w a \<noteq> None"
| "ps_op_ok busy (P_recvfrom a _) w \<longleftrightarrow> pw_sockets w a \<noteq> None"
| "ps_op_ok busy (P_listen a _) w \<longleftrightarrow> pw_sockets w a \<noteq> None"
| "ps_op_ok busy (P_bind a _ _ _) w \<longleftrightarrow> pw_sockets w a \<noteq> None"
| "ps_op_ok busy P_wakeup w \<longleftrightarrow> True"

fun run_script :: "ptr \<Rightarrow> ps_op list \<Rightarrow> phys_world \<Rightarrow> phys_world option" where
  "run_script busy [] w = Some w"
| "run_script busy (p # ps) w =
     (if ps_op_ok busy p w then Option.bind (ps_apply p w) (run_script busy ps) else run_script busy ps w)"

section \<open>Delivering events\<close>

definition IsDescriptorClosed :: "sysres \<Rightarrow> phys_socket \<Rightarrow> bool" where
  "IsDescriptorClosed peek p =
     (if ps_udp p then ps_fd p = INVALID_SOCKET
      else if 0 < fst peek then False
      else if fst peek = 0 then True
      else snd peek = EBADF \<or> snd peek = ECONNRESET)"

record event_env =
  ee_errcode :: int
  ee_peek :: sysres
  on_connect :: "ps_op list"
  on_accept :: "ps_op list"
  on_read :: "ps_op list"
  on_write :: "ps_op list"
  on_close :: "ps_op list"

text \<open>Disable an event and emit its signal; a signal of \<^verbatim>\<open>OnEvent\<close> that is followed by further code.\<close>

definition fire :: "nat \<Rightarrow> 8 word \<Rightarrow> 8 word \<Rightarrow> ps_op list \<Rightarrow> phys_world \<Rightarrow> phys_world option" where
  "fire a ff ev script w =
     (if ff AND ev \<noteq> 0
      then do { p \<leftarrow> pw_sockets w a; run_script (Some a) script (put_socket a (DisableEvents ev p) w) }
      else Some w)"

definition sd_OnEvent :: "nat \<Rightarrow> 8 word \<Rightarrow> event_env \<Rightarrow> phys_world \<Rightarrow> phys_world option" where
  "sd_OnEvent a ff env w = do {
     p \<leftarrow> pw_sockets w a;
     let p1 = (if ff AND DE_CONNECT \<noteq> 0 then p\<lparr>ps_state := CS_CONNECTED\<rparr> else p);
     let p2 = (if ff AND DE_CLOSE \<noteq> 0 then p1\<lparr>ps_state := CS_CLOSED\<rparr> else p1);
     w1 \<leftarrow> fire a ff DE_CONNECT (on_connect env) (put_socket a p2 w);
     w2 \<leftarrow> fire a ff DE_ACCEPT (on_accept env) w1;
     w3 \<leftarrow> fire a ff DE_READ (on_read env) w2;
     w4 \<leftarrow> fire a ff DE_WRITE (on_write env) w3;
     if ff AND DE_CLOSE \<noteq> 0
     then do { q \<leftarrow> pw_sockets w4 a; run_script None (on_close env) (put_socket a (SetEnabledEvents 0 q) w4) }
     else Some w4
   }"

definition event_flags :: "8 word \<Rightarrow> bool \<Rightarrow> bool \<Rightarrow> int \<Rightarrow> bool \<Rightarrow> 8 word" where
  "event_flags requested readable writable errcode closed =
     (if readable then (if requested AND DE_ACCEPT \<noteq> 0 then DE_ACCEPT
                        else if errcode \<noteq> 0 \<or> closed then DE_CLOSE else DE_READ) else 0) OR
     (if writable then (if requested AND DE_CONNECT \<noteq> 0 then (if errcode = 0 then DE_CONNECT else DE_CLOSE)
                        else DE_WRITE) else 0)"

definition ProcessEvents :: "dispatcher \<Rightarrow> bool \<Rightarrow> bool \<Rightarrow> bool \<Rightarrow> event_env \<Rightarrow> phys_world \<Rightarrow> phys_world option" where
  "ProcessEvents d readable writable check_error env w =
     (let errcode = (if check_error then ee_errcode env else 0)
      in case d of
           D_signaler \<Rightarrow>
             (let ff = event_flags DE_READ readable writable errcode False in Some (if ff \<noteq> 0 then signaler_OnEvent w else w))
         | D_socket a \<Rightarrow> do {
             p \<leftarrow> pw_sockets w a;
             let ff = event_flags (ps_events p) readable writable errcode (IsDescriptorClosed (ee_peek env) p);
             if ff \<noteq> 0 then sd_OnEvent a ff env w else Some w
           })"

section \<open>The select loop\<close>

definition GetDescriptor :: "dispatcher \<Rightarrow> phys_world \<Rightarrow> int option" where
  "GetDescriptor d w = (case d of D_signaler \<Rightarrow> Some (pw_afd w) | D_socket a \<Rightarrow> map_option ps_fd (pw_sockets w a))"

definition GetRequestedEvents :: "dispatcher \<Rightarrow> phys_world \<Rightarrow> (8 word) option" where
  "GetRequestedEvents d w = (case d of D_signaler \<Rightarrow> Some DE_READ | D_socket a \<Rightarrow> map_option ps_events (pw_sockets w a))"

text \<open>
  The keys of the hash table come in no particular order: \<open>order\<close> lists keys, those of the table are visited in
  that order and the others after them.
\<close>

definition in_order :: "nat list \<Rightarrow> nat list \<Rightarrow> nat list" where
  "in_order order ks = filter (\<lambda>k. k \<in> set ks) (remdups order) @ filter (\<lambda>k. k \<notin> set order) ks"

definition current_keys :: "bool \<Rightarrow> nat list \<Rightarrow> phys_world \<Rightarrow> nat list" where
  "current_keys process_io order w =
     in_order order (filter (\<lambda>k. case dispatcher_by_key w k of None \<Rightarrow> False | Some d \<Rightarrow> process_io \<or> d = D_signaler)
       [0..<next_dispatcher_key w])"

text \<open>The descriptors that are put into the two sets; an \<^verbatim>\<open>fd_set\<close> has no place for others (\<^verbatim>\<open>FD_SET\<close> then writes outside).\<close>

fun fill_sets :: "nat list \<Rightarrow> phys_world \<Rightarrow> (int list \<times> int list) option" where
  "fill_sets [] w = Some ([], [])"
| "fill_sets (k # ks) w = do {
     d \<leftarrow> dispatcher_by_key w k;
     fd \<leftarrow> GetDescriptor d w;
     ff \<leftarrow> GetRequestedEvents d w;
     (rd, wr) \<leftarrow> fill_sets ks w;
     if \<not> fits_fd_set fd then None else Some (if ff AND (DE_READ OR DE_ACCEPT) \<noteq> 0 then fd # rd else rd, if ff AND (DE_WRITE OR DE_CONNECT) \<noteq> 0 then fd # wr else wr)
   }"

fun deliver_loop ::
    "(nat \<Rightarrow> event_env) \<Rightarrow> nat list \<Rightarrow> int list \<Rightarrow> int list \<Rightarrow> phys_world \<Rightarrow> phys_world option" where
  "deliver_loop env [] rd wr w = Some w"
| "deliver_loop env (k # ks) rd wr w =
     (case dispatcher_by_key w k of
        None \<Rightarrow> deliver_loop env ks rd wr w
      | Some d \<Rightarrow> do {
          fd \<leftarrow> GetDescriptor d w;
          let readable = (fd \<in> set rd);
          let writable = (fd \<in> set wr);
          if \<not> fits_fd_set fd then None
          else do {
            w1 \<leftarrow> ProcessEvents d readable writable (readable \<or> writable) (env k) w;
            deliver_loop env ks (removeAll fd rd) (removeAll fd wr) w1
          }
        })"

text \<open>
  One call of \<^verbatim>\<open>select\<close>: the order of the keys before it, what other threads do while it blocks, its result and \<^verbatim>\<open>errno\<close>, which of the descriptors
  it was given are ready, what the delivered signals do, and the time after that in microseconds.
\<close>

record sel_round =
  sr_order :: "nat list"
  sr_meanwhile :: "ps_op list"
  sr_n :: int
  sr_errno :: int
  sr_ready_read :: "int list"
  sr_ready_write :: "int list"
  sr_env :: "nat \<Rightarrow> event_env"
  sr_time :: int

datatype wait_result = W_return bool | W_blocked

definition time_left :: "int option \<Rightarrow> int \<Rightarrow> (int \<times> int) option" where
  "time_left stop_us now =
     (case stop_us of
        None \<Rightarrow> None
      | Some stop \<Rightarrow> if 0 < stop - now then Some ((stop - now) div 1000000, (stop - now) mod 1000000) else Some (0, 0))"

text \<open>The result also lists the time limit of every call of \<^verbatim>\<open>select\<close>, with the time at which it was computed.\<close>

type_synonym wait_limit = "int \<times> (int \<times> int) option"

fun select_loop ::
    "bool \<Rightarrow> int option \<Rightarrow> sel_round list \<Rightarrow> wait_limit \<Rightarrow> wait_limit list \<Rightarrow> phys_world \<Rightarrow>
     (wait_result \<times> wait_limit list \<times> phys_world) option" where
  "select_loop process_io stop_us rounds tv waits w =
     (if \<not> pw_fWait w then Some (W_return True, waits, w)
      else (case rounds of
              [] \<Rightarrow> Some (W_blocked, waits @ [tv], w)
            | r # rs \<Rightarrow>
                (let keys = current_keys process_io (sr_order r) w in do {
                   (rd, wr) \<leftarrow> fill_sets keys w;
                   w1 \<leftarrow> run_script None (sr_meanwhile r) w;
                   if sr_n r < 0 \<and> sr_errno r \<noteq> EINTR then Some (W_return False, waits @ [tv], w1)
                   else if sr_n r = 0 then Some (W_return True, waits @ [tv], w1)
                   else do {
                     w2 \<leftarrow> (if sr_n r < 0 then Some w1
                             else deliver_loop (sr_env r) keys (filter (\<lambda>fd. fd \<in> set rd) (sr_ready_read r))
                                    (filter (\<lambda>fd. fd \<in> set wr) (sr_ready_write r)) w1);
                     select_loop process_io stop_us rs (sr_time r, time_left stop_us (sr_time r)) (waits @ [tv]) w2
                   }
                 })))"

text \<open>\<^verbatim>\<open>cmsWait * 1000\<close> is an \<^verbatim>\<open>int\<close>; where it overflows the wait has no value.\<close>

definition WaitSelect ::
    "int \<Rightarrow> bool \<Rightarrow> int \<Rightarrow> sel_round list \<Rightarrow> phys_world \<Rightarrow> (wait_result \<times> wait_limit list \<times> phys_world) option" where
  "WaitSelect cmsWait process_io now rounds w =
     (if cmsWait = kForever then select_loop process_io None rounds (now, None) [] (w\<lparr>pw_fWait := True\<rparr>)
      else if c_int (cmsWait * 1000) \<noteq> cmsWait * 1000 then None
      else select_loop process_io (Some (now + cmsWait * 1000)) rounds
             (now, Some (cmsWait sdiv 1000, cmsWait smod 1000 * 1000)) [] (w\<lparr>pw_fWait := True\<rparr>))"

declare select_loop.simps [simp del]

section \<open>The registry matches the sockets\<close>

definition open_socket :: "phys_world \<Rightarrow> nat \<Rightarrow> bool" where
  "open_socket w a \<longleftrightarrow> (\<exists>p. pw_sockets w a = Some p \<and> ps_fd p \<noteq> INVALID_SOCKET)"

definition registry_ok :: "phys_world \<Rightarrow> bool" where
  "registry_ok w \<longleftrightarrow> (\<forall>k d. dispatcher_by_key w k = Some d \<longleftrightarrow> key_by_dispatcher w d = Some k) \<and>
     (\<forall>k. dispatcher_by_key w k \<noteq> None \<longrightarrow> k < next_dispatcher_key w) \<and> dispatcher_by_key w 0 = Some D_signaler"

text \<open>
  The invariant: the two maps are inverse, the \<^verbatim>\<open>Signaler\<close> is the first dispatcher, and exactly the open sockets are
  registered besides; all descriptors fit into an \<^verbatim>\<open>fd_set\<close>, and no socket has the one of the \<^verbatim>\<open>Signaler\<close>.
\<close>

definition phys_ok :: "phys_world \<Rightarrow> bool" where
  "phys_ok w \<longleftrightarrow> registry_ok w \<and> (\<forall>a. key_by_dispatcher w (D_socket a) \<noteq> None \<longleftrightarrow> open_socket w a) \<and>
     (\<forall>a p. pw_sockets w a = Some p \<longrightarrow> fd_result (pw_afd w) (ps_fd p)) \<and> fits_fd_set (pw_afd w)"

lemma registry_okD:
  assumes "registry_ok w"
  shows "dispatcher_by_key w k = Some d \<longleftrightarrow> key_by_dispatcher w d = Some k" "key_by_dispatcher w d = Some k \<Longrightarrow> k < next_dispatcher_key w"
    "dispatcher_by_key w 0 = Some D_signaler" "key_by_dispatcher w D_signaler = Some 0"
  using assms unfolding registry_ok_def by (blast, metis option.distinct(1), blast, blast)

lemma registry_Add:
  assumes "registry_ok w"
  shows "registry_ok (pss_Add d w)"
proof (cases "key_by_dispatcher w d")
  case None
  let ?n = "next_dispatcher_key w"
  note r = registry_okD [OF assms]
  have old: "key_by_dispatcher w e \<noteq> Some ?n" for e using r(2) [of e ?n] by auto
  have none: "dispatcher_by_key w k \<noteq> Some d" for k using r(1) [of k d] None by simp
  have pos: "?n \<noteq> 0" using r(2) [OF r(4)] by simp
  have "(dispatcher_by_key (pss_Add d w) k = Some e) = (key_by_dispatcher (pss_Add d w) e = Some k)" for k e
    using None old [of e] none [of k] r(1) [of k e] by (auto simp: pss_Add_def)
  moreover have "k < next_dispatcher_key (pss_Add d w)" if k: "dispatcher_by_key (pss_Add d w) k \<noteq> None" for k
  proof (cases "k = ?n")
    case False
    then obtain e where "dispatcher_by_key w k = Some e" using k None by (auto simp: pss_Add_def)
    then have "k < ?n" using r(1,2) by blast
    then show ?thesis using None by (simp add: pss_Add_def)
  qed (simp add: pss_Add_def None)
  moreover have "dispatcher_by_key (pss_Add d w) 0 = Some D_signaler" using pos r(3) None by (simp add: pss_Add_def)
  ultimately show ?thesis unfolding registry_ok_def by blast
qed (use assms in \<open>simp add: pss_Add_def\<close>)

lemma Add_frame [simp]:
  "pw_sockets (pss_Add d w) = pw_sockets w" "pw_fWait (pss_Add d w) = pw_fWait w" "pw_afd (pss_Add d w) = pw_afd w"
  "(key_by_dispatcher (pss_Add d w) e = None) = (key_by_dispatcher w e = None \<and> e \<noteq> d)"
  by (auto simp: pss_Add_def)

lemma registry_Remove:
  assumes "registry_ok w"
  shows "registry_ok (pss_Remove (D_socket a) w)"
proof (cases "key_by_dispatcher w (D_socket a)")
  case (Some key)
  note r = registry_okD [OF assms]
  have key: "key_by_dispatcher w e = Some key \<longleftrightarrow> e = D_socket a" for e using Some r(1) by (metis option.inject)
  have "key \<noteq> 0" using key [of D_signaler] r(4) by auto
  moreover have "(dispatcher_by_key (pss_Remove (D_socket a) w) k = Some e) = (key_by_dispatcher (pss_Remove (D_socket a) w) e = Some k)" for k e
    using Some key [of e] r(1) [of k e] by (auto simp: pss_Remove_def)
  moreover have "k < next_dispatcher_key (pss_Remove (D_socket a) w)" if "dispatcher_by_key (pss_Remove (D_socket a) w) k \<noteq> None" for k
    using that r(1) [of k] r(2) [of _ k] Some by (auto simp: pss_Remove_def split: if_splits)
  moreover have "dispatcher_by_key (pss_Remove (D_socket a) w) 0 = Some D_signaler"
    using \<open>key \<noteq> 0\<close> r(3) Some by (simp add: pss_Remove_def)
  ultimately show ?thesis unfolding registry_ok_def by blast
qed (use assms in \<open>simp add: pss_Remove_def\<close>)

lemma Remove_frame [simp]:
  "pw_sockets (pss_Remove d w) = pw_sockets w" "pw_fWait (pss_Remove d w) = pw_fWait w" "pw_afd (pss_Remove d w) = pw_afd w"
  "(key_by_dispatcher (pss_Remove d w) e = None) = (key_by_dispatcher w e = None \<or> e = d)"
  by (auto simp: pss_Remove_def split: option.splits)

lemma put_frame [simp]:
  "registry_ok (put_socket a p w) = registry_ok w" "key_by_dispatcher (put_socket a p w) = key_by_dispatcher w"
  "dispatcher_by_key (put_socket a p w) = dispatcher_by_key w" "pw_fWait (put_socket a p w) = pw_fWait w" "pw_afd (put_socket a p w) = pw_afd w"
  "pw_sockets (put_socket a p w) = (pw_sockets w)(a \<mapsto> p)"
  by (simp_all add: registry_ok_def put_socket_def)

lemma event_fd [simp]:
  "ps_fd (SetEnabledEvents e p) = ps_fd p" "ps_fd (EnableEvents e p) = ps_fd p" "ps_fd (DisableEvents e p) = ps_fd p"
  "ps_fd (ps_SetError e1 p) = ps_fd p" "ps_fd (MaybeRemapSendError p) = ps_fd p"
  by (simp_all add: SetEnabledEvents_def EnableEvents_def DisableEvents_def ps_SetError_def MaybeRemapSendError_def)

lemma fd_result_invalid [simp]: "fd_result afd INVALID_SOCKET" by (simp add: fd_result_def)

lemma phys_okD:
  assumes "phys_ok w"
  shows "registry_ok w" "key_by_dispatcher w (D_socket a) = None \<longleftrightarrow> \<not> open_socket w a"
    "pw_sockets w a = Some p \<Longrightarrow> fd_result (pw_afd w) (ps_fd p)" "fits_fd_set (pw_afd w)"
  using assms unfolding phys_ok_def by blast+

lemma phys_okI:
  assumes "registry_ok w" "\<And>a. key_by_dispatcher w (D_socket a) = None \<longleftrightarrow> \<not> open_socket w a"
    "\<And>a p. pw_sockets w a = Some p \<Longrightarrow> fd_result (pw_afd w) (ps_fd p)" "fits_fd_set (pw_afd w)"
  shows "phys_ok w"
  using assms(1,3,4) unfolding phys_ok_def by (simp add: assms(2))

text \<open>Changing a socket but not its descriptor; closing; giving a closed or new socket a descriptor, or none.\<close>

lemma phys_put:
  assumes "phys_ok w" "pw_sockets w a = Some p" "ps_fd q = ps_fd p"
  shows "phys_ok (put_socket a q w)"
proof (rule phys_okI)
  note o = phys_okD [OF assms(1)]
  have "open_socket (put_socket a q w) b = open_socket w b" for b using assms(2,3) by (simp add: open_socket_def)
  then show "key_by_dispatcher (put_socket a q w) (D_socket b) = None \<longleftrightarrow> \<not> open_socket (put_socket a q w) b" for b using o(2) by simp
  show "fd_result (pw_afd (put_socket a q w)) (ps_fd r)" if "pw_sockets (put_socket a q w) b = Some r" for b r
    using that o(3) [OF assms(2)] o(3) [of b r] assms(3) by (simp split: if_splits)
qed (use phys_okD(1,4) [OF assms(1)] in simp_all)

lemma phys_shut:
  assumes "phys_ok w" "ps_fd q = INVALID_SOCKET"
  shows "phys_ok (put_socket a q (pss_Remove (D_socket a) w))"
proof (rule phys_okI)
  note o = phys_okD [OF assms(1)]
  show "registry_ok (put_socket a q (pss_Remove (D_socket a) w))" using registry_Remove [OF o(1)] by simp
  show "key_by_dispatcher (put_socket a q (pss_Remove (D_socket a) w)) (D_socket b) = None \<longleftrightarrow>
      \<not> open_socket (put_socket a q (pss_Remove (D_socket a) w)) b" for b
    using o(2) [of b] assms(2) by (auto simp: open_socket_def)
  show "fd_result (pw_afd (put_socket a q (pss_Remove (D_socket a) w))) (ps_fd r)" if "pw_sockets (put_socket a q (pss_Remove (D_socket a) w)) b = Some r" for b r
    using that o(3) [of b r] assms(2) by (simp split: if_splits)
qed (use phys_okD(4) [OF assms(1)] in simp)

lemma phys_open:
  assumes "phys_ok w" "\<not> open_socket w a" "fits_fd_set (ps_fd q) \<and> ps_fd q \<noteq> pw_afd w"
  shows "phys_ok (pss_Add (D_socket a) (put_socket a q w))"
proof (rule phys_okI)
  note o = phys_okD [OF assms(1)]
  show "registry_ok (pss_Add (D_socket a) (put_socket a q w))" by (rule registry_Add) (simp add: o(1))
  show "key_by_dispatcher (pss_Add (D_socket a) (put_socket a q w)) (D_socket b) = None \<longleftrightarrow>
      \<not> open_socket (pss_Add (D_socket a) (put_socket a q w)) b" for b
    using o(2) [of b] assms(3) by (auto simp: open_socket_def fits_fd_set_def INVALID_SOCKET_def)
  show "fd_result (pw_afd (pss_Add (D_socket a) (put_socket a q w))) (ps_fd r)" if "pw_sockets (pss_Add (D_socket a) (put_socket a q w)) b = Some r" for b r
    using that o(3) [of b r] assms(3) by (simp add: fd_result_def split: if_splits)
qed (use phys_okD(4) [OF assms(1)] in simp)

lemma phys_unopened:
  assumes "phys_ok w" "\<not> open_socket w a" "\<And>p. q = Some p \<Longrightarrow> ps_fd p = INVALID_SOCKET"
  shows "phys_ok (w\<lparr>pw_sockets := (pw_sockets w)(a := q)\<rparr>)"
proof (rule phys_okI)
  note o = phys_okD [OF assms(1)]
  let ?w = "w\<lparr>pw_sockets := (pw_sockets w)(a := q)\<rparr>"
  show "registry_ok ?w" using o(1) by (simp add: registry_ok_def)
  have "open_socket ?w b \<longleftrightarrow> open_socket w b" for b using assms(2,3) by (auto simp: open_socket_def)
  then show "key_by_dispatcher ?w (D_socket b) = None \<longleftrightarrow> \<not> open_socket ?w b" for b using o(2) [of b] by simp
  show "fd_result (pw_afd ?w) (ps_fd r)" if "pw_sockets ?w b = Some r" for b r
    using that o(3) [of b r] assms(3) by (auto split: if_splits)
qed (use phys_okD(4) [OF assms(1)] in simp)

text \<open>
  What an operation keeps: the invariant, the flag of the wait, and the sockets, which it may change but not delete.
\<close>

definition stays_ok :: "phys_world \<Rightarrow> phys_world \<Rightarrow> bool" where
  "stays_ok w w1 \<longleftrightarrow> phys_ok w1 \<and> pw_afd w1 = pw_afd w \<and> pw_fWait w1 = pw_fWait w \<and> (\<forall>a. pw_sockets w a \<noteq> None \<longrightarrow> pw_sockets w1 a \<noteq> None)"

lemma stays_ok_refl: "phys_ok w \<Longrightarrow> stays_ok w w" by (simp add: stays_ok_def)

lemma stays_ok_trans [trans]: "stays_ok w w1 \<Longrightarrow> stays_ok w1 w2 \<Longrightarrow> stays_ok w w2" unfolding stays_ok_def by metis

lemma stays_ok_put:
  assumes "phys_ok w" "pw_sockets w a = Some p" "ps_fd q = ps_fd p"
  shows "stays_ok w (put_socket a q w)"
  using phys_put [OF assms] by (simp add: stays_ok_def)

lemma close_keeps:
  assumes "phys_ok w" "pw_sockets w a = Some p"
  shows "\<exists>r w1 q. sd_Close a closed w = Some (r, w1) \<and> stays_ok w w1 \<and> pw_sockets w1 a = Some q \<and> ps_fd q = INVALID_SOCKET"
proof (cases "ps_fd p = INVALID_SOCKET")
  case True
  then show ?thesis using assms by (simp add: sd_Close_def stays_ok_refl)
next
  case False
  let ?q = "SetEnabledEvents 0 (p\<lparr>ps_error := snd closed, ps_fd := INVALID_SOCKET, ps_state := CS_CLOSED, ps_resolver := None\<rparr>)"
  have "phys_ok (put_socket a ?q (pss_Remove (D_socket a) w))" by (rule phys_shut [OF assms(1)]) simp
  then show ?thesis using assms(2) False by (simp add: sd_Close_def ps_Close_def stays_ok_def)
qed

lemma create_keeps:
  assumes "phys_ok w" "pw_sockets w a = Some p" "fd_result (pw_afd w) (fst made)"
  shows "\<exists>ok w1 q. sd_Create a family dgram closed made w = Some (ok, w1) \<and> stays_ok w w1 \<and> pw_sockets w1 a = Some q \<and>
    (ok \<longleftrightarrow> ps_fd q \<noteq> INVALID_SOCKET)"
proof -
  obtain r w1 q where c: "sd_Close a closed w = Some (r, w1)" "stays_ok w w1" "pw_sockets w1 a = Some q" "ps_fd q = INVALID_SOCKET"
    using close_keeps [OF assms(1,2)] by blast
  have ok: "phys_ok w1" using c(2) by (simp add: stays_ok_def)
  have n: "\<not> open_socket w1 a" using c(3,4) by (simp add: open_socket_def)
  define q1 where "q1 = (let p1 = q\<lparr>ps_fd := fst made, ps_udp := dgram, ps_family := family, ps_error := snd made\<rparr>
    in if dgram then SetEnabledEvents (DE_READ OR DE_WRITE) p1 else p1)"
  have fd: "ps_fd q1 = fst made" by (simp add: q1_def Let_def)
  have cr: "ps_Create a family dgram closed made w = Some (fst made \<noteq> INVALID_SOCKET, put_socket a q1 w1)"
    using c(1,3) by (simp add: ps_Create_def q1_def Let_def)
  show ?thesis
  proof (cases "fst made = INVALID_SOCKET")
    case True
    have "stays_ok w1 (put_socket a q1 w1)" by (rule stays_ok_put [OF ok c(3)]) (simp add: fd True c(4))
    then show ?thesis using stays_ok_trans [OF c(2)] cr True fd by (auto simp: sd_Create_def)
  next
    case False
    then have "fits_fd_set (ps_fd q1) \<and> ps_fd q1 \<noteq> pw_afd w1" using assms(3) fd c(2) by (simp add: fd_result_def stays_ok_def)
    then have "stays_ok w1 (pss_Add (D_socket a) (put_socket a q1 w1))" using phys_open [OF ok n] by (simp add: stays_ok_def)
    then show ?thesis using stays_ok_trans [OF c(2)] cr False fd by (auto simp: sd_Create_def)
  qed
qed

lemma DoConnect_keeps:
  assumes "phys_ok w" "pw_sockets w a = Some p" "fd_result (pw_afd w) (fst made)"
  shows "\<exists>r w1. DoConnect a addr made conn w = Some (r, w1) \<and> stays_ok w w1"
proof -
  define fam where "fam = ip_fam (sa_ip addr)"
  obtain ok w1 q where c: "(if ps_fd p = INVALID_SOCKET then sd_Create a fam False (0, 0) made w else Some (True, w)) = Some (ok, w1)"
      "stays_ok w w1" "pw_sockets w1 a = Some q"
  proof (cases "ps_fd p = INVALID_SOCKET")
    case True
    then show thesis using that create_keeps [OF assms, of fam False "(0, 0)"] by auto
  qed (use that assms stays_ok_refl in simp)
  have ok1: "phys_ok w1" using c(2) by (simp add: stays_ok_def)
  have "stays_ok w1 (put_socket a q1 w1)" if "ps_fd q1 = ps_fd q" for q1 using stays_ok_put [OF ok1 c(3)] that by blast
  then show ?thesis using assms(2) c stays_ok_trans [OF c(2)] by (auto simp: DoConnect_def fam_def [symmetric] Let_def)
qed

lemma Connect_keeps:
  assumes "phys_ok w" "pw_sockets w a = Some p" "fd_result (pw_afd w) (fst made)"
  shows "\<exists>r w1. ps_Connect a addr resolver made conn w = Some (r, w1) \<and> stays_ok w w1"
  using DoConnect_keeps [OF assms] stays_ok_put [OF assms(1,2)] assms(2) by (simp add: ps_Connect_def)

lemma OnResolveResult_keeps:
  assumes "phys_ok w" "pw_sockets w a = Some p" "fd_result (pw_afd w) (fst made)"
  shows "\<exists>r w1. OnResolveResult a resolver rerror addr made conn closed w = Some (r, w1) \<and> stays_ok w w1"
proof -
  define res where "res = (if rerror = 0 then DoConnect a addr made conn w else do { (r, w1) \<leftarrow> sd_Close a closed w; Some (rerror, w1) })"
  obtain e w1 where r: "res = Some (e, w1)" "stays_ok w w1"
    using DoConnect_keeps [OF assms, of addr conn] close_keeps [OF assms(1,2), of closed] unfolding res_def
    by (cases "rerror = 0") auto
  have ok1: "phys_ok w1" using r(2) by (simp add: stays_ok_def)
  obtain q where q: "pw_sockets w1 a = Some q" using r(2) assms(2) by (auto simp: stays_ok_def)
  have "stays_ok w (put_socket a (ps_SetError e q) w1)" by (rule stays_ok_trans [OF r(2) stays_ok_put [OF ok1 q]]) simp
  then show ?thesis using assms(1,2) r q stays_ok_refl by (simp add: OnResolveResult_def res_def [symmetric])
qed

lemma Accept_keeps:
  assumes "phys_ok w" "pw_sockets w a = Some p" "pw_sockets w b = None" "fd_result (pw_afd w) (fst res)"
  shows "\<exists>r w1. ps_Accept a b res dgram w = Some (r, w1) \<and> stays_ok w w1"
proof -
  let ?w = "put_socket a (ps_SetError (snd res) (EnableEvents DE_ACCEPT p)) w"
  have k: "stays_ok w ?w" by (rule stays_ok_put [OF assms(1,2)]) simp
  then have ok: "phys_ok ?w" by (simp add: stays_ok_def)
  have n: "\<not> open_socket ?w b" using assms(2,3) by (auto simp: open_socket_def)
  have "stays_ok ?w (WrapSocket b (fst res) dgram ?w)" if "fst res \<noteq> INVALID_SOCKET"
  proof -
    have "fits_fd_set (ps_fd (PhysicalSocket_wrap (fst res) dgram)) \<and> ps_fd (PhysicalSocket_wrap (fst res) dgram) \<noteq> pw_afd ?w" using that assms(4) by (simp add: PhysicalSocket_wrap_def fd_result_def)
    then show ?thesis using phys_open [OF ok n] by (simp add: stays_ok_def WrapSocket_def)
  qed
  then show ?thesis using k stays_ok_trans [OF k] assms(2) by (auto simp: ps_Accept_def Let_def)
qed

lemma CreateSocket_keeps:
  assumes "phys_ok w" "pw_sockets w a = None" "fd_result (pw_afd w) (fst made)"
  shows "\<exists>r w1. CreateSocket a family dgram made w = Some (r, w1) \<and> stays_ok w w1"
proof -
  have n: "\<not> open_socket w a" using assms(2) by (simp add: open_socket_def)
  have "phys_ok (put_socket a PhysicalSocket_new w)"
    using phys_unopened [OF assms(1) n, of "Some PhysicalSocket_new"] by (simp add: put_socket_def PhysicalSocket_new_def)
  from create_keeps [OF this, of a PhysicalSocket_new made family dgram "(0, 0)"] assms(3)
  obtain ok w1 q where c: "sd_Create a family dgram (0, 0) made (put_socket a PhysicalSocket_new w) = Some (ok, w1)"
      "stays_ok (put_socket a PhysicalSocket_new w) w1" "pw_sockets w1 a = Some q" "ok \<longleftrightarrow> ps_fd q \<noteq> INVALID_SOCKET" by auto
  have k: "stays_ok w w1" using c(2) by (auto simp: stays_ok_def split: if_splits)
  show ?thesis
  proof (cases ok)
    case True
    then show ?thesis using c(1) k by (simp add: CreateSocket_def)
  next
    case False
    then have "\<not> open_socket w1 a" using c(3,4) by (simp add: open_socket_def)
    then have "phys_ok (w1\<lparr>pw_sockets := (pw_sockets w1)(a := None)\<rparr>)" using phys_unopened [of w1 a None] k by (simp add: stays_ok_def)
    then have "stays_ok w (w1\<lparr>pw_sockets := (pw_sockets w1)(a := None)\<rparr>)" using k assms(2) by (auto simp: stays_ok_def)
    then show ?thesis using c(1) False by (simp add: CreateSocket_def)
  qed
qed

lemma delete_ok:
  assumes "phys_ok w" "pw_sockets w a = Some p"
  shows "\<exists>w1. sd_delete a closed w = Some w1 \<and> phys_ok w1 \<and> pw_afd w1 = pw_afd w \<and> pw_fWait w1 = pw_fWait w \<and>
    (\<forall>b. b \<noteq> a \<and> pw_sockets w b \<noteq> None \<longrightarrow> pw_sockets w1 b \<noteq> None)"
proof -
  obtain r w1 q where c: "sd_Close a closed w = Some (r, w1)" "stays_ok w w1" "pw_sockets w1 a = Some q" "ps_fd q = INVALID_SOCKET"
    using close_keeps [OF assms] by blast
  have "\<not> open_socket w1 a" using c(3,4) by (simp add: open_socket_def)
  then have "phys_ok (w1\<lparr>pw_sockets := (pw_sockets w1)(a := None)\<rparr>)" using phys_unopened [of w1 a None] c(2) by (simp add: stays_ok_def)
  then show ?thesis using c(1,2) by (auto simp: sd_delete_def stays_ok_def)
qed

text \<open>One operation of a script.\<close>

definition keeps_busy :: "ptr \<Rightarrow> phys_world \<Rightarrow> phys_world \<Rightarrow> bool" where
  "keeps_busy busy w w1 \<longleftrightarrow> phys_ok w1 \<and> pw_afd w1 = pw_afd w \<and> pw_fWait w1 = pw_fWait w \<and>
     (\<forall>a. busy = Some a \<and> pw_sockets w a \<noteq> None \<longrightarrow> pw_sockets w1 a \<noteq> None)"

lemma keeps_keeps_busy: "stays_ok w w1 \<Longrightarrow> keeps_busy busy w w1" by (simp add: stays_ok_def keeps_busy_def)

lemma put_ops_keep:
  assumes "phys_ok w" "pw_sockets w a \<noteq> None"
  shows "\<exists>w1. map_option snd (ps_Send a cb res w) = Some w1 \<and> keeps_busy busy w w1"
    "\<exists>w1. map_option snd (ps_SendTo a cb res w) = Some w1 \<and> keeps_busy busy w w1"
    "\<exists>w1. map_option snd (ps_Recv a len res w) = Some w1 \<and> keeps_busy busy w w1"
    "\<exists>w1. map_option snd (ps_RecvFrom a res w) = Some w1 \<and> keeps_busy busy w w1"
    "\<exists>w1. map_option snd (ps_Listen a res w) = Some w1 \<and> keeps_busy busy w w1"
proof -
  obtain p where p: "pw_sockets w a = Some p" using assms(2) by blast
  have k: "keeps_busy busy w (put_socket a q w)" if "ps_fd q = ps_fd p" for q using stays_ok_put [OF assms(1) p that] by (rule keeps_keeps_busy)
  show "\<exists>w1. map_option snd (ps_Send a cb res w) = Some w1 \<and> keeps_busy busy w w1"
    "\<exists>w1. map_option snd (ps_SendTo a cb res w) = Some w1 \<and> keeps_busy busy w w1"
    "\<exists>w1. map_option snd (ps_Recv a len res w) = Some w1 \<and> keeps_busy busy w w1"
    "\<exists>w1. map_option snd (ps_RecvFrom a res w) = Some w1 \<and> keeps_busy busy w w1"
    "\<exists>w1. map_option snd (ps_Listen a res w) = Some w1 \<and> keeps_busy busy w w1"
    by (simp_all add: ps_Send_def ps_SendTo_def ps_Recv_def ps_RecvFrom_def ps_Listen_def p Let_def k)
qed

lemma Bind_keeps:
  assumes "phys_ok w" "pw_sockets w a = Some p"
  shows "\<exists>r b w1. ps_Bind a addr bnd res w = Some (r, b, w1) \<and> stays_ok w w1"
  using stays_ok_refl [OF assms(1)] stays_ok_put [OF assms, of "ps_SetError (snd res) p"] assms(2) by (simp add: ps_Bind_def Let_def)

lemma apply_keeps:
  assumes "phys_ok w" "ps_op_ok busy op w"
  shows "\<exists>w1. ps_apply op w = Some w1 \<and> keeps_busy busy w w1"
proof (cases op)
  case (P_close a res)
  then show ?thesis using assms close_keeps [of w a _ res] by (fastforce intro: keeps_keeps_busy)
next
  case (P_create a fam dgram closed made)
  then show ?thesis using assms create_keeps [of w a _ made fam dgram closed] by (fastforce intro: keeps_keeps_busy)
next
  case (P_new a fam dgram made)
  then show ?thesis using assms CreateSocket_keeps [of w a made fam dgram] by (fastforce intro: keeps_keeps_busy)
next
  case (P_delete a closed)
  then show ?thesis using assms delete_ok [of w a _ closed] by (fastforce simp: keeps_busy_def)
next
  case (P_connect a addr r made conn)
  then show ?thesis using assms Connect_keeps [of w a _ made addr r conn] by (fastforce intro: keeps_keeps_busy)
next
  case (P_resolved a r e addr made conn closed)
  then show ?thesis using assms OnResolveResult_keeps [of w a _ made r e addr conn closed] by (fastforce intro: keeps_keeps_busy)
next
  case (P_accept a b res dgram)
  then show ?thesis using assms Accept_keeps [of w a _ b res dgram] by (fastforce intro: keeps_keeps_busy)
next
  case (P_bind a addr bnd res)
  then show ?thesis using assms Bind_keeps [of w a _ addr bnd res] by (fastforce intro: keeps_keeps_busy)
next
  case P_wakeup
  have "phys_ok (pss_WakeUp w)" using assms(1) by (simp add: phys_ok_def registry_ok_def open_socket_def pss_WakeUp_def)
  then show ?thesis using P_wakeup by (simp add: keeps_busy_def pss_WakeUp_def)
qed (use assms put_ops_keep in simp_all)

lemma script_keeps:
  assumes "phys_ok w"
  shows "\<exists>w1. run_script busy ops w = Some w1 \<and> keeps_busy busy w w1"
  using assms
proof (induction ops arbitrary: w)
  case Nil
  then show ?case by (simp add: keeps_busy_def)
next
  case (Cons p ps)
  show ?case
  proof (cases "ps_op_ok busy p w")
    case True
    then obtain w1 where 1: "ps_apply p w = Some w1" "keeps_busy busy w w1" using apply_keeps Cons.prems by blast
    then have "phys_ok w1" by (simp add: keeps_busy_def)
    then obtain w2 where "run_script busy ps w1 = Some w2" "keeps_busy busy w1 w2" using Cons.IH by blast
    then show ?thesis using 1 True by (auto simp: keeps_busy_def)
  qed (use Cons in simp)
qed

text \<open>Delivering an event to a socket.\<close>

lemma fire_keeps:
  assumes "phys_ok w" "pw_sockets w a \<noteq> None"
  shows "\<exists>w1. fire a ff ev script w = Some w1 \<and> phys_ok w1 \<and> pw_afd w1 = pw_afd w \<and> pw_fWait w1 = pw_fWait w \<and> pw_sockets w1 a \<noteq> None"
proof -
  obtain p where p: "pw_sockets w a = Some p" using assms(2) by blast
  have k: "stays_ok w (put_socket a (DisableEvents ev p) w)" by (rule stays_ok_put [OF assms(1) p]) simp
  then have "phys_ok (put_socket a (DisableEvents ev p) w)" by (simp add: stays_ok_def)
  then obtain w1 where "run_script (Some a) script (put_socket a (DisableEvents ev p) w) = Some w1"
      "keeps_busy (Some a) (put_socket a (DisableEvents ev p) w) w1"
    using script_keeps by blast
  then show ?thesis using assms p by (auto simp: fire_def keeps_busy_def)
qed

lemma OnEvent_keeps:
  assumes "phys_ok w" "pw_sockets w a \<noteq> None"
  shows "\<exists>w1. sd_OnEvent a ff env w = Some w1 \<and> phys_ok w1 \<and> pw_afd w1 = pw_afd w \<and> pw_fWait w1 = pw_fWait w"
proof -
  obtain p where p: "pw_sockets w a = Some p" using assms(2) by blast
  define p2 where "p2 = (let p1 = (if ff AND DE_CONNECT \<noteq> 0 then p\<lparr>ps_state := CS_CONNECTED\<rparr> else p)
    in if ff AND DE_CLOSE \<noteq> 0 then p1\<lparr>ps_state := CS_CLOSED\<rparr> else p1)"
  have "stays_ok w (put_socket a p2 w)" by (rule stays_ok_put [OF assms(1) p]) (simp add: p2_def Let_def)
  then have 0: "phys_ok (put_socket a p2 w)" "pw_sockets (put_socket a p2 w) a \<noteq> None" "pw_fWait (put_socket a p2 w) = pw_fWait w \<and> pw_afd (put_socket a p2 w) = pw_afd w"
    by (auto simp: stays_ok_def)
  obtain w1 where 1: "fire a ff DE_CONNECT (on_connect env) (put_socket a p2 w) = Some w1" "phys_ok w1" "pw_fWait w1 = pw_fWait w \<and> pw_afd w1 = pw_afd w" "pw_sockets w1 a \<noteq> None"
    using fire_keeps [OF 0(1,2)] 0(3) by metis
  obtain w2 where 2: "fire a ff DE_ACCEPT (on_accept env) w1 = Some w2" "phys_ok w2" "pw_fWait w2 = pw_fWait w \<and> pw_afd w2 = pw_afd w" "pw_sockets w2 a \<noteq> None"
    using fire_keeps [OF 1(2,4)] 1(3) by metis
  obtain w3 where 3: "fire a ff DE_READ (on_read env) w2 = Some w3" "phys_ok w3" "pw_fWait w3 = pw_fWait w \<and> pw_afd w3 = pw_afd w" "pw_sockets w3 a \<noteq> None"
    using fire_keeps [OF 2(2,4)] 2(3) by metis
  obtain w4 where 4: "fire a ff DE_WRITE (on_write env) w3 = Some w4" "phys_ok w4" "pw_fWait w4 = pw_fWait w \<and> pw_afd w4 = pw_afd w" "pw_sockets w4 a \<noteq> None"
    using fire_keeps [OF 3(2,4)] 3(3) by metis
  then obtain q where q: "pw_sockets w4 a = Some q" by blast
  have "stays_ok w4 (put_socket a (SetEnabledEvents 0 q) w4)" by (rule stays_ok_put [OF 4(2) q]) simp
  then have "phys_ok (put_socket a (SetEnabledEvents 0 q) w4)" by (simp add: stays_ok_def)
  then obtain w5 where 5: "run_script None (on_close env) (put_socket a (SetEnabledEvents 0 q) w4) = Some w5" "phys_ok w5" "pw_fWait w5 = pw_fWait w4 \<and> pw_afd w5 = pw_afd w4"
    using script_keeps [of "put_socket a (SetEnabledEvents 0 q) w4" None "on_close env"] by (auto simp: keeps_busy_def)
  have "sd_OnEvent a ff env w = Option.bind (fire a ff DE_CONNECT (on_connect env) (put_socket a p2 w)) (\<lambda>w1.
     Option.bind (fire a ff DE_ACCEPT (on_accept env) w1) (\<lambda>w2. Option.bind (fire a ff DE_READ (on_read env) w2) (\<lambda>w3.
     Option.bind (fire a ff DE_WRITE (on_write env) w3) (\<lambda>w4. if ff AND DE_CLOSE \<noteq> 0 then Option.bind (pw_sockets w4 a) (\<lambda>q.
     run_script None (on_close env) (put_socket a (SetEnabledEvents 0 q) w4)) else Some w4))))"
    unfolding sd_OnEvent_def p2_def Let_def p option.simps bind.bind_lunit by (rule refl)
  then have "sd_OnEvent a ff env w = (if ff AND DE_CLOSE \<noteq> 0 then Some w5 else Some w4)"
    unfolding 1(1) 2(1) 3(1) 4(1) q 5(1) bind.bind_lunit by (simp only: q 5(1) bind.bind_lunit)
  then show ?thesis using 4 5 by simp
qed

lemma signaler_keeps: "phys_ok w \<Longrightarrow> phys_ok (signaler_OnEvent w)"
  by (simp add: phys_ok_def registry_ok_def open_socket_def signaler_OnEvent_def)

text \<open>Nothing but the start of a wait sets its flag, and an event of the \<^verbatim>\<open>Signaler\<close> clears it.\<close>

lemma ProcessEvents_keeps:
  assumes "phys_ok w" "dispatcher_by_key w k = Some d"
  shows "\<exists>w1. ProcessEvents d readable writable check_error env w = Some w1 \<and> phys_ok w1 \<and> pw_afd w1 = pw_afd w \<and>
    (pw_fWait w1 \<longrightarrow> pw_fWait w \<and> \<not> (d = D_signaler \<and> readable))"
proof (cases d)
  case D_signaler
  have "event_flags DE_READ True wr e False \<noteq> 0" for wr e
    by (simp add: event_flags_def DE_READ_def DE_ACCEPT_def DE_CLOSE_def DE_CONNECT_def DE_WRITE_def)
  then show ?thesis using D_signaler assms(1) signaler_keeps by (cases readable) (auto simp: ProcessEvents_def Let_def signaler_OnEvent_def)
next
  case (D_socket a)
  have "open_socket w a" using phys_okD(2) [OF assms(1), of a] registry_okD(1) [OF phys_okD(1) [OF assms(1)]] assms(2) D_socket by auto
  then obtain p where "pw_sockets w a = Some p" by (auto simp: open_socket_def)
  then show ?thesis using OnEvent_keeps [of w a _ env] assms(1) D_socket by (simp add: ProcessEvents_def Let_def) blast
qed

section \<open>The select loop is safe and can be woken up\<close>

lemma in_order_set [simp]: "set (in_order order ks) = set ks" by (auto simp: in_order_def)

lemma current_keys:
  assumes "phys_ok w"
  shows "0 \<in> set (current_keys process_io order w)" "k \<in> set (current_keys process_io order w) \<Longrightarrow> dispatcher_by_key w k \<noteq> None"
proof -
  note r = registry_okD [OF phys_okD(1) [OF assms]]
  show "0 \<in> set (current_keys process_io order w)" using r(2) [OF r(4)] r(3) by (simp add: current_keys_def)
  show "dispatcher_by_key w k \<noteq> None" if "k \<in> set (current_keys process_io order w)" using that by (auto simp: current_keys_def split: option.splits)
qed

text \<open>What the loop reads of a registered dispatcher exists, and its descriptor fits.\<close>

lemma registered_descriptor:
  assumes "phys_ok w" "dispatcher_by_key w k = Some d"
  shows "\<exists>fd ff. GetDescriptor d w = Some fd \<and> fits_fd_set fd \<and> GetRequestedEvents d w = Some ff \<and>
    (fd = pw_afd w \<longrightarrow> ff = DE_READ) \<and> (fd = pw_afd w \<longleftrightarrow> k = 0)"
proof (cases d)
  case D_signaler
  then have "k = 0" using registry_okD(1,4) [OF phys_okD(1) [OF assms(1)]] assms(2) by auto
  then show ?thesis using D_signaler phys_okD(4) [OF assms(1)] by (simp add: GetDescriptor_def GetRequestedEvents_def)
next
  case (D_socket a)
  have "k \<noteq> 0" using registry_okD(3) [OF phys_okD(1) [OF assms(1)]] assms(2) D_socket by (metis dispatcher.distinct(1) option.inject)
  have "open_socket w a" using phys_okD(2) [OF assms(1), of a] registry_okD(1) [OF phys_okD(1) [OF assms(1)]] assms(2) D_socket by auto
  then obtain p where "pw_sockets w a = Some p" "fits_fd_set (ps_fd p)" "ps_fd p \<noteq> pw_afd w"
    using phys_okD(3) [OF assms(1)] by (fastforce simp: open_socket_def fd_result_def)
  then show ?thesis using D_socket \<open>k \<noteq> 0\<close> by (simp add: GetDescriptor_def GetRequestedEvents_def)
qed

lemma fill_sets_total:
  assumes "phys_ok w" "\<And>k. k \<in> set ks \<Longrightarrow> dispatcher_by_key w k \<noteq> None"
  shows "\<exists>rd wr. fill_sets ks w = Some (rd, wr) \<and> (0 \<in> set ks \<longrightarrow> pw_afd w \<in> set rd)"
  using assms(2)
proof (induction ks)
  case (Cons k ks)
  then obtain rd wr where "fill_sets ks w = Some (rd, wr)" "0 \<in> set ks \<longrightarrow> pw_afd w \<in> set rd" by auto
  moreover obtain d where d: "dispatcher_by_key w k = Some d" using Cons.prems [of k] by auto
  moreover have "DE_READ AND (DE_READ OR DE_ACCEPT) \<noteq> 0" by (simp add: DE_READ_def DE_ACCEPT_def)
  ultimately show ?case using registered_descriptor [OF assms(1) d] by auto
qed simp

text \<open>
  Delivery ends in a good state, and where the \<^verbatim>\<open>Signaler\<close> is readable the wait is over: no other dispatcher
  takes its descriptor out of the set before its turn.
\<close>

lemma deliver_keeps:
  assumes "phys_ok w"
  shows "\<exists>w1. deliver_loop env ks rd wr w = Some w1 \<and> phys_ok w1 \<and> pw_afd w1 = pw_afd w \<and>
    (pw_fWait w1 \<longrightarrow> pw_fWait w \<and> \<not> (0 \<in> set ks \<and> pw_afd w \<in> set rd))"
  using assms
proof (induction ks arbitrary: rd wr w)
  case (Cons k ks)
  show ?case
  proof (cases "dispatcher_by_key w k")
    case None
    then have "k \<noteq> 0" using registry_okD(3) [OF phys_okD(1) [OF Cons.prems]] by (metis option.distinct(1))
    then show ?thesis using None Cons by simp
  next
    case (Some d)
    obtain fd where fd: "GetDescriptor d w = Some fd" "fits_fd_set fd" "fd = pw_afd w \<longleftrightarrow> k = 0" using registered_descriptor [OF Cons.prems Some] by auto
    have sig: "d = D_signaler" if "k = 0" using that Some registry_okD(3) [OF phys_okD(1) [OF Cons.prems]] by simp
    obtain w1 where 1: "ProcessEvents d (fd \<in> set rd) (fd \<in> set wr) (fd \<in> set rd \<or> fd \<in> set wr) (env k) w = Some w1" "phys_ok w1"
        "pw_afd w1 = pw_afd w" "pw_fWait w1 \<longrightarrow> pw_fWait w \<and> \<not> (d = D_signaler \<and> fd \<in> set rd)" using ProcessEvents_keeps [OF Cons.prems Some] by blast
    obtain w2 where 2: "deliver_loop env ks (removeAll fd rd) (removeAll fd wr) w1 = Some w2" "phys_ok w2" "pw_afd w2 = pw_afd w1"
        "pw_fWait w2 \<longrightarrow> pw_fWait w1 \<and> \<not> (0 \<in> set ks \<and> pw_afd w1 \<in> set (removeAll fd rd))"
      using Cons.IH [OF 1(2)] by blast
    have "deliver_loop env (k # ks) rd wr w = Some w2" using Some fd(1,2) 1(1) 2(1) by (simp add: Let_def)
    moreover have "pw_fWait w2 \<longrightarrow> pw_fWait w \<and> \<not> (0 \<in> set (k # ks) \<and> pw_afd w \<in> set rd)" using 1(3,4) 2(4) fd(3) sig by (cases "k = 0") auto
    ultimately show ?thesis using 1(3) 2(2,3) by simp
  qed
qed simp

text \<open>A call of \<^verbatim>\<open>select\<close> in which the \<^verbatim>\<open>Signaler\<close> is readable.\<close>

definition wakes :: "int \<Rightarrow> sel_round \<Rightarrow> bool" where
  "wakes afd r \<longleftrightarrow> 0 < sr_n r \<and> afd \<in> set (sr_ready_read r)"

lemma select_loop_total:
  assumes "phys_ok w"
  shows "\<exists>res ts w1. select_loop process_io stop_us rounds tv waits w = Some (res, waits @ ts, w1) \<and> phys_ok w1 \<and> pw_afd w1 = pw_afd w \<and>
    (\<forall>r rs1 rs2. rounds = rs1 @ r # rs2 \<and> wakes (pw_afd w) r \<longrightarrow> res \<noteq> W_blocked \<and> length ts \<le> Suc (length rs1)) \<and>
    (\<forall>x\<in>set ts. x = tv \<or> snd x = time_left stop_us (fst x))"
  using assms
proof (induction rounds arbitrary: tv waits w)
  case Nil
  then show ?case by (subst select_loop.simps) auto
next
  case (Cons r rs)
  define ks where "ks = current_keys process_io (sr_order r) w"
  obtain rd wr where f: "fill_sets ks w = Some (rd, wr)" "pw_afd w \<in> set rd"
    using fill_sets_total [OF Cons.prems, of ks] current_keys(1) [OF Cons.prems, of process_io "sr_order r"]
      current_keys(2) [OF Cons.prems, of _ process_io "sr_order r"] unfolding ks_def by blast
  obtain w1 where 1: "run_script None (sr_meanwhile r) w = Some w1" "phys_ok w1" "pw_afd w1 = pw_afd w"
    using script_keeps [OF Cons.prems, of None "sr_meanwhile r"] by (auto simp: keeps_busy_def)
  define rd1 where "rd1 = filter (\<lambda>fd. fd \<in> set rd) (sr_ready_read r)"
  define wr1 where "wr1 = filter (\<lambda>fd. fd \<in> set wr) (sr_ready_write r)"
  obtain w2 where 2: "deliver_loop (sr_env r) ks rd1 wr1 w1 = Some w2" "phys_ok w2" "pw_afd w2 = pw_afd w1"
      "pw_fWait w2 \<longrightarrow> pw_fWait w1 \<and> \<not> (0 \<in> set ks \<and> pw_afd w1 \<in> set rd1)"
    using deliver_keeps [OF 1(2)] by blast
  define w3 where "w3 = (if sr_n r < 0 then w1 else w2)"
  have 3: "phys_ok w3" "pw_afd w3 = pw_afd w" using 1 2 by (simp_all add: w3_def)
  have woken: "\<not> pw_fWait w3" if "wakes (pw_afd w) r"
    using that 2(4) 1(3) f(2) current_keys(1) [OF Cons.prems, of process_io "sr_order r"] by (auto simp: wakes_def w3_def rd1_def ks_def)
  obtain res ts w4 where IH: "select_loop process_io stop_us rs (sr_time r, time_left stop_us (sr_time r)) (waits @ [tv]) w3 = Some (res, (waits @ [tv]) @ ts, w4)"
      "phys_ok w4" "pw_afd w4 = pw_afd w" "\<forall>r rs1 rs2. rs = rs1 @ r # rs2 \<and> wakes (pw_afd w) r \<longrightarrow> res \<noteq> W_blocked \<and> length ts \<le> Suc (length rs1)"
      "\<forall>x\<in>set ts. x = (sr_time r, time_left stop_us (sr_time r)) \<or> snd x = time_left stop_us (fst x)"
    using Cons.IH [OF 3(1), of "(sr_time r, time_left stop_us (sr_time r))" "waits @ [tv]"] unfolding 3(2) by blast
  have now: "res = W_return True \<and> ts = []" if "wakes (pw_afd w) r" using IH(1) woken [OF that] by (subst (asm) select_loop.simps) simp
  have step: "select_loop process_io stop_us (r # rs) tv waits w =
     (if \<not> pw_fWait w then Some (W_return True, waits, w)
      else if sr_n r < 0 \<and> sr_errno r \<noteq> EINTR then Some (W_return False, waits @ [tv], w1)
      else if sr_n r = 0 then Some (W_return True, waits @ [tv], w1)
      else Some (res, waits @ (tv # ts), w4))"
    using f(1) 1(1) 2(1) IH(1) by (subst select_loop.simps, cases "sr_n r < 0")
      (simp_all add: ks_def [symmetric] Let_def rd1_def [symmetric] wr1_def [symmetric] w3_def del: fill_sets.simps deliver_loop.simps)
  have later: "res \<noteq> W_blocked \<and> length (tv # ts) \<le> Suc (length rs1)" if "r # rs = rs1 @ r1 # rs2" "wakes (pw_afd w) r1" for r1 rs1 rs2
    using that now IH(4) by (cases rs1) auto
  have short: ?case if "select_loop process_io stop_us (r # rs) tv waits w = Some (W_return b, waits @ ts', w')" "phys_ok w'" "pw_afd w' = pw_afd w" "ts' = [] \<or> ts' = [tv]"
    for b ts' w' using that by (intro exI [of _ "W_return b"] exI [of _ ts'] exI [of _ w']) auto
  consider "\<not> pw_fWait w" | "pw_fWait w" "sr_n r < 0 \<and> sr_errno r \<noteq> EINTR" | "pw_fWait w" "sr_n r = 0"
    | "pw_fWait w" "\<not> (sr_n r < 0 \<and> sr_errno r \<noteq> EINTR)" "sr_n r \<noteq> 0" by blast
  then show ?case
  proof cases
    case 1
    then show ?thesis using short [of True "[]" w] step Cons.prems by simp
  next
    case 2
    then show ?thesis using short [of False "[tv]" w1] step \<open>phys_ok w1\<close> \<open>pw_afd w1 = pw_afd w\<close> by simp
  next
    case 3
    then show ?thesis using short [of True "[tv]" w1] step \<open>phys_ok w1\<close> \<open>pw_afd w1 = pw_afd w\<close> by simp
  next
    case 4
    then have "select_loop process_io stop_us (r # rs) tv waits w = Some (res, waits @ (tv # ts), w4)" unfolding step by auto
    moreover have "x = tv \<or> snd x = time_left stop_us (fst x)" if "x \<in> set (tv # ts)" for x using that IH(5) by auto
    ultimately show ?thesis using IH(2,3) later by blast
  qed
qed

text \<open>A new server satisfies the invariant, and a wait keeps it.\<close>

lemma new_server_ok: "fits_fd_set afd \<Longrightarrow> phys_ok (PhysicalSocketServer_new afd)" "pw_afd (PhysicalSocketServer_new afd) = afd"
  by (auto simp: phys_ok_def registry_ok_def open_socket_def PhysicalSocketServer_new_def pss_Add_def)

text \<open>How long a call of \<^verbatim>\<open>select\<close> may block, in microseconds; a missing limit is no bound.\<close>

definition limit_us :: "(int \<times> int) option \<Rightarrow> int option" where
  "limit_us tv = map_option (\<lambda>(s, us). s * 1000000 + us) tv"

definition remaining_us :: "int \<Rightarrow> int \<Rightarrow> int \<Rightarrow> int option" where
  "remaining_us cmsWait start now = (if cmsWait = kForever then None else Some (max 0 (start + cmsWait * 1000 - now)))"

lemma limit_time_left: "limit_us (time_left (Some stop) now) = Some (max 0 (stop - now))"
  by (simp add: limit_us_def time_left_def max_def)

lemma limit_start:
  assumes "0 \<le> cmsWait"
  shows "limit_us (Some (cmsWait sdiv 1000, cmsWait smod 1000 * 1000)) = Some (cmsWait * 1000)"
proof -
  have "cmsWait sdiv 1000 = cmsWait div 1000" "cmsWait smod 1000 = cmsWait mod 1000"
    using assms by (simp_all add: signed_divide_int_def signed_modulo_int_def sgn_if minus_mult_div_eq_mod)
  moreover have "cmsWait div 1000 * 1000000 + cmsWait mod 1000 * 1000 = cmsWait * 1000"
    using div_mult_mod_eq [of cmsWait 1000] by linarith
  ultimately show ?thesis by (simp add: limit_us_def)
qed

definition wait_defined :: "int \<Rightarrow> bool" where
  "wait_defined cmsWait \<longleftrightarrow> cmsWait = kForever \<or> 0 \<le> cmsWait \<and> cmsWait \<le> 2147483"

lemma WaitSelect_total:
  assumes "phys_ok w" "wait_defined cmsWait"
  shows "\<exists>res ts w1. WaitSelect cmsWait process_io now rounds w = Some (res, ts, w1) \<and> phys_ok w1 \<and> pw_afd w1 = pw_afd w \<and>
    (\<forall>r rs1 rs2. rounds = rs1 @ r # rs2 \<and> wakes (pw_afd w) r \<longrightarrow> res \<noteq> W_blocked \<and> length ts \<le> Suc (length rs1)) \<and>
    (\<forall>x\<in>set ts. limit_us (snd x) = remaining_us cmsWait now (fst x))"
proof -
  have ok: "phys_ok (w\<lparr>pw_fWait := True\<rparr>)" using assms(1) by (simp add: phys_ok_def registry_ok_def open_socket_def)
  show ?thesis
  proof (cases "cmsWait = kForever")
    case True
    then show ?thesis using select_loop_total [OF ok, of process_io None rounds "(now, None)" "[]"]
      by (fastforce simp: WaitSelect_def time_left_def limit_us_def remaining_us_def)
  next
    case False
    then have b: "0 \<le> cmsWait" "cmsWait \<le> 2147483" using assms(2) by (auto simp: wait_defined_def)
    then have "c_int (cmsWait * 1000) = cmsWait * 1000" by (intro c_int_id) auto
    moreover have "limit_us (snd x) = remaining_us cmsWait now (fst x)"
      if "x = (now, Some (cmsWait sdiv 1000, cmsWait smod 1000 * 1000)) \<or> snd x = time_left (Some (now + cmsWait * 1000)) (fst x)" for x
      using that False b limit_start limit_time_left by (auto simp: remaining_us_def)
    ultimately show ?thesis using False select_loop_total [OF ok, of process_io "Some (now + cmsWait * 1000)" rounds
        "(now, Some (cmsWait sdiv 1000, cmsWait smod 1000 * 1000))" "[]"] unfolding WaitSelect_def by force
  qed
qed

text \<open>The life of a server: its users act on sockets, and it waits and delivers, in turn.\<close>

type_synonym phase = "ps_op list \<times> int \<times> bool \<times> int \<times> sel_round list"

fun server_life :: "phase list \<Rightarrow> phys_world \<Rightarrow> phys_world option" where
  "server_life [] w = Some w"
| "server_life ((ops, cmsWait, process_io, now, rounds) # ps) w = do {
     w1 \<leftarrow> run_script None ops w;
     (res, ts, w2) \<leftarrow> WaitSelect cmsWait process_io now rounds w1;
     server_life ps w2
   }"

lemma server_life_total:
  assumes "phys_ok w" "\<And>ph. ph \<in> set phases \<Longrightarrow> wait_defined (fst (snd ph))"
  shows "\<exists>w1. server_life phases w = Some w1 \<and> phys_ok w1 \<and> pw_afd w1 = pw_afd w"
  using assms
proof (induction phases arbitrary: w)
  case (Cons ph phases)
  obtain ops cmsWait process_io now rounds where ph: "ph = (ops, cmsWait, process_io, now, rounds)" by (cases ph)
  obtain w1 where 1: "run_script None ops w = Some w1" "phys_ok w1" "pw_afd w1 = pw_afd w" using script_keeps [OF Cons.prems(1), of None ops] by (auto simp: keeps_busy_def)
  obtain res ts w2 where 2: "WaitSelect cmsWait process_io now rounds w1 = Some (res, ts, w2)" "phys_ok w2" "pw_afd w2 = pw_afd w1"
    using WaitSelect_total [OF 1(2), of cmsWait process_io now rounds] Cons.prems(2) [of ph] by (auto simp: ph)
  show ?case using Cons.IH [OF 2(2)] Cons.prems(2) 1(1,3) 2(1,3) by (simp add: ph)
qed simp

text \<open>
  \<^verbatim>\<open>Close\<close> on a socket without a descriptor returns at once, even when \<^verbatim>\<open>Connect\<close> has started to look up a name
  for it: the lookup is not cancelled, and its result connects the closed socket.
\<close>

lemma close_does_not_cancel_lookup:
  assumes "pw_sockets w a = Some p" "ps_fd p = INVALID_SOCKET" "ps_state p = CS_CLOSED" "IsUnresolvedIP addr" "fst made \<noteq> INVALID_SOCKET"
  shows "\<exists>w1 w2 p2. ps_Connect a addr r m c w = Some (0, w1) \<and> sd_Close a closed w1 = Some (0, w1) \<and>
    OnResolveResult a r 0 found made (0, e) closed2 w1 = Some (None, w2) \<and>
    pw_sockets w2 a = Some p2 \<and> ps_fd p2 = fst made \<and> ps_state p2 = CS_CONNECTED"
  using assms by (simp add: ps_Connect_def sd_Close_def OnResolveResult_def DoConnect_def sd_Create_def ps_Create_def Let_def
      EnableEvents_def ps_SetError_def INVALID_SOCKET_def)

text \<open>
  When the address is found but the connection fails, the error that is kept is -1, not the one of \<^verbatim>\<open>connect\<close>, and
  the socket still counts as connecting: a further \<^verbatim>\<open>Connect\<close> is refused with \<^verbatim>\<open>EALREADY\<close>.
\<close>

lemma failed_connect_after_lookup:
  assumes "pw_sockets w a = Some p" "ps_fd p \<noteq> INVALID_SOCKET" "ps_state p = CS_CONNECTING" "ps_resolver p = Some r"
    "c \<noteq> 0" "\<not> IsBlockingError e"
  shows "\<exists>w1 p1 w2. OnResolveResult a r 0 addr made (c, e) closed w = Some (Some SOCKET_ERROR, w1) \<and>
    pw_sockets w1 a = Some p1 \<and> ps_error p1 = - 1 \<and> ps_state p1 = CS_CONNECTING \<and>
    ps_Connect a addr2 r2 made2 c2 w1 = Some (SOCKET_ERROR, w2)"
  using assms by (simp add: OnResolveResult_def DoConnect_def ps_Connect_def Let_def ps_SetError_def SOCKET_ERROR_def)

text \<open>An \<^verbatim>\<open>int\<close> overflows for every longer wait.\<close>

lemma long_wait_overflows:
  assumes "2147483 < cmsWait" "cmsWait < 2 ^ 31"
  shows "WaitSelect cmsWait process_io now rounds w = None"
proof -
  have "cmsWait \<noteq> kForever" using assms by (simp add: kForever_def)
  moreover have "c_int (cmsWait * 1000) \<noteq> cmsWait * 1000" using c_int_bounds(2) [of "cmsWait * 1000"] assms(1) by auto
  ultimately show ?thesis by (simp add: WaitSelect_def)
qed


definition quiet_env :: event_env where
  "quiet_env = \<lparr>ee_errcode = 0, ee_peek = (1, 0), on_connect = [], on_accept = [], on_read = [], on_write = [], on_close = []\<rparr>"



text \<open>
  C22. A wait in which the wake-up pipe becomes readable ends with that call of \<^verbatim>\<open>select\<close> at the latest, and no call
  of \<^verbatim>\<open>select\<close> may block longer than what is left of the wait.
\<close>

theorem wake_up_ends_wait:
  assumes "fits_fd_set afd" "\<forall>ph\<in>set phases. wait_defined (fst (snd ph))" "wait_defined cmsWait"
    "server_life phases (PhysicalSocketServer_new afd) = Some w" "wakes afd r"
  shows "\<exists>b limits w1. WaitSelect cmsWait process_io now (rs1 @ r # rs2) w = Some (W_return b, limits, w1) \<and>
    length limits \<le> Suc (length rs1) \<and> (\<forall>x\<in>set limits. limit_us (snd x) = remaining_us cmsWait now (fst x))"
proof -
  have "phys_ok w" "pw_afd w = afd"
    using server_life_total [OF new_server_ok(1) [OF assms(1)], of phases] assms(2,4) by (auto simp: new_server_ok(2))
  from WaitSelect_total [OF this(1) assms(3), of process_io now "rs1 @ r # rs2"] assms(5) this(2)
  obtain res ts w1 where "WaitSelect cmsWait process_io now (rs1 @ r # rs2) w = Some (res, ts, w1)" "res \<noteq> W_blocked"
      "length ts \<le> Suc (length rs1)" "\<forall>x\<in>set ts. limit_us (snd x) = remaining_us cmsWait now (fst x)" by blast
  then show ?thesis by (cases res) auto
qed

theorem wake_up_ends_wait_witness:
  "\<exists>b limits w1. WaitSelect 100 True 0 ([] @ \<lparr>sr_order = [], sr_meanwhile = [P_wakeup], sr_n = 1, sr_errno = 0, sr_ready_read = [3],
      sr_ready_write = [], sr_env = (\<lambda>k. quiet_env), sr_time = 5\<rparr> # []) (PhysicalSocketServer_new 3) = Some (W_return b, limits, w1) \<and>
    length limits \<le> Suc (length ([] :: sel_round list)) \<and> (\<forall>x\<in>set limits. limit_us (snd x) = remaining_us 100 0 (fst x))"
  by (rule wake_up_ends_wait [of 3 "[]"]) (simp_all add: fits_fd_set_def wait_defined_def wakes_def)

end
