(* ===== verification/Spec2Isabelle.thy ===== *)
theory Spec2Isabelle
  imports LockFreeQueue Sds Crc32 Xhead EventLoop Sockets RtcMsg StringEncode
    Credentials Certificates SessionDescription PeerConnection SignalingBase RtcWorker RtcServer
    SignalingWorker SignalingSafety SignalingProps SignalingEvents SignalingServer
    Logging XrtcLog ServerMain Pipeline PushRequest Notify SdsText
    Base64 TimeUtils SslIdentity ByteBuffer Buffers CowBuffer IpAddress
    StringNumber SocketAddress ThreadQueue SendGraph SigSlot TimeUnits FieldTrial ByteIo PhysSocket
begin

text \<open>
  A verification development of the xrtc push server, \<^verbatim>\<open>xrtc_server/src\<close>, and of the parts of the WebRTC
  base library that it is built on, \<^verbatim>\<open>xrtc_server/thirdlib/rtcbase_v1/src\<close> (\<^verbatim>\<open>rtc_base\<close> below).

  \<^bold>\<open>The program.\<close> \<^verbatim>\<open>main.cpp\<close> reads the configuration, opens the log and starts two servers. The
  signaling server listens for TCP connections and hands each to one of its workers in turn. A
  signaling worker runs an event loop: it collects a frame (a fixed header and a JSON body) from a
  connection, turns it into a message and gives it to the RTC server. The RTC server passes the
  message to the RTC worker that its stream name selects, with the certificate to use; the RTC worker
  makes a push stream with a peer connection, which produces an SDP offer. The answer travels back
  through the queue of the signaling worker and is written to the connection that asked. Threads
  communicate through queues and pipes only: an element is queued, a number is written to the pipe,
  and the event loop of the receiver calls its handler. Every line that is logged goes through the
  queues of \<^verbatim>\<open>log.cpp\<close>, whose thread writes the files.

  \<^bold>\<open>Correspondence of theories and sources.\<close>

    \<^item> \<open>XrtcPrelude\<close>: C integers, byte strings, decimal text, heaps of objects; the locales
      \<open>startable\<close> (things that start at most once) and \<open>invariant_system\<close> (step systems).
    \<^item> \<open>LockFreeQueue\<close>: \<^verbatim>\<open>base/lock_free_queue.h\<close>, its operations and the interleaved steps of one
      producer and one consumer over a heap of nodes; locale \<open>fifo\<close>.
    \<^item> \<open>Sds\<close>, \<open>SdsText\<close>: \<^verbatim>\<open>rtc_base/sds.cc\<close>, the header arithmetic of the growing strings and the text
      functions on them. \<open>Crc32\<close>: \<^verbatim>\<open>rtc_base/crc32.cc\<close>. \<open>Xhead\<close>: \<^verbatim>\<open>base/xhead.h\<close>.
    \<^item> \<open>EventLoop\<close>: \<^verbatim>\<open>base/event_loop.cpp\<close> over libev. \<open>Sockets\<close>: \<^verbatim>\<open>base/socket.cpp\<close> over the system calls.
    \<^item> \<open>RtcMsg\<close>: \<^verbatim>\<open>base/xrtcserver_def.h\<close>. \<open>StringEncode\<close>: \<^verbatim>\<open>rtc_base/string_encode.cc\<close>.
    \<^item> \<open>Credentials\<close>: \<^verbatim>\<open>rtc_base/helpers.cc\<close> and \<^verbatim>\<open>ice/ice_credentials.cpp\<close>. \<open>Certificates\<close>: key
      parameters, fingerprints and the generation of certificates. \<open>SslIdentity\<close>: PEM and ASN.1 times of
      \<^verbatim>\<open>rtc_base/ssl_identity.cc\<close>, over \<open>Base64\<close> (\<^verbatim>\<open>third_party/base64\<close>) and \<open>TimeUtils\<close>
      (\<^verbatim>\<open>rtc_base/time_utils.cc\<close>).
    \<^item> \<open>SessionDescription\<close>, \<open>PeerConnection\<close>: \<^verbatim>\<open>pc/\<close> and \<^verbatim>\<open>stream/\<close>.
    \<^item> \<open>SignalingBase\<close> (connections and the shared state), \<open>RtcWorker\<close>, \<open>RtcServer\<close>, \<open>SignalingWorker\<close>,
      \<open>SignalingServer\<close>: \<^verbatim>\<open>server/\<close>, one definition per method.
    \<^item> \<open>Logging\<close>: \<^verbatim>\<open>rtc_base/logging.cc\<close>. \<open>XrtcLog\<close>: \<^verbatim>\<open>base/log.cpp\<close>. \<open>ServerMain\<close>: \<^verbatim>\<open>main.cpp\<close> and
      \<^verbatim>\<open>base/conf.cpp\<close>.
    \<^item> \<open>ByteBuffer\<close>, \<open>Buffers\<close>, \<open>CowBuffer\<close>, \<open>IpAddress\<close>: \<^verbatim>\<open>byte_order.h\<close> and \<^verbatim>\<open>byte_buffer.cc\<close>; \<^verbatim>\<open>buffer.h\<close>
      and \<^verbatim>\<open>buffer_queue.cc\<close>; \<^verbatim>\<open>copy_on_write_buffer.cc\<close>; \<^verbatim>\<open>ip_address.cc\<close>, all of \<^verbatim>\<open>rtc_base\<close>.
    \<^item> \<open>StringNumber\<close>: \<^verbatim>\<open>string_to_number.cc\<close>, \<^verbatim>\<open>string_utils.cc\<close>, \<^verbatim>\<open>strings/string_builder.cc\<close>. \<open>SocketAddress\<close>:
      \<^verbatim>\<open>socket_address.cc\<close>.
    \<^item> \<open>ThreadQueue\<close>: the message queue of \<^verbatim>\<open>thread.cc\<close>, where a wait of \<^verbatim>\<open>Get\<close> is given by the wake-ups it
      meets and by what other threads post before each. \<open>SendGraph\<close>: the thread manager of the same file.
    \<^item> \<open>SigSlot\<close>: \<^verbatim>\<open>third_party/sigslot/sigslot.h\<close>, with an emission as a frame on a stack. \<open>TimeUnits\<close>:
      \<^verbatim>\<open>units/unit_base.h\<close>, \<^verbatim>\<open>api/units\<close> and the NTP time of \<^verbatim>\<open>system_wrappers\<close>. \<open>FieldTrial\<close>:
      \<^verbatim>\<open>system_wrappers/source/field_trial.cc\<close>. \<open>ByteIo\<close>: \<^verbatim>\<open>byte_io.h\<close>.
    \<^item> \<open>PhysSocket\<close>: the sockets and the \<^verbatim>\<open>select\<close> loop of \<^verbatim>\<open>physical_socket_server.cc\<close>, as built for macOS. A wait is
      given by its calls of \<^verbatim>\<open>select\<close>: the order of the hash table, what other threads do meanwhile, which
      descriptors are ready, and what the signals do that are delivered.
    \<^item> \<open>SignalingSafety\<close>, \<open>SignalingProps\<close>, \<open>SignalingEvents\<close>, \<open>Pipeline\<close>, \<open>PushRequest\<close>, \<open>Notify\<close>: no
      new code, but the properties of the components together.

  State is passed explicitly: an object is a record with the source's fields, an object that the code
  allocates lives in a heap of the state, and a pointer is an address or null. Reading a null or freed
  pointer has no value: the operation returns \<open>None\<close>, so that the safety theorems say that this does
  not happen. What the code gets from outside is a parameter: system calls (\<open>os\<close>), libev (\<open>libev\<close>), the
  JSON and YAML parsers, OpenSSL's random bytes, certificates and digests, the files of the log, the
  clock, \<^verbatim>\<open>inet_ntop\<close> and \<^verbatim>\<open>inet_pton\<close>, and the contents of fresh memory. What a theorem needs of them is a
  hypothesis (\<open>libev_ok\<close>, \<open>rand_ok\<close>, \<dots>), and a witness shows an instance.

  \<^bold>\<open>What is shown.\<close> A signaling worker handles every admissible event without touching a dead
  connection, from every reachable state; reading implements a session that collects one frame, and the
  way the bytes are cut into chunks does not matter; a push that is read is routed, answered and
  written; the requests of a stream are served once each, in order, by one worker; notifications never
  make a handler pop from an empty queue. The queue neither loses nor reorders values and its two sides
  never touch a freed node. The log writes what was logged, in order, and catches up while it runs. The
  offer has the lines of SDP with the right credentials. The program starts completely or not at all.
  In the base library: base 64, PEM, binary fields, hexadecimal fingerprints, quoted strings and the wire
  header round-trip; the table-driven checksum and the closed calendar formula equal their
  definitions; shared buffers are values and the queue of buffers is a bounded queue; prefixes of
  addresses keep their leading bits; numbers and socket addresses are parsed as they are printed; a
  message queue hands out, keeps or deletes each piece of data once and never sleeps past a delayed
  message, and the check for send loops keeps the graph of blocked threads free of cycles; signals and
  slots never dangle while slots connect, disconnect and destroy one another, and an emission reaches
  every connection that lasts; the select loop of the socket server never touches a deleted socket, and a
  wake-up ends its wait; merged field trials are valid and the second text wins; printed times are
  exact. Where the code does not do what it means to do, a theorem states
  what it does instead: input past the handled mark replays a request for ever, a socket that is not
  writable blocks the worker, a short write repeats the beginning of the reply, a reused descriptor
  receives an old answer, a renewed certificate dangles, a stream is never registered, lines are lost
  when the log stops, short ASN.1 times are read past their end, masks with gaps are miscounted, an
  object that is connected twice and disconnected once is called after its end, closing a socket does not
  stop the lookup of its peer.

  \<^bold>\<open>Loops.\<close> Loops are structural recursion or recursion on a measure. The loops that need not end
  (framing and writing in the signaling worker, accepting) are partial functions whose value is \<open>None\<close>
  when they do not end; the properties about them say for which inputs they end and for which not. The
  search of the send graph is such a function too, and is shown to end on every graph without a cycle. A
  wait of a message queue consumes one element of the list of wake-ups, and one of the socket server one
  call of \<^verbatim>\<open>select\<close>: a wait that outlasts the list is blocked.

  \<^bold>\<open>Not modelled.\<close> Thread start and join, locks and memory order: the interleavings are those of whole
  operations, except in the lock-free queue and the log, which are stepped finely. The JSON, YAML, event
  and TLS libraries are not part of the sources. Of \<^verbatim>\<open>rtc_base\<close>, the TLS adapters and the wrappers of
  OpenSSL objects, the epoll and Windows branches of the socket server, the start and the blocking calls of threads, tracing, and the table of root
  certificates are not used by the server and consist mostly of calls of the system or of OpenSSL, as
  does \<^verbatim>\<open>base/openssl_compat.cpp\<close>, which renames three OpenSSL functions. The
  web pages and the Go programs of \<^verbatim>\<open>signaling\<close> and \<^verbatim>\<open>screen_share\<close> are other programs, in other languages.
\<close>

end
